(* ===== verification/Poly_Prelude.thy ===== *)
theory Poly_Prelude
  imports
    Main
    "HOL-Library.Word"
    "HOL-Library.List_Lexorder"
    "HOL-Library.AList"
    "HOL-Library.Monad_Syntax"
    "HOL-Library.Code_Target_Numeral"
begin

text \<open>
  Shared vocabulary of the development.

  Go's fixed-width integers are words, a Go \<open>[]byte\<close>, \<open>string\<close> and a fixed array such as
  \<open>Uint256\<close> are byte lists (a Go string is a byte sequence), and a Go \<open>error\<close> result is the left
  summand of a sum type.  The theory also holds the little- and big-endian codecs of
  \<open>encoding/binary\<close>, slices, and the list facts that several components share.
\<close>

section \<open>Types and collections\<close>

type_synonym byte = "8 word"
type_synonym bytes = "8 word list"
type_synonym uint16 = "16 word"
type_synonym uint32 = "32 word"
type_synonym uint64 = "64 word"
type_synonym address = "8 word list"
type_synonym uint256 = "8 word list"

named_theorems codec_simps \<open>encoders and decoders of the wire format\<close>
named_theorems store_simps \<open>reads after writes of the storage layers\<close>
named_theorems key_simps \<open>distinctness of contract storage keys\<close>

section \<open>Errors as values\<close>

text \<open>\<open>x, err := f(); if err != nil { return err }\<close> is \<open>ebind\<close>.\<close>

definition ebind :: "'e + 'a \<Rightarrow> ('a \<Rightarrow> 'e + 'b) \<Rightarrow> 'e + 'b" where
  "ebind m f = (case m of Inl e \<Rightarrow> Inl e | Inr x \<Rightarrow> f x)"

text \<open>A sub-result without a message of its own gets the caller's error.\<close>

definition orelse_err :: "'a option \<Rightarrow> 'e \<Rightarrow> 'e + 'a" where
  "orelse_err x e = (case x of None \<Rightarrow> Inl e | Some y \<Rightarrow> Inr y)"

lemma ebind_Inl [simp]: "ebind (Inl e) f = Inl e"
  and ebind_Inr [simp]: "ebind (Inr x) f = f x"
  by (simp_all add: ebind_def)

lemma ebind_eq_Inr: "ebind m f = Inr y \<longleftrightarrow> (\<exists>x. m = Inr x \<and> f x = Inr y)"
  by (cases m) simp_all

lemma ebind_InrE [elim!]:
  assumes "ebind m f = Inr y"
  obtains x where "m = Inr x" and "f x = Inr y"
  using assms by (auto simp: ebind_eq_Inr)

lemma orelse_err_simps [simp]:
  "orelse_err None e = Inl e" "orelse_err (Some x) e = Inr x"
  by (simp_all add: orelse_err_def)

lemma orelse_err_eq_Inr [simp]: "orelse_err x e = Inr y \<longleftrightarrow> x = Some y"
  by (cases x) simp_all

section \<open>Slices\<close>

text \<open>The slice expression \<open>xs[i:j]\<close> for \<open>i \<le> j \<le> len(xs)\<close>.\<close>

definition slice :: "'a list \<Rightarrow> nat \<Rightarrow> nat \<Rightarrow> 'a list" where
  "slice xs i j = take (j - i) (drop i xs)"

text \<open>The result of \<open>copy(xs[i:], ys)\<close> when \<open>ys\<close> fits.\<close>

definition overwrite :: "'a list \<Rightarrow> nat \<Rightarrow> 'a list \<Rightarrow> 'a list" where
  "overwrite xs i ys = take i xs @ ys @ drop (i + length ys) xs"

lemma length_overwrite [simp]:
  "i + length ys \<le> length xs \<Longrightarrow> length (overwrite xs i ys) = length xs"
  by (simp add: overwrite_def)

lemma take_overwrite_end:
  "i \<le> length xs \<Longrightarrow> take (i + length ys) (overwrite xs i ys) = take i xs @ ys"
  by (simp add: overwrite_def)

lemma length_slice [simp]: "i \<le> j \<Longrightarrow> j \<le> length xs \<Longrightarrow> length (slice xs i j) = j - i"
  by (simp add: slice_def)

section \<open>Byte order\<close>

text \<open>
  \<open>put_le n v\<close> are the \<open>n\<close> bytes that \<open>binary.LittleEndian.PutUint*\<close> stores for the value \<open>v\<close>,
  \<open>get_le\<close> is the value \<open>binary.LittleEndian.Uint*\<close> reads back.
\<close>

fun put_le :: "nat \<Rightarrow> nat \<Rightarrow> bytes" where
  "put_le 0 v = []"
| "put_le (Suc n) v = of_nat (v mod 256) # put_le n (v div 256)"

fun get_le :: "bytes \<Rightarrow> nat" where
  "get_le [] = 0"
| "get_le (b # bs) = unat b + 256 * get_le bs"

definition put_be :: "nat \<Rightarrow> nat \<Rightarrow> bytes" where
  "put_be n v = rev (put_le n v)"

definition get_be :: "bytes \<Rightarrow> nat" where
  "get_be bs = get_le (rev bs)"

lemma length_put_le [simp]: "length (put_le n v) = n"
  by (induction n arbitrary: v) simp_all

lemma length_put_be [simp]: "length (put_be n v) = n"
  by (simp add: put_be_def)

lemma unat_byte_of_nat [simp]: "unat (of_nat (v mod 256) :: byte) = v mod 256"
  by (simp add: unat_of_nat)

lemma get_le_put_le: "get_le (put_le n v) = v mod 256 ^ n"
proof (induction n arbitrary: v)
  case (Suc n)
  have "v mod 256 ^ Suc n = v mod 256 + 256 * (v div 256 mod 256 ^ n)"
    by (simp add: mod_mult2_eq)
  with Suc show ?case by simp
qed simp

lemma get_le_less: "get_le bs < 256 ^ length bs"
proof (induction bs)
  case (Cons b bs)
  have "unat b < 256" using unsigned_less [of b] by simp
  with Cons show ?case by simp
qed simp

lemma put_le_get_le: "put_le (length bs) (get_le bs) = bs"
proof (induction bs)
  case (Cons b bs)
  have "unat b < 256" using unsigned_less [of b] by simp
  with Cons show ?case by simp
qed simp

lemma put_le_inject:
  "v < 256 ^ n \<Longrightarrow> w < 256 ^ n \<Longrightarrow> put_le n v = put_le n w \<longleftrightarrow> v = w"
  by (metis get_le_put_le mod_less)

lemma get_be_put_be: "get_be (put_be n v) = v mod 256 ^ n"
  by (simp add: get_be_def put_be_def get_le_put_le)

section \<open>Integer conversions\<close>

lemma unat_word_less: "unat (x :: 'a :: len word) < 2 ^ LENGTH('a)"
  by (rule unsigned_less)

lemma unat_byte_less: "unat (b :: byte) < 256"
  using unat_word_less [of b] by simp

lemma unat_ucast_mod: "unat (ucast (x :: 'a :: len word) :: 'b :: len word) = unat x mod 2 ^ LENGTH('b)"
  by (simp add: unsigned_ucast_eq take_bit_eq_mod)

lemma unat_ucast_up:
  assumes "LENGTH('a) \<le> LENGTH('b)"
  shows "unat (ucast (x :: 'a :: len word) :: 'b :: len word) = unat x"
proof -
  have "unat x < 2 ^ LENGTH('b)"
    using unat_word_less [of x] power_increasing [OF assms, of "2 :: nat"] by linarith
  then show ?thesis by (simp add: unat_ucast_mod)
qed

lemma ucast_ucast_small:
  assumes "unat (x :: 'a :: len word) < 2 ^ LENGTH('b :: len)" and "LENGTH('b) \<le> LENGTH('a)"
  shows "ucast (ucast x :: 'b word) = x"
  using assms unat_word_less [of x] by (simp only: word_unat_eq_iff unat_ucast_mod mod_less)

section \<open>Strings\<close>

text \<open>A Go string literal as the bytes of its characters.\<close>

definition str :: "string \<Rightarrow> bytes" where
  "str s = map of_char s"

lemma str_append [simp]: "str (s @ t) = str s @ str t"
  and length_str [simp]: "length (str s) = length s"
  by (simp_all add: str_def)

end
