(* ===== verification/Mem_DB_Inv.thy ===== *)
theory Mem_DB_Inv
  imports Mem_DB
begin

text \<open>
  Correctness of the skip list of \<open>memdb.go\<close>.  The invariant \<open>mem_inv p ns\<close> says that \<open>ns\<close> are the nodes
  of the list in key order, that the blocks of the nodes in \<open>nodeData\<close> do not overlap and that level
  \<open>i\<close> links exactly the nodes higher than \<open>i\<close>.  From it the theory derives what every operation does
  to the sorted association list \<open>entries p ns\<close>.
\<close>

section \<open>The invariant\<close>

definition height :: "MemDB \<Rightarrow> nat \<Rightarrow> nat" where
  "height p n = nodeData p ! (n + nHeight)"

definition node_key :: "MemDB \<Rightarrow> nat \<Rightarrow> bytes" where
  "node_key p n = slice (kvData p) (nodeData p ! n) (nodeData p ! n + nodeData p ! (n + nKey))"

definition node_val :: "MemDB \<Rightarrow> nat \<Rightarrow> bytes" where
  "node_val p n = (let m = nodeData p ! n + nodeData p ! (n + nKey)
                   in slice (kvData p) m (m + nodeData p ! (n + nVal)))"

definition entries :: "MemDB \<Rightarrow> nat list \<Rightarrow> (bytes \<times> bytes) list" where
  "entries p ns = map (\<lambda>n. (node_key p n, node_val p n)) ns"

primrec links :: "nat list \<Rightarrow> nat \<Rightarrow> nat \<Rightarrow> nat list \<Rightarrow> bool" where
  "links nd i a [] \<longleftrightarrow> nd ! (a + nNext + i) = 0"
| "links nd i a (b # bs) \<longleftrightarrow> nd ! (a + nNext + i) = b \<and> links nd i b bs"

abbreviation lvl :: "MemDB \<Rightarrow> nat \<Rightarrow> nat list \<Rightarrow> nat list" where
  "lvl p i ns \<equiv> filter (\<lambda>n. i < height p n) ns"

definition blocks_ok :: "MemDB \<Rightarrow> nat list \<Rightarrow> bool" where
  "blocks_ok p ns \<longleftrightarrow>
     (\<forall>a \<in> set (0 # ns). 1 \<le> height p a \<and> height p a \<le> tMaxHeight
        \<and> a + nNext + height p a \<le> length (nodeData p)) \<and>
     (\<forall>a \<in> set (0 # ns). \<forall>b \<in> set (0 # ns). a < b \<longrightarrow> a + nNext + height p a \<le> b)"

definition mem_inv :: "MemDB \<Rightarrow> nat list \<Rightarrow> bool" where
  "mem_inv p ns \<longleftrightarrow>
     bytes_comparer (cmp p) \<and> 0 \<notin> set ns \<and>
     sorted_wrt (\<lambda>a b. node_key p a < node_key p b) ns \<and>
     blocks_ok p ns \<and> height p 0 = tMaxHeight \<and>
     1 \<le> maxHeight p \<and> maxHeight p \<le> tMaxHeight \<and> (\<forall>n \<in> set ns. height p n \<le> maxHeight p) \<and>
     (\<forall>i < tMaxHeight. links (nodeData p) i 0 (lvl p i ns)) \<and>
     (\<forall>n \<in> set ns. nodeData p ! n + nodeData p ! (n + nKey) + nodeData p ! (n + nVal)
        \<le> length (kvData p)) \<and>
     length (prevNode p) = tMaxHeight \<and> mn p = length ns \<and>
     kvSize p = (\<Sum>n\<leftarrow>ns. int (nodeData p ! (n + nKey) + nodeData p ! (n + nVal)))"

section \<open>Linked levels\<close>

definition hd0 :: "nat list \<Rightarrow> nat" where
  "hd0 xs = (case xs of [] \<Rightarrow> 0 | x # _ \<Rightarrow> x)"

lemma hd0_simps [simp]: "hd0 [] = 0" "hd0 (x # xs) = x"
  by (simp_all add: hd0_def)

lemma links_next: "links nd i a bs \<Longrightarrow> nd ! (a + nNext + i) = hd0 bs"
  by (cases bs) simp_all

lemma links_append: "links nd i a (xs @ ys) \<Longrightarrow> links nd i (last (a # xs)) ys"
  by (induction xs arbitrary: a) auto

lemma links_suffix:
  assumes "links nd i a bs" and "a # bs = us @ c # vs"
  shows "links nd i c vs"
proof (cases us)
  case (Cons u ws)
  with assms links_append [of nd i a ws "c # vs"] show ?thesis by simp
qed (use assms in simp)

lemma links_cong:
  assumes "links nd i a bs" and "\<And>c. c \<in> set (a # bs) \<Longrightarrow> nd' ! (c + nNext + i) = nd ! (c + nNext + i)"
  shows "links nd' i a bs"
  using assms by (induction bs arbitrary: a) auto

lemma links_insert:
  assumes "links nd i a (xs @ ys)" and "distinct (a # xs @ ys)"
    and "nd' ! (last (a # xs) + nNext + i) = n" and "nd' ! (n + nNext + i) = nd ! (last (a # xs) + nNext + i)"
    and "\<And>c. c \<in> set (a # xs @ ys) \<Longrightarrow> c \<noteq> last (a # xs) \<Longrightarrow> nd' ! (c + nNext + i) = nd ! (c + nNext + i)"
  shows "links nd' i a (xs @ n # ys)"
  using assms
proof (induction xs arbitrary: a)
  case Nil
  have "links nd' i n ys"
  proof (cases ys)
    case Nil
    with Nil.prems show ?thesis by simp
  next
    case (Cons y zs)
    have "links nd i y zs" using Nil.prems(1) Cons by simp
    then have "links nd' i y zs"
    proof (rule links_cong)
      fix c assume "c \<in> set (y # zs)"
      with Nil.prems(2) Cons have "c \<in> set (a # [] @ ys)" "c \<noteq> last [a]" by auto
      then show "nd' ! (c + nNext + i) = nd ! (c + nNext + i)" by (rule Nil.prems(5))
    qed
    moreover have "nd' ! (n + nNext + i) = y" using Nil.prems(1,4) Cons by simp
    ultimately show ?thesis using Cons by simp
  qed
  with Nil.prems(3) show ?case by simp
next
  case (Cons x xs)
  have last: "last (a # x # xs) = last (x # xs)" by simp
  have "a \<noteq> last (x # xs)" using Cons.prems(2) last_in_set [of "x # xs"] by auto
  then have "nd' ! (a + nNext + i) = x" using Cons.prems(1) Cons.prems(5) [of a] by simp
  moreover have "links nd' i x (xs @ n # ys)"
  proof (rule Cons.IH)
    show "links nd i x (xs @ ys)" using Cons.prems(1) by simp
    show "distinct (x # xs @ ys)" using Cons.prems(2) by simp
    show "nd' ! (last (x # xs) + nNext + i) = n" using Cons.prems(3) unfolding last .
    show "nd' ! (n + nNext + i) = nd ! (last (x # xs) + nNext + i)" using Cons.prems(4) unfolding last .
    show "nd' ! (c + nNext + i) = nd ! (c + nNext + i)"
      if "c \<in> set (x # xs @ ys)" "c \<noteq> last (x # xs)" for c
      using Cons.prems(5) [of c] that unfolding last by simp
  qed
  ultimately show ?case by simp
qed

section \<open>The search\<close>

abbreviation below :: "MemDB \<Rightarrow> bytes \<Rightarrow> nat list \<Rightarrow> nat list" where
  "below p k ns \<equiv> filter (\<lambda>n. node_key p n < k) ns"

abbreviation above :: "MemDB \<Rightarrow> bytes \<Rightarrow> nat list \<Rightarrow> nat list" where
  "above p k ns \<equiv> filter (\<lambda>n. \<not> node_key p n < k) ns"

lemma below_above:
  assumes "sorted_wrt (\<lambda>a b. node_key p a < node_key p b) ns"
  shows "below p k ns @ above p k ns = ns"
  using assms
proof (induction ns)
  case (Cons n ns)
  show ?case
  proof (cases "node_key p n < k")
    case False
    have "\<not> node_key p m < k" if "m \<in> set ns" for m
      using Cons.prems that False by (auto dest: less_trans)
    then have "below p k ns = []" "above p k ns = ns" by (auto simp: filter_empty_conv)
    with False show ?thesis by simp
  qed (use Cons in auto)
qed simp

lemma findGE_less:
  assumes "bytes_comparer (cmp p)" and "links (nodeData p) h node (next # bs)" and "next \<noteq> 0"
    and "node_key p next < k"
  shows "findGE_loop p k prev node h pv = findGE_loop p k prev next h pv"
  using assms by (subst findGE_loop.simps) (simp add: bytes_comparer_def node_key_def Let_def)

lemma findGE_stop:
  assumes "bytes_comparer (cmp p)" and "nodeData p ! (node + nNext + h) = next"
    and "next \<noteq> 0 \<Longrightarrow> \<not> node_key p next < k" and e: "e \<longleftrightarrow> next \<noteq> 0 \<and> node_key p next = k"
  shows "findGE_loop p k prev node h pv =
    (if \<not> prev \<and> e then Some ((next, True), pv)
     else let pv = (if prev then pv[h := node] else pv) in
       if h = 0 then Some ((next, e), pv) else findGE_loop p k prev node (h - 1) pv)"
proof -
  have c: "cmp p a b = (if a < b then - 1 else if a = b then 0 else 1)" for a b
    using assms(1) by (simp add: bytes_comparer_def)
  show ?thesis
  proof (cases "next = 0")
    case True
    with assms(2) e show ?thesis by (subst findGE_loop.simps) (simp add: Let_def)
  next
    case False
    with assms(2,3) e show ?thesis
      by (subst findGE_loop.simps) (simp add: Let_def c node_key_def)
  qed
qed

lemma findGE_run:
  assumes "bytes_comparer (cmp p)" and "links (nodeData p) h node (vs @ gs)"
    and "\<forall>v \<in> set vs. v \<noteq> 0 \<and> node_key p v < k"
  shows "findGE_loop p k prev node h pv = findGE_loop p k prev (last (node # vs)) h pv"
  using assms(2,3)
proof (induction vs arbitrary: node)
  case (Cons v vs)
  then have "findGE_loop p k prev node h pv = findGE_loop p k prev v h pv"
    using assms(1) by (intro findGE_less [of _ _ _ _ "vs @ gs"]) auto
  also have "\<dots> = findGE_loop p k prev (last (v # vs)) h pv"
    using Cons by auto
  finally show ?case by simp
qed simp

lemma mem_invD:
  assumes "mem_inv p ns"
  shows "bytes_comparer (cmp p)" "0 \<notin> set ns" "sorted_wrt (\<lambda>a b. node_key p a < node_key p b) ns"
    "blocks_ok p ns" "height p 0 = tMaxHeight" "1 \<le> maxHeight p" "maxHeight p \<le> tMaxHeight"
    "\<And>n. n \<in> set ns \<Longrightarrow> height p n \<le> maxHeight p"
    "\<And>i. i < tMaxHeight \<Longrightarrow> links (nodeData p) i 0 (lvl p i ns)"
    "length (prevNode p) = tMaxHeight"
  using assms by (auto simp: mem_inv_def)

lemma lvl_0: "mem_inv p ns \<Longrightarrow> lvl p 0 ns = ns"
  by (auto simp: mem_inv_def blocks_ok_def filter_id_conv)

lemma lvl_split:
  "mem_inv p ns \<Longrightarrow> below p k (lvl p i ns) @ above p k (lvl p i ns) = lvl p i ns"
  by (intro below_above sorted_wrt_filter) (simp add: mem_inv_def)

lemma above_exact:
  assumes "sorted_wrt (\<lambda>a b. node_key p a < node_key p b) ns" and "n \<in> set ns" and "node_key p n = k"
  shows "hd0 (above p k ns) = n"
  using assms by (induction ns) (auto simp: hd0_def)

abbreviation found :: "MemDB \<Rightarrow> bytes \<Rightarrow> nat list \<Rightarrow> bool" where
  "found p k ns \<equiv> hd0 (above p k ns) \<noteq> 0 \<and> node_key p (hd0 (above p k ns)) = k"

lemma hd0_in: "hd0 xs \<noteq> 0 \<Longrightarrow> hd0 xs \<in> set xs"
  by (cases xs) simp_all

lemma found_iff: "mem_inv p ns \<Longrightarrow> found p k ns \<longleftrightarrow> k \<in> node_key p ` set ns"
proof
  assume "mem_inv p ns" and "k \<in> node_key p ` set ns"
  then obtain n where n: "n \<in> set ns" "node_key p n = k" by auto
  then have "hd0 (above p k ns) = n" using \<open>mem_inv p ns\<close> by (intro above_exact) (simp_all add: mem_inv_def)
  moreover have "n \<noteq> 0" using n(1) mem_invD(2) [OF \<open>mem_inv p ns\<close>] by metis
  ultimately show "found p k ns" using n(2) by simp
next
  assume "found p k ns"
  then show "k \<in> node_key p ` set ns" using hd0_in [of "above p k ns"] by force
qed

lemma findGE_level:
  assumes inv: "mem_inv p ns" and h: "h < tMaxHeight" and node: "node \<in> set (0 # below p k (lvl p h ns))"
  defines "next \<equiv> hd0 (above p k (lvl p h ns))" and "lst \<equiv> last (0 # below p k (lvl p h ns))"
  shows "findGE_loop p k prev node h pv =
    (if \<not> prev \<and> found p k (lvl p h ns) then Some ((next, True), pv)
     else let pv = (if prev then pv[h := lst] else pv) in
       if h = 0 then Some ((next, found p k (lvl p h ns)), pv) else findGE_loop p k prev lst (h - 1) pv)"
proof -
  note c = mem_invD(1) [OF inv]
  have L: "links (nodeData p) h 0 (below p k (lvl p h ns) @ above p k (lvl p h ns))"
    unfolding lvl_split [OF inv] by (rule mem_invD(9) [OF inv h])
  from node obtain us vs where sp: "0 # below p k (lvl p h ns) = us @ node # vs"
    by (meson split_list)
  then have "0 # below p k (lvl p h ns) @ above p k (lvl p h ns)
      = us @ node # (vs @ above p k (lvl p h ns))" by (metis append.assoc append_Cons)
  from links_suffix [OF L this] have run: "links (nodeData p) h node (vs @ above p k (lvl p h ns))" .
  have "set vs \<subseteq> set (below p k (lvl p h ns))" using sp by (cases us) auto
  then have "\<forall>v \<in> set vs. v \<in> set ns \<and> node_key p v < k" by auto
  then have "\<forall>v \<in> set vs. v \<noteq> 0 \<and> node_key p v < k" using mem_invD(2) [OF inv] by metis
  with run c have "findGE_loop p k prev node h pv = findGE_loop p k prev (last (node # vs)) h pv"
    by (intro findGE_run)
  also have "last (node # vs) = lst" unfolding lst_def sp by simp
  also have "findGE_loop p k prev lst h pv =
    (if \<not> prev \<and> found p k (lvl p h ns) then Some ((next, True), pv)
     else let pv = (if prev then pv[h := lst] else pv) in
       if h = 0 then Some ((next, found p k (lvl p h ns)), pv) else findGE_loop p k prev lst (h - 1) pv)"
  proof (rule findGE_stop [OF c])
    show "nodeData p ! (lst + nNext + h) = next"
      using links_next [OF links_append [OF L]] by (simp add: next_def lst_def)
    show "\<not> node_key p next < k" if "next \<noteq> 0"
      using hd0_in [of "above p k (lvl p h ns)"] that by (auto simp: next_def)
  qed (simp add: next_def)
  finally show ?thesis .
qed

lemma last_below_lower:
  assumes "i \<le> h"
  shows "last (0 # below p k (lvl p h ns)) \<in> set (0 # below p k (lvl p i ns))"
proof (cases "below p k (lvl p h ns) = []")
  case False
  then have "last (below p k (lvl p h ns)) \<in> set (below p k (lvl p h ns))" by (rule last_in_set)
  with False assms show ?thesis by auto
qed simp

lemma findGE_prev:
  assumes inv: "mem_inv p ns"
  shows "h < tMaxHeight \<Longrightarrow> length pv = tMaxHeight \<Longrightarrow> node \<in> set (0 # below p k (lvl p h ns)) \<Longrightarrow>
    \<exists>pv'. findGE_loop p k True node h pv = Some ((hd0 (above p k ns), found p k ns), pv') \<and>
      length pv' = tMaxHeight \<and> (\<forall>i \<le> h. pv' ! i = last (0 # below p k (lvl p i ns))) \<and>
      (\<forall>i > h. pv' ! i = pv ! i)"
proof (induction h arbitrary: node pv)
  case 0
  then show ?case using findGE_level [OF inv, of 0 node k True pv] by (simp add: lvl_0 [OF inv])
next
  case (Suc h)
  let ?lst = "last (0 # below p k (lvl p (Suc h) ns))"
  have "?lst \<in> set (0 # below p k (lvl p h ns))" by (rule last_below_lower) simp
  with Suc.prems Suc.IH [of "pv[Suc h := ?lst]" ?lst] obtain pv' where
    r: "findGE_loop p k True ?lst h (pv[Suc h := ?lst]) = Some ((hd0 (above p k ns), found p k ns), pv')"
    and pv': "length pv' = tMaxHeight" "\<forall>i \<le> h. pv' ! i = last (0 # below p k (lvl p i ns))"
      "\<forall>i > h. pv' ! i = pv[Suc h := ?lst] ! i"
    by auto
  have "findGE_loop p k True node (Suc h) pv = findGE_loop p k True ?lst h (pv[Suc h := ?lst])"
    using findGE_level [OF inv Suc.prems(1,3), of True pv] by simp
  moreover have "pv' ! Suc h = ?lst" using pv'(3) Suc.prems(1,2) by simp
  then have "\<forall>i \<le> Suc h. pv' ! i = last (0 # below p k (lvl p i ns))"
    using pv'(2) by (auto simp: le_Suc_eq)
  moreover have "\<forall>i > Suc h. pv' ! i = pv ! i" using pv'(3) by simp
  ultimately show ?case using r pv'(1) by auto
qed

lemma findGE_find:
  assumes inv: "mem_inv p ns"
  shows "h < tMaxHeight \<Longrightarrow> node \<in> set (0 # below p k (lvl p h ns)) \<Longrightarrow>
    findGE_loop p k False node h pv = Some ((hd0 (above p k ns), found p k ns), pv)"
proof (induction h arbitrary: node)
  case 0
  then show ?case using findGE_level [OF inv, of 0 node k False pv] by (simp add: lvl_0 [OF inv])
next
  case (Suc h)
  let ?lst = "last (0 # below p k (lvl p (Suc h) ns))"
  have lst: "?lst \<in> set (0 # below p k (lvl p h ns))" by (rule last_below_lower) simp
  show ?case
  proof (cases "found p k (lvl p (Suc h) ns)")
    case True
    let ?n = "hd0 (above p k (lvl p (Suc h) ns))"
    from True have "?n \<in> set ns" "node_key p ?n = k" using hd0_in [of "above p k (lvl p (Suc h) ns)"] by auto
    then have "hd0 (above p k ns) = ?n" by (intro above_exact mem_invD(3) [OF inv])
    with True findGE_level [OF inv Suc.prems, of False pv] show ?thesis by simp
  next
    case False
    with findGE_level [OF inv Suc.prems, of False pv] Suc.IH [OF _ lst] Suc.prems(1)
    show ?thesis by (simp only: if_False if_True simp_thms Let_def) simp
  qed
qed

lemma findGE_False:
  assumes "mem_inv p ns"
  shows "findGE p k False = Some ((hd0 (above p k ns), found p k ns), p)"
  using assms findGE_find [OF assms, of "maxHeight p - 1" 0 k "prevNode p"] mem_invD(6,7) [OF assms]
  by (simp add: findGE_def)

section \<open>Reading\<close>

lemma slice_append [simp]: "j \<le> length xs \<Longrightarrow> slice (xs @ ys) i j = slice xs i j"
  by (cases "i \<le> j") (simp_all add: slice_def)

lemma kv_bound:
  "mem_inv p ns \<Longrightarrow> n \<in> set ns \<Longrightarrow>
   nodeData p ! n + nodeData p ! (n + nKey) + nodeData p ! (n + nVal) \<le> length (kvData p)"
  by (simp add: mem_inv_def)

lemma length_node_val: "mem_inv p ns \<Longrightarrow> n \<in> set ns \<Longrightarrow> length (node_val p n) = nodeData p ! (n + nVal)"
  using kv_bound [of p ns n] by (simp add: node_val_def Let_def)

lemma distinct_keys: "sorted_wrt (\<lambda>a b. f a < f b) ns \<Longrightarrow> distinct (map f ns)"
  for f :: "nat \<Rightarrow> bytes"
  by (induction ns) auto

lemma map_of_entries:
  assumes inv: "mem_inv p ns"
  shows "map_of (entries p ns) k =
    (if found p k ns then Some (node_val p (hd0 (above p k ns))) else None)"
  proof (cases "found p k ns")
    case True
    let ?n = "hd0 (above p k ns)"
    have n: "?n \<in> set ns" "node_key p ?n = k" using True hd0_in [of "above p k ns"] by auto
    have "distinct (map fst (entries p ns))"
      using mem_invD(3) [OF inv] by (simp add: entries_def comp_def distinct_keys)
    moreover have "(k, node_val p ?n) \<in> set (entries p ns)"
      using n by (simp add: entries_def) (metis (no_types, lifting) imageI)
    ultimately show ?thesis using True by simp
  next
    case False
    then have "k \<notin> node_key p ` set ns" using found_iff [OF inv, of k] by blast
    then have "map_of (entries p ns) k = None" by (auto simp: map_of_eq_None_iff entries_def)
    with False show ?thesis by simp
qed

lemma Get_spec:
  assumes inv: "mem_inv p ns"
  shows "Get p k = Some (case map_of (entries p ns) k of
      None \<Rightarrow> (None, True) | Some v \<Rightarrow> (if v = [] then None else Some v, False))"
proof (cases "found p k ns")
  case True
  let ?n = "hd0 (above p k ns)"
  have n: "?n \<in> set ns" using True hd0_in [of "above p k ns"] by auto
  have "node_val p ?n = [] \<longleftrightarrow> nodeData p ! (?n + nVal) = 0"
    using length_node_val [OF inv n] by (metis length_0_conv)
  with True show ?thesis
    by (simp add: Get_def findGE_False [OF inv] map_of_entries [OF inv] node_val_def Let_def)
next
  case False
  then show ?thesis
    by (auto simp: Get_def findGE_False [OF inv] map_of_entries [OF inv])
qed

primrec fold_entries :: "(bytes \<Rightarrow> bytes \<Rightarrow> 's \<Rightarrow> 's option) \<Rightarrow> (bytes \<times> bytes) list \<Rightarrow> 's \<Rightarrow> 's option" where
  "fold_entries f [] s = Some s"
| "fold_entries f (e # es) s = Option.bind (f (fst e) (snd e) s) (fold_entries f es)"

lemma ForEach_loop_links:
  assumes "links (nodeData p) 0 a bs" and "0 \<notin> set bs"
  shows "ForEach_loop p f (nodeData p ! (a + nNext)) s = fold_entries f (entries p bs) s"
  using assms
proof (induction bs arbitrary: a s)
  case Nil
  then show ?case by (subst ForEach_loop.simps) (simp add: entries_def)
next
  case (Cons b bs)
  then have "nodeData p ! (a + nNext) = b" "b \<noteq> 0" by auto
  moreover have "ForEach_loop p f (nodeData p ! (b + nNext)) = fold_entries f (entries p bs)"
    using Cons by (auto simp: fun_eq_iff)
  ultimately show ?case
    by (subst ForEach_loop.simps) (simp add: entries_def node_key_def node_val_def Let_def)
qed

lemma ForEach_spec:
  assumes inv: "mem_inv p ns"
  shows "ForEach p f s = fold_entries f (entries p ns) s"
  using ForEach_loop_links [of p 0 ns f s] mem_invD(2) [OF inv] mem_invD(9) [OF inv, of 0] lvl_0 [OF inv]
  by (simp add: ForEach_def tMaxHeight_def)

lemma Find_spec:
  assumes inv: "mem_inv p ns"
  shows "Find p k = Some (case dropWhile (\<lambda>e. fst e < k) (entries p ns) of
      [] \<Rightarrow> None | e # _ \<Rightarrow> Some (fst e, if snd e = [] then None else Some (snd e)))"
proof -
  have dw: "dropWhile (\<lambda>e. fst e < k) (entries p ns) = entries p (above p k ns)"
  proof -
    have "dropWhile (\<lambda>n. node_key p n < k) (below p k ns @ above p k ns) = above p k ns"
      by (subst dropWhile_append2) (auto simp: dropWhile_eq_self_iff dest: hd_in_set)
    then have "dropWhile (\<lambda>n. node_key p n < k) ns = above p k ns"
      unfolding below_above [OF mem_invD(3) [OF inv]] .
    then show ?thesis by (simp add: entries_def dropWhile_map comp_def)
  qed
  show ?thesis
  proof (cases "above p k ns")
    case Nil
    then show ?thesis unfolding dw by (simp add: Find_def findGE_False [OF inv] entries_def)
  next
    case (Cons n bs)
    then have n: "n \<in> set ns" by (metis filter_is_subset list.set_intros(1) subsetD)
    then have "n \<noteq> 0" using mem_invD(2) [OF inv] by metis
    moreover have "node_val p n = [] \<longleftrightarrow> nodeData p ! (n + nVal) = 0"
      using length_node_val [OF inv n] by (metis length_0_conv)
    ultimately show ?thesis using Cons unfolding dw
      by (simp add: Find_def findGE_False [OF inv] entries_def node_val_def node_key_def Let_def)
  qed
qed

section \<open>Writing\<close>

text \<open>What a write does to the association list.\<close>

primrec upd_sorted :: "bytes \<Rightarrow> bytes \<Rightarrow> (bytes \<times> bytes) list \<Rightarrow> (bytes \<times> bytes) list" where
  "upd_sorted k v [] = [(k, v)]"
| "upd_sorted k v (e # es) =
     (if fst e < k then e # upd_sorted k v es
      else if fst e = k then (k, v) # es else (k, v) # e # es)"

lemma upd_sorted_append: "\<forall>e \<in> set xs. fst e < k \<Longrightarrow> upd_sorted k v (xs @ ys) = xs @ upd_sorted k v ys"
  by (induction xs) auto

lemma block_disjoint:
  assumes "blocks_ok p ns" and "a \<in> set (0 # ns)" and "b \<in> set (0 # ns)"
    and "i < nNext + height p a" and "j < nNext + height p b" and "a + i = b + j"
  shows "a = b \<and> i = j"
proof -
  have "a < b \<Longrightarrow> a + nNext + height p a \<le> b" "b < a \<Longrightarrow> b + nNext + height p b \<le> a"
    using assms(1-3) by (simp_all only: blocks_ok_def)
  with assms(4-6) show ?thesis by (cases a b rule: linorder_cases) simp_all
qed

lemma block_bound:
  assumes "blocks_ok p ns" and "a \<in> set (0 # ns)" and "i < nNext + height p a"
  shows "a + i < length (nodeData p)"
proof -
  have "a + nNext + height p a \<le> length (nodeData p)" using assms(1,2) by (simp only: blocks_ok_def)
  with assms(3) show ?thesis by simp
qed

lemma splice_spec:
  assumes "\<forall>j < length pv. pv ! j + nNext + (i + j) < length nd"
    and "\<forall>j < length pv. \<forall>l < length pv. pv ! j + nNext + (i + j) = pv ! l + nNext + (i + l) \<longrightarrow> j = l"
  shows "length (splice node pv i nd) = length nd + length pv \<and>
    (\<forall>j < length pv. splice node pv i nd ! (length nd + j) = nd ! (pv ! j + nNext + (i + j))) \<and>
    (\<forall>j < length pv. splice node pv i nd ! (pv ! j + nNext + (i + j)) = node) \<and>
    (\<forall>x < length nd. (\<forall>j < length pv. x \<noteq> pv ! j + nNext + (i + j)) \<longrightarrow> splice node pv i nd ! x = nd ! x)"
  using assms
proof (induction pv arbitrary: i nd)
  case (Cons n pv)
  let ?m = "n + nNext + i"
  let ?nd = "(nd @ [nd ! ?m])[?m := node]"
  have m: "?m < length nd" using Cons.prems(1) by (metis add_0_right length_greater_0_conv list.distinct(1) nth_Cons_0)
  have tl1: "\<forall>j < length pv. pv ! j + nNext + (i + 1 + j) < length nd"
    using Cons.prems(1) by (metis Suc_less_eq add.assoc length_Cons nth_Cons_Suc plus_1_eq_Suc)
  have tl2: "\<forall>j < length pv. ?m \<noteq> pv ! j + nNext + (i + 1 + j)"
  proof (intro allI impI notI)
    fix j assume "j < length pv" and "?m = pv ! j + nNext + (i + 1 + j)"
    then have "(n # pv) ! 0 + nNext + (i + 0) = (n # pv) ! Suc j + nNext + (i + Suc j)" by simp
    with Cons.prems(2) \<open>j < length pv\<close> show False by (metis Suc_less_eq length_Cons nat.distinct(1) zero_less_Suc)
  qed
  have tl3: "\<forall>j < length pv. \<forall>l < length pv.
      pv ! j + nNext + (i + 1 + j) = pv ! l + nNext + (i + 1 + l) \<longrightarrow> j = l"
  proof (intro allI impI)
    fix j l assume "j < length pv" "l < length pv" "pv ! j + nNext + (i + 1 + j) = pv ! l + nNext + (i + 1 + l)"
    then have "Suc j < length (n # pv)" "Suc l < length (n # pv)"
      "(n # pv) ! Suc j + nNext + (i + Suc j) = (n # pv) ! Suc l + nNext + (i + Suc l)" by simp_all
    with Cons.prems(2) show "j = l" by blast
  qed
  let ?r = "splice node pv (i + 1) ?nd"
  have pre1: "\<forall>j < length pv. pv ! j + nNext + (i + 1 + j) < length ?nd"
    using tl1 by (simp only: length_list_update length_append) (auto intro: less_SucI)
  have IH: "length ?r = length ?nd + length pv"
    "\<And>j. j < length pv \<Longrightarrow> ?r ! (length ?nd + j) = ?nd ! (pv ! j + nNext + (i + 1 + j))"
    "\<And>j. j < length pv \<Longrightarrow> ?r ! (pv ! j + nNext + (i + 1 + j)) = node"
    "\<And>x. x < length ?nd \<Longrightarrow> (\<forall>j < length pv. x \<noteq> pv ! j + nNext + (i + 1 + j)) \<Longrightarrow> ?r ! x = ?nd ! x"
    using Cons.IH [OF pre1 tl3] by blast+
  have r: "splice node (n # pv) i nd = ?r" by (simp add: Let_def)
  have old: "?nd ! x = nd ! x" if "x < length nd" "x \<noteq> ?m" for x
    using that by (simp add: nth_append)
  have "?r ! ?m = node" using IH(4) [of ?m] m tl2 by simp
  moreover have "?r ! length nd = nd ! ?m"
  proof -
    have "\<forall>j < length pv. length nd \<noteq> pv ! j + nNext + (i + 1 + j)" using tl1 by (metis less_irrefl)
    then have "?r ! length nd = ?nd ! length nd" by (intro IH(4)) simp_all
    also have "\<dots> = nd ! ?m" using m by simp
    finally show ?thesis .
  qed
  moreover have "?r ! (length nd + Suc j) = nd ! (pv ! j + nNext + (i + 1 + j))" if "j < length pv" for j
    using IH(2) [OF that] old tl1 tl2 that by (simp only: length_list_update length_append) auto
  moreover have "?r ! x = nd ! x"
    if "x < length nd" "\<forall>j < Suc (length pv). x \<noteq> (n # pv) ! j + nNext + (i + j)" for x
  proof -
    from that(2) have "x \<noteq> ?m" by auto
    moreover from that(2) have "\<forall>j < length pv. x \<noteq> pv ! j + nNext + (i + 1 + j)"
      by (metis Suc_less_eq add.assoc nth_Cons_Suc plus_1_eq_Suc)
    ultimately show ?thesis using IH(4) [of x] old [of x] that(1) by simp
  qed
  ultimately show ?case unfolding r using IH(1,3) by (auto simp: less_Suc_eq_0_disj)
qed simp

text \<open>The arrays after a new node of height \<open>h\<close> has been appended and spliced in.\<close>

lemma splice_new:
  assumes inv: "mem_inv p ns" and h: "h \<le> tMaxHeight" "length pv = h"
    and pv: "\<forall>i < h. pv ! i = last (0 # below p k (lvl p i ns))"
    and nd': "nd' = splice (length (nodeData p)) pv 0 (nodeData p @ [o1, o2, o3, o4])"
  shows "length nd' = length (nodeData p) + nNext + h"
    and "\<And>a j. a \<in> set (0 # ns) \<Longrightarrow> j < nNext \<Longrightarrow> nd' ! (a + j) = nodeData p ! (a + j)"
    and "\<And>a i. a \<in> set (0 # ns) \<Longrightarrow> i < height p a \<Longrightarrow> (i < h \<Longrightarrow> a \<noteq> pv ! i) \<Longrightarrow>
      nd' ! (a + nNext + i) = nodeData p ! (a + nNext + i)"
    and "\<And>i. i < h \<Longrightarrow> nd' ! (pv ! i + nNext + i) = length (nodeData p)"
    and "\<And>i. i < h \<Longrightarrow> nd' ! (length (nodeData p) + nNext + i) = nodeData p ! (pv ! i + nNext + i)"
    and "\<And>j. j < nNext \<Longrightarrow> nd' ! (length (nodeData p) + j) = [o1, o2, o3, o4] ! j"
proof -
  let ?N = "length (nodeData p)" and ?nd = "nodeData p @ [o1, o2, o3, o4]"
  note blk = mem_invD(4) [OF inv]
  have pin: "pv ! i \<in> set (0 # ns)" "i < height p (pv ! i)" if "i < h" for i
  proof -
    have "pv ! i \<in> set (0 # below p k (lvl p i ns))" using pv that last_in_set by (metis list.distinct(1))
    then show "pv ! i \<in> set (0 # ns)" "i < height p (pv ! i)"
      using mem_invD(5) [OF inv] that h(1) by auto
  qed
  have m: "pv ! i + nNext + i < ?N" if "i < h" for i
    using block_bound [OF blk pin(1) [OF that], of "nNext + i"] pin(2) [OF that] by (simp add: add.assoc)
  have sep: "a = pv ! l \<and> j = nNext + l"
    if "a \<in> set (0 # ns)" "j < nNext + height p a" "l < h" "a + j = pv ! l + nNext + l" for a j l
    using block_disjoint [OF blk that(1) pin(1) [OF that(3)], of j "nNext + l"] that pin(2) [OF that(3)]
    by (simp add: add.assoc)
  have c1: "\<forall>j < length pv. pv ! j + nNext + (0 + j) < length ?nd"
    using m h(2) by (auto intro: less_trans [of _ ?N])
  have c2: "\<forall>j < length pv. \<forall>l < length pv. pv ! j + nNext + (0 + j) = pv ! l + nNext + (0 + l) \<longrightarrow> j = l"
  proof (intro allI impI)
    fix j l assume "j < length pv" "l < length pv" "pv ! j + nNext + (0 + j) = pv ! l + nNext + (0 + l)"
    then show "j = l"
      using sep [of "pv ! j" "nNext + j" l] pin [of j] h(2) by (simp add: add.assoc)
  qed
  note S = splice_spec [OF c1 c2, of ?N, folded nd', unfolded h(2) add_0]
  have keep: "nd' ! x = ?nd ! x" if "x < ?N + nNext" "\<And>l. l < h \<Longrightarrow> x \<noteq> pv ! l + nNext + l" for x
    using S that by (auto simp: nNext_def)
  show "length nd' = ?N + nNext + h" using S by (simp add: nNext_def)
  show "nd' ! (a + j) = nodeData p ! (a + j)" if "a \<in> set (0 # ns)" "j < nNext" for a j
  proof -
    have "a + j < ?N" using block_bound [OF blk that(1), of j] that(2) by simp
    moreover have "a + j \<noteq> pv ! l + nNext + l" if "l < h" for l
      using sep [of a j l] \<open>a \<in> set (0 # ns)\<close> \<open>j < nNext\<close> that by auto
    ultimately show ?thesis using keep [of "a + j"] by (simp add: nth_append)
  qed
  show "nd' ! (a + nNext + i) = nodeData p ! (a + nNext + i)"
    if "a \<in> set (0 # ns)" "i < height p a" "i < h \<Longrightarrow> a \<noteq> pv ! i" for a i
  proof -
    have "a + nNext + i < ?N"
      using block_bound [OF blk that(1), of "nNext + i"] that(2) by (simp add: add.assoc)
    moreover have "a + nNext + i \<noteq> pv ! l + nNext + l" if "l < h" for l
      using sep [of a "nNext + i" l] \<open>a \<in> set (0 # ns)\<close> \<open>i < height p a\<close> \<open>i < h \<Longrightarrow> a \<noteq> pv ! i\<close> that
      by (auto simp: add.assoc)
    ultimately show ?thesis using keep [of "a + nNext + i"] by (simp add: nth_append)
  qed
  show "nd' ! (pv ! i + nNext + i) = ?N" if "i < h" for i using S that by blast
  show "nd' ! (?N + nNext + i) = nodeData p ! (pv ! i + nNext + i)" if "i < h" for i
  proof -
    have "nd' ! (length ?nd + i) = ?nd ! (pv ! i + nNext + i)" using S that by blast
    moreover have "length ?nd + i = ?N + nNext + i" by (simp add: nNext_def)
    ultimately show ?thesis using m [OF that] by (simp only: nth_append if_True)
  qed
  show "nd' ! (?N + j) = [o1, o2, o3, o4] ! j" if "j < nNext" for j
    using keep [of "?N + j"] m that by (force simp: nth_append)
qed

lemma distinct_nodes: "mem_inv p ns \<Longrightarrow> distinct (0 # ns)"
  using distinct_keys [of "node_key p" ns] by (auto simp: mem_inv_def distinct_map)

lemma node_cong:
  assumes inv: "mem_inv p ns" and "a \<in> set ns" and "\<And>j. j < nNext \<Longrightarrow> nodeData p' ! (a + j) = nodeData p ! (a + j)"
    and "kvData p' = kvData p @ x"
  shows "node_key p' a = node_key p a" and "node_val p' a = node_val p a" and "height p' a = height p a"
  using assms(3) [of 0] assms(3) [of nKey] assms(3) [of nVal] assms(3) [of nHeight] assms(4)
    kv_bound [OF inv assms(2)]
  by (simp_all add: node_key_def node_val_def height_def node_defs Let_def)

definition spliced :: "MemDB \<Rightarrow> nat list \<Rightarrow> bytes \<Rightarrow> bytes \<Rightarrow> nat \<Rightarrow> nat list \<Rightarrow> MemDB \<Rightarrow> bool" where
  "spliced p ns k v h pv p' \<longleftrightarrow>
     mem_inv p ns \<and> k \<notin> node_key p ` set ns \<and> 1 \<le> h \<and> h \<le> tMaxHeight \<and> length pv = h \<and>
     (\<forall>i < h. pv ! i = last (0 # below p k (lvl p i ns))) \<and>
     nodeData p' = splice (length (nodeData p)) pv 0
       (nodeData p @ [length (kvData p), length k, length v, h]) \<and>
     kvData p' = kvData p @ k @ v \<and> cmp p' = cmp p \<and> maxHeight p' = max (maxHeight p) h \<and>
     length (prevNode p') = tMaxHeight \<and> mn p' = mn p + 1 \<and>
     kvSize p' = kvSize p + int (length k + length v)"

abbreviation ins :: "MemDB \<Rightarrow> bytes \<Rightarrow> nat list \<Rightarrow> nat list" where
  "ins p k ns \<equiv> below p k ns @ length (nodeData p) # above p k ns"

lemma splicedD:
  assumes "spliced p ns k v h pv p'"
  shows "mem_inv p ns" "k \<notin> node_key p ` set ns" "1 \<le> h" "h \<le> tMaxHeight" "length pv = h"
    "\<forall>i < h. pv ! i = last (0 # below p k (lvl p i ns))"
    "nodeData p' = splice (length (nodeData p)) pv 0
       (nodeData p @ [length (kvData p), length k, length v, h])"
    "kvData p' = kvData p @ k @ v"
  using assms unfolding spliced_def by blast+

lemma set_ins: "mem_inv p ns \<Longrightarrow> set (ins p k ns) = insert (length (nodeData p)) (set ns)"
  using arg_cong [OF below_above [OF mem_invD(3)], of p ns set k] by auto

lemma block_end: "mem_inv p ns \<Longrightarrow> a \<in> set (0 # ns) \<Longrightarrow> a + nNext + height p a \<le> length (nodeData p)"
  using mem_invD(4) [of p ns] by (simp only: blocks_ok_def)

lemma spliced_old:
  assumes sp: "spliced p ns k v h pv p'"
  shows "a \<in> set ns \<Longrightarrow> node_key p' a = node_key p a" and "a \<in> set ns \<Longrightarrow> node_val p' a = node_val p a"
    and "a \<in> set (0 # ns) \<Longrightarrow> height p' a = height p a"
proof -
  note S = splice_new [OF splicedD(1,4-7) [OF sp]]
  show "a \<in> set ns \<Longrightarrow> node_key p' a = node_key p a" "a \<in> set ns \<Longrightarrow> node_val p' a = node_val p a"
    by (rule node_cong [OF splicedD(1) [OF sp] _ _ splicedD(8) [OF sp]]; use S(2) in simp)+
  show "a \<in> set (0 # ns) \<Longrightarrow> height p' a = height p a"
    using S(2) [of a nHeight] by (simp add: height_def node_defs)
qed

lemma spliced_node:
  assumes sp: "spliced p ns k v h pv p'"
  defines "N \<equiv> length (nodeData p)"
  shows "nodeData p' ! N = length (kvData p)" "nodeData p' ! (N + nKey) = length k"
    "nodeData p' ! (N + nVal) = length v" "height p' N = h" "node_key p' N = k" "node_val p' N = v"
proof -
  note S = splice_new [OF splicedD(1,4-7) [OF sp], folded N_def]
  show hd: "nodeData p' ! N = length (kvData p)" "nodeData p' ! (N + nKey) = length k"
    "nodeData p' ! (N + nVal) = length v" "height p' N = h"
    using S(6) [of 0] S(6) [of 1] S(6) [of 2] S(6) [of 3]
    by (simp_all add: height_def node_defs eval_nat_numeral)
  show "node_key p' N = k" "node_val p' N = v"
    by (simp_all only: node_key_def node_val_def hd splicedD(8) [OF sp] Let_def) (simp_all add: slice_def)
qed

lemma spliced_sorted:
  assumes sp: "spliced p ns k v h pv p'"
  shows "sorted_wrt (\<lambda>a b. node_key p' a < node_key p' b) (ins p k ns)"
proof -
  note sorted = mem_invD(3) [OF splicedD(1) [OF sp]]
  have ka: "k < node_key p a" if "a \<in> set (above p k ns)" for a
    using that splicedD(2) [OF sp] by (auto simp: image_iff)
  have "sorted_wrt (\<lambda>a b. node_key p' a < node_key p' b) ns"
    using sorted spliced_old(1) [OF sp] by (auto intro: sorted_wrt_mono_rel)
  then have "sorted_wrt (\<lambda>a b. node_key p' a < node_key p' b) (below p k ns @ above p k ns)"
    by (simp only: below_above [OF sorted])
  then show ?thesis
    using ka spliced_old(1) [OF sp] by (auto simp: sorted_wrt_append spliced_node(5) [OF sp])
qed

lemma spliced_blocks:
  assumes sp: "spliced p ns k v h pv p'"
  shows "blocks_ok p' (ins p k ns)"
proof -
  let ?N = "length (nodeData p)" and ?ns = "ins p k ns"
  note inv = splicedD(1) [OF sp] and h = splicedD(3,4) [OF sp] and hd = spliced_node [OF sp]
  note S = splice_new [OF splicedD(1,4-7) [OF sp]] and Nge = block_end [OF inv]
  note hold = spliced_old(3) [OF sp] and blk = mem_invD(4) [OF inv]
  have lt: "a < ?N" if "a \<in> set (0 # ns)" for a using Nge [OF that] by (simp add: nNext_def)
  have cs: "a = ?N \<or> a \<in> set (0 # ns)" if "a \<in> set (0 # ?ns)" for a using that set_ins [OF inv, of k] by auto
  have "1 \<le> height p' a \<and> height p' a \<le> tMaxHeight \<and> a + nNext + height p' a \<le> length (nodeData p')"
    if "a \<in> set (0 # ?ns)" for a
    using cs [OF that]
  proof
    assume "a \<in> set (0 # ns)"
    then have "1 \<le> height p a \<and> height p a \<le> tMaxHeight" using blk by (simp only: blocks_ok_def)
    with \<open>a \<in> set (0 # ns)\<close> show ?thesis using Nge [of a] hold [of a] S(1) by simp
  qed (use h hd(4) S(1) in simp)
  moreover have "a + nNext + height p' a \<le> b"
    if a: "a \<in> set (0 # ?ns)" and b: "b \<in> set (0 # ?ns)" and "a < b" for a b
    using cs [OF a] cs [OF b]
  proof (elim disjE)
    assume "a \<in> set (0 # ns)" "b \<in> set (0 # ns)"
    then have "a + nNext + height p a \<le> b" using blk \<open>a < b\<close> by (simp only: blocks_ok_def)
    then show ?thesis using hold [OF \<open>a \<in> set (0 # ns)\<close>] by simp
  next
    assume "a \<in> set (0 # ns)" "b = ?N"
    then show ?thesis using Nge [of a] hold [of a] by simp
  next
    assume "a = ?N" "b \<in> set (0 # ns)"
    then show ?thesis using lt [of b] \<open>a < b\<close> by simp
  qed (use \<open>a < b\<close> in simp)
  ultimately show ?thesis unfolding blocks_ok_def by blast
qed

lemma spliced_lvl:
  assumes sp: "spliced p ns k v h pv p'"
  shows "lvl p' i (ins p k ns) =
    below p k (lvl p i ns) @ (if i < h then [length (nodeData p)] else []) @ above p k (lvl p i ns)"
proof -
  have "filter (\<lambda>n. i < height p' n) (filter P ns) = filter P (lvl p i ns)" for P
    unfolding filter_filter using spliced_old(3) [OF sp] by (intro filter_cong) auto
  then show ?thesis by (simp add: spliced_node(4) [OF sp])
qed

lemma spliced_links:
  assumes sp: "spliced p ns k v h pv p'" and i: "i < tMaxHeight"
  shows "links (nodeData p') i 0 (lvl p' i (ins p k ns))"
proof -
  let ?N = "length (nodeData p)"
  note inv = splicedD(1) [OF sp] and pv = splicedD(6) [OF sp] and lvls = spliced_lvl [OF sp]
  note S = splice_new [OF splicedD(1,4-7) [OF sp]]
  have L: "links (nodeData p) i 0 (below p k (lvl p i ns) @ above p k (lvl p i ns))"
    unfolding lvl_split [OF inv] by (rule mem_invD(9) [OF inv i])
  have mem: "c \<in> set (0 # ns) \<and> i < height p c"
    if "c \<in> set (0 # below p k (lvl p i ns) @ above p k (lvl p i ns))" for c
    using that mem_invD(5) [OF inv] i by auto
  have D: "distinct (0 # below p k (lvl p i ns) @ above p k (lvl p i ns))"
    using distinct_nodes [OF inv] unfolding lvl_split [OF inv] by simp
  show ?thesis
  proof (cases "i < h")
    case True
    have "links (nodeData p') i 0 (below p k (lvl p i ns) @ ?N # above p k (lvl p i ns))"
    proof (rule links_insert [OF L D])
      have lst: "last (0 # below p k (lvl p i ns)) = pv ! i" using pv True by (simp only:)
      show "nodeData p' ! (last (0 # below p k (lvl p i ns)) + nNext + i) = ?N"
        unfolding lst by (rule S(4) [OF True])
      show "nodeData p' ! (?N + nNext + i) = nodeData p ! (last (0 # below p k (lvl p i ns)) + nNext + i)"
        unfolding lst by (rule S(5) [OF True])
      show "nodeData p' ! (c + nNext + i) = nodeData p ! (c + nNext + i)"
        if "c \<in> set (0 # below p k (lvl p i ns) @ above p k (lvl p i ns))"
          "c \<noteq> last (0 # below p k (lvl p i ns))" for c
        using S(3) mem [OF that(1)] that(2) unfolding lst by blast
    qed
    with True show ?thesis unfolding lvls by simp
  next
    case False
    have "links (nodeData p') i 0 (below p k (lvl p i ns) @ above p k (lvl p i ns))"
      by (rule links_cong [OF L]) (use S(3) False mem in blast)
    with False show ?thesis unfolding lvls by simp
  qed
qed

lemma spliced_inv:
  assumes sp: "spliced p ns k v h pv p'"
  shows "mem_inv p' (ins p k ns)"
proof -
  note inv = splicedD(1) [OF sp] and hd = spliced_node [OF sp]
  have ns: "below p k ns @ above p k ns = ns" by (rule below_above [OF mem_invD(3) [OF inv]])
  let ?N = "length (nodeData p)" and ?sz = "\<lambda>p n. int (nodeData p ! (n + nKey) + nodeData p ! (n + nVal))"
  note S = splice_new [OF splicedD(1,4-7) [OF sp]]
  have zero: "height p' 0 = tMaxHeight" using spliced_old(3) [OF sp, of 0] mem_invD(5) [OF inv] by simp
  have N: "?N \<noteq> 0" using block_end [OF inv, of 0] by (auto simp: nNext_def)
  have nd: "nodeData p' ! n = nodeData p ! n" "nodeData p' ! (n + nKey) = nodeData p ! (n + nKey)"
    "nodeData p' ! (n + nVal) = nodeData p ! (n + nVal)" if "n \<in> set ns" for n
    using S(2) [of n 0] S(2) [of n nKey] S(2) [of n nVal] that by (simp_all add: node_defs)
  have kv: "nodeData p' ! n + nodeData p' ! (n + nKey) + nodeData p' ! (n + nVal) \<le> length (kvData p')"
    if "n \<in> set (ins p k ns)" for n
    using that nd [of n] kv_bound [OF inv, of n] hd(1-3) set_ins [OF inv, of k] splicedD(8) [OF sp] by auto
  have "(\<Sum>n\<leftarrow>below p k ns @ above p k ns. ?sz p' n) = (\<Sum>n\<leftarrow>ns. ?sz p n)"
    unfolding ns using nd by (intro arg_cong [of _ _ sum_list] map_cong) simp_all
  then have sum: "(\<Sum>n\<leftarrow>ins p k ns. ?sz p' n) = (\<Sum>n\<leftarrow>ns. ?sz p n) + int (length k + length v)"
    using hd(2,3) by simp
  have len: "length (ins p k ns) = Suc (length ns)" using arg_cong [OF ns, of length] by simp
  have hts: "height p' n \<le> max (maxHeight p) h" if "n \<in> set (ins p k ns)" for n
    using that spliced_old(3) [OF sp, of n] mem_invD(8) [OF inv, of n] hd(4) set_ins [OF inv, of k]
    by (auto simp: le_max_iff_disj)
  show ?thesis
    unfolding mem_inv_def
    using sp spliced_sorted [OF sp] spliced_blocks [OF sp] spliced_links [OF sp] zero kv sum len hts N
      set_ins [OF inv, of k] mem_invD(1,2,6,7) [OF inv] inv
    by (auto simp: spliced_def mem_inv_def simp del: set_append)
qed

lemma spliced_entries:
  assumes sp: "spliced p ns k v h pv p'"
  shows "entries p' (ins p k ns) = upd_sorted k v (entries p ns)"
proof -
  note inv = splicedD(1) [OF sp]
  have ns: "below p k ns @ above p k ns = ns" by (rule below_above [OF mem_invD(3) [OF inv]])
  have e: "entries p' (filter P ns) = entries p (filter P ns)" for P
    using spliced_old(1,2) [OF sp] by (simp add: entries_def)
  have "entries p ns = entries p (below p k ns @ above p k ns)" by (simp only: ns)
  also have "\<dots> = entries p (below p k ns) @ entries p (above p k ns)" by (simp add: entries_def)
  also have "upd_sorted k v \<dots> = entries p (below p k ns) @ upd_sorted k v (entries p (above p k ns))"
    by (rule upd_sorted_append) (auto simp: entries_def)
  also have "upd_sorted k v (entries p (above p k ns)) = (k, v) # entries p (above p k ns)"
  proof (cases "above p k ns")
    case (Cons n bs)
    then have "n \<in> set (above p k ns)" by (simp only: list.set_intros)
    then have "n \<in> set ns" "\<not> node_key p n < k" by simp_all
    with splicedD(2) [OF sp] Cons show ?thesis by (auto simp: entries_def)
  qed (simp add: entries_def)
  finally show ?thesis using e spliced_node(5,6) [OF sp] by (simp add: entries_def)
qed

lemma randHeight_loop_bounds:
  "h \<le> tMaxHeight \<Longrightarrow> \<exists>h' d. randHeight_loop h p = (h', p\<lparr>drawn := d\<rparr>) \<and> h \<le> h' \<and> h' \<le> tMaxHeight"
proof (induction h p rule: randHeight_loop.induct)
  case (1 h p)
  show ?case
  proof (cases "h < tMaxHeight \<and> rnd p (drawn p) mod 4 = 0")
    case True
    then obtain h' d where "randHeight_loop (h + 1) (p\<lparr>drawn := Suc (drawn p)\<rparr>)
        = (h', (p\<lparr>drawn := Suc (drawn p)\<rparr>)\<lparr>drawn := d\<rparr>)" "h + 1 \<le> h'" "h' \<le> tMaxHeight"
      using 1(1) [OF _ refl, of "rnd p (drawn p)" "p\<lparr>drawn := Suc (drawn p)\<rparr>"]
      unfolding rnd_Int_def by auto
    moreover from True have "randHeight_loop h p = randHeight_loop (h + 1) (p\<lparr>drawn := Suc (drawn p)\<rparr>)"
      by (subst randHeight_loop.simps) (simp add: rnd_Int_def)
    ultimately show ?thesis by (intro exI [of _ h'] exI [of _ d]) simp
  next
    case False
    show ?thesis
    proof (cases "h < tMaxHeight")
      case True
      with False have "randHeight_loop h p = (h, p\<lparr>drawn := Suc (drawn p)\<rparr>)"
        by (subst randHeight_loop.simps) (simp add: rnd_Int_def)
      with 1(2) show ?thesis by blast
    next
      case False
      then have "randHeight_loop h p = (h, p\<lparr>drawn := drawn p\<rparr>)"
        by (subst randHeight_loop.simps) simp
      with 1(2) show ?thesis by blast
    qed
  qed
qed

lemma randHeight_bounds:
  obtains h d where "randHeight p = (h, p\<lparr>drawn := d\<rparr>)" "1 \<le> h" "h \<le> tMaxHeight"
  using randHeight_loop_bounds [of 1 p] by (auto simp: randHeight_def tMaxHeight_def)

lemma node_fields [simp]:
  "height (p\<lparr>prevNode := pv\<rparr>) = height p" "height (p\<lparr>drawn := d\<rparr>) = height p"
  "node_key (p\<lparr>prevNode := pv\<rparr>) = node_key p" "node_key (p\<lparr>drawn := d\<rparr>) = node_key p"
  "node_val (p\<lparr>prevNode := pv\<rparr>) = node_val p" "node_val (p\<lparr>drawn := d\<rparr>) = node_val p"
  by (simp_all add: fun_eq_iff height_def node_key_def node_val_def)

lemma mem_inv_search:
  assumes "mem_inv p ns" and "length pv = tMaxHeight"
  shows "mem_inv (p\<lparr>prevNode := pv, drawn := d\<rparr>) ns"
    and "entries (p\<lparr>prevNode := pv, drawn := d\<rparr>) ns = entries p ns"
proof -
  have "blocks_ok (p\<lparr>prevNode := pv, drawn := d\<rparr>) ns = blocks_ok p ns" by (simp add: blocks_ok_def)
  then show "mem_inv (p\<lparr>prevNode := pv, drawn := d\<rparr>) ns" using assms by (simp add: mem_inv_def)
qed (simp add: entries_def)

lemma below_high:
  assumes inv: "mem_inv p ns" and "maxHeight p \<le> i"
  shows "lvl p i ns = []"
  using mem_invD(8) [OF inv] assms(2) by (fastforce simp: filter_empty_conv)

lemma Put_absent:
  assumes inv: "mem_inv p ns" and new: "\<not> found p k ns"
  shows "\<exists>p' ns'. Put p k v = Some p' \<and> mem_inv p' ns' \<and> entries p' ns' = upd_sorted k v (entries p ns)
    \<and> cmp p' = cmp p \<and> rnd p' = rnd p"
proof -
  have mh: "maxHeight p - 1 < tMaxHeight" using mem_invD(6,7) [OF inv] by simp
  from findGE_prev [OF inv mh mem_invD(10) [OF inv], of 0 k] obtain pv where
    fg: "findGE_loop p k True 0 (maxHeight p - 1) (prevNode p) = Some ((hd0 (above p k ns), found p k ns), pv)"
    and pv: "length pv = tMaxHeight" "\<forall>i \<le> maxHeight p - 1. pv ! i = last (0 # below p k (lvl p i ns))"
    by auto
  obtain h d where rh: "randHeight (p\<lparr>prevNode := pv\<rparr>) = (h, p\<lparr>prevNode := pv, drawn := d\<rparr>)"
    and h: "1 \<le> h" "h \<le> tMaxHeight"
    using randHeight_bounds [of "p\<lparr>prevNode := pv\<rparr>"] by metis
  define q where "q = p\<lparr>prevNode := pv, drawn := d\<rparr>"
  have q: "mem_inv q ns" "entries q ns = entries p ns" unfolding q_def by (rule mem_inv_search [OF inv pv(1)])+
  define pv' where "pv' = (if h > maxHeight p
    then map (\<lambda>i. if maxHeight p \<le> i \<and> i < h then 0 else pv ! i) [0..<length pv] else pv)"
  have prev: "(take h pv') ! i = last (0 # below q k (lvl q i ns))" if "i < h" for i
  proof (cases "i < maxHeight p")
    case True
    then have "pv' ! i = pv ! i" using that h(2) pv(1) by (simp add: pv'_def)
    moreover have "below q k (lvl q i ns) = below p k (lvl p i ns)"
      by (simp add: q_def)
    moreover have "pv ! i = last (0 # below p k (lvl p i ns))" using pv(2) True by simp
    ultimately show ?thesis using that by simp
  next
    case False
    then have "pv' ! i = 0" using that h(2) pv(1) by (simp add: pv'_def)
    moreover have "lvl q i ns = []" using False by (intro below_high [OF q(1)]) (simp add: q_def)
    ultimately show ?thesis using that by simp
  qed
  have len: "length pv' = tMaxHeight" using pv(1) by (simp add: pv'_def)
  have "k \<notin> node_key p ` set ns" using new found_iff [OF inv, of k] by blast
  then have nk: "k \<notin> node_key q ` set ns" by (simp add: q_def)
  have qf: "nodeData q = nodeData p" "kvData q = kvData p" "maxHeight q = maxHeight p" "mn q = mn p"
    "kvSize q = kvSize p" by (simp_all add: q_def)
  have sp: "spliced q ns k v h (take h pv') (q\<lparr>maxHeight := max (maxHeight p) h, prevNode := pv',
      kvData := kvData p @ k @ v,
      nodeData := splice (length (nodeData p)) (take h pv') 0
        (nodeData p @ [length (kvData p), length k, length v, h]),
      kvSize := kvSize p + int (length k + length v), mn := mn p + 1\<rparr>)"
    (is "spliced _ _ _ _ _ _ ?p'")
    unfolding spliced_def
    by (intro conjI allI impI q(1) nk h prev) (simp_all add: qf len h(2))
  have "findGE p k True = Some ((hd0 (above p k ns), False), p\<lparr>prevNode := pv\<rparr>)"
    using new unfolding findGE_def fg by auto
  then have "Put p k v = Some ?p'"
    by (simp add: Put_def rh Let_def pv'_def q_def max_def cong: if_cong)
  with spliced_inv [OF sp] spliced_entries [OF sp] q(2) show ?thesis
    by (intro exI [of _ ?p'] exI [of _ "ins q k ns"]) (simp add: q_def)
qed

text \<open>Overwriting the value of a node: only its offset and its value length change.\<close>

definition overwritten :: "MemDB \<Rightarrow> nat list \<Rightarrow> nat \<Rightarrow> bytes \<Rightarrow> MemDB \<Rightarrow> bool" where
  "overwritten p ns n v p' \<longleftrightarrow>
     mem_inv p ns \<and> n \<in> set ns \<and> length (nodeData p') = length (nodeData p) \<and>
     (\<forall>x. x \<noteq> n \<longrightarrow> x \<noteq> n + nVal \<longrightarrow> nodeData p' ! x = nodeData p ! x) \<and>
     (\<exists>ys. kvData p' = kvData p @ ys) \<and> node_key p' n = node_key p n \<and> node_val p' n = v \<and>
     nodeData p' ! (n + nVal) = length v \<and>
     nodeData p' ! n + nodeData p' ! (n + nKey) + nodeData p' ! (n + nVal) \<le> length (kvData p') \<and>
     cmp p' = cmp p \<and> maxHeight p' = maxHeight p \<and> length (prevNode p') = tMaxHeight \<and> mn p' = mn p \<and>
     kvSize p' = kvSize p + (int (length v) - int (nodeData p ! (n + nVal)))"

lemma overwritten_nd:
  assumes ow: "overwritten p ns n v p'" and a: "a \<in> set (0 # ns)" and j: "j < nNext + height p a"
    and ne: "a \<noteq> n \<or> j \<noteq> 0 \<and> j \<noteq> nVal"
  shows "nodeData p' ! (a + j) = nodeData p ! (a + j)"
proof -
  have inv: "mem_inv p ns" and n: "n \<in> set (0 # ns)" using ow by (simp_all add: overwritten_def)
  have "nVal < nNext + height p n" "0 < nNext + height p n" by (simp_all add: node_defs)
  then have "a + j \<noteq> n + 0" "a + j \<noteq> n + nVal"
    using block_disjoint [OF mem_invD(4) [OF inv] a n j] ne by metis+
  with ow show ?thesis by (simp add: overwritten_def)
qed

lemma overwritten_old:
  assumes ow: "overwritten p ns n v p'"
  shows "a \<in> set (0 # ns) \<Longrightarrow> height p' a = height p a"
    and "a \<in> set ns \<Longrightarrow> node_key p' a = node_key p a"
    and "a \<in> set ns \<Longrightarrow> a \<noteq> n \<Longrightarrow> node_val p' a = node_val p a"
    and "a \<in> set (0 # ns) \<Longrightarrow> i < height p a \<Longrightarrow> nodeData p' ! (a + nNext + i) = nodeData p ! (a + nNext + i)"
proof -
  have inv: "mem_inv p ns" using ow by (simp add: overwritten_def)
  obtain ys where kv: "kvData p' = kvData p @ ys" using ow by (auto simp: overwritten_def)
  show "a \<in> set (0 # ns) \<Longrightarrow> height p' a = height p a"
    using overwritten_nd [OF ow, of a nHeight] by (simp add: height_def node_defs)
  show "a \<in> set (0 # ns) \<Longrightarrow> i < height p a \<Longrightarrow> nodeData p' ! (a + nNext + i) = nodeData p ! (a + nNext + i)"
    using overwritten_nd [OF ow, of a "nNext + i"] by (simp add: node_defs add.assoc)
  have "node_key p' a = node_key p a" "node_val p' a = node_val p a" if "a \<in> set ns" "a \<noteq> n"
    by (rule node_cong [OF inv that(1) _ kv]; use overwritten_nd [OF ow, of a] that in simp)+
  then show "a \<in> set ns \<Longrightarrow> node_key p' a = node_key p a"
    "a \<in> set ns \<Longrightarrow> a \<noteq> n \<Longrightarrow> node_val p' a = node_val p a"
    using ow by (cases "a = n"; auto simp: overwritten_def)+
qed

lemma sum_list_update_one:
  assumes "distinct xs" and "n \<in> set xs" and "\<And>x. x \<in> set xs \<Longrightarrow> x \<noteq> n \<Longrightarrow> f x = g x"
  shows "(\<Sum>x\<leftarrow>xs. f x) = (\<Sum>x\<leftarrow>xs. g x) + (f n - g n :: int)"
  using assms
proof (induction xs)
  case (Cons x xs)
  show ?case
  proof (cases "x = n")
    case True
    then have "(\<Sum>y\<leftarrow>xs. f y) = (\<Sum>y\<leftarrow>xs. g y)"
      using Cons.prems by (intro arg_cong [of _ _ sum_list] map_cong) auto
    with True show ?thesis by simp
  qed (use Cons in auto)
qed simp

lemma overwritten_fields:
  assumes ow: "overwritten p ns n v p'" and a: "a \<in> set ns"
  shows "nodeData p' ! (a + nKey) = nodeData p ! (a + nKey)"
    and "a \<noteq> n \<Longrightarrow> nodeData p' ! (a + nVal) = nodeData p ! (a + nVal)"
    and "nodeData p' ! a + nodeData p' ! (a + nKey) + nodeData p' ! (a + nVal) \<le> length (kvData p')"
proof -
  have inv: "mem_inv p ns" using ow by (simp add: overwritten_def)
  show key: "nodeData p' ! (a + nKey) = nodeData p ! (a + nKey)"
    using overwritten_nd [OF ow, of a nKey] a by (simp add: node_defs)
  show val: "a \<noteq> n \<Longrightarrow> nodeData p' ! (a + nVal) = nodeData p ! (a + nVal)"
    using overwritten_nd [OF ow, of a nVal] a by (simp add: node_defs)
  have "a \<noteq> n \<Longrightarrow> nodeData p' ! a = nodeData p ! a"
    using overwritten_nd [OF ow, of a 0] a by (simp add: node_defs)
  then show "nodeData p' ! a + nodeData p' ! (a + nKey) + nodeData p' ! (a + nVal) \<le> length (kvData p')"
    using kv_bound [OF inv a] key val ow by (cases "a = n") (auto simp: overwritten_def)
qed

lemma overwritten_inv:
  assumes ow: "overwritten p ns n v p'"
  shows "mem_inv p' ns"
proof -
  have inv: "mem_inv p ns" and n: "n \<in> set ns" using ow by (simp_all add: overwritten_def)
  note old = overwritten_old [OF ow] and fields = overwritten_fields [OF ow]
  have blocks: "blocks_ok p' ns"
    using old(1) ow mem_invD(4) [OF inv] unfolding blocks_ok_def by (simp add: overwritten_def)
  have sorted: "sorted_wrt (\<lambda>a b. node_key p' a < node_key p' b) ns"
    using mem_invD(3) [OF inv] old(2) by (auto intro: sorted_wrt_mono_rel)
  have zero: "height p' 0 = tMaxHeight" using old(1) [of 0] mem_invD(5) [OF inv] by simp
  have lv: "lvl p' i ns = lvl p i ns" for i using old(1) by (intro filter_cong) simp_all
  have links: "\<forall>i < tMaxHeight. links (nodeData p') i 0 (lvl p' i ns)"
  proof (intro allI impI)
    fix i assume i: "i < tMaxHeight"
    show "links (nodeData p') i 0 (lvl p' i ns)"
      unfolding lv by (rule links_cong [OF mem_invD(9) [OF inv i]])
        (use old(4) old(4) [of 0 i] i mem_invD(5) [OF inv] in auto)
  qed
  have "(\<Sum>a\<leftarrow>ns. int (nodeData p' ! (a + nKey) + nodeData p' ! (a + nVal)))
      = (\<Sum>a\<leftarrow>ns. int (nodeData p ! (a + nKey) + nodeData p ! (a + nVal)))
        + (int (length v) - int (nodeData p ! (n + nVal)))"
    using sum_list_update_one [OF _ n, of "\<lambda>a. int (nodeData p' ! (a + nKey) + nodeData p' ! (a + nVal))"
        "\<lambda>a. int (nodeData p ! (a + nKey) + nodeData p ! (a + nVal))"]
      distinct_nodes [OF inv] fields(1,2) n ow by (simp add: overwritten_def)
  then have sum: "kvSize p' = (\<Sum>a\<leftarrow>ns. int (nodeData p' ! (a + nKey) + nodeData p' ! (a + nVal)))"
    using ow inv by (simp only: overwritten_def mem_inv_def)
  have hts: "\<forall>a \<in> set ns. height p' a \<le> maxHeight p'"
    using old(1) mem_invD(8) [OF inv] ow by (simp add: overwritten_def)
  have rest: "bytes_comparer (cmp p')" "1 \<le> maxHeight p'" "maxHeight p' \<le> tMaxHeight"
    "length (prevNode p') = tMaxHeight" "mn p' = length ns"
    using ow inv by (simp_all only: overwritten_def mem_inv_def)
  show ?thesis
    unfolding mem_inv_def
    by (intro conjI blocks sorted zero links sum hts rest mem_invD(2) [OF inv]) (use fields(3) in blast)
qed

lemma overwritten_entries:
  assumes ow: "overwritten p ns n v p'"
  shows "entries p' ns = upd_sorted (node_key p n) v (entries p ns)"
proof -
  let ?k = "node_key p n"
  have inv: "mem_inv p ns" and n: "n \<in> set ns" and v: "node_val p' n = v"
    using ow by (simp_all add: overwritten_def)
  note old = overwritten_old [OF ow]
  have ns: "below p ?k ns @ above p ?k ns = ns" by (rule below_above [OF mem_invD(3) [OF inv]])
  have "hd0 (above p ?k ns) = n" by (rule above_exact [OF mem_invD(3) [OF inv] n refl])
  moreover have "n \<noteq> 0" using n mem_invD(2) [OF inv] by metis
  ultimately obtain bs where bs: "above p ?k ns = n # bs" by (cases "above p ?k ns") auto
  define as where "as = below p ?k ns"
  have sp: "ns = as @ n # bs" unfolding as_def using ns bs by metis
  then have d: "n \<notin> set as" "n \<notin> set bs" using distinct_nodes [OF inv] by auto
  have e: "entries p' xs = entries p xs" if "set xs \<subseteq> set ns" "n \<notin> set xs" for xs
    unfolding entries_def by (rule map_cong [OF refl]) (use that old(2,3) in blast)
  have app: "entries q (xs @ ys) = entries q xs @ entries q ys" for q xs ys by (simp add: entries_def)
  have one: "entries q (n # bs) = (node_key q n, node_val q n) # entries q bs" for q
    by (simp add: entries_def)
  have "entries p' as = entries p as" "entries p' bs = entries p bs" using e d sp by auto
  then have "entries p' (as @ n # bs) = entries p as @ (?k, v) # entries p bs"
    by (simp add: app one v old(2) [OF n])
  also have "\<dots> = entries p as @ upd_sorted ?k v (entries p (n # bs))"
    by (simp add: one)
  also have "\<dots> = upd_sorted ?k v (entries p (as @ n # bs))"
    unfolding app by (rule upd_sorted_append [symmetric]) (auto simp: entries_def as_def)
  finally show ?thesis by (simp only: sp [symmetric])
qed

lemma Put_exact:
  assumes inv: "mem_inv p ns" and n: "n \<in> set ns" and k: "node_key p n = k"
    and fg: "findGE p k True = Some ((n, True), p\<lparr>prevNode := pv\<rparr>)" and pv: "length pv = tMaxHeight"
  obtains p' where "Put p k v = Some p'" "cmp p' = cmp p" "rnd p' = rnd p" "overwritten p ns n v p'"
proof -
  have "n + j < length (nodeData p)" if "j < nNext" for j
    using block_bound [OF mem_invD(4) [OF inv], of n j] n that by simp
  from this [of 0] this [of nVal] have b: "n < length (nodeData p)" "n + nVal < length (nodeData p)"
    by (simp_all add: node_defs)
  have kl: "nodeData p ! (n + nKey) = length k"
    unfolding k [symmetric] using kv_bound [OF inv n] by (simp add: node_key_def)
  show thesis
  proof (cases "v = []")
    case True
    let ?p' = "p\<lparr>prevNode := pv, nodeData := (nodeData p)[n + nVal := 0],
      kvSize := kvSize p + (0 - int (nodeData p ! (n + nVal)))\<rparr>"
    have "Put p k v = Some ?p'" using True by (simp add: Put_def fg Let_def)
    moreover have "overwritten p ns n v ?p'"
      using inv n pv True b kv_bound [OF inv n]
      by (simp add: overwritten_def node_key_def node_val_def node_defs slice_def)
    ultimately show thesis by (intro that [of ?p']) simp_all
  next
    case False
    let ?p' = "p\<lparr>prevNode := pv, kvData := kvData p @ k @ v,
      nodeData := (nodeData p)[n := length (kvData p), n + nVal := length v],
      kvSize := kvSize p + (int (length v) - int (nodeData p ! (n + nVal)))\<rparr>"
    have "Put p k v = Some ?p'" using False by (simp add: Put_def fg Let_def node_defs)
    moreover have "node_key ?p' n = k" "node_val ?p' n = v"
      using b kl by (simp_all add: node_key_def node_val_def node_defs slice_def)
    moreover from this have "overwritten p ns n v ?p'"
      using inv n pv False b kl k by (simp add: overwritten_def node_defs)
    ultimately show thesis by (intro that [of ?p']) simp_all
  qed
qed

lemma Put_present:
  assumes inv: "mem_inv p ns" and fd: "found p k ns"
  shows "\<exists>p'. Put p k v = Some p' \<and> mem_inv p' ns \<and> entries p' ns = upd_sorted k v (entries p ns)
    \<and> cmp p' = cmp p \<and> rnd p' = rnd p"
proof -
  have n: "hd0 (above p k ns) \<in> set ns" "node_key p (hd0 (above p k ns)) = k"
    using fd hd0_in [of "above p k ns"] by auto
  have mh: "maxHeight p - 1 < tMaxHeight" using mem_invD(6,7) [OF inv] by simp
  from findGE_prev [OF inv mh mem_invD(10) [OF inv], of 0 k] obtain pv where
    fg: "findGE_loop p k True 0 (maxHeight p - 1) (prevNode p)
      = Some ((hd0 (above p k ns), found p k ns), pv)" and pv: "length pv = tMaxHeight"
    by auto
  have "findGE p k True = Some ((hd0 (above p k ns), True), p\<lparr>prevNode := pv\<rparr>)"
    using fd unfolding findGE_def fg by simp
  from Put_exact [OF inv n this pv] obtain p' where
    "Put p k v = Some p'" "cmp p' = cmp p" "rnd p' = rnd p" "overwritten p ns (hd0 (above p k ns)) v p'" .
  with overwritten_inv [OF this(4)] overwritten_entries [OF this(4)] n(2) show ?thesis by metis
qed

lemma Put_spec:
  assumes "mem_inv p ns"
  shows "\<exists>p' ns'. Put p k v = Some p' \<and> mem_inv p' ns' \<and> entries p' ns' = upd_sorted k v (entries p ns)
    \<and> cmp p' = cmp p \<and> rnd p' = rnd p"
  using Put_absent [OF assms] Put_present [OF assms] by (cases "found p k ns") blast+

lemma mem_inv_empty:
  assumes "bytes_comparer (cmp p)" and "nodeData p = [0, 0, 0, tMaxHeight] @ replicate tMaxHeight 0"
    and "maxHeight p = 1" "length (prevNode p) = tMaxHeight" "mn p = 0" "kvSize p = 0"
  shows "mem_inv p []"
proof -
  have h: "height p 0 = tMaxHeight" by (simp add: assms(2) height_def node_defs)
  have "nodeData p ! (nNext + i) = 0" if "i < tMaxHeight" for i
    using that by (simp add: assms(2) node_defs nth_append nth_Cons')
  moreover have "length (nodeData p) = nNext + tMaxHeight" by (simp add: assms(2) node_defs)
  ultimately show ?thesis
    using assms(1,3-6) h by (simp add: mem_inv_def blocks_ok_def) (simp add: tMaxHeight_def)
qed

lemma mem_inv_new: "bytes_comparer c \<Longrightarrow> mem_inv (NewMemDB c r) []"
  by (rule mem_inv_empty) (simp_all add: NewMemDB_def node_defs numeral_eq_Suc)

lemma mem_inv_reset: "bytes_comparer (cmp p) \<Longrightarrow> mem_inv (Reset p) []"
  by (rule mem_inv_empty) (simp_all add: Reset_def)

end
