(* ===== verification/Write_Buffer.thy ===== *)
theory Write_Buffer
  imports Mem_DB_Inv
begin

text \<open>
  The contract between the skip list and the layers above it.  A buffer of writes holds a strictly
  sorted association list in which the empty value marks a deletion; \<open>OverlayDB\<close> and \<open>CacheDB\<close> rely
  on these laws only.  The locale is interpreted on \<open>MemDB\<close>.
\<close>

locale write_buffer =
  fixes ok :: "'s \<Rightarrow> bool" and ents :: "'s \<Rightarrow> (bytes \<times> bytes) list"
    and put :: "'s \<Rightarrow> bytes \<Rightarrow> bytes \<Rightarrow> 's option"
    and get :: "'s \<Rightarrow> bytes \<Rightarrow> (bytes option \<times> bool) option"
  assumes ents_sorted: "ok s \<Longrightarrow> sorted_wrt (<) (map fst (ents s))"
    and put_ents: "ok s \<Longrightarrow> \<exists>s'. put s k v = Some s' \<and> ok s' \<and> ents s' = upd_sorted k v (ents s)"
    and get_ents: "ok s \<Longrightarrow> get s k = Some (case map_of (ents s) k of
      None \<Rightarrow> (None, True) | Some v \<Rightarrow> (if v = [] then None else Some v, False))"
begin

lemma map_of_upd_sorted:
  "sorted_wrt (<) (map fst es) \<Longrightarrow> map_of (upd_sorted k v es) = (map_of es)(k \<mapsto> v)"
proof (induction es)
  case (Cons e es)
  then show ?case by (cases e) (auto simp: fun_eq_iff)
qed simp

lemma put_total:
  assumes "ok s"
  obtains s' where "put s k v = Some s'" "ok s'" "map_of (ents s') = (map_of (ents s))(k \<mapsto> v)"
  using put_ents [OF assms, of k v] map_of_upd_sorted [OF ents_sorted [OF assms]] by auto

lemma get_put:
  assumes "ok s" and "put s k v = Some s'"
  shows "get s' k' = (if k' = k then Some (if v = [] then None else Some v, False) else get s k')"
proof -
  from put_ents [OF assms(1), of k v] assms(2) have "ok s'" "ents s' = upd_sorted k v (ents s)" by auto
  then show ?thesis
    using get_ents [OF assms(1)] get_ents [OF \<open>ok s'\<close>] map_of_upd_sorted [OF ents_sorted [OF assms(1)]]
    by simp
qed

text \<open>Writes to different keys commute, and the last write to a key wins, down to the order of the entries.\<close>

lemma ents_unique:
  assumes "ok s" and "ok t" and m: "map_of (ents s) = map_of (ents t)"
  shows "ents s = ents t"
proof -
  have keys: "map (\<lambda>k. (k, the (map_of es k))) (map fst es) = es"
    if "distinct (map fst es)" for es :: "(bytes \<times> bytes) list"
    using that by (auto simp: intro!: map_idI)
  have d: "sorted_wrt (<) (map fst (ents s))" "sorted_wrt (<) (map fst (ents t))"
    by (rule ents_sorted; fact)+
  have "dom (map_of (ents s)) = dom (map_of (ents t))" using m by simp
  then have "map fst (ents s) = map fst (ents t)"
    using d by (intro sorted_distinct_set_unique) (simp_all add: strict_sorted_iff dom_map_of_conv_image_fst)
  with keys [of "ents s"] keys [of "ents t"] d m show ?thesis by (simp add: strict_sorted_iff)
qed

lemma put_map:
  assumes "ok s" and "put s k v = Some s'"
  shows "ok s' \<and> map_of (ents s') = (map_of (ents s))(k \<mapsto> v)"
  using put_ents [OF assms(1), of k v] assms(2) map_of_upd_sorted [OF ents_sorted [OF assms(1)]] by auto

lemma put_put_same:
  assumes "ok s" "put s k v = Some s1" "put s1 k w = Some s2" "put s k w = Some s3"
  shows "ents s2 = ents s3"
  using put_map [OF assms(1,2)] put_map [OF _ assms(3)] put_map [OF assms(1,4)]
  by (intro ents_unique) simp_all

lemma put_commute:
  assumes "ok s" "k \<noteq> k'" "put s k v = Some s1" "put s1 k' w = Some s2"
    and "put s k' w = Some t1" "put t1 k v = Some t2"
  shows "ents s2 = ents t2"
  using put_map [OF assms(1,3)] put_map [OF _ assms(4)] put_map [OF assms(1,5)] put_map [OF _ assms(6)]
  by (intro ents_unique) (simp_all add: fun_upd_twist [OF assms(2)])

end

definition mem_ok :: "MemDB \<Rightarrow> bool" where
  "mem_ok p \<longleftrightarrow> (\<exists>ns. mem_inv p ns)"

text \<open>The entries as \<open>ForEach\<close> visits them.\<close>

definition mem_entries :: "MemDB \<Rightarrow> (bytes \<times> bytes) list" where
  "mem_entries p = the (ForEach p (\<lambda>k v es. Some (es @ [(k, v)])) [])"

lemma mem_entries_eq:
  assumes "mem_inv p ns"
  shows "mem_entries p = entries p ns"
proof -
  have "fold_entries (\<lambda>k v es. Some (es @ [(k, v)])) xs acc = Some (acc @ xs)" for xs acc
    by (induction xs arbitrary: acc) simp_all
  then show ?thesis by (simp add: mem_entries_def ForEach_spec [OF assms])
qed

interpretation mem: write_buffer mem_ok mem_entries Put Get
proof
  fix s k v assume "mem_ok s"
  then obtain ns where inv: "mem_inv s ns" by (auto simp: mem_ok_def)
  show "sorted_wrt (<) (map fst (mem_entries s))"
    using mem_invD(3) [OF inv] by (simp add: mem_entries_eq [OF inv] entries_def sorted_wrt_map)
  show "\<exists>s'. Put s k v = Some s' \<and> mem_ok s' \<and> mem_entries s' = upd_sorted k v (mem_entries s)"
    using Put_spec [OF inv, of k v] mem_entries_eq inv by (metis mem_ok_def)
  show "Get s k = Some (case map_of (mem_entries s) k of
      None \<Rightarrow> (None, True) | Some v \<Rightarrow> (if v = [] then None else Some v, False))"
    using Get_spec [OF inv] mem_entries_eq [OF inv] by simp
qed

lemma ForEach_entries: "mem_ok p \<Longrightarrow> ForEach p f s = fold_entries f (mem_entries p) s"
  using ForEach_spec mem_entries_eq by (metis mem_ok_def)

lemma mem_ok_empty: "mem_inv p [] \<Longrightarrow> mem_ok p \<and> mem_entries p = []"
  using mem_entries_eq [of p "[]"] by (auto simp: mem_ok_def entries_def)

lemma mem_new: "bytes_comparer c \<Longrightarrow> mem_ok (NewMemDB c r) \<and> mem_entries (NewMemDB c r) = []"
  by (rule mem_ok_empty [OF mem_inv_new])

lemma mem_reset: "mem_ok p \<Longrightarrow> mem_ok (Reset p) \<and> mem_entries (Reset p) = []"
  using mem_ok_empty [OF mem_inv_reset] by (auto simp: mem_ok_def mem_inv_def)

lemma Put_fields: "mem_ok p \<Longrightarrow> Put p k v = Some p' \<Longrightarrow> cmp p' = cmp p \<and> rnd p' = rnd p"
  using Put_spec by (metis mem_ok_def option.inject)

lemma mem_len: "mem_ok p \<Longrightarrow> MemDB_Len p = length (mem_entries p)"
  using mem_entries_eq by (auto simp: mem_ok_def MemDB_Len_def mem_inv_def entries_def)

section \<open>Properties\<close>

text \<open>
  C26 (refinement): the skip list implements a sorted map, for every sequence of random heights: on a
  well-formed list \<open>Put\<close> terminates, keeps the list well formed and makes the visited entries those of
  the sorted association list updated at the key; \<open>Get\<close> terminates and looks the key up there.
\<close>

theorem memdb_implements_map:
  assumes "mem_ok p"
  shows "(\<exists>p'. Put p k v = Some p' \<and> mem_ok p' \<and> mem_entries p' = upd_sorted k v (mem_entries p)) \<and>
    Get p k = Some (case map_of (mem_entries p) k of
      None \<Rightarrow> (None, True) | Some v \<Rightarrow> (if v = [] then None else Some v, False)) \<and>
    sorted_wrt (<) (map fst (mem_entries p))"
  by (intro conjI mem.put_ents [OF assms] mem.get_ents [OF assms] mem.ents_sorted [OF assms])

definition bytes_cmp :: "bytes \<Rightarrow> bytes \<Rightarrow> int" where
  "bytes_cmp a b = (if a < b then - 1 else if a = b then 0 else 1)"

lemma bytes_cmp_ok: "bytes_comparer bytes_cmp"
  by (simp add: bytes_comparer_def bytes_cmp_def)

theorem memdb_implements_map_witness:
  "\<exists>p'. Put (NewMemDB bytes_cmp (\<lambda>i. i)) [1] [2] = Some p' \<and> mem_ok p' \<and> mem_entries p' = [([1], [2])]"
  using memdb_implements_map [of "NewMemDB bytes_cmp (\<lambda>i. i)" "[1]" "[2]"] mem_new [OF bytes_cmp_ok]
  by simp

text \<open>
  \<open>Find\<close> terminates and returns the entry with the least key that is not below the
  argument, or none when every key is below it; an entry with the empty value comes back without one.
\<close>

lemma memdb_find_least:
  assumes "mem_ok p"
  shows "Find p k = Some (case filter (\<lambda>e. k \<le> fst e) (mem_entries p) of
      [] \<Rightarrow> None | e # _ \<Rightarrow> Some (fst e, if snd e = [] then None else Some (snd e)))"
proof -
  obtain ns where inv: "mem_inv p ns" using assms by (auto simp: mem_ok_def)
  have s: "sorted_wrt (<) (map fst es) \<Longrightarrow>
      dropWhile (\<lambda>e. fst e < k) es = filter (\<lambda>e. k \<le> fst e) es" for es :: "(bytes \<times> bytes) list"
    by (induction es) (auto simp: not_less intro!: sym [OF filter_True])
  from Find_spec [OF inv, of k] s [OF mem.ents_sorted [OF assms]] show ?thesis
    by (simp add: mem_entries_eq [OF inv])
qed

lemma memdb_find_least_witness: "Find (NewMemDB bytes_cmp (\<lambda>i. i)) [1] = Some None"
  using memdb_find_least [of "NewMemDB bytes_cmp (\<lambda>i. i)" "[1]"] mem_new [OF bytes_cmp_ok] by simp

end
