(* ===== verification/Sha256.thy ===== *)
theory Sha256
  imports Poly_Prelude
begin

text \<open>
  The digest \<open>crypto/sha256.Sum256\<close> of Go's standard library, as FIPS 180-4 defines it: padding to
  64-byte blocks, the message schedule, and the 64-round compression function on 32-bit words.
  The Merkle hasher, the state-change hash and the governance sign keys are all built on it.
\<close>

unbundle bit_operations_syntax

definition rotr :: "nat \<Rightarrow> uint32 \<Rightarrow> uint32" where
  "rotr n x = drop_bit n x OR push_bit (32 - n) x"

definition sha_ch :: "uint32 \<Rightarrow> uint32 \<Rightarrow> uint32 \<Rightarrow> uint32" where
  "sha_ch x y z = (x AND y) XOR (NOT x AND z)"

definition sha_maj :: "uint32 \<Rightarrow> uint32 \<Rightarrow> uint32 \<Rightarrow> uint32" where
  "sha_maj x y z = (x AND y) XOR (x AND z) XOR (y AND z)"

definition Sigma0 :: "uint32 \<Rightarrow> uint32" where
  "Sigma0 x = rotr 2 x XOR rotr 13 x XOR rotr 22 x"

definition Sigma1 :: "uint32 \<Rightarrow> uint32" where
  "Sigma1 x = rotr 6 x XOR rotr 11 x XOR rotr 25 x"

definition sigma0 :: "uint32 \<Rightarrow> uint32" where
  "sigma0 x = rotr 7 x XOR rotr 18 x XOR drop_bit 3 x"

definition sigma1 :: "uint32 \<Rightarrow> uint32" where
  "sigma1 x = rotr 17 x XOR rotr 19 x XOR drop_bit 10 x"

text \<open>
  The round constants and the initial state are the first 32 bits of the fractional parts of the cube
  roots of the first 64 primes and of the square roots of the first eight: \<open>frac_root k p\<close> is
  \<open>\<lfloor>2^32 * p^(1/k)\<rfloor>\<close> modulo \<open>2^32\<close>, the root found bit by bit.
\<close>

primrec root_bits :: "nat \<Rightarrow> nat \<Rightarrow> nat \<Rightarrow> nat \<Rightarrow> nat" where
  "root_bits k n 0 r = r"
| "root_bits k n (Suc b) r = root_bits k n b (if (r + 2 ^ b) ^ k \<le> n then r + 2 ^ b else r)"

definition frac_root :: "nat \<Rightarrow> nat \<Rightarrow> uint32" where
  "frac_root k p = of_nat (root_bits k (p * 2 ^ (32 * k)) 40 0)"

definition small_primes :: "nat list" where
  "small_primes = filter (\<lambda>p. list_all (\<lambda>d. p mod d \<noteq> 0) [2..<p]) [2..<312]"

definition sha_K :: "uint32 list" where
  "sha_K = map (frac_root 3) small_primes"

type_synonym sha_state =
  "uint32 \<times> uint32 \<times> uint32 \<times> uint32 \<times> uint32 \<times> uint32 \<times> uint32 \<times> uint32"

definition sha_H0 :: sha_state where
  "sha_H0 = (frac_root 2 2, frac_root 2 3, frac_root 2 5, frac_root 2 7,
             frac_root 2 11, frac_root 2 13, frac_root 2 17, frac_root 2 19)"

text \<open>Padding: a one bit, zeros, and the bit length as a big-endian 64-bit number.\<close>

definition sha_pad :: "bytes \<Rightarrow> bytes" where
  "sha_pad m = m @ 0x80 # replicate ((119 - length m mod 64) mod 64) 0 @ put_be 8 (8 * length m)"

fun be_words :: "bytes \<Rightarrow> uint32 list" where
  "be_words (a # b # c # d # bs) = of_nat (get_be [a, b, c, d]) # be_words bs"
| "be_words _ = []"

text \<open>The message schedule as a sliding window of the last sixteen words.\<close>

fun sha_schedule :: "nat \<Rightarrow> uint32 list \<Rightarrow> uint32 list" where
  "sha_schedule 0 w = w"
| "sha_schedule (Suc n) w =
     hd w # sha_schedule n
       (tl w @ [sigma1 (w ! 14) + w ! 9 + sigma0 (w ! 1) + w ! 0])"

fun sha_round :: "uint32 \<times> uint32 \<Rightarrow> sha_state \<Rightarrow> sha_state" where
  "sha_round (k, w) (a, b, c, d, e, f, g, h) =
     (let t1 = h + Sigma1 e + sha_ch e f g + k + w;
          t2 = Sigma0 a + sha_maj a b c
      in (t1 + t2, a, b, c, d + t1, e, f, g))"

fun sha_add :: "sha_state \<Rightarrow> sha_state \<Rightarrow> sha_state" where
  "sha_add (a, b, c, d, e, f, g, h) (a', b', c', d', e', f', g', h') =
     (a + a', b + b', c + c', d + d', e + e', f + f', g + g', h + h')"

definition sha_block :: "sha_state \<Rightarrow> bytes \<Rightarrow> sha_state" where
  "sha_block s blk = sha_add s (fold sha_round (zip sha_K (sha_schedule 48 (be_words blk))) s)"

fun sha_blocks :: "nat \<Rightarrow> sha_state \<Rightarrow> bytes \<Rightarrow> sha_state" where
  "sha_blocks 0 s bs = s"
| "sha_blocks (Suc n) s bs = sha_blocks n (sha_block s (take 64 bs)) (drop 64 bs)"

fun sha_output :: "sha_state \<Rightarrow> bytes" where
  "sha_output (a, b, c, d, e, f, g, h) =
     concat (map (\<lambda>w. put_be 4 (unat w)) [a, b, c, d, e, f, g, h])"

definition sha256 :: "bytes \<Rightarrow> uint256" where
  "sha256 m = (let p = sha_pad m in sha_output (sha_blocks (length p div 64) sha_H0 p))"

lemma length_sha256 [simp]: "length (sha256 m) = 32"
proof -
  have "length (sha_output s) = 32" for s
    by (cases s rule: sha_output.cases) simp
  then show ?thesis by (simp add: sha256_def Let_def)
qed

end
