(* ===== verification/Overlay_DB.thy ===== *)
theory Overlay_DB
  imports Write_Buffer Sha256
begin

text \<open>
  \<open>core/store/overlaydb/overlaydb.go\<close> and \<open>native/storage/cachedb.go\<close>: the block cache over the
  persistent store and the transaction cache over the block cache.  The persistent store's \<open>Get\<close> is the
  field \<open>pget\<close> (a leveldb database: a value, \<open>ErrNotFound\<close> or an I/O error); its batch is the list of
  batched operations.  The outer \<open>option\<close> of the operations is the skip list search not ending, which
  the theory excludes.  \<open>overlay_view\<close> and \<open>cache_view\<close> are what a client reads at each key, and each
  operation is proved to be the corresponding update of the view.
\<close>

section \<open>The persistent store\<close>

datatype store_err = ErrNotFound | ErrStore nat

datatype batch_op = BatchPutOp bytes bytes | BatchDeleteOp bytes

record PersistStore =
  pget :: "bytes \<Rightarrow> store_err + bytes"
  batch :: "batch_op list"

definition NewBatch :: "PersistStore \<Rightarrow> PersistStore" where
  "NewBatch s = s\<lparr>batch := []\<rparr>"

definition BatchPut :: "bytes \<Rightarrow> bytes \<Rightarrow> PersistStore \<Rightarrow> PersistStore" where
  "BatchPut key value s = s\<lparr>batch := batch s @ [BatchPutOp key value]\<rparr>"

definition BatchDelete :: "bytes \<Rightarrow> PersistStore \<Rightarrow> PersistStore" where
  "BatchDelete key s = s\<lparr>batch := batch s @ [BatchDeleteOp key]\<rparr>"

text \<open>A successful \<open>BatchCommit\<close>: the database applies the operations in order.\<close>

fun apply_batch :: "batch_op list \<Rightarrow> (bytes \<Rightarrow> store_err + bytes) \<Rightarrow> bytes \<Rightarrow> store_err + bytes" where
  "apply_batch [] db = db"
| "apply_batch (BatchPutOp k v # ops) db = apply_batch ops (db(k := Inr v))"
| "apply_batch (BatchDeleteOp k # ops) db = apply_batch ops (db(k := Inl ErrNotFound))"

definition BatchCommit :: "PersistStore \<Rightarrow> PersistStore" where
  "BatchCommit s = s\<lparr>pget := apply_batch (batch s) (pget s), batch := []\<rparr>"

section \<open>The block cache\<close>

record OverlayDB =
  store :: PersistStore
  omem :: MemDB
  dbErr :: "store_err option"

definition NewOverlayDB :: "(bytes \<Rightarrow> bytes \<Rightarrow> int) \<Rightarrow> (nat \<Rightarrow> nat) \<Rightarrow> PersistStore \<Rightarrow> OverlayDB" where
  "NewOverlayDB c r s = \<lparr>store = s, omem = NewMemDB c r, dbErr = None\<rparr>"

definition overlay_Reset :: "OverlayDB \<Rightarrow> OverlayDB" where
  "overlay_Reset self = self\<lparr>omem := Reset (omem self)\<rparr>"

definition SetError :: "store_err option \<Rightarrow> OverlayDB \<Rightarrow> OverlayDB" where
  "SetError e self = self\<lparr>dbErr := e\<rparr>"

definition overlay_Get :: "OverlayDB \<Rightarrow> bytes \<Rightarrow> ((store_err + bytes option) \<times> OverlayDB) option" where
  "overlay_Get self key =
     do { (value, unknown) \<leftarrow> Get (omem self) key;
          Some (if \<not> unknown then (Inr value, self)
                else case pget (store self) key of
                    Inl ErrNotFound \<Rightarrow> (Inr None, self)
                  | Inl err \<Rightarrow> (Inl err, self\<lparr>dbErr := Some err\<rparr>)
                  | Inr v \<Rightarrow> (Inr (Some v), self)) }"

definition overlay_Put :: "OverlayDB \<Rightarrow> bytes \<Rightarrow> bytes \<Rightarrow> OverlayDB option" where
  "overlay_Put self key value = do { m \<leftarrow> Put (omem self) key value; Some (self\<lparr>omem := m\<rparr>) }"

definition overlay_Delete :: "OverlayDB \<Rightarrow> bytes \<Rightarrow> OverlayDB option" where
  "overlay_Delete self key = do { m \<leftarrow> Delete (omem self) key; Some (self\<lparr>omem := m\<rparr>) }"

definition CommitTo :: "OverlayDB \<Rightarrow> OverlayDB option" where
  "CommitTo self =
     do { st \<leftarrow> ForEach (omem self)
            (\<lambda>key val st. Some (if length val = 0 then BatchDelete key st else BatchPut key val st))
            (store self);
          Some (self\<lparr>store := st\<rparr>) }"

definition ChangeHash :: "OverlayDB \<Rightarrow> uint256 option" where
  "ChangeHash self =
     do { d \<leftarrow> ForEach (omem self) (\<lambda>key val d. Some (d @ key @ val)) []; Some (sha256 d) }"

section \<open>The transaction cache\<close>

definition ST_STORAGE :: byte where "ST_STORAGE = 0x05"

record CacheDB =
  cmem :: MemDB
  backend :: OverlayDB
  keyScratch :: bytes

definition NewCacheDB :: "(bytes \<Rightarrow> bytes \<Rightarrow> int) \<Rightarrow> (nat \<Rightarrow> nat) \<Rightarrow> OverlayDB \<Rightarrow> CacheDB" where
  "NewCacheDB c r st = \<lparr>cmem = NewMemDB c r, backend = st, keyScratch = []\<rparr>"

definition cache_Reset :: "CacheDB \<Rightarrow> CacheDB" where
  "cache_Reset self = self\<lparr>cmem := Reset (cmem self)\<rparr>"

text \<open>\<open>keyScratch\<close> is the backing array of the reused key buffer, the key its first bytes.\<close>

definition ensureBuffer :: "bytes \<Rightarrow> nat \<Rightarrow> bytes" where
  "ensureBuffer b n = (if length b < n then replicate n 0 else b)"

definition makePrefixedKey :: "bytes \<Rightarrow> byte \<Rightarrow> bytes \<Rightarrow> bytes \<times> bytes" where
  "makePrefixedKey dst prefix key =
     (let dst = ensureBuffer dst (length key + 1);
          dst = dst[0 := prefix];
          dst = overwrite dst 1 key
      in (take (length key + 1) dst, dst))"

definition cache_Commit :: "CacheDB \<Rightarrow> CacheDB option" where
  "cache_Commit self =
     do { b \<leftarrow> ForEach (cmem self)
            (\<lambda>key val b. if length val = 0 then overlay_Delete b key else overlay_Put b key val)
            (backend self);
          Some (self\<lparr>backend := b\<rparr>) }"

definition cache_put :: "CacheDB \<Rightarrow> byte \<Rightarrow> bytes \<Rightarrow> bytes \<Rightarrow> CacheDB option" where
  "cache_put self prefix key value =
     (let (pkey, scratch) = makePrefixedKey (keyScratch self) prefix key
      in do { m \<leftarrow> Put (cmem self) pkey value; Some (self\<lparr>keyScratch := scratch, cmem := m\<rparr>) })"

definition cache_Put :: "CacheDB \<Rightarrow> bytes \<Rightarrow> bytes \<Rightarrow> CacheDB option" where
  "cache_Put self key value = cache_put self ST_STORAGE key value"

definition cache_get :: "CacheDB \<Rightarrow> byte \<Rightarrow> bytes \<Rightarrow> ((store_err + bytes option) \<times> CacheDB) option" where
  "cache_get self prefix key =
     (let (pkey, scratch) = makePrefixedKey (keyScratch self) prefix key;
          self = self\<lparr>keyScratch := scratch\<rparr>
      in do { (value, unknown) \<leftarrow> Get (cmem self) pkey;
              if unknown then
                do { (v, b) \<leftarrow> overlay_Get (backend self) pkey; Some (v, self\<lparr>backend := b\<rparr>) }
              else Some (Inr value, self) })"

definition cache_Get :: "CacheDB \<Rightarrow> bytes \<Rightarrow> ((store_err + bytes option) \<times> CacheDB) option" where
  "cache_Get self key = cache_get self ST_STORAGE key"

definition cache_delete :: "CacheDB \<Rightarrow> byte \<Rightarrow> bytes \<Rightarrow> CacheDB option" where
  "cache_delete self prefix key =
     (let (pkey, scratch) = makePrefixedKey (keyScratch self) prefix key
      in do { m \<leftarrow> Delete (cmem self) pkey; Some (self\<lparr>keyScratch := scratch, cmem := m\<rparr>) })"

definition cache_Delete :: "CacheDB \<Rightarrow> bytes \<Rightarrow> CacheDB option" where
  "cache_Delete self key = cache_delete self ST_STORAGE key"

section \<open>What a client reads\<close>

definition layer :: "(bytes \<times> bytes) list \<Rightarrow> (bytes \<Rightarrow> store_err + bytes option) \<Rightarrow> bytes \<Rightarrow> store_err + bytes option" where
  "layer es lower k = (case map_of es k of Some v \<Rightarrow> Inr (if v = [] then None else Some v) | None \<Rightarrow> lower k)"

definition store_view :: "(bytes \<Rightarrow> store_err + bytes) \<Rightarrow> bytes \<Rightarrow> store_err + bytes option" where
  "store_view g k = (case g k of Inl ErrNotFound \<Rightarrow> Inr None | Inl e \<Rightarrow> Inl e | Inr v \<Rightarrow> Inr (Some v))"

definition overlay_view :: "OverlayDB \<Rightarrow> bytes \<Rightarrow> store_err + bytes option" where
  "overlay_view self = layer (mem_entries (omem self)) (store_view (pget (store self)))"

definition cache_view :: "CacheDB \<Rightarrow> bytes \<Rightarrow> store_err + bytes option" where
  "cache_view self k = layer (mem_entries (cmem self)) (overlay_view (backend self)) (ST_STORAGE # k)"

definition cache_ok :: "CacheDB \<Rightarrow> bool" where
  "cache_ok self \<longleftrightarrow> mem_ok (cmem self) \<and> mem_ok (omem (backend self))"

section \<open>The operations on the views\<close>

definition written :: "bytes \<Rightarrow> store_err + bytes option" where
  "written v = Inr (if v = [] then None else Some v)"

lemma layer_put:
  "map_of es' = (map_of es)(k \<mapsto> v) \<Longrightarrow> layer es' lower = (layer es lower)(k := written v)"
  by (auto simp: fun_eq_iff layer_def written_def)

lemma makePrefixedKey_key [simp]: "fst (makePrefixedKey dst prefix key) = prefix # key"
proof -
  define d where "d = ensureBuffer dst (Suc (length key))"
  then have "length key + 1 \<le> length d" by (simp add: ensureBuffer_def)
  then obtain x xs where "d = x # xs" "length key \<le> length xs" by (cases d) auto
  then show ?thesis by (simp add: makePrefixedKey_def Let_def d_def [symmetric] overwrite_def)
qed

lemma makePrefixedKeyE:
  obtains scratch where "makePrefixedKey dst prefix key = (prefix # key, scratch)"
  by (metis makePrefixedKey_key prod.collapse)

lemma overlay_Get_view:
  assumes "mem_ok (omem self)"
  obtains self' where "overlay_Get self key = Some (overlay_view self key, self')"
    "omem self' = omem self" "store self' = store self"
proof -
  let ?r = "if map_of (mem_entries (omem self)) key = None
    then (case pget (store self) key of Inl ErrNotFound \<Rightarrow> self | Inl err \<Rightarrow> self\<lparr>dbErr := Some err\<rparr> | Inr v \<Rightarrow> self)
    else self"
  have "overlay_Get self key = Some (overlay_view self key, ?r)"
    using mem.get_ents [OF assms, of key]
    by (auto simp: overlay_Get_def overlay_view_def layer_def store_view_def
        split: option.split sum.split store_err.split)
  then show thesis
    by (rule that) (auto split: sum.split store_err.split)
qed

lemma overlay_Put_view:
  assumes "mem_ok (omem self)"
  obtains self' where "overlay_Put self key v = Some self'" "mem_ok (omem self')"
    "overlay_view self' = (overlay_view self)(key := written v)" "store self' = store self"
    "mem_entries (omem self') = upd_sorted key v (mem_entries (omem self))"
proof -
  from mem.put_ents [OF assms, of key v] obtain m where
    m: "Put (omem self) key v = Some m" "mem_ok m" "mem_entries m = upd_sorted key v (mem_entries (omem self))" by auto
  show thesis
  proof (rule that)
    show "overlay_Put self key v = Some (self\<lparr>omem := m\<rparr>)" by (simp add: overlay_Put_def m)
    show "overlay_view (self\<lparr>omem := m\<rparr>) = (overlay_view self)(key := written v)"
      using mem.put_map [OF assms m(1)] by (simp add: overlay_view_def layer_put)
  qed (simp_all add: m)
qed

lemma overlay_Delete_eq: "overlay_Delete self key = overlay_Put self key []"
  by (simp add: overlay_Delete_def overlay_Put_def Delete_def)

lemma layer_prefix:
  "map_of es' = (map_of es)(ST_STORAGE # key \<mapsto> v) \<Longrightarrow>
   (\<lambda>k. layer es' lower (ST_STORAGE # k)) = (\<lambda>k. layer es lower (ST_STORAGE # k))(key := written v)"
  by (auto simp: fun_eq_iff layer_def written_def)

text \<open>
  A client's run: a sequence of operations, with the results of its reads, on an implementation and on
  the abstract map.
\<close>

datatype kv_op = OpGet bytes | OpPut bytes bytes | OpDelete bytes

primrec kv_run :: "('c \<Rightarrow> bytes \<Rightarrow> ((store_err + bytes option) \<times> 'c) option) \<Rightarrow>
    ('c \<Rightarrow> bytes \<Rightarrow> bytes \<Rightarrow> 'c option) \<Rightarrow> ('c \<Rightarrow> bytes \<Rightarrow> 'c option) \<Rightarrow>
    kv_op list \<Rightarrow> 'c \<Rightarrow> ((store_err + bytes option) list \<times> 'c) option" where
  "kv_run get put del [] c = Some ([], c)"
| "kv_run get put del (x # xs) c =
     (case x of
        OpGet k \<Rightarrow> do { (r, c) \<leftarrow> get c k; (rs, c) \<leftarrow> kv_run get put del xs c; Some (r # rs, c) }
      | OpPut k v \<Rightarrow> do { c \<leftarrow> put c k v; kv_run get put del xs c }
      | OpDelete k \<Rightarrow> do { c \<leftarrow> del c k; kv_run get put del xs c })"

primrec view_run :: "kv_op list \<Rightarrow> (bytes \<Rightarrow> store_err + bytes option) \<Rightarrow>
    (store_err + bytes option) list \<times> (bytes \<Rightarrow> store_err + bytes option)" where
  "view_run [] m = ([], m)"
| "view_run (x # xs) m =
     (case x of
        OpGet k \<Rightarrow> (let (rs, m') = view_run xs m in (m k # rs, m'))
      | OpPut k v \<Rightarrow> view_run xs (m(k := written v))
      | OpDelete k \<Rightarrow> view_run xs (m(k := Inr None)))"

text \<open>The contract of a key-value cache, as the native contracts use it.\<close>

locale kv_cache =
  fixes ok :: "'c \<Rightarrow> bool" and view :: "'c \<Rightarrow> bytes \<Rightarrow> store_err + bytes option"
    and get :: "'c \<Rightarrow> bytes \<Rightarrow> ((store_err + bytes option) \<times> 'c) option"
    and put :: "'c \<Rightarrow> bytes \<Rightarrow> bytes \<Rightarrow> 'c option"
    and del :: "'c \<Rightarrow> bytes \<Rightarrow> 'c option"
  assumes get_view: "ok c \<Longrightarrow> \<exists>c'. get c k = Some (view c k, c') \<and> ok c' \<and> view c' = view c"
    and put_view: "ok c \<Longrightarrow> \<exists>c'. put c k v = Some c' \<and> ok c' \<and> view c' = (view c)(k := written v)"
    and del_view: "ok c \<Longrightarrow> \<exists>c'. del c k = Some c' \<and> ok c' \<and> view c' = (view c)(k := Inr None)"
begin

lemma get_after_put:
  assumes "ok c" and "put c k v = Some c'" and "v \<noteq> []"
  shows "\<exists>c''. get c' k' = Some (if k' = k then Inr (Some v) else view c k', c'') \<and> ok c''"
proof -
  from put_view [OF assms(1), of k v] assms(2) have "ok c'" "view c' = (view c)(k := written v)" by auto
  with get_view [OF \<open>ok c'\<close>, of k'] assms(3) show ?thesis by (auto simp: written_def)
qed

lemma run_view:
  "ok c \<Longrightarrow> \<exists>c'. kv_run get put del ops c = Some (fst (view_run ops (view c)), c') \<and> ok c' \<and>
    view c' = snd (view_run ops (view c))"
proof (induction ops arbitrary: c)
  case (Cons x xs)
  show ?case
  proof (cases x)
    case (OpGet k)
    from get_view [OF Cons.prems, of k] obtain c1 where
      c1: "get c k = Some (view c k, c1)" "ok c1" "view c1 = view c" by auto
    from Cons.IH [OF c1(2)] c1 OpGet show ?thesis by (auto split: prod.split)
  next
    case (OpPut k v)
    from put_view [OF Cons.prems, of k v] obtain c1 where
      c1: "put c k v = Some c1" "ok c1" "view c1 = (view c)(k := written v)" by auto
    from Cons.IH [OF c1(2)] c1 OpPut show ?thesis by (simp add: fun_upd_def)
  next
    case (OpDelete k)
    from del_view [OF Cons.prems, of k] obtain c1 where
      c1: "del c k = Some c1" "ok c1" "view c1 = (view c)(k := Inr None)" by auto
    from Cons.IH [OF c1(2)] c1 OpDelete show ?thesis by (simp add: fun_upd_def)
  qed
qed simp

end

interpretation cache: kv_cache cache_ok cache_view cache_Get cache_Put cache_Delete
proof
  fix c k v assume ok: "cache_ok c"
  obtain sc where pk: "makePrefixedKey (keyScratch c) ST_STORAGE k = (ST_STORAGE # k, sc)"
    by (rule makePrefixedKeyE)
  from ok have m: "mem_ok (cmem c)" "mem_ok (omem (backend c))" by (simp_all add: cache_ok_def)
  have puts: "\<exists>c'. cache_put c ST_STORAGE k v = Some c' \<and> cache_ok c' \<and> cache_view c' = (cache_view c)(k := written v)" for v
  proof -
    obtain m' where m': "Put (cmem c) (ST_STORAGE # k) v = Some m'" "mem_ok m'"
      "map_of (mem_entries m') = (map_of (mem_entries (cmem c)))(ST_STORAGE # k \<mapsto> v)"
      by (rule mem.put_total [OF m(1)])
    then show ?thesis
      using m(2) layer_prefix [OF m'(3)]
      by (auto simp: cache_put_def pk cache_ok_def cache_view_def [abs_def])
  qed
  then show "\<exists>c'. cache_Put c k v = Some c' \<and> cache_ok c' \<and> cache_view c' = (cache_view c)(k := written v)"
    by (simp add: cache_Put_def)
  have "cache_Delete c k = cache_put c ST_STORAGE k []"
    by (simp add: cache_Delete_def cache_delete_def cache_put_def Delete_def)
  then show "\<exists>c'. cache_Delete c k = Some c' \<and> cache_ok c' \<and> cache_view c' = (cache_view c)(k := Inr None)"
    using puts [of "[]"] by (simp add: written_def)
  obtain b where b: "overlay_Get (backend c) (ST_STORAGE # k) = Some (overlay_view (backend c) (ST_STORAGE # k), b)"
    "omem b = omem (backend c)" "store b = store (backend c)"
    by (rule overlay_Get_view [OF m(2)])
  then have "overlay_view b = overlay_view (backend c)" by (simp add: overlay_view_def)
  with b m show "\<exists>c'. cache_Get c k = Some (cache_view c k, c') \<and> cache_ok c' \<and> cache_view c' = cache_view c"
    using mem.get_ents [OF m(1), of "ST_STORAGE # k"]
    by (auto simp: cache_Get_def cache_get_def pk cache_ok_def cache_view_def [abs_def] layer_def
        split: option.split)
qed

section \<open>Committing and discarding\<close>

lemma layer_cons:
  assumes "k \<notin> fst ` set es"
  shows "layer es (lower(k := written v)) = layer ((k, v) # es) lower"
  using assms
  by (auto simp: fun_eq_iff layer_def written_def map_of_eq_None_iff [symmetric] split: option.split)

lemma commit_fold:
  assumes "mem_ok (omem b)" and "distinct (map fst es)"
  shows "\<exists>b'. fold_entries (\<lambda>key val b. if length val = 0 then overlay_Delete b key else overlay_Put b key val) es b
      = Some b' \<and> mem_ok (omem b') \<and> overlay_view b' = layer es (overlay_view b) \<and> store b' = store b"
  using assms
proof (induction es arbitrary: b)
  case Nil
  then show ?case by (simp add: layer_def [abs_def])
next
  case (Cons e es)
  obtain k v where e: "e = (k, v)" by (cases e)
  obtain b1 where b1: "overlay_Put b k v = Some b1" "mem_ok (omem b1)"
    "overlay_view b1 = (overlay_view b)(k := written v)" "store b1 = store b"
    by (rule overlay_Put_view [OF Cons.prems(1)])
  from Cons.IH [OF b1(2)] Cons.prems(2) obtain b' where
    b': "fold_entries (\<lambda>key val b. if length val = 0 then overlay_Delete b key else overlay_Put b key val) es b1
      = Some b'" "mem_ok (omem b')" "overlay_view b' = layer es (overlay_view b1)" "store b' = store b1"
    by auto
  have "k \<notin> fst ` set es" using Cons.prems(2) e by simp
  from layer_cons [OF this] b1 b' e show ?case by (cases "v = []") (simp_all add: overlay_Delete_eq)
qed

lemma mem_distinct: "mem_ok p \<Longrightarrow> distinct (map fst (mem_entries p))"
  using mem.ents_sorted [of p] by (simp add: strict_sorted_iff)

lemma cache_Commit_spec:
  assumes "cache_ok c"
  shows "\<exists>c'. cache_Commit c = Some c' \<and> cache_ok c' \<and>
    overlay_view (backend c') = layer (mem_entries (cmem c)) (overlay_view (backend c)) \<and>
    cmem c' = cmem c \<and> store (backend c') = store (backend c)"
proof -
  from assms have m: "mem_ok (cmem c)" "mem_ok (omem (backend c))" by (simp_all add: cache_ok_def)
  from commit_fold [OF m(2) mem_distinct [OF m(1)]] show ?thesis
    using m(1) by (auto simp: cache_Commit_def ForEach_entries cache_ok_def)
qed

lemma layer_twice: "layer es (layer es lower) = layer es lower"
  by (auto simp: fun_eq_iff layer_def split: option.split)

lemma cache_Commit_view:
  assumes "cache_ok c" and "cache_Commit c = Some c'"
  shows "cache_view c' = cache_view c" and "cache_view (cache_Reset c') = cache_view c"
    and "cache_ok (cache_Reset c')"
proof -
  from cache_Commit_spec [OF assms(1)] assms(2) have c': "cache_ok c'"
    "overlay_view (backend c') = layer (mem_entries (cmem c)) (overlay_view (backend c))" "cmem c' = cmem c"
    by auto
  then show "cache_view c' = cache_view c"
    by (simp add: cache_view_def [abs_def] layer_twice)
  from c' have "mem_ok (Reset (cmem c'))" "mem_entries (Reset (cmem c')) = []"
    using mem_reset [of "cmem c'"] by (simp_all add: cache_ok_def)
  with c' show "cache_view (cache_Reset c') = cache_view c" "cache_ok (cache_Reset c')"
    by (auto simp: cache_view_def [abs_def] cache_Reset_def layer_def cache_ok_def fun_eq_iff)
qed

lemma cache_Reset_view:
  assumes "cache_ok c"
  shows "cache_ok (cache_Reset c)" and "cache_view (cache_Reset c) = (\<lambda>k. overlay_view (backend c) (ST_STORAGE # k))"
  using assms mem_reset [of "cmem c"]
  by (auto simp: cache_ok_def cache_Reset_def cache_view_def fun_eq_iff layer_def)

text \<open>Writing the block cache to the store and reading the store agree with reading the block cache.\<close>

definition entry_op :: "bytes \<times> bytes \<Rightarrow> batch_op" where
  "entry_op e = (if snd e = [] then BatchDeleteOp (fst e) else BatchPutOp (fst e) (snd e))"

lemma CommitTo_fold:
  "fold_entries (\<lambda>key val st. Some (if val = [] then BatchDelete key st else BatchPut key val st)) es st
     = Some (st\<lparr>batch := batch st @ map entry_op es\<rparr>)"
  by (induction es arbitrary: st) (simp_all add: BatchDelete_def BatchPut_def entry_op_def)

lemma apply_batch_view:
  "distinct (map fst es) \<Longrightarrow> store_view (apply_batch (map entry_op es) db) = layer es (store_view db)"
proof (induction es arbitrary: db)
  case Nil
  then show ?case by (simp add: layer_def [abs_def])
next
  case (Cons e es)
  obtain k v where e: "e = (k, v)" by (cases e)
  let ?db = "db(k := if v = [] then Inl ErrNotFound else Inr v)"
  have "store_view (apply_batch (map entry_op (e # es)) db) = store_view (apply_batch (map entry_op es) ?db)"
    by (simp add: e entry_op_def)
  also have "\<dots> = layer es (store_view ?db)" using Cons by simp
  also have "store_view ?db = (store_view db)(k := written v)"
    by (auto simp: fun_eq_iff store_view_def written_def)
  also have "layer es \<dots> = layer (e # es) (store_view db)"
    using Cons.prems unfolding e by (intro layer_cons) simp
  finally show ?case .
qed

lemma CommitTo_view:
  assumes "mem_ok (omem self)" and "batch (store self) = []"
  shows "\<exists>self'. CommitTo self = Some self' \<and> omem self' = omem self \<and>
    store_view (pget (BatchCommit (store self'))) = overlay_view self"
  using assms mem_distinct [OF assms(1)]
  by (simp add: CommitTo_def ForEach_entries CommitTo_fold BatchCommit_def apply_batch_view overlay_view_def)

section \<open>Properties\<close>

text \<open>
  C28 (refinement): every run of reads, writes and deletes on the transaction cache terminates and
  returns the results that the same run has on a plain map, the map being what the cache showed at the
  start (its own writes over the block cache over the store, deletions included).
\<close>

theorem cache_run_refines_map:
  assumes "cache_ok c"
  shows "\<exists>c'. kv_run cache_Get cache_Put cache_Delete ops c = Some (fst (view_run ops (cache_view c)), c') \<and>
    cache_ok c' \<and> cache_view c' = snd (view_run ops (cache_view c))"
  by (rule cache.run_view [OF assms])

definition no_store :: PersistStore where
  "no_store = \<lparr>pget = (\<lambda>_. Inl ErrNotFound), batch = []\<rparr>"

definition fresh_cache :: CacheDB where
  "fresh_cache = NewCacheDB bytes_cmp (\<lambda>i. i) (NewOverlayDB bytes_cmp (\<lambda>i. i) no_store)"

lemma fresh_cache_ok: "cache_ok fresh_cache" "cache_view fresh_cache = (\<lambda>_. Inr None)"
  using mem_new [OF bytes_cmp_ok]
  by (simp_all add: fresh_cache_def cache_ok_def NewCacheDB_def NewOverlayDB_def cache_view_def overlay_view_def
      layer_def store_view_def no_store_def fun_eq_iff)

theorem cache_run_refines_map_witness:
  "\<exists>c'. kv_run cache_Get cache_Put cache_Delete [OpPut [1] [2], OpGet [1], OpDelete [1], OpGet [1]] fresh_cache
     = Some ([Inr (Some [2]), Inr None], c')"
  using cache_run_refines_map [OF fresh_cache_ok(1), of "[OpPut [1] [2], OpGet [1], OpDelete [1], OpGet [1]]"]
  by (auto simp: written_def)

text \<open>
  C29 (safety): \<open>Commit\<close> moves exactly what the transaction cache shows into the block cache (a reader
  sees the same values after the cache is reset), and \<open>Reset\<close> without \<open>Commit\<close> discards the transaction's
  writes and nothing else.
\<close>

theorem commit_keeps_reset_discards:
  assumes "cache_ok c"
  shows "(\<exists>c'. cache_Commit c = Some c' \<and> cache_ok (cache_Reset c') \<and>
      cache_view (cache_Reset c') = cache_view c) \<and>
    cache_view (cache_Reset c) = (\<lambda>k. overlay_view (backend c) (ST_STORAGE # k))"
  using cache_Commit_spec [OF assms] cache_Commit_view [OF assms] cache_Reset_view [OF assms] by blast

theorem commit_keeps_reset_discards_witness:
  "\<exists>c'. cache_Commit fresh_cache = Some c' \<and> cache_view (cache_Reset c') = (\<lambda>_. Inr None)"
  using commit_keeps_reset_discards [OF fresh_cache_ok(1)] by (auto simp: fresh_cache_ok)

text \<open>
  \<open>CommitTo\<close> followed by the store's \<open>BatchCommit\<close> makes the persistent store hold what
  the block cache showed: its writes and deletions over the old contents.
\<close>

lemma commit_to_store:
  assumes "mem_ok (omem self)" and "batch (store self) = []"
  shows "\<exists>self'. CommitTo self = Some self' \<and> omem self' = omem self \<and>
    store_view (pget (BatchCommit (store self'))) = overlay_view self"
  by (rule CommitTo_view [OF assms])

lemma commit_to_store_witness:
  "\<exists>self'. CommitTo (NewOverlayDB bytes_cmp (\<lambda>i. i) no_store) = Some self' \<and>
    store_view (pget (BatchCommit (store self'))) [1] = Inr None"
proof -
  let ?o = "NewOverlayDB bytes_cmp (\<lambda>i. i) no_store"
  have "mem_ok (omem ?o)" "batch (store ?o) = []" "overlay_view ?o [1] = Inr None"
    using mem_new [OF bytes_cmp_ok]
    by (simp_all add: NewOverlayDB_def no_store_def overlay_view_def layer_def store_view_def)
  with commit_to_store [of ?o] show ?thesis by metis
qed

end
