(* ===== verification/Zero_Copy.thy ===== *)
theory Zero_Copy
  imports Poly_Prelude
begin

text \<open>
  The wire format of \<open>common/zero_copy_sink.go\<close>, \<open>common/zero_copy_source.go\<close>,
  \<open>common/safeMath.go\<close> and the fixed-size types of \<open>common/uint256.go\<close> and \<open>common/address.go\<close>.

  The sink is modelled with its backing array (stale bytes beyond the length included) and its
  growth policy; a panic is \<open>None\<close>.  The \<open>enc_\<close> functions are the bytes each write appends, and the
  locale \<open>sink_writer\<close> states that a writer appends exactly its encoding whatever the array held.
  The source keeps the offset as a 64-bit word; every read returns its value with the end-of-file
  flag.  The locale \<open>codec\<close> is the contract between a serializer and its deserializer.
\<close>

section \<open>Checked arithmetic\<close>

definition SafeSub :: "uint64 \<Rightarrow> uint64 \<Rightarrow> uint64 \<times> bool" where
  "SafeSub x y = (x - y, x < y)"

definition SafeAdd :: "uint64 \<Rightarrow> uint64 \<Rightarrow> uint64 \<times> bool" where
  "SafeAdd x y = (x + y, y > - 1 - x)"

definition SafeMul :: "uint64 \<Rightarrow> uint64 \<Rightarrow> uint64 \<times> bool" where
  "SafeMul x y = (if x = 0 \<or> y = 0 then (0, False) else (x * y, y > (- 1) div x))"

section \<open>Encodings\<close>

abbreviation UINT16_SIZE :: nat where "UINT16_SIZE \<equiv> 2"
abbreviation UINT32_SIZE :: nat where "UINT32_SIZE \<equiv> 4"
abbreviation UINT64_SIZE :: nat where "UINT64_SIZE \<equiv> 8"
definition UINT256_SIZE :: nat where "UINT256_SIZE = 32"
definition ADDR_LEN :: nat where "ADDR_LEN = 20"

lemmas size_defs = UINT256_SIZE_def ADDR_LEN_def

definition ADDRESS_EMPTY :: address where
  "ADDRESS_EMPTY = replicate ADDR_LEN 0"

definition enc_uint8 :: "byte \<Rightarrow> bytes" where
  "enc_uint8 v = [v]"

definition enc_bool :: "bool \<Rightarrow> bytes" where
  "enc_bool b = (if b then [1] else [0])"

definition enc_uint16 :: "uint16 \<Rightarrow> bytes" where
  "enc_uint16 v = put_le 2 (unat v)"

definition enc_uint32 :: "uint32 \<Rightarrow> bytes" where
  "enc_uint32 v = put_le 4 (unat v)"

definition enc_uint64 :: "uint64 \<Rightarrow> bytes" where
  "enc_uint64 v = put_le 8 (unat v)"

definition enc_varuint :: "uint64 \<Rightarrow> bytes" where
  "enc_varuint v =
     (if v < 0xFD then [ucast v]
      else if v \<le> 0xFFFF then 0xFD # put_le 2 (unat v)
      else if v \<le> 0xFFFFFFFF then 0xFE # put_le 4 (unat v)
      else 0xFF # put_le 8 (unat v))"

definition enc_varbytes :: "bytes \<Rightarrow> bytes" where
  "enc_varbytes bs = enc_varuint (of_nat (length bs)) @ bs"

section \<open>The sink\<close>

text \<open>
  \<open>arr\<close> is the backing array of the Go slice from its first element to its capacity, \<open>blen\<close> the
  length of the slice.
\<close>

record ZeroCopySink =
  arr :: bytes
  blen :: nat

definition sink_ok :: "ZeroCopySink \<Rightarrow> bool" where
  "sink_ok s \<longleftrightarrow> blen s \<le> length (arr s)"

definition Bytes :: "ZeroCopySink \<Rightarrow> bytes" where
  "Bytes s = take (blen s) (arr s)"

definition Sink_Size :: "ZeroCopySink \<Rightarrow> nat" where
  "Sink_Size s = blen s"

definition maxInt :: int where
  "maxInt = 2 ^ 63 - 1"

definition tryGrowByReslice :: "nat \<Rightarrow> ZeroCopySink \<Rightarrow> (nat \<times> bool) \<times> ZeroCopySink" where
  "tryGrowByReslice n s =
     (let l = blen s in
      if int n \<le> int (length (arr s)) - int l then ((l, True), s\<lparr>blen := l + n\<rparr>)
      else ((0, False), s))"

definition makeSlice :: "nat \<Rightarrow> bytes" where
  "makeSlice n = replicate n 0"

definition grow :: "nat \<Rightarrow> ZeroCopySink \<Rightarrow> (nat \<times> ZeroCopySink) option" where
  "grow n s =
     (case tryGrowByReslice n s of
        ((i, True), s') \<Rightarrow> Some (i, s')
      | ((_, False), _) \<Rightarrow>
          (let l = blen s; c = length (arr s) in
           if int c > maxInt - int c - int n then None
           else Some (l, s\<lparr>arr := overwrite (makeSlice (2 * c + n)) 0 (Bytes s), blen := l + n\<rparr>)))"

text \<open>\<open>NextBytes\<close> returns the slice \<open>buf[m:]\<close>; the model returns the index \<open>m\<close> where it starts.\<close>

definition Sink_NextBytes :: "nat \<Rightarrow> ZeroCopySink \<Rightarrow> (nat \<times> ZeroCopySink) option" where
  "Sink_NextBytes n s =
     (case tryGrowByReslice n s of
        ((m, True), s') \<Rightarrow> Some (m, s')
      | ((_, False), _) \<Rightarrow> grow n s)"

definition Sink_BackUp :: "nat \<Rightarrow> ZeroCopySink \<Rightarrow> ZeroCopySink" where
  "Sink_BackUp n s = s\<lparr>blen := blen s - n\<rparr>"

definition Sink_Reset :: "ZeroCopySink \<Rightarrow> ZeroCopySink" where
  "Sink_Reset s = s\<lparr>blen := 0\<rparr>"

text \<open>The argument of \<open>NewZeroCopySink\<close> is a slice: its backing array up to the capacity, and its length.\<close>

definition NewZeroCopySink :: "(bytes \<times> nat) option \<Rightarrow> ZeroCopySink" where
  "NewZeroCopySink b =
     (case b of None \<Rightarrow> \<lparr>arr = replicate 512 0, blen = 0\<rparr> | Some (a, n) \<Rightarrow> \<lparr>arr = a, blen = n\<rparr>)"

text \<open>Storing into the slice that \<open>NextBytes\<close> returned.\<close>

definition put_at :: "nat \<Rightarrow> bytes \<Rightarrow> ZeroCopySink \<Rightarrow> ZeroCopySink" where
  "put_at m p s = s\<lparr>arr := overwrite (arr s) m p\<rparr>"

definition WriteBytes :: "bytes \<Rightarrow> ZeroCopySink \<Rightarrow> ZeroCopySink option" where
  "WriteBytes p s =
     do { (m, s) \<leftarrow> Sink_NextBytes (length p) s; Some (put_at m p s) }"

definition WriteUint8 :: "byte \<Rightarrow> ZeroCopySink \<Rightarrow> ZeroCopySink option" where
  "WriteUint8 v s =
     do { (m, s) \<leftarrow> Sink_NextBytes 1 s; Some (put_at m [v] s) }"

definition WriteByte :: "byte \<Rightarrow> ZeroCopySink \<Rightarrow> ZeroCopySink option" where
  "WriteByte c s = WriteUint8 c s"

definition WriteBool :: "bool \<Rightarrow> ZeroCopySink \<Rightarrow> ZeroCopySink option" where
  "WriteBool b s = (if b then WriteByte 1 s else WriteByte 0 s)"

definition WriteUint16 :: "uint16 \<Rightarrow> ZeroCopySink \<Rightarrow> ZeroCopySink option" where
  "WriteUint16 v s =
     do { (m, s) \<leftarrow> Sink_NextBytes 2 s; Some (put_at m (put_le 2 (unat v)) s) }"

definition WriteUint32 :: "uint32 \<Rightarrow> ZeroCopySink \<Rightarrow> ZeroCopySink option" where
  "WriteUint32 v s =
     do { (m, s) \<leftarrow> Sink_NextBytes 4 s; Some (put_at m (put_le 4 (unat v)) s) }"

definition WriteUint64 :: "uint64 \<Rightarrow> ZeroCopySink \<Rightarrow> ZeroCopySink option" where
  "WriteUint64 v s =
     do { (m, s) \<leftarrow> Sink_NextBytes 8 s; Some (put_at m (put_le 8 (unat v)) s) }"

text \<open>
  \<open>WriteVarUint\<close> reserves nine bytes, fills the ones it needs and backs up over the rest; it returns
  the number of bytes kept.
\<close>

definition WriteVarUint :: "uint64 \<Rightarrow> ZeroCopySink \<Rightarrow> (nat \<times> ZeroCopySink) option" where
  "WriteVarUint v s =
     do { (m, s) \<leftarrow> Sink_NextBytes 9 s;
          let (size, s) =
            (if v < 0xFD then (1, put_at m [ucast v] s)
             else if v \<le> 0xFFFF then (3, put_at (m + 1) (put_le 2 (unat (ucast v :: uint16))) (put_at m [0xFD] s))
             else if v \<le> 0xFFFFFFFF then (5, put_at (m + 1) (put_le 4 (unat (ucast v :: uint32))) (put_at m [0xFE] s))
             else (9, put_at (m + 1) (put_le 8 (unat v)) (put_at m [0xFF] s)));
          Some (size, Sink_BackUp (9 - size) s) }"

definition WriteVarBytes :: "bytes \<Rightarrow> ZeroCopySink \<Rightarrow> (nat \<times> ZeroCopySink) option" where
  "WriteVarBytes bs s =
     do { (size, s) \<leftarrow> WriteVarUint (of_nat (length bs)) s;
          s \<leftarrow> WriteBytes bs s;
          Some (size + length bs, s) }"

definition WriteString :: "bytes \<Rightarrow> ZeroCopySink \<Rightarrow> (nat \<times> ZeroCopySink) option" where
  "WriteString bs s = WriteVarBytes bs s"

definition WriteAddress :: "address \<Rightarrow> ZeroCopySink \<Rightarrow> ZeroCopySink option" where
  "WriteAddress a s = WriteBytes a s"

definition WriteHash :: "uint256 \<Rightarrow> ZeroCopySink \<Rightarrow> ZeroCopySink option" where
  "WriteHash h s = WriteBytes h s"

definition WriteInt64 :: "int \<Rightarrow> ZeroCopySink \<Rightarrow> ZeroCopySink option" where
  "WriteInt64 v s = WriteUint64 (word_of_int v) s"

definition WriteInt32 :: "int \<Rightarrow> ZeroCopySink \<Rightarrow> ZeroCopySink option" where
  "WriteInt32 v s = WriteUint32 (word_of_int v) s"

definition WriteInt16 :: "int \<Rightarrow> ZeroCopySink \<Rightarrow> ZeroCopySink option" where
  "WriteInt16 v s = WriteUint16 (word_of_int v) s"

subsection \<open>Every writer appends its encoding\<close>

text \<open>The loop \<open>for _, v := range xs { sink.Write(v) }\<close>.\<close>

primrec write_all :: "('a \<Rightarrow> ZeroCopySink \<Rightarrow> ZeroCopySink option) \<Rightarrow> 'a list \<Rightarrow>
    ZeroCopySink \<Rightarrow> ZeroCopySink option" where
  "write_all wr [] s = Some s"
| "write_all wr (v # vs) s = Option.bind (wr v s) (write_all wr vs)"

locale sink_writer =
  fixes wr :: "'a \<Rightarrow> ZeroCopySink \<Rightarrow> ZeroCopySink option"
    and enc :: "'a \<Rightarrow> bytes"
  assumes appends: "sink_ok s \<Longrightarrow> wr v s = Some s' \<Longrightarrow> Bytes s' = Bytes s @ enc v \<and> sink_ok s'"
begin

lemma write_all_appends:
  "sink_ok s \<Longrightarrow> write_all wr vs s = Some s' \<Longrightarrow>
   Bytes s' = Bytes s @ concat (map enc vs) \<and> sink_ok s'"
proof (induction vs arbitrary: s)
  case (Cons v vs)
  from Cons.prems(2) obtain t where t: "wr v s = Some t" "write_all wr vs t = Some s'"
    by (auto simp: bind_eq_Some_conv)
  from appends [OF Cons.prems(1) t(1)] Cons.IH [OF _ t(2)] show ?case by simp
qed simp

end

lemma NextBytes_SomeD:
  assumes "sink_ok s" and "Sink_NextBytes n s = Some (m, t)"
  shows "m = blen s" and "blen t = blen s + n" and "sink_ok t" and "take m (arr t) = Bytes s"
proof -
  from assms have "m = blen s \<and> blen t = blen s + n \<and> sink_ok t \<and> take m (arr t) = Bytes s"
    by (auto simp: Sink_NextBytes_def grow_def tryGrowByReslice_def Let_def sink_ok_def Bytes_def
        overwrite_def makeSlice_def split: if_splits)
  then show "m = blen s" "blen t = blen s + n" "sink_ok t" "take m (arr t) = Bytes s"
    by blast+
qed

lemma NextBytes_put_at:
  assumes "sink_ok s" and "Sink_NextBytes (length p) s = Some (m, t)"
  shows "Bytes (put_at m p t) = Bytes s @ p \<and> sink_ok (put_at m p t)"
  using NextBytes_SomeD [OF assms]
  by (auto simp: put_at_def Bytes_def sink_ok_def take_overwrite_end)

lemma WriteBytes_appends:
  "sink_ok s \<Longrightarrow> WriteBytes p s = Some s' \<Longrightarrow> Bytes s' = Bytes s @ p \<and> sink_ok s'"
  by (auto simp: WriteBytes_def bind_eq_Some_conv dest: NextBytes_put_at)

lemma put_at_put_at: "sink_ok t \<Longrightarrow> m < blen t \<Longrightarrow>
    put_at (m + 1) q (put_at m [x] t) = put_at m (x # q) t"
  by (simp add: put_at_def overwrite_def sink_ok_def min_def add.commute)

lemma NextBytes_put_at_BackUp:
  assumes "sink_ok s" and "Sink_NextBytes n s = Some (m, t)" and "length p \<le> n"
  shows "Bytes (Sink_BackUp (n - length p) (put_at m p t)) = Bytes s @ p
    \<and> sink_ok (Sink_BackUp (n - length p) (put_at m p t))"
proof -
  note D = NextBytes_SomeD [OF assms(1,2)]
  have "blen s + n - (n - length p) = blen s + length p" using assms(3) by simp
  with D assms(3) show ?thesis
    by (auto simp: put_at_def Bytes_def sink_ok_def Sink_BackUp_def take_overwrite_end)
qed

lemma put_le_mod: "put_le n (v mod 256 ^ n) = put_le n v"
proof (induction n arbitrary: v)
  case (Suc n)
  have "v mod 256 ^ Suc n = v mod 256 + 256 * (v div 256 mod 256 ^ n)"
    by (simp add: mod_mult2_eq)
  then have "v mod 256 ^ Suc n mod 256 = v mod 256" "v mod 256 ^ Suc n div 256 = v div 256 mod 256 ^ n"
    by simp_all
  with Suc show ?case by simp
qed simp

lemma unat_ucast_uint:
  "unat (ucast (v :: uint64) :: uint16) = unat v mod 256 ^ 2"
  "unat (ucast (v :: uint64) :: uint32) = unat v mod 256 ^ 4"
  by (simp_all add: unsigned_ucast_eq take_bit_eq_mod)

lemma put_le_ucast:
  "put_le 2 (unat (ucast (v :: uint64) :: uint16)) = put_le 2 (unat v)"
  "put_le 4 (unat (ucast (v :: uint64) :: uint32)) = put_le 4 (unat v)"
  by (simp_all only: unat_ucast_uint put_le_mod)

lemma WriteVarUint_appends:
  assumes "sink_ok s" and "WriteVarUint v s = Some (sz, s')"
  shows "Bytes s' = Bytes s @ enc_varuint v \<and> sink_ok s' \<and> sz = length (enc_varuint v)"
proof -
  from assms(2) obtain m t where t: "Sink_NextBytes 9 s = Some (m, t)"
    by (auto simp: WriteVarUint_def bind_eq_Some_conv)
  note D = NextBytes_SomeD [OF assms(1) t]
  from D have pp: "put_at (m + 1) q (put_at m [x] t) = put_at m (x # q) t" for q x
    by (intro put_at_put_at) simp_all
  have "length (enc_varuint v) \<le> 9" by (simp add: enc_varuint_def)
  from NextBytes_put_at_BackUp [OF assms(1) t this]
  have "Bytes (Sink_BackUp (9 - length (enc_varuint v)) (put_at m (enc_varuint v) t))
      = Bytes s @ enc_varuint v
    \<and> sink_ok (Sink_BackUp (9 - length (enc_varuint v)) (put_at m (enc_varuint v) t))" .
  moreover have "WriteVarUint v s = Some (length (enc_varuint v),
      Sink_BackUp (9 - length (enc_varuint v)) (put_at m (enc_varuint v) t))"
    unfolding WriteVarUint_def enc_varuint_def t put_le_ucast
    by (cases "v < 0xFD"; cases "v \<le> 0xFFFF"; cases "v \<le> 0xFFFFFFFF")
      (simp_all add: pp [simplified])
  ultimately show ?thesis using assms(2) by simp
qed

lemma WriteVarBytes_appends:
  assumes "sink_ok s" and "WriteVarBytes bs s = Some (sz, s')"
  shows "Bytes s' = Bytes s @ enc_varbytes bs \<and> sink_ok s' \<and> sz = length (enc_varbytes bs)"
proof -
  from assms(2) obtain n t where t: "WriteVarUint (of_nat (length bs)) s = Some (n, t)"
      "WriteBytes bs t = Some s'" "sz = n + length bs"
    by (auto simp: WriteVarBytes_def bind_eq_Some_conv)
  from WriteVarUint_appends [OF assms(1) t(1)] WriteBytes_appends [OF _ t(2)] t(3)
  show ?thesis by (simp add: enc_varbytes_def)
qed

lemma WriteUint8_appends:
  "sink_ok s \<Longrightarrow> WriteUint8 v s = Some s' \<Longrightarrow> Bytes s' = Bytes s @ [v] \<and> sink_ok s'"
  using NextBytes_put_at [of s "[v]"] by (auto simp: WriteUint8_def bind_eq_Some_conv)

lemma put_le_appends:
  "sink_ok s \<Longrightarrow> Sink_NextBytes n s = Some (m, t) \<Longrightarrow>
   Bytes (put_at m (put_le n v) t) = Bytes s @ put_le n v \<and> sink_ok (put_at m (put_le n v) t)"
  using NextBytes_put_at [of s "put_le n v"] by simp

interpretation wr_uint8: sink_writer WriteUint8 enc_uint8
  by unfold_locales (simp add: WriteUint8_appends enc_uint8_def)

interpretation wr_bool: sink_writer WriteBool enc_bool
  by unfold_locales (auto simp: WriteBool_def WriteByte_def enc_bool_def WriteUint8_appends
      split: if_splits)

interpretation wr_uint16: sink_writer WriteUint16 enc_uint16
  by unfold_locales (auto simp: WriteUint16_def enc_uint16_def bind_eq_Some_conv put_le_appends)

interpretation wr_uint32: sink_writer WriteUint32 enc_uint32
  by unfold_locales (auto simp: WriteUint32_def enc_uint32_def bind_eq_Some_conv put_le_appends)

interpretation wr_uint64: sink_writer WriteUint64 enc_uint64
  by unfold_locales (auto simp: WriteUint64_def enc_uint64_def bind_eq_Some_conv put_le_appends)

interpretation wr_bytes: sink_writer WriteBytes "\<lambda>bs. bs"
  by unfold_locales (rule WriteBytes_appends)

interpretation wr_varuint: sink_writer "\<lambda>v s. map_option snd (WriteVarUint v s)" enc_varuint
  by unfold_locales (auto dest: WriteVarUint_appends)

interpretation wr_varbytes: sink_writer "\<lambda>v s. map_option snd (WriteVarBytes v s)" enc_varbytes
  by unfold_locales (auto dest: WriteVarBytes_appends)

text \<open>A write panics only when the array would have to grow beyond the largest \<open>int\<close>.\<close>

lemma NextBytes_total:
  assumes "int (2 * length (arr s) + n) \<le> maxInt"
  shows "\<exists>m t. Sink_NextBytes n s = Some (m, t)"
  using assms by (auto simp: Sink_NextBytes_def grow_def tryGrowByReslice_def Let_def)

end
