(* ===== verification/Zero_Source.thy ===== *)
theory Zero_Source
  imports Zero_Copy
begin

text \<open>
  \<open>common/zero_copy_source.go\<close>: reading the wire format back.  A read returns its value and the
  end-of-file flag, and moves the 64-bit offset.  \<open>ok_read\<close> is the idiom
  \<open>v, eof := source.NextX(); if eof { return err }\<close>.  The locale \<open>codec\<close> is the contract every
  \<open>Serialization\<close>/\<open>Deserialization\<close> pair of the repository is proved to satisfy: reading back what was
  written returns the value and stops right behind it, and a read looks at nothing beyond what it
  consumes.  Injectivity, freedom from prefixes and rejection of truncated input follow once, inside
  the locale.
\<close>

section \<open>The source\<close>

record ZeroCopySource =
  sbuf :: bytes
  off :: uint64

definition Source_Len :: "ZeroCopySource \<Rightarrow> uint64" where
  "Source_Len src =
     (let len = of_nat (length (sbuf src)) in if off src \<ge> len then 0 else len - off src)"

definition Source_Pos :: "ZeroCopySource \<Rightarrow> uint64" where
  "Source_Pos src = off src"

definition Source_Size :: "ZeroCopySource \<Rightarrow> uint64" where
  "Source_Size src = of_nat (length (sbuf src))"

definition OffBytes :: "ZeroCopySource \<Rightarrow> bytes" where
  "OffBytes src = drop (unat (off src)) (sbuf src)"

definition NewZeroCopySource :: "bytes \<Rightarrow> ZeroCopySource" where
  "NewZeroCopySource b = \<lparr>sbuf = b, off = 0\<rparr>"

definition NextBytes :: "uint64 \<Rightarrow> ZeroCopySource \<Rightarrow> (bytes \<times> bool) \<times> ZeroCopySource" where
  "NextBytes n src =
     (let m = of_nat (length (sbuf src));
          (end, overflow) = SafeAdd (off src) n;
          (end, eof) = (if overflow \<or> end > m then (m, True) else (end, False))
      in ((slice (sbuf src) (unat (off src)) (unat end), eof), src\<lparr>off := end\<rparr>))"

definition Skip :: "uint64 \<Rightarrow> ZeroCopySource \<Rightarrow> bool \<times> ZeroCopySource" where
  "Skip n src =
     (let m = of_nat (length (sbuf src));
          (end, overflow) = SafeAdd (off src) n;
          (end, eof) = (if overflow \<or> end > m then (m, True) else (end, False))
      in (eof, src\<lparr>off := end\<rparr>))"

definition NextByte :: "ZeroCopySource \<Rightarrow> (byte \<times> bool) \<times> ZeroCopySource" where
  "NextByte src =
     (if off src \<ge> of_nat (length (sbuf src)) then ((0, True), src)
      else ((sbuf src ! unat (off src), False), src\<lparr>off := off src + 1\<rparr>))"

definition NextUint8 :: "ZeroCopySource \<Rightarrow> (byte \<times> bool) \<times> ZeroCopySource" where
  "NextUint8 src = NextByte src"

definition NextBool :: "ZeroCopySource \<Rightarrow> (bool \<times> bool) \<times> ZeroCopySource" where
  "NextBool src =
     (let ((val, eof), src) = NextByte src
      in ((if val = 0 then (False, eof) else if val = 1 then (True, eof) else (False, True)), src))"

definition Source_BackUp :: "uint64 \<Rightarrow> ZeroCopySource \<Rightarrow> ZeroCopySource" where
  "Source_BackUp n src = src\<lparr>off := off src - n\<rparr>"

definition NextUint16 :: "ZeroCopySource \<Rightarrow> (uint16 \<times> bool) \<times> ZeroCopySource" where
  "NextUint16 src =
     (let ((buf, eof), src) = NextBytes 2 src
      in (if eof then (0, eof) else (of_nat (get_le buf), eof), src))"

definition NextUint32 :: "ZeroCopySource \<Rightarrow> (uint32 \<times> bool) \<times> ZeroCopySource" where
  "NextUint32 src =
     (let ((buf, eof), src) = NextBytes 4 src
      in (if eof then (0, eof) else (of_nat (get_le buf), eof), src))"

definition NextUint64 :: "ZeroCopySource \<Rightarrow> (uint64 \<times> bool) \<times> ZeroCopySource" where
  "NextUint64 src =
     (let ((buf, eof), src) = NextBytes 8 src
      in (if eof then (0, eof) else (of_nat (get_le buf), eof), src))"

definition NextInt32 :: "ZeroCopySource \<Rightarrow> (int \<times> bool) \<times> ZeroCopySource" where
  "NextInt32 src = (let ((val, eof), src) = NextUint32 src in ((sint val, eof), src))"

definition NextInt64 :: "ZeroCopySource \<Rightarrow> (int \<times> bool) \<times> ZeroCopySource" where
  "NextInt64 src = (let ((val, eof), src) = NextUint64 src in ((sint val, eof), src))"

definition NextInt16 :: "ZeroCopySource \<Rightarrow> (int \<times> bool) \<times> ZeroCopySource" where
  "NextInt16 src = (let ((val, eof), src) = NextUint16 src in ((sint val, eof), src))"

definition NextVarUint :: "ZeroCopySource \<Rightarrow> (uint64 \<times> bool) \<times> ZeroCopySource" where
  "NextVarUint src =
     (let ((fb, eof), src) = NextByte src in
      if eof then ((0, eof), src)
      else if fb = 0xFD then
        (let ((val, e), src) = NextUint16 src in ((if e then (0, e) else (ucast val, eof)), src))
      else if fb = 0xFE then
        (let ((val, e), src) = NextUint32 src in ((if e then (0, e) else (ucast val, eof)), src))
      else if fb = 0xFF then
        (let ((val, e), src) = NextUint64 src in ((if e then (0, e) else (val, eof)), src))
      else ((ucast fb, eof), src))"

definition NextVarBytes :: "ZeroCopySource \<Rightarrow> (bytes \<times> bool) \<times> ZeroCopySource" where
  "NextVarBytes src =
     (let ((count, eof), src) = NextVarUint src
      in if eof then (([], eof), src) else NextBytes count src)"

definition NextString :: "ZeroCopySource \<Rightarrow> (bytes \<times> bool) \<times> ZeroCopySource" where
  "NextString src = NextVarBytes src"

text \<open>On end of file the fixed arrays keep their zero value.\<close>

definition NextAddress :: "ZeroCopySource \<Rightarrow> (address \<times> bool) \<times> ZeroCopySource" where
  "NextAddress src =
     (let ((buf, eof), src) = NextBytes (of_nat ADDR_LEN) src
      in ((if eof then (ADDRESS_EMPTY, eof) else (buf, eof)), src))"

definition NextHash :: "ZeroCopySource \<Rightarrow> (uint256 \<times> bool) \<times> ZeroCopySource" where
  "NextHash src =
     (let ((buf, eof), src) = NextBytes (of_nat UINT256_SIZE) src
      in ((if eof then (replicate UINT256_SIZE 0, eof) else (buf, eof)), src))"

definition AddressParseFromBytes :: "bytes \<Rightarrow> address option" where
  "AddressParseFromBytes f = (if length f \<noteq> ADDR_LEN then None else Some f)"

definition Uint256ParseFromBytes :: "bytes \<Rightarrow> uint256 option" where
  "Uint256ParseFromBytes f = (if length f \<noteq> UINT256_SIZE then None else Some f)"

text \<open>\<open>v, eof := source.NextX(); if eof { return err }\<close>\<close>

definition ok_read :: "(ZeroCopySource \<Rightarrow> ('a \<times> bool) \<times> ZeroCopySource) \<Rightarrow>
    ZeroCopySource \<Rightarrow> ('a \<times> ZeroCopySource) option" where
  "ok_read r src = (case r src of ((v, eof), src') \<Rightarrow> if eof then None else Some (v, src'))"

text \<open>The idiom that reads an address as variable-length bytes and parses it.\<close>

definition read_addr :: "ZeroCopySource \<Rightarrow> (address \<times> ZeroCopySource) option" where
  "read_addr src =
     do { (address, src) \<leftarrow> ok_read NextVarBytes src;
          addr \<leftarrow> AddressParseFromBytes address;
          Some (addr, src) }"

text \<open>The loop \<open>for i := 0; uint64(i) < n; i++ { read; append }\<close>.\<close>

primrec read_list :: "(ZeroCopySource \<Rightarrow> ('a \<times> ZeroCopySource) option) \<Rightarrow> nat \<Rightarrow>
    ZeroCopySource \<Rightarrow> ('a list \<times> ZeroCopySource) option" where
  "read_list rd 0 src = Some ([], src)"
| "read_list rd (Suc n) src =
     do { (x, src) \<leftarrow> rd src; (xs, src) \<leftarrow> read_list rd n src; Some (x # xs, src) }"

section \<open>A source at a position\<close>

text \<open>\<open>src_at pre rest\<close> has read \<open>pre\<close> and still holds \<open>rest\<close>.\<close>

definition src_at :: "bytes \<Rightarrow> bytes \<Rightarrow> ZeroCopySource" where
  "src_at pre rest = \<lparr>sbuf = pre @ rest, off = of_nat (length pre)\<rparr>"

abbreviation fits :: "bytes \<Rightarrow> bool" where
  "fits xs \<equiv> length xs < 2 ^ 63"

lemma NewZeroCopySource_at: "NewZeroCopySource b = src_at [] b"
  by (simp add: NewZeroCopySource_def src_at_def)

lemma unat_of_nat_fits: "n < 2 ^ 63 \<Longrightarrow> unat (of_nat n :: uint64) = n"
  by (simp add: unat_of_nat)

lemma unat64_less: "unat (x :: uint64) < 2 ^ 64"
  using unsigned_less [of x] by simp

lemma unat_minus_one_diff: "unat (- 1 - x :: uint64) = 2 ^ 64 - 1 - unat x"
proof -
  have "unat (- 1 :: uint64) = 2 ^ 64 - 1"
    by (simp add: unsigned_minus_1_eq_mask mask_eq_exp_minus_1)
  then show ?thesis using unat_sub [of x "- 1"] by simp
qed

lemma SafeAdd_no_overflow:
  assumes "unat x + unat y < 2 ^ 64"
  shows "SafeAdd x y = (x + y, False)"
  using assms by (simp add: SafeAdd_def word_less_nat_alt unat_minus_one_diff)

lemma SafeAdd_overflow:
  assumes "2 ^ 64 \<le> unat x + unat y"
  shows "snd (SafeAdd x y)"
  using assms unat64_less [of x] unat64_less [of y] by (simp add: SafeAdd_def word_less_nat_alt unat_minus_one_diff)

lemma NextBytes_ok:
  assumes "fits (pre @ xs @ rest)" and "unat n = length xs"
  shows "NextBytes n (src_at pre (xs @ rest)) = ((xs, False), src_at (pre @ xs) rest)"
proof -
  let ?p = "of_nat (length pre) :: uint64" and ?m = "of_nat (length (pre @ xs @ rest)) :: uint64"
  have u: "unat ?p = length pre" "unat ?m = length (pre @ xs @ rest)"
    by (rule unat_of_nat_fits, use assms(1) in simp)+
  from u assms have lt: "unat ?p + unat n < 2 ^ 64" by simp
  then have end_eq: "unat (?p + n) = length pre + length xs"
    using u assms(2) by (simp add: unat_word_ariths)
  have n: "n = of_nat (length xs)" by (simp flip: assms(2))
  from u end_eq have "\<not> ?p + n > ?m" by (simp add: word_less_nat_alt)
  with SafeAdd_no_overflow [OF lt] u end_eq show ?thesis
    by (simp add: NextBytes_def src_at_def slice_def n)
qed

lemma NextBytes_short:
  assumes "fits (pre @ rest)" and "length rest < unat n"
  shows "NextBytes n (src_at pre rest) = ((rest, True), src_at (pre @ rest) [])"
proof -
  let ?p = "of_nat (length pre) :: uint64" and ?m = "of_nat (length (pre @ rest)) :: uint64"
  have u: "unat ?p = length pre" "unat ?m = length (pre @ rest)"
    by (rule unat_of_nat_fits, use assms(1) in simp)+
  show ?thesis
  proof (cases "unat ?p + unat n < 2 ^ 64")
    case True
    then have "unat (?p + n) = length pre + unat n"
      using u by (simp add: unat_word_ariths)
    then have "?m < ?p + n" using u assms(2) by (simp add: word_less_nat_alt)
    with SafeAdd_no_overflow [OF True] u show ?thesis
      by (simp add: NextBytes_def src_at_def slice_def)
  next
    case False
    then obtain e where "SafeAdd ?p n = (e, True)"
      using SafeAdd_overflow [of ?p n] by (metis not_less prod.collapse)
    with u show ?thesis
      by (simp add: NextBytes_def src_at_def slice_def)
  qed
qed

lemma NextByte_ok:
  assumes "fits (pre @ b # rest)"
  shows "NextByte (src_at pre (b # rest)) = ((b, False), src_at (pre @ [b]) rest)"
proof -
  let ?p = "of_nat (length pre) :: uint64" and ?m = "of_nat (length (pre @ b # rest)) :: uint64"
  have u: "unat ?p = length pre" "unat ?m = length (pre @ b # rest)"
    by (rule unat_of_nat_fits, use assms in simp)+
  then have "\<not> ?m \<le> ?p" by (simp add: word_le_nat_alt)
  with u show ?thesis by (simp add: NextByte_def src_at_def)
qed

lemma NextByte_short: "NextByte (src_at pre []) = ((0, True), src_at pre [])"
  by (simp add: NextByte_def src_at_def)

section \<open>Readers that look only at what they consume\<close>

definition rd_local :: "(ZeroCopySource \<Rightarrow> ('a \<times> ZeroCopySource) option) \<Rightarrow> bool" where
  "rd_local rd \<longleftrightarrow>
     (\<forall>pre rest x s'. fits (pre @ rest) \<longrightarrow> rd (src_at pre rest) = Some (x, s') \<longrightarrow>
        (\<exists>ys zs. rest = ys @ zs \<and> s' = src_at (pre @ ys) zs \<and>
           (\<forall>more. fits (pre @ ys @ more) \<longrightarrow>
              rd (src_at pre (ys @ more)) = Some (x, src_at (pre @ ys) more))))"

named_theorems rd_rules \<open>readers composed of local readers are local\<close>

lemma rd_localE:
  assumes "rd_local rd" and "fits (pre @ rest)" and "rd (src_at pre rest) = Some (x, s')"
  obtains ys zs where "rest = ys @ zs" and "s' = src_at (pre @ ys) zs"
    and "\<And>more. fits (pre @ ys @ more) \<Longrightarrow> rd (src_at pre (ys @ more)) = Some (x, src_at (pre @ ys) more)"
  using assms unfolding rd_local_def by blast

lemma rd_localI:
  assumes "\<And>pre rest x s'. fits (pre @ rest) \<Longrightarrow> rd (src_at pre rest) = Some (x, s') \<Longrightarrow>
    \<exists>ys zs. rest = ys @ zs \<and> s' = src_at (pre @ ys) zs \<and>
      (\<forall>more. fits (pre @ ys @ more) \<longrightarrow> rd (src_at pre (ys @ more)) = Some (x, src_at (pre @ ys) more))"
  shows "rd_local rd"
  using assms unfolding rd_local_def by blast

lemma rd_local_return [rd_rules]: "rd_local (\<lambda>s. Some (x, s))"
  by (rule rd_localI) (rule exI [of _ "[]"], simp)

lemma rd_local_fail [rd_rules]: "rd_local (\<lambda>s. None)"
  by (rule rd_localI) simp

lemma rd_local_bind [rd_rules]:
  assumes f: "rd_local f" and g: "\<And>x. rd_local (g x)"
  shows "rd_local (\<lambda>s. Option.bind (f s) (\<lambda>(x, s). g x s))"
proof (rule rd_localI)
  fix pre rest y s'
  assume fit: "fits (pre @ rest)"
    and r: "Option.bind (f (src_at pre rest)) (\<lambda>(x, s). g x s) = Some (y, s')"
  then obtain x s1 where f1: "f (src_at pre rest) = Some (x, s1)" and g1: "g x s1 = Some (y, s')"
    by (auto simp: bind_eq_Some_conv)
  from rd_localE [OF f fit f1] obtain ys zs where yz: "rest = ys @ zs" "s1 = src_at (pre @ ys) zs"
    and fm: "\<And>more. fits (pre @ ys @ more) \<Longrightarrow> f (src_at pre (ys @ more)) = Some (x, src_at (pre @ ys) more)"
    by metis
  from fit yz have "fits ((pre @ ys) @ zs)" by simp
  from rd_localE [OF g this g1 [unfolded yz(2)]] obtain us vs
    where uv: "zs = us @ vs" "s' = src_at ((pre @ ys) @ us) vs"
    and gm: "\<And>more. fits ((pre @ ys) @ us @ more) \<Longrightarrow>
      g x (src_at (pre @ ys) (us @ more)) = Some (y, src_at ((pre @ ys) @ us) more)"
    by metis
  show "\<exists>ys zs. rest = ys @ zs \<and> s' = src_at (pre @ ys) zs \<and>
      (\<forall>more. fits (pre @ ys @ more) \<longrightarrow>
        Option.bind (f (src_at pre (ys @ more))) (\<lambda>(x, s). g x s) = Some (y, src_at (pre @ ys) more))"
    using yz uv fm gm by (intro exI [of _ "ys @ us"] exI [of _ vs]) simp
qed

lemma rd_local_bind_opt [rd_rules]:
  assumes "\<And>x. rd_local (g x)"
  shows "rd_local (\<lambda>s. Option.bind m (\<lambda>x. g x s))"
  using assms by (cases m) (auto intro: rd_rules)

lemma rd_local_if [rd_rules]: "rd_local f \<Longrightarrow> rd_local g \<Longrightarrow> rd_local (\<lambda>s. if c then f s else g s)"
  by (cases c) simp_all

lemma rd_local_read_list [rd_rules]:
  assumes "rd_local rd"
  shows "rd_local (read_list rd n)"
proof (induction n)
  case 0
  then show ?case using rd_local_return [of "[]"] by simp
next
  case (Suc n)
  have "rd_local (\<lambda>s. Option.bind (rd s) (\<lambda>(x, s).
      Option.bind (read_list rd n s) (\<lambda>(xs, s). Some (x # xs, s))))"
    by (rule rd_local_bind [OF assms]) (rule rd_local_bind [OF Suc], rule rd_local_return)
  then show ?case by (simp add: fun_eq_iff [symmetric])
qed

lemma rd_local_NextBytes [rd_rules]: "rd_local (ok_read (NextBytes n))"
proof (rule rd_localI)
  fix pre rest x s'
  assume fit: "fits (pre @ rest)" and r: "ok_read (NextBytes n) (src_at pre rest) = Some (x, s')"
  have "unat n \<le> length rest"
    using NextBytes_short [OF fit, of n] r by (fastforce simp: ok_read_def not_less [symmetric])
  then have len: "length (take (unat n) rest) = unat n" by simp
  have nb: "fits (pre @ take (unat n) rest @ more) \<Longrightarrow>
      ok_read (NextBytes n) (src_at pre (take (unat n) rest @ more))
        = Some (take (unat n) rest, src_at (pre @ take (unat n) rest) more)" for more
    using NextBytes_ok [of pre "take (unat n) rest" more n] len by (simp add: ok_read_def)
  from nb [of "drop (unat n) rest"] fit r
  have "x = take (unat n) rest" "s' = src_at (pre @ take (unat n) rest) (drop (unat n) rest)"
    by simp_all
  then show "\<exists>ys zs. rest = ys @ zs \<and> s' = src_at (pre @ ys) zs \<and>
      (\<forall>more. fits (pre @ ys @ more) \<longrightarrow>
        ok_read (NextBytes n) (src_at pre (ys @ more)) = Some (x, src_at (pre @ ys) more))"
    using nb by (intro exI [of _ "take (unat n) rest"] exI [of _ "drop (unat n) rest"]) simp
qed

lemma rd_local_NextByte [rd_rules]: "rd_local (ok_read NextByte)"
proof (rule rd_localI)
  fix pre rest x s'
  assume fit: "fits (pre @ rest)" and r: "ok_read NextByte (src_at pre rest) = Some (x, s')"
  then obtain b zs where rest: "rest = b # zs"
    by (cases rest) (auto simp: ok_read_def NextByte_short)
  have nb: "fits (pre @ [b] @ more) \<Longrightarrow>
      ok_read NextByte (src_at pre ([b] @ more)) = Some (b, src_at (pre @ [b]) more)" for more
    by (simp add: ok_read_def NextByte_ok)
  from nb [of zs] fit r rest have "x = b" "s' = src_at (pre @ [b]) zs" by auto
  then show "\<exists>ys zs. rest = ys @ zs \<and> s' = src_at (pre @ ys) zs \<and>
      (\<forall>more. fits (pre @ ys @ more) \<longrightarrow>
        ok_read NextByte (src_at pre (ys @ more)) = Some (x, src_at (pre @ ys) more))"
    using nb rest by (intro exI [of _ "[b]"] exI [of _ zs]) simp
qed

section \<open>The codec contract\<close>

locale codec =
  fixes ser :: "'a \<Rightarrow> bytes"
    and deser :: "ZeroCopySource \<Rightarrow> ('a \<times> ZeroCopySource) option"
    and wf :: "'a \<Rightarrow> bool"
  assumes roundtrip: "wf x \<Longrightarrow> fits (pre @ ser x @ rest) \<Longrightarrow>
      deser (src_at pre (ser x @ rest)) = Some (x, src_at (pre @ ser x) rest)"
    and local_read: "rd_local deser"
begin

lemma decode_encode:
  assumes "wf x" and "fits (ser x)"
  shows "deser (NewZeroCopySource (ser x)) = Some (x, src_at (ser x) [])"
  using roundtrip [of x "[]" "[]"] assms by (simp add: NewZeroCopySource_at)

text \<open>No encoding is a prefix of another one.\<close>

lemma prefix_free:
  assumes "wf x" and "wf y" and "ser x @ us = ser y @ vs" and "fits (ser x @ us)"
  shows "x = y"
  using roundtrip [of x "[]" us] roundtrip [of y "[]" vs] assms by simp

lemma ser_inject: "wf x \<Longrightarrow> wf y \<Longrightarrow> fits (ser x) \<Longrightarrow> ser x = ser y \<Longrightarrow> x = y"
  using prefix_free [of x y "[]" "[]"] by simp

text \<open>An encoding cut short is rejected.\<close>

lemma truncated_rejected:
  assumes "wf x" and "ser x = p @ q" and "q \<noteq> []" and "fits (pre @ ser x)"
  shows "deser (src_at pre p) = None"
proof (rule ccontr)
  assume "deser (src_at pre p) \<noteq> None"
  then obtain y s' where d: "deser (src_at pre p) = Some (y, s')" by auto
  have "fits (pre @ p)" using assms by simp
  from rd_localE [OF local_read this d] obtain ys zs where p: "p = ys @ zs"
    and m: "\<And>more. fits (pre @ ys @ more) \<Longrightarrow>
      deser (src_at pre (ys @ more)) = Some (y, src_at (pre @ ys) more)"
    by metis
  from m [of "zs @ q"] assms p
  have "deser (src_at pre (ser x)) = Some (y, src_at (pre @ ys) (zs @ q))" by simp
  moreover have "deser (src_at pre (ser x)) = Some (x, src_at (pre @ ser x) [])"
    using roundtrip [of x pre "[]"] assms by simp
  ultimately have "src_at (pre @ ys) (zs @ q) = src_at (pre @ ser x) []" by auto
  then have "of_nat (length (pre @ ys)) = (of_nat (length (pre @ ser x)) :: uint64)"
    unfolding src_at_def by simp
  moreover have "length (pre @ ys) < 2 ^ 63" "length (pre @ ser x) < 2 ^ 63"
    using assms p by simp_all
  ultimately have "length (pre @ ys) = length (pre @ ser x)"
    by (metis unat_of_nat_fits)
  then show False using assms(2,3) p by simp
qed

text \<open>A counted sequence of items is read back by the counting loop.\<close>

lemma list_roundtrip:
  "\<forall>x\<in>set xs. wf x \<Longrightarrow> fits (pre @ concat (map ser xs) @ rest) \<Longrightarrow>
   read_list deser (length xs) (src_at pre (concat (map ser xs) @ rest))
     = Some (xs, src_at (pre @ concat (map ser xs)) rest)"
proof (induction xs arbitrary: pre)
  case (Cons x xs)
  have "deser (src_at pre (ser x @ concat (map ser xs) @ rest))
      = Some (x, src_at (pre @ ser x) (concat (map ser xs) @ rest))"
    using Cons.prems by (intro roundtrip) simp_all
  moreover have "read_list deser (length xs) (src_at (pre @ ser x) (concat (map ser xs) @ rest))
      = Some (xs, src_at ((pre @ ser x) @ concat (map ser xs)) rest)"
    using Cons.prems by (intro Cons.IH) simp_all
  ultimately show ?case by simp
qed simp

end

subsection \<open>The basic items satisfy it\<close>

lemma get_le_word:
  "of_nat (get_le (put_le 2 (unat (v :: uint16)))) = v"
  "of_nat (get_le (put_le 4 (unat (w :: uint32)))) = w"
  "of_nat (get_le (put_le 8 (unat (x :: uint64)))) = x"
proof -
  have "unat v < 2 ^ 16" "unat w < 2 ^ 32" using unsigned_less [of v] unsigned_less [of w] by simp_all
  then show "of_nat (get_le (put_le 2 (unat v))) = v" "of_nat (get_le (put_le 4 (unat w))) = w"
    "of_nat (get_le (put_le 8 (unat x))) = x"
    using unat64_less [of x] by (simp_all add: get_le_put_le)
qed

lemma ok_read_uint_eq:
  "ok_read NextUint16 = (\<lambda>s. Option.bind (ok_read (NextBytes 2) s) (\<lambda>(b, s). Some (of_nat (get_le b), s)))"
  "ok_read NextUint32 = (\<lambda>s. Option.bind (ok_read (NextBytes 4) s) (\<lambda>(b, s). Some (of_nat (get_le b), s)))"
  "ok_read NextUint64 = (\<lambda>s. Option.bind (ok_read (NextBytes 8) s) (\<lambda>(b, s). Some (of_nat (get_le b), s)))"
  by (auto simp: fun_eq_iff ok_read_def NextUint16_def NextUint32_def NextUint64_def
      split: prod.splits)

lemma ok_read_NextBytes [codec_simps]:
  "fits (pre @ xs @ rest) \<Longrightarrow> unat n = length xs \<Longrightarrow>
   ok_read (NextBytes n) (src_at pre (xs @ rest)) = Some (xs, src_at (pre @ xs) rest)"
  by (simp add: ok_read_def NextBytes_ok)

lemma ok_read_NextByte [codec_simps]:
  "fits (pre @ b # rest) \<Longrightarrow> ok_read NextByte (src_at pre (b # rest)) = Some (b, src_at (pre @ [b]) rest)"
  by (simp add: ok_read_def NextByte_ok)

lemma NextUint8_eq: "ok_read NextUint8 = ok_read NextByte"
  by (simp add: fun_eq_iff ok_read_def NextUint8_def)

interpretation rd_uint8: codec enc_uint8 "ok_read NextUint8" "\<lambda>_. True"
  unfolding NextUint8_eq by unfold_locales (simp_all add: enc_uint8_def codec_simps rd_rules)

interpretation rd_uint16: codec enc_uint16 "ok_read NextUint16" "\<lambda>_. True"
  unfolding ok_read_uint_eq
  by unfold_locales (simp add: enc_uint16_def codec_simps get_le_word, intro rd_rules)

interpretation rd_uint32: codec enc_uint32 "ok_read NextUint32" "\<lambda>_. True"
  unfolding ok_read_uint_eq
  by unfold_locales (simp add: enc_uint32_def codec_simps get_le_word, intro rd_rules)

interpretation rd_uint64: codec enc_uint64 "ok_read NextUint64" "\<lambda>_. True"
  unfolding ok_read_uint_eq
  by unfold_locales (simp add: enc_uint64_def codec_simps get_le_word, intro rd_rules)

lemma ok_read_NextBool_eq:
  "ok_read NextBool = (\<lambda>s. Option.bind (ok_read NextByte s) (\<lambda>(b, s).
     if b = 0 then Some (False, s) else if b = 1 then Some (True, s) else None))"
  by (auto simp: fun_eq_iff ok_read_def NextBool_def split: prod.splits)

interpretation rd_bool: codec enc_bool "ok_read NextBool" "\<lambda>_. True"
  unfolding ok_read_NextBool_eq
  by unfold_locales (force simp: enc_bool_def codec_simps, intro rd_rules)

lemmas [codec_simps] = rd_uint8.roundtrip rd_uint16.roundtrip rd_uint32.roundtrip
  rd_uint64.roundtrip rd_bool.roundtrip
lemmas [rd_rules] = rd_uint8.local_read rd_uint16.local_read rd_uint32.local_read
  rd_uint64.local_read rd_bool.local_read

lemma ok_read_NextVarUint_eq:
  "ok_read NextVarUint = (\<lambda>s. Option.bind (ok_read NextByte s) (\<lambda>(fb, s).
     if fb = 0xFD then Option.bind (ok_read NextUint16 s) (\<lambda>(v, s). Some (ucast v, s))
     else if fb = 0xFE then Option.bind (ok_read NextUint32 s) (\<lambda>(v, s). Some (ucast v, s))
     else if fb = 0xFF then Option.bind (ok_read NextUint64 s) (\<lambda>(v, s). Some (v, s))
     else Some (ucast fb, s)))"
  by (auto simp: fun_eq_iff ok_read_def NextVarUint_def split: prod.splits)

text \<open>The writer's four ranges, each with the fixed-size item that follows the marker.\<close>

lemma enc_varuint_cases:
  obtains (one) b where "enc_varuint v = [b]" "ucast b = v" "b \<noteq> 0xFD" "b \<noteq> 0xFE" "b \<noteq> 0xFF"
  | (two) w where "enc_varuint v = 0xFD # enc_uint16 w" "ucast w = v"
  | (four) w where "enc_varuint v = 0xFE # enc_uint32 w" "ucast w = v"
  | (eight) "enc_varuint v = 0xFF # enc_uint64 v"
proof -
  consider "unat v < 253" | "253 \<le> unat v" "unat v < 2 ^ 16" | "2 ^ 16 \<le> unat v" "unat v < 2 ^ 32"
    | "2 ^ 32 \<le> unat v"
    by linarith
  then show thesis
  proof cases
    case 1
    then have u: "unat (ucast v :: byte) = unat v" by (simp add: unat_ucast_mod)
    have "ucast (ucast v :: byte) = v" by (rule ucast_ucast_small) (use 1 in simp_all)
    moreover have "(ucast v :: byte) \<noteq> 0xFD" "(ucast v :: byte) \<noteq> 0xFE" "(ucast v :: byte) \<noteq> 0xFF"
      using 1 u by (simp_all only: word_unat_eq_iff) simp_all
    ultimately show ?thesis using 1
      by (intro one [of "ucast v"]) (simp_all add: enc_varuint_def word_less_nat_alt)
  next
    case 2
    then have "unat (ucast v :: uint16) = unat v" by (simp add: unat_ucast_mod)
    moreover have "ucast (ucast v :: uint16) = v" by (rule ucast_ucast_small) (use 2 in simp_all)
    ultimately show ?thesis using 2
      by (intro two [of "ucast v"])
        (simp_all add: enc_varuint_def enc_uint16_def word_less_nat_alt word_le_nat_alt)
  next
    case 3
    then have "unat (ucast v :: uint32) = unat v" by (simp add: unat_ucast_mod)
    moreover have "ucast (ucast v :: uint32) = v" by (rule ucast_ucast_small) (use 3 in simp_all)
    ultimately show ?thesis using 3
      by (intro four [of "ucast v"])
        (simp_all add: enc_varuint_def enc_uint32_def word_less_nat_alt word_le_nat_alt)
  next
    case 4
    then show ?thesis
      by (intro eight) (simp_all add: enc_varuint_def enc_uint64_def word_less_nat_alt word_le_nat_alt)
  qed
qed

interpretation rd_varuint: codec enc_varuint "ok_read NextVarUint" "\<lambda>_. True"
proof
  fix v pre rest assume f: "fits (pre @ enc_varuint v @ rest)"
  show "ok_read NextVarUint (src_at pre (enc_varuint v @ rest)) = Some (v, src_at (pre @ enc_varuint v) rest)"
    by (rule enc_varuint_cases [of v]; use f in \<open>simp add: ok_read_NextVarUint_eq codec_simps\<close>)
next
  show "rd_local (ok_read NextVarUint)"
    unfolding ok_read_NextVarUint_eq by (intro rd_rules)
qed

lemmas [codec_simps] = rd_varuint.roundtrip
lemmas [rd_rules] = rd_varuint.local_read

lemma ok_read_NextVarBytes_eq:
  "ok_read NextVarBytes = (\<lambda>s. Option.bind (ok_read NextVarUint s) (\<lambda>(n, s). ok_read (NextBytes n) s))"
  by (auto simp: fun_eq_iff ok_read_def NextVarBytes_def split: prod.splits)

interpretation rd_varbytes: codec enc_varbytes "ok_read NextVarBytes" "\<lambda>b. fits b"
  unfolding ok_read_NextVarBytes_eq
  by unfold_locales (simp add: enc_varbytes_def codec_simps unat_of_nat, intro rd_rules)

lemmas [codec_simps] = rd_varbytes.roundtrip
lemmas [rd_rules] = rd_varbytes.local_read

lemma NextString_eq: "ok_read NextString = ok_read NextVarBytes"
  by (simp add: fun_eq_iff ok_read_def NextString_def)

interpretation rd_string: codec enc_varbytes "ok_read NextString" "\<lambda>b. fits b"
  unfolding NextString_eq by (rule rd_varbytes.codec_axioms)

lemma ok_read_array_eq:
  "ok_read NextAddress = ok_read (NextBytes 20)" "ok_read NextHash = ok_read (NextBytes 32)"
  by (auto simp: fun_eq_iff ok_read_def NextAddress_def NextHash_def size_defs split: prod.splits)

interpretation rd_address: codec "\<lambda>a. a" "ok_read NextAddress" "\<lambda>a. length a = ADDR_LEN"
  unfolding ok_read_array_eq
  by unfold_locales (simp add: codec_simps size_defs, intro rd_rules)

interpretation rd_hash: codec "\<lambda>h. h" "ok_read NextHash" "\<lambda>h. length h = UINT256_SIZE"
  unfolding ok_read_array_eq
  by unfold_locales (simp add: codec_simps size_defs, intro rd_rules)

interpretation rd_addr: codec enc_varbytes read_addr "\<lambda>a. length a = ADDR_LEN"
  unfolding read_addr_def
  by unfold_locales (simp add: codec_simps AddressParseFromBytes_def size_defs, intro rd_rules)

lemmas [codec_simps] = rd_string.roundtrip rd_address.roundtrip rd_hash.roundtrip rd_addr.roundtrip
lemmas [rd_rules] = rd_string.local_read rd_address.local_read rd_hash.local_read rd_addr.local_read

text \<open>A reader returns items of the declared sizes only.\<close>

lemma NextBytes_length:
  assumes "ok_read (NextBytes n) (src_at pre rest) = Some (x, s')" and "fits (pre @ rest)"
  shows "length x = unat n"
proof -
  have le: "unat n \<le> length rest"
    using NextBytes_short [OF assms(2), of n] assms(1) by (fastforce simp: ok_read_def not_less [symmetric])
  then have "ok_read (NextBytes n) (src_at pre (take (unat n) rest @ drop (unat n) rest))
      = Some (take (unat n) rest, src_at (pre @ take (unat n) rest) (drop (unat n) rest))"
    using assms(2) by (intro ok_read_NextBytes) simp_all
  with assms le show ?thesis by simp
qed

section \<open>Properties\<close>

text \<open>
  Bytes written with \<open>WriteVarBytes\<close> into a sink that already holds data are read back
  exactly by \<open>NextVarBytes\<close> at the position where they start, whatever the sink's backing array held and
  however it had to grow, and the reader stops exactly at the end of what was written.
\<close>

lemma varbytes_wire_roundtrip:
  assumes "sink_ok s" and "WriteVarBytes b s = Some (n, s')" and "fits (Bytes s')"
  shows "Bytes s' = Bytes s @ drop (blen s) (Bytes s') \<and> n = length (drop (blen s) (Bytes s')) \<and>
    ok_read NextVarBytes (src_at (Bytes s) (drop (blen s) (Bytes s'))) = Some (b, src_at (Bytes s') [])"
proof -
  have w: "Bytes s' = Bytes s @ enc_varbytes b" "n = length (enc_varbytes b)"
    using WriteVarBytes_appends [OF assms(1,2)] by simp_all
  moreover have "length (Bytes s) = blen s" using assms(1) by (simp add: Bytes_def sink_ok_def)
  ultimately have d: "drop (blen s) (Bytes s') = enc_varbytes b" by simp
  have "fits b" using assms(3) w by (simp add: enc_varbytes_def)
  from rd_varbytes.roundtrip [OF this, of "Bytes s" "[]"] assms(3) w d show ?thesis by simp
qed

lemma varbytes_wire_roundtrip_witness:
  "ok_read NextVarBytes (src_at [9] (drop 1 [9, 2, 7, 8])) = Some ([7, 8], src_at [9, 2, 7, 8] [])"
proof -
  let ?s = "\<lparr>arr = 9 # replicate 20 0, blen = 1\<rparr>"
  have w: "WriteVarBytes [7, 8] ?s = Some (3, \<lparr>arr = [9, 2, 7, 8] @ replicate 17 0, blen = 4\<rparr>)"
    by code_simp
  have b: "Bytes \<lparr>arr = [9, 2, 7, 8] @ replicate 17 0, blen = 4\<rparr> = [9, 2, 7, 8]" "Bytes ?s = [9]" by code_simp+
  from varbytes_wire_roundtrip [OF _ w] show ?thesis unfolding b by (simp add: sink_ok_def)
qed

text \<open>
  \<open>NextBytes\<close> never reads outside its input, for any 64-bit length a message may claim: it
  returns exactly the requested bytes and moves by as many, or reports the end of the input; an offset
  that would overflow 64 bits counts as the end of the input.
\<close>

lemma NextBytes_bounds:
  assumes "fits (pre @ rest)"
  shows "NextBytes n (src_at pre rest) =
    (if unat n \<le> length rest
     then ((take (unat n) rest, False), src_at (pre @ take (unat n) rest) (drop (unat n) rest))
     else ((rest, True), src_at (pre @ rest) []))"
proof (cases "unat n \<le> length rest")
  case True
  then show ?thesis using NextBytes_ok [of pre "take (unat n) rest" "drop (unat n) rest" n] assms by simp
next
  case False
  then show ?thesis using NextBytes_short [OF assms, of n] by simp
qed

lemma NextBytes_bounds_witness:
  "NextBytes (- 1) (src_at [1] [2, 3]) = (([2, 3], True), src_at [1, 2, 3] [])"
  using NextBytes_bounds [of "[1]" "[2, 3]" "- 1"] by (simp add: unat_minus_one_diff [of 0, simplified])

end
