(* ===== verification/Serialization_IO.thy ===== *)
theory Serialization_IO
  imports Zero_Source
begin

text \<open>
  \<open>common/serialization/serialize.go\<close>: the reader and writer functions over \<open>io.Reader\<close> and
  \<open>io.Writer\<close>, at the only instance the state layer uses, a \<open>bytes.Buffer\<close>.  A writer maps the
  buffer's contents to its new contents (such a write never fails); a reader maps the unread bytes to
  an error or to a value and the bytes left.  \<open>core/states/storage_item.go\<close> and \<open>state_base.go\<close> wrap
  every stored value.  The theory relates the readers to those of \<open>ZeroCopySource\<close>, which parse the
  same format.
\<close>

section \<open>Readers and writers\<close>

datatype io_error = EOF | UnexpectedEOF | ErrEof | ErrRange

type_synonym 'a reader = "bytes \<Rightarrow> io_error + ('a \<times> bytes)"

text \<open>\<open>io.ReadFull\<close> on a buffer.\<close>

definition ReadFull :: "nat \<Rightarrow> bytes reader" where
  "ReadFull n r =
     (if n \<le> length r then Inr (take n r, drop n r)
      else if r = [] then Inl EOF else Inl UnexpectedEOF)"

definition ser_WriteVarUint :: "bytes \<Rightarrow> uint64 \<Rightarrow> bytes" where
  "ser_WriteVarUint writer value =
     (if value < 0xFD then writer @ [ucast value]
      else if value \<le> 0xFFFF then writer @ 0xFD # put_le 2 (unat (ucast value :: uint16))
      else if value \<le> 0xFFFFFFFF then writer @ 0xFE # put_le 4 (unat (ucast value :: uint32))
      else writer @ 0xFF # put_le 8 (unat value))"

definition ser_ReadVarUint :: "uint64 \<Rightarrow> uint64 reader" where
  "ser_ReadVarUint maxint reader =
     (let maxint = (if maxint = 0 then - 1 else maxint) in
      ebind (ReadFull 1 reader) (\<lambda>(fb, reader).
      ebind
        (if fb ! 0 = 0xFD then ebind (ReadFull 2 reader) (\<lambda>(b, r). Inr (of_nat (get_le b), r))
         else if fb ! 0 = 0xFE then ebind (ReadFull 4 reader) (\<lambda>(b, r). Inr (of_nat (get_le b), r))
         else if fb ! 0 = 0xFF then ebind (ReadFull 8 reader) (\<lambda>(b, r). Inr (of_nat (get_le b), r))
         else Inr (ucast (fb ! 0), reader))
        (\<lambda>(res, reader). if res > maxint then Inl ErrRange else Inr (res, reader))))"

definition ser_WriteVarBytes :: "bytes \<Rightarrow> bytes \<Rightarrow> bytes" where
  "ser_WriteVarBytes writer value = ser_WriteVarUint writer (of_nat (length value)) @ value"

definition ser_WriteBytes :: "bytes \<Rightarrow> bytes \<Rightarrow> bytes" where
  "ser_WriteBytes writer value = writer @ value"

definition ser_WriteString :: "bytes \<Rightarrow> bytes \<Rightarrow> bytes" where
  "ser_WriteString writer value = ser_WriteVarBytes writer value"

text \<open>
  The slow path reads through \<open>io.LimitReader(reader, int64(x))\<close>: a length of \<open>2^63\<close> or more is a
  negative limit, which yields no byte.
\<close>

definition byteXReader :: "uint64 \<Rightarrow> bytes reader" where
  "byteXReader x reader =
     (if x = 0 then Inr ([], reader)
      else if x < 2 * 1024 * 1024 then ReadFull (unat x) reader
      else (let limit = sint x;
                n = (if limit \<le> 0 then 0 else min (nat limit) (length reader))
            in if int n = limit then Inr (take n reader, drop n reader) else Inl ErrEof))"

definition ser_ReadVarBytes :: "bytes reader" where
  "ser_ReadVarBytes reader =
     ebind (ser_ReadVarUint 0 reader) (\<lambda>(val, reader). byteXReader val reader)"

definition ser_ReadString :: "bytes reader" where
  "ser_ReadString reader = ser_ReadVarBytes reader"

definition ser_ReadBytes :: "uint64 \<Rightarrow> bytes reader" where
  "ser_ReadBytes len reader = byteXReader len reader"

definition ser_ReadHash :: "uint256 reader" where
  "ser_ReadHash reader =
     ebind (byteXReader (of_nat UINT256_SIZE) reader) (\<lambda>(val, reader).
     ebind (orelse_err (Uint256ParseFromBytes val) ErrRange) (\<lambda>h. Inr (h, reader)))"

definition ser_ReadAddress :: "address reader" where
  "ser_ReadAddress reader =
     ebind (byteXReader (of_nat ADDR_LEN) reader) (\<lambda>(val, reader).
     ebind (orelse_err (AddressParseFromBytes val) ErrRange) (\<lambda>a. Inr (a, reader)))"

definition GetVarUintSize :: "uint64 \<Rightarrow> nat" where
  "GetVarUintSize value =
     (if value < 0xFD then 1 else if value \<le> 0xFFFF then 3 else if value \<le> 0xFFFFFFFF then 5 else 9)"

text \<open>The fixed-size readers replace every read error by \<open>ErrEof\<close>.\<close>

definition eof_err :: "io_error + 'a \<Rightarrow> io_error + 'a" where
  "eof_err m = (case m of Inl _ \<Rightarrow> Inl ErrEof | Inr x \<Rightarrow> Inr x)"

definition ser_ReadUint8 :: "byte reader" where
  "ser_ReadUint8 reader = ebind (eof_err (ReadFull 1 reader)) (\<lambda>(p, r). Inr (p ! 0, r))"

definition ser_ReadUint16 :: "uint16 reader" where
  "ser_ReadUint16 reader = ebind (eof_err (ReadFull 2 reader)) (\<lambda>(p, r). Inr (of_nat (get_le p), r))"

definition ser_ReadUint32 :: "uint32 reader" where
  "ser_ReadUint32 reader = ebind (eof_err (ReadFull 4 reader)) (\<lambda>(p, r). Inr (of_nat (get_le p), r))"

definition ser_ReadUint64 :: "uint64 reader" where
  "ser_ReadUint64 reader = ebind (eof_err (ReadFull 8 reader)) (\<lambda>(p, r). Inr (of_nat (get_le p), r))"

definition ser_WriteUint8 :: "bytes \<Rightarrow> byte \<Rightarrow> bytes" where
  "ser_WriteUint8 writer val = writer @ [val]"

definition ser_WriteUint16 :: "bytes \<Rightarrow> uint16 \<Rightarrow> bytes" where
  "ser_WriteUint16 writer val = writer @ put_le 2 (unat val)"

definition ser_WriteUint32 :: "bytes \<Rightarrow> uint32 \<Rightarrow> bytes" where
  "ser_WriteUint32 writer val = writer @ put_le 4 (unat val)"

definition ser_WriteUint64 :: "bytes \<Rightarrow> uint64 \<Rightarrow> bytes" where
  "ser_WriteUint64 writer val = writer @ put_le 8 (unat val)"

definition ser_WriteBool :: "bytes \<Rightarrow> bool \<Rightarrow> bytes" where
  "ser_WriteBool writer val = writer @ [if val then 1 else 0]"

definition ser_ReadBool :: "bool reader" where
  "ser_ReadBool reader = ebind (ReadFull 1 reader) (\<lambda>(b, r). Inr (b ! 0 \<noteq> 0, r))"

definition ser_WriteByte :: "bytes \<Rightarrow> byte \<Rightarrow> bytes" where
  "ser_WriteByte writer val = writer @ [val]"

definition ser_ReadByte :: "byte reader" where
  "ser_ReadByte reader = ebind (byteXReader 1 reader) (\<lambda>(b, r). Inr (b ! 0, r))"

section \<open>Stored values\<close>

record StorageItem =
  StateVersion :: byte
  Value :: bytes

definition StateBase_Serialize :: "byte \<Rightarrow> bytes \<Rightarrow> bytes" where
  "StateBase_Serialize version w = ser_WriteByte w version"

definition StateBase_Deserialize :: "byte reader" where
  "StateBase_Deserialize r = ser_ReadByte r"

definition StorageItem_Serialize :: "StorageItem \<Rightarrow> bytes \<Rightarrow> bytes" where
  "StorageItem_Serialize item w = ser_WriteVarBytes (StateBase_Serialize (StateVersion item) w) (Value item)"

definition StorageItem_Deserialize :: "StorageItem reader" where
  "StorageItem_Deserialize r =
     ebind (StateBase_Deserialize r) (\<lambda>(v, r).
     ebind (ser_ReadVarBytes r) (\<lambda>(value, r).
     Inr (\<lparr>StateVersion = v, Value = value\<rparr>, r)))"

definition StorageItem_ToArray :: "StorageItem \<Rightarrow> bytes" where
  "StorageItem_ToArray item = StorageItem_Serialize item []"

definition GetValueFromRawStorageItem :: "bytes \<Rightarrow> io_error + bytes" where
  "GetValueFromRawStorageItem raw =
     ebind (StorageItem_Deserialize raw) (\<lambda>(item, _). Inr (Value item))"

definition GenRawStorageItem :: "bytes \<Rightarrow> bytes" where
  "GenRawStorageItem value = StorageItem_ToArray \<lparr>StateVersion = 0, Value = value\<rparr>"

section \<open>The two parsers of the format agree\<close>

definition agrees :: "'a reader \<Rightarrow> (ZeroCopySource \<Rightarrow> ('a \<times> ZeroCopySource) option) \<Rightarrow> bool" where
  "agrees rd nx \<longleftrightarrow>
     (\<forall>pre r. fits (pre @ r) \<longrightarrow>
        (case rd r of
           Inl e \<Rightarrow> nx (src_at pre r) = None
         | Inr (x, r') \<Rightarrow> \<exists>ys. r = ys @ r' \<and> nx (src_at pre r) = Some (x, src_at (pre @ ys) r')))"

lemma agreesI:
  assumes "\<And>pre r e. fits (pre @ r) \<Longrightarrow> rd r = Inl e \<Longrightarrow> nx (src_at pre r) = None"
    and "\<And>pre r x r'. fits (pre @ r) \<Longrightarrow> rd r = Inr (x, r') \<Longrightarrow>
      \<exists>ys. r = ys @ r' \<and> nx (src_at pre r) = Some (x, src_at (pre @ ys) r')"
  shows "agrees rd nx"
  using assms by (auto simp: agrees_def split: sum.split)

lemma agrees_Inl: "agrees rd nx \<Longrightarrow> fits (pre @ r) \<Longrightarrow> rd r = Inl e \<Longrightarrow> nx (src_at pre r) = None"
  by (force simp: agrees_def)

lemma agrees_InrE:
  assumes "agrees rd nx" and "fits (pre @ r)" and "rd r = Inr (x, r')"
  obtains ys where "r = ys @ r'" and "nx (src_at pre r) = Some (x, src_at (pre @ ys) r')"
  using assms by (force simp: agrees_def)

lemma agrees_return: "agrees (\<lambda>r. Inr (x, r)) (\<lambda>s. Some (x, s))"
  by (rule agreesI) auto

lemma agrees_bind:
  assumes f: "agrees f F" and g: "\<And>x. agrees (g x) (G x)"
  shows "agrees (\<lambda>r. ebind (f r) (\<lambda>(x, r). g x r)) (\<lambda>s. Option.bind (F s) (\<lambda>(x, s). G x s))"
proof (rule agreesI)
  fix pre r e assume fit: "fits (pre @ r)" and e: "ebind (f r) (\<lambda>(x, r). g x r) = Inl e"
  show "Option.bind (F (src_at pre r)) (\<lambda>(x, s). G x s) = None"
  proof (cases "f r")
    case (Inl a)
    with agrees_Inl [OF f fit] show ?thesis by simp
  next
    case (Inr b)
    then obtain x r1 where r1: "f r = Inr (x, r1)" by (cases b) auto
    from agrees_InrE [OF f fit r1] obtain ys where
      ys: "r = ys @ r1" "F (src_at pre r) = Some (x, src_at (pre @ ys) r1)" .
    with agrees_Inl [OF g, of "pre @ ys" r1 x e] fit e r1 show ?thesis by simp
  qed
next
  fix pre r y r' assume fit: "fits (pre @ r)" and e: "ebind (f r) (\<lambda>(x, r). g x r) = Inr (y, r')"
  then obtain x r1 where r1: "f r = Inr (x, r1)" and r2: "g x r1 = Inr (y, r')" by auto
  from agrees_InrE [OF f fit r1] obtain ys where
    ys: "r = ys @ r1" "F (src_at pre r) = Some (x, src_at (pre @ ys) r1)" .
  have "fits ((pre @ ys) @ r1)" using fit ys by simp
  from agrees_InrE [OF g this r2] obtain zs where
    zs: "r1 = zs @ r'" "G x (src_at (pre @ ys) r1) = Some (y, src_at ((pre @ ys) @ zs) r')" .
  show "\<exists>ys. r = ys @ r' \<and>
      Option.bind (F (src_at pre r)) (\<lambda>(x, s). G x s) = Some (y, src_at (pre @ ys) r')"
    using ys zs by (intro exI [of _ "ys @ zs"]) simp
qed

lemma agrees_if: "agrees f F \<Longrightarrow> agrees g G \<Longrightarrow> agrees (\<lambda>r. if c then f r else g r) (\<lambda>s. if c then F s else G s)"
  by (cases c) simp_all

lemma agrees_ReadFull:
  assumes "unat m = n"
  shows "agrees (ReadFull n) (ok_read (NextBytes m))"
proof (rule agreesI)
  show "ok_read (NextBytes m) (src_at pre r) = None" if "fits (pre @ r)" "ReadFull n r = Inl e" for pre r e
    using that assms NextBytes_short [of pre r m] by (simp add: ReadFull_def ok_read_def split: if_splits)
  show "\<exists>ys. r = ys @ r' \<and> ok_read (NextBytes m) (src_at pre r) = Some (x, src_at (pre @ ys) r')"
    if "fits (pre @ r)" "ReadFull n r = Inr (x, r')" for pre r x r'
  proof -
    from that have "n \<le> length r" and x: "x = take n r" "r' = drop n r"
      by (auto simp: ReadFull_def split: if_splits)
    then show ?thesis
      using ok_read_NextBytes [of pre "take n r" "drop n r" m] that(1) assms
      by (intro exI [of _ "take n r"]) simp
  qed
qed

lemma sint_uint64: "sint (x :: uint64) = signed_take_bit 63 (uint x)"
  by (rule trans [OF sint_uint]) simp

lemma sint_small:
  assumes "unat (x :: uint64) < 2 ^ 63"
  shows "sint x = int (unat x)"
proof -
  have "int (unat x) < int (2 ^ 63)" using assms by (simp only: of_nat_less_iff)
  then have "uint x < 2 ^ 63" by simp
  then have "signed_take_bit 63 (uint x) = uint x"
    by (intro signed_take_bit_int_eq_self) (simp_all add: order_trans [OF _ uint_ge_0])
  then show ?thesis unfolding sint_uint64 by simp
qed

lemma sint_large:
  assumes "2 ^ 63 \<le> unat (x :: uint64)"
  shows "sint x < 0"
proof -
  have "int (2 ^ 63) \<le> int (unat x)" using assms by (simp only: of_nat_le_iff)
  then have "2 ^ 63 \<le> uint x" by simp
  moreover have "uint x < 2 ^ 64" using uint_bounded [of x] by simp
  ultimately have "uint x div 2 ^ 63 = 1"
    by (intro int_div_pos_eq [of _ _ _ "uint x - 2 ^ 63"]) simp_all
  then have "bit (uint x) 63" unfolding bit_iff_odd by simp
  then show ?thesis unfolding sint_uint64 by (simp only: signed_take_bit_negative_iff)
qed

lemma byteXReader_eq:
  assumes "fits r"
  shows "byteXReader x r =
    (if unat x \<le> length r then Inr (take (unat x) r, drop (unat x) r)
     else if x < 2 * 1024 * 1024 then (if r = [] then Inl EOF else Inl UnexpectedEOF) else Inl ErrEof)"
proof (cases "x < 2 * 1024 * 1024")
  case True
  then show ?thesis by (simp add: byteXReader_def ReadFull_def)
next
  case False
  then have x: "x \<noteq> 0" "0 < unat x" by (auto simp: word_less_nat_alt)
  show ?thesis
  proof (cases "unat x < 2 ^ 63")
    case True
    obtain n where n: "unat x = n" by simp
    with sint_small [OF True] have "sint x = int n" by simp
    with x n show ?thesis
      by (simp only: byteXReader_def False Let_def if_False) (simp add: min_def)
  next
    case False
    then have "sint x < 0" by (intro sint_large) simp
    with False \<open>\<not> x < 2 * 1024 * 1024\<close> x assms show ?thesis
      by (simp only: byteXReader_def Let_def if_False) simp
  qed
qed

lemma agrees_byteXReader: "agrees (byteXReader x) (ok_read (NextBytes x))"
proof (rule agreesI)
  fix pre r e assume fit: "fits (pre @ r)" and "byteXReader x r = Inl e"
  then have "length r < unat x" by (simp add: byteXReader_eq split: if_splits)
  with fit show "ok_read (NextBytes x) (src_at pre r) = None"
    by (simp add: NextBytes_short ok_read_def)
next
  fix pre r y r' assume fit: "fits (pre @ r)" and "byteXReader x r = Inr (y, r')"
  then have "ReadFull (unat x) r = Inr (y, r')"
    by (auto simp: byteXReader_eq ReadFull_def split: if_splits)
  with fit show "\<exists>ys. r = ys @ r' \<and> ok_read (NextBytes x) (src_at pre r) = Some (y, src_at (pre @ ys) r')"
    using agrees_InrE [OF agrees_ReadFull [OF refl]] by metis
qed

lemma agrees_ReadByte: "agrees (\<lambda>r. ebind (ReadFull 1 r) (\<lambda>(b, r). Inr (b ! 0, r))) (ok_read NextByte)"
proof (rule agreesI)
  fix pre r e assume "ebind (ReadFull 1 r) (\<lambda>(b, r). Inr (b ! 0, r)) = Inl e"
  then have "r = []" by (cases r) (auto simp: ReadFull_def)
  then show "ok_read NextByte (src_at pre r) = None" by (simp add: NextByte_short ok_read_def)
next
  fix pre r y r' assume fit: "fits (pre @ r)" and "ebind (ReadFull 1 r) (\<lambda>(b, r). Inr (b ! 0, r)) = Inr (y, r')"
  then have "r = y # r'" by (cases r) (auto simp: ReadFull_def)
  with fit show "\<exists>ys. r = ys @ r' \<and> ok_read NextByte (src_at pre r) = Some (y, src_at (pre @ ys) r')"
    by (intro exI [of _ "[y]"]) (simp add: ok_read_NextByte)
qed

lemma ser_ReadVarUint_0_eq:
  "ser_ReadVarUint 0 = (\<lambda>r. ebind (ebind (ReadFull 1 r) (\<lambda>(b, r). Inr (b ! 0, r))) (\<lambda>(fb, r).
     if fb = 0xFD then ebind (ReadFull 2 r) (\<lambda>(b, r). Inr (of_nat (get_le b), r))
     else if fb = 0xFE then ebind (ReadFull 4 r) (\<lambda>(b, r). Inr (of_nat (get_le b), r))
     else if fb = 0xFF then ebind (ReadFull 8 r) (\<lambda>(b, r). Inr (of_nat (get_le b), r))
     else Inr (ucast fb, r)))"
  by (auto simp: fun_eq_iff ser_ReadVarUint_def Let_def ebind_def not_less split: sum.split)

lemma ucast_of_nat_get_le:
  assumes "length b * 8 \<le> LENGTH('a :: len)" and "LENGTH('a) \<le> 64"
  shows "ucast (of_nat (get_le b) :: 'a word) = (of_nat (get_le b) :: uint64)"
proof -
  have "(256 :: nat) ^ length b = 2 ^ (8 * length b)" by (simp add: power_mult)
  moreover have "(2 :: nat) ^ (8 * length b) \<le> 2 ^ LENGTH('a)" and le: "(2 :: nat) ^ LENGTH('a) \<le> 2 ^ 64"
    by (rule power_increasing; use assms in simp)+
  ultimately have "get_le b < 2 ^ LENGTH('a)" using get_le_less [of b] by linarith
  moreover from this have "get_le b < 2 ^ LENGTH(64)" using le by simp
  ultimately show ?thesis
    by (simp only: word_unat_eq_iff unat_ucast_mod unat_of_nat mod_less)
qed

lemma agrees_fixed:
  assumes "unat m = n" and "\<And>b. length b = n \<Longrightarrow> f b = g b"
  shows "agrees (\<lambda>r. ebind (ReadFull n r) (\<lambda>(b, r). Inr (f b, r)))
    (\<lambda>s. Option.bind (ok_read (NextBytes m) s) (\<lambda>(b, s). Some (g b, s)))"
proof -
  have "(\<lambda>r. ebind (ReadFull n r) (\<lambda>(b, r). Inr (f b, r))) = (\<lambda>r. ebind (ReadFull n r) (\<lambda>(b, r). Inr (g b, r)))"
    using assms(2) by (simp add: fun_eq_iff ReadFull_def)
  then show ?thesis
    using agrees_bind [OF agrees_ReadFull [OF assms(1)] agrees_return] by simp
qed

lemma bind_bind_uint:
  "Option.bind (ok_read NextUint16 s) (\<lambda>(v, s). Some (h v, s))
     = Option.bind (ok_read (NextBytes 2) s) (\<lambda>(b, s). Some (h (of_nat (get_le b)), s))"
  "Option.bind (ok_read NextUint32 s) (\<lambda>(v, s). Some (h' v, s))
     = Option.bind (ok_read (NextBytes 4) s) (\<lambda>(b, s). Some (h' (of_nat (get_le b)), s))"
  "Option.bind (ok_read NextUint64 s) (\<lambda>(v, s). Some (h'' v, s))
     = Option.bind (ok_read (NextBytes 8) s) (\<lambda>(b, s). Some (h'' (of_nat (get_le b)), s))"
  by (auto simp: ok_read_uint_eq split: Option.bind_splits)

lemma agrees_ReadVarUint: "agrees (ser_ReadVarUint 0) (ok_read NextVarUint)"
  unfolding ser_ReadVarUint_0_eq ok_read_NextVarUint_eq bind_bind_uint
  by (intro agrees_bind agrees_ReadByte agrees_if agrees_fixed agrees_return)
    (simp_all add: ucast_of_nat_get_le)

lemma agrees_ReadVarBytes: "agrees ser_ReadVarBytes (ok_read NextVarBytes)"
proof -
  have "ser_ReadVarBytes = (\<lambda>r. ebind (ser_ReadVarUint 0 r) (\<lambda>(x, r). byteXReader x r))"
    by (simp add: fun_eq_iff ser_ReadVarBytes_def)
  then show ?thesis
    unfolding ok_read_NextVarBytes_eq
    by (elim ssubst) (intro agrees_bind agrees_ReadVarUint agrees_byteXReader)
qed

section \<open>Writing and reading back\<close>

lemma ser_WriteVarUint_enc: "ser_WriteVarUint w v = w @ enc_varuint v"
  by (simp add: ser_WriteVarUint_def enc_varuint_def put_le_ucast)

lemma length_enc_varuint: "length (enc_varuint v) = GetVarUintSize v"
  by (simp add: enc_varuint_def GetVarUintSize_def)

lemma ser_WriteVarBytes_enc: "ser_WriteVarBytes w v = w @ enc_varbytes v"
  by (simp add: ser_WriteVarBytes_def ser_WriteVarUint_enc enc_varbytes_def)

text \<open>What the zero-copy reader returns is what the \<open>io.Reader\<close> function returns.\<close>

lemma agrees_SomeD:
  assumes "agrees rd nx" and "fits r" and "nx (src_at [] r) = Some (x, src_at ys r')" and "r = ys @ r'"
  shows "rd r = Inr (x, r')"
proof (cases "rd r")
  case (Inl e)
  with agrees_Inl [OF assms(1), of "[]"] assms show ?thesis by simp
next
  case (Inr p)
  then obtain y r'' where y: "rd r = Inr (y, r'')" by (cases p) auto
  from assms(2) have "fits ([] @ r)" by simp
  from agrees_InrE [OF assms(1) this y] obtain zs where
    zs: "r = zs @ r''" "nx (src_at [] r) = Some (y, src_at ([] @ zs) r'')" .
  then have "x = y" and e: "src_at ys r' = src_at zs r''" using assms(3) by simp_all
  from e have "of_nat (length ys) = (of_nat (length zs) :: uint64)" by (simp add: src_at_def)
  moreover have "length ys < 2 ^ 63" using assms(2,4) by simp
  moreover have "length zs < 2 ^ 63" using assms(2) unfolding zs(1) by simp
  ultimately have "length ys = length zs" by (metis unat_of_nat_fits)
  with zs(1) assms(4) have "r' = r''" by simp
  with \<open>x = y\<close> y show ?thesis by simp
qed

lemma ser_ReadVarBytes_enc:
  assumes "fits (enc_varbytes v @ rest)"
  shows "ser_ReadVarBytes (enc_varbytes v @ rest) = Inr (v, rest)"
proof (rule agrees_SomeD [OF agrees_ReadVarBytes assms])
  have "fits v" using assms by (simp add: enc_varbytes_def)
  then show "ok_read NextVarBytes (src_at [] (enc_varbytes v @ rest)) = Some (v, src_at (enc_varbytes v) rest)"
    using rd_varbytes.roundtrip [of v "[]" rest] assms by simp
qed simp

lemma StorageItem_ToArray_enc: "StorageItem_ToArray item = StateVersion item # enc_varbytes (Value item)"
  by (simp add: StorageItem_ToArray_def StorageItem_Serialize_def StateBase_Serialize_def
      ser_WriteByte_def ser_WriteVarBytes_enc)

lemma StorageItem_Deserialize_enc:
  assumes "fits (StorageItem_ToArray item @ rest)"
  shows "StorageItem_Deserialize (StorageItem_ToArray item @ rest) = Inr (item, rest)"
  using assms
  by (simp add: StorageItem_Deserialize_def StorageItem_ToArray_enc StateBase_Deserialize_def
      ser_ReadByte_def byteXReader_def ReadFull_def ser_ReadVarBytes_enc)

lemma GetValue_GenRaw [store_simps]:
  assumes "length v < 2 ^ 62"
  shows "GetValueFromRawStorageItem (GenRawStorageItem v) = Inr v"
proof -
  have "GetVarUintSize (of_nat (length v)) \<le> 9" by (simp add: GetVarUintSize_def)
  then have "fits (StorageItem_ToArray \<lparr>StateVersion = 0, Value = v\<rparr>)"
    using assms by (simp add: StorageItem_ToArray_enc enc_varbytes_def length_enc_varuint)
  then show ?thesis
    using StorageItem_Deserialize_enc [of _ "[]"]
    by (simp add: GetValueFromRawStorageItem_def GenRawStorageItem_def)
qed

lemma GenRaw_not_Nil [simp]: "GenRawStorageItem v \<noteq> []"
  by (simp add: GenRawStorageItem_def StorageItem_ToArray_enc)

section \<open>Properties\<close>

text \<open>
  C32 (equivalence): the two parsers of length-prefixed bytes, \<open>serialization.ReadVarBytes\<close> over a
  reader and \<open>ZeroCopySource.NextVarBytes\<close>, agree on every input: one fails exactly when the other one
  does, and otherwise they return the same bytes and leave the same rest.
\<close>

theorem two_parsers_agree:
  assumes "fits (pre @ r)"
  shows "case ser_ReadVarBytes r of
      Inl e \<Rightarrow> ok_read NextVarBytes (src_at pre r) = None
    | Inr (x, r') \<Rightarrow> \<exists>ys. r = ys @ r' \<and> ok_read NextVarBytes (src_at pre r) = Some (x, src_at (pre @ ys) r')"
  using agrees_ReadVarBytes assms unfolding agrees_def by blast

theorem two_parsers_agree_witness:
  "ok_read NextVarBytes (src_at [5] [3, 1, 2]) = None"
proof -
  have "ser_ReadVarBytes [3, 1, 2] = Inl UnexpectedEOF" by code_simp
  with two_parsers_agree [of "[5]" "[3, 1, 2]"] show ?thesis by simp
qed

text \<open>
  The value unwrapped from a stored raw item is the value that was wrapped, and the
  stored bytes are never empty, so that storing an empty value is not a deletion.
\<close>

lemma storage_item_roundtrip:
  assumes "length v < 2 ^ 62"
  shows "GetValueFromRawStorageItem (GenRawStorageItem v) = Inr v \<and> GenRawStorageItem v \<noteq> []"
  using GetValue_GenRaw [OF assms] by simp

lemma storage_item_roundtrip_witness:
  "GetValueFromRawStorageItem (GenRawStorageItem []) = Inr [] \<and> GenRawStorageItem [] \<noteq> []"
  using storage_item_roundtrip [of "[]"] by simp

end
