(* ===== verification/Crypto_Env.thy ===== *)
theory Crypto_Env
  imports Zero_Source Sha256
begin

text \<open>
  Addresses and public keys: \<open>common/address.go\<close>, \<open>core/types/address.go\<close>, the multi-signature program
  of \<open>core/types/transaction.go\<close> and the key helpers of \<open>consensus/vbft/config\<close> and
  \<open>native/service/utils\<close>.  The third-party libraries they call (ontology-crypto, ripemd160, base58) are
  the fields of the record \<open>Env\<close>, which every definition that needs them takes as an argument;
  \<open>encoding/hex\<close>, \<open>math/big\<close> and \<open>crypto/sha256\<close> belong to the language and are defined.
\<close>

section \<open>Third-party functions\<close>

type_synonym pubkey = bytes

record Env =
  DeserializePublicKey :: "bytes \<Rightarrow> pubkey option"
  SerializePublicKey :: "pubkey \<Rightarrow> bytes"
  SortPublicKeys :: "pubkey list \<Rightarrow> pubkey list"
  vrf_ValidatePublicKey :: "pubkey \<Rightarrow> bool"
  ripemd160 :: "bytes \<Rightarrow> bytes"
  base58_Encode :: "bytes \<Rightarrow> bytes"
  base58_Decode :: "bytes \<Rightarrow> bytes option"

section \<open>Hexadecimal strings\<close>

definition fromHexChar :: "byte \<Rightarrow> byte option" where
  "fromHexChar c =
     (if 0x30 \<le> c \<and> c \<le> 0x39 then Some (c - 0x30)
      else if 0x61 \<le> c \<and> c \<le> 0x66 then Some (c - 0x61 + 10)
      else if 0x41 \<le> c \<and> c \<le> 0x46 then Some (c - 0x41 + 10)
      else None)"

fun hex_DecodeString :: "bytes \<Rightarrow> bytes option" where
  "hex_DecodeString [] = Some []"
| "hex_DecodeString [x] = None"
| "hex_DecodeString (x # y # r) =
     do { a \<leftarrow> fromHexChar x; b \<leftarrow> fromHexChar y; bs \<leftarrow> hex_DecodeString r; Some ((16 * a + b) # bs) }"

definition hexdigit :: "byte \<Rightarrow> byte" where
  "hexdigit d = (if d < 10 then 0x30 + d else 0x61 + (d - 10))"

definition hex_EncodeToString :: "bytes \<Rightarrow> bytes" where
  "hex_EncodeToString bs = concat (map (\<lambda>b. [hexdigit (b div 16), hexdigit (b mod 16)]) bs)"

section \<open>Addresses\<close>

definition ToHexString :: "address \<Rightarrow> bytes" where
  "ToHexString self = hex_EncodeToString (rev self)"

definition AddressFromHexString :: "bytes \<Rightarrow> address option" where
  "AddressFromHexString s = do { hx \<leftarrow> hex_DecodeString s; AddressParseFromBytes (rev hx) }"

definition AddressFromVmCode :: "Env \<Rightarrow> bytes \<Rightarrow> address" where
  "AddressFromVmCode env code = ripemd160 env (sha256 code)"

text \<open>\<open>big.Int\<close>: the decimal digits of a natural number, its big-endian bytes, and \<open>SetString(s, 10)\<close>.\<close>

fun dec_digits :: "nat \<Rightarrow> bytes" where
  "dec_digits n = (if n < 10 then [0x30 + of_nat n] else dec_digits (n div 10) @ [0x30 + of_nat (n mod 10)])"

fun big_Bytes :: "nat \<Rightarrow> bytes" where
  "big_Bytes n = (if n = 0 then [] else big_Bytes (n div 256) @ [of_nat (n mod 256)])"

declare dec_digits.simps [simp del] big_Bytes.simps [simp del]

definition dec_val :: "bytes \<Rightarrow> nat" where
  "dec_val ds = foldl (\<lambda>n d. 10 * n + unat (d - 0x30)) 0 ds"

definition big_SetString :: "bytes \<Rightarrow> int option" where
  "big_SetString s =
     (let (neg, ds) = (case s of c # r \<Rightarrow> if c = 0x2D then (True, r) else if c = 0x2B then (False, r) else (False, s)
                       | [] \<Rightarrow> (False, s))
      in if ds = [] \<or> \<not> list_all (\<lambda>d. 0x30 \<le> d \<and> d \<le> 0x39) ds then None
         else Some (if neg then - int (dec_val ds) else int (dec_val ds)))"

definition ToBase58 :: "Env \<Rightarrow> address \<Rightarrow> bytes" where
  "ToBase58 env f =
     (let data = 23 # f;
          temps = sha256 (sha256 data);
          data = data @ take 4 temps
      in base58_Encode env (dec_digits (get_be data)))"

definition AddressFromBase58 :: "Env \<Rightarrow> bytes \<Rightarrow> address option" where
  "AddressFromBase58 env encoded =
     (if encoded = [] then None
      else if length encoded > 2048 then None
      else do {
        decoded \<leftarrow> base58_Decode env encoded;
        x \<leftarrow> big_SetString decoded;
        (let buf = big_Bytes (nat \<bar>x\<bar>) in
         if length buf \<noteq> 1 + ADDR_LEN + 4 \<or> buf ! 0 \<noteq> 23 then None
         else do {
           ph \<leftarrow> AddressParseFromBytes (slice buf 1 21);
           if ToBase58 env ph \<noteq> encoded then None else Some ph }) })"

section \<open>Public keys\<close>

definition AddressFromPubKey :: "Env \<Rightarrow> pubkey \<Rightarrow> address" where
  "AddressFromPubKey env pubkey = AddressFromVmCode env (SerializePublicKey env pubkey)"

abbreviation MULTI_SIG_MAX_PUBKEY_SIZE :: nat where "MULTI_SIG_MAX_PUBKEY_SIZE \<equiv> 16"

definition EncodeMultiPubKeyProgramInto :: "Env \<Rightarrow> pubkey list \<Rightarrow> uint16 \<Rightarrow> bytes option" where
  "EncodeMultiPubKeyProgramInto env pubkeys m =
     (let n = length pubkeys in
      if \<not> (1 \<le> m \<and> unat m \<le> n \<and> n > 1 \<and> n \<le> MULTI_SIG_MAX_PUBKEY_SIZE) then None
      else let pubkeys = SortPublicKeys env pubkeys
           in Some (enc_uint16 (of_nat (length pubkeys))
                    @ concat (map (\<lambda>pk. enc_varbytes (SerializePublicKey env pk)) pubkeys)
                    @ enc_uint16 m))"

text \<open>The encoding error is dropped: the result is the empty address and no error.\<close>

definition AddressFromMultiPubKeys :: "Env \<Rightarrow> pubkey list \<Rightarrow> int \<Rightarrow> address" where
  "AddressFromMultiPubKeys env pubkeys m =
     (case EncodeMultiPubKeyProgramInto env pubkeys (of_int m) of
        None \<Rightarrow> ADDRESS_EMPTY
      | Some code \<Rightarrow> AddressFromVmCode env code)"

definition AddressFromBookkeepers :: "Env \<Rightarrow> pubkey list \<Rightarrow> address" where
  "AddressFromBookkeepers env bookkeepers =
     (if length bookkeepers = 1 then AddressFromPubKey env (bookkeepers ! 0)
      else let n = int (length bookkeepers)
           in AddressFromMultiPubKeys env bookkeepers (n - (if n = 0 then 0 else (n - 1) div 3)))"

definition PubkeyID :: "Env \<Rightarrow> pubkey \<Rightarrow> bytes" where
  "PubkeyID env pub = hex_EncodeToString (SerializePublicKey env pub)"

definition vbft_Pubkey :: "Env \<Rightarrow> bytes \<Rightarrow> pubkey option" where
  "vbft_Pubkey env nodeid = do { pubKey \<leftarrow> hex_DecodeString nodeid; DeserializePublicKey env pubKey }"

definition ValidatePeerPubKeyFormat :: "Env \<Rightarrow> bytes \<Rightarrow> bool" where
  "ValidatePeerPubKeyFormat env pubkey =
     (case vbft_Pubkey env pubkey of None \<Rightarrow> False | Some pk \<Rightarrow> vrf_ValidatePublicKey env pk)"

section \<open>Round trips\<close>

lemma fromHexChar_hexdigit:
  assumes "d < 16"
  shows "fromHexChar (hexdigit d) = Some d"
proof -
  have "unat d < 16" using assms by (simp add: word_less_nat_alt)
  then have "unat d \<in> {0, 1, 2, 3, 4, 5, 6, 7, 8, 9, 10, 11, 12, 13, 14, 15}"
    by (auto simp: numeral_eq_Suc less_Suc_eq)
  moreover have "d = of_nat (unat d)" by simp
  ultimately have "d \<in> {0, 1, 2, 3, 4, 5, 6, 7, 8, 9, 10, 11, 12, 13, 14, 15}"
    by (elim insertE emptyE) simp_all
  then show ?thesis by (elim insertE emptyE) (simp_all add: fromHexChar_def hexdigit_def)
qed

lemma hex_Decode_Encode: "hex_DecodeString (hex_EncodeToString bs) = Some bs"
proof (induction bs)
  case (Cons b bs)
  have "b div 16 < 16" "b mod 16 < 16"
    using unat_byte_less [of b] by (simp_all add: word_less_nat_alt unat_div unat_mod)
  with Cons show ?case
    by (simp add: hex_EncodeToString_def fromHexChar_hexdigit mult_div_mod_eq)
qed (simp add: hex_EncodeToString_def)

lemma hex_Encode_inject: "hex_EncodeToString a = hex_EncodeToString b \<longleftrightarrow> a = b"
  by (metis hex_Decode_Encode option.inject)

lemma get_be_snoc: "get_be (bs @ [b]) = 256 * get_be bs + unat b"
  by (simp add: get_be_def)

lemma get_be_pos: "bs \<noteq> [] \<Longrightarrow> hd bs \<noteq> 0 \<Longrightarrow> 0 < get_be bs"
proof (induction bs rule: rev_induct)
  case (snoc b bs)
  then show ?case by (cases "bs = []") (auto simp: get_be_snoc get_be_def unat_gt_0)
qed simp

lemma big_Bytes_get_be: "bs = [] \<or> hd bs \<noteq> 0 \<Longrightarrow> big_Bytes (get_be bs) = bs"
proof (induction bs rule: rev_induct)
  case Nil
  then show ?case by (simp add: get_be_def big_Bytes.simps)
next
  case (snoc b bs)
  have "0 < get_be (bs @ [b])" using snoc.prems by (intro get_be_pos) auto
  moreover have "big_Bytes (get_be bs) = bs" using snoc by (cases "bs = []") auto
  ultimately show ?case
    using unat_byte_less [of b] by (subst big_Bytes.simps) (simp add: get_be_snoc)
qed

lemma less_10_cases: "n < 10 \<Longrightarrow> n \<in> {0, 1, 2, 3, 4, 5, 6, 7, 8, 9}" for n :: nat
  by auto

lemma digit_val: "n < 10 \<Longrightarrow> unat (0x30 + of_nat n - 0x30 :: byte) = n"
  by (drule less_10_cases) auto

lemma digit_range: "n < 10 \<Longrightarrow> (0x30 :: byte) \<le> 0x30 + of_nat n \<and> 0x30 + of_nat n \<le> (0x39 :: byte)"
  by (drule less_10_cases) auto

lemma dec_digits_props:
  "dec_val (dec_digits n) = n \<and> dec_digits n \<noteq> [] \<and> list_all (\<lambda>d. 0x30 \<le> d \<and> d \<le> 0x39) (dec_digits n)"
proof (induction n rule: dec_digits.induct)
  case (1 n)
  show ?case
  proof (cases "n < 10")
    case True
    then have "dec_digits n = [0x30 + of_nat n]" by (subst dec_digits.simps) simp
    then show ?thesis using digit_val [OF True] digit_range [OF True] by (simp add: dec_val_def)
  next
    case False
    then have "dec_digits n = dec_digits (n div 10) @ [0x30 + of_nat (n mod 10)]"
      by (subst dec_digits.simps) simp
    moreover have "n mod 10 < 10" by simp
    ultimately show ?thesis
      using 1 [OF False] digit_val [of "n mod 10"] digit_range [of "n mod 10"]
      by (simp add: dec_val_def del: add_diff_cancel_left')
  qed
qed

lemma big_SetString_dec_digits: "big_SetString (dec_digits n) = Some (int n)"
proof -
  obtain c r where c: "dec_digits n = c # r" using dec_digits_props [of n] by (cases "dec_digits n") auto
  then have "0x30 \<le> c" using dec_digits_props [of n] by simp
  then have "c \<noteq> 0x2D" "c \<noteq> 0x2B" by auto
  with c dec_digits_props [of n] show ?thesis by (simp add: big_SetString_def)
qed

lemma AddressFromBase58_ToBase58:
  assumes "length a = ADDR_LEN"
    and "\<And>d. base58_Decode env (base58_Encode env d) = Some d"
    and "ToBase58 env a \<noteq> []" and "length (ToBase58 env a) \<le> 2048"
  shows "AddressFromBase58 env (ToBase58 env a) = Some a"
proof -
  let ?data = "(23 # a) @ take 4 (sha256 (sha256 (23 # a)))"
  have enc: "ToBase58 env a = base58_Encode env (dec_digits (get_be ?data))"
    by (simp add: ToBase58_def Let_def)
  have "big_Bytes (get_be ?data) = ?data" by (rule big_Bytes_get_be) simp
  moreover have "base58_Decode env (ToBase58 env a) = Some (dec_digits (get_be ?data))"
    by (simp only: enc assms(2))
  moreover have "AddressParseFromBytes (slice ?data 1 21) = Some a" "length ?data = 25" "?data ! 0 = 23"
    using assms(1) by (simp_all add: AddressParseFromBytes_def slice_def size_defs)
  ultimately show ?thesis
    using assms(3,4) unfolding AddressFromBase58_def
    by (simp only: big_SetString_dec_digits Option.bind.bind_lunit Let_def abs_of_nat nat_int) (simp add: size_defs)
qed

section \<open>Properties\<close>

text \<open>
  Parsing the base58 form of an address gives the address back, for every base58
  library whose decoder inverts its encoder and whose text for it is non-empty and at most 2048 long.
\<close>

lemma base58_address_roundtrip:
  assumes "length a = ADDR_LEN"
    and "\<And>d. base58_Decode env (base58_Encode env d) = Some d"
    and "ToBase58 env a \<noteq> []" and "length (ToBase58 env a) \<le> 2048"
  shows "AddressFromBase58 env (ToBase58 env a) = Some a"
  by (rule AddressFromBase58_ToBase58 [OF assms])

definition plain_env :: Env where
  "plain_env = \<lparr>DeserializePublicKey = Some, SerializePublicKey = (\<lambda>k. k), SortPublicKeys = (\<lambda>ks. ks),
     vrf_ValidatePublicKey = (\<lambda>_. True), ripemd160 = take 20, base58_Encode = (\<lambda>d. d), base58_Decode = Some\<rparr>"

lemma length_dec_digits: "n < 10 ^ Suc k \<Longrightarrow> length (dec_digits n) \<le> Suc k"
proof (induction k arbitrary: n)
  case 0
  then show ?case by (subst dec_digits.simps) simp
next
  case (Suc k)
  then have "n div 10 < 10 ^ Suc k" by (simp add: less_mult_imp_div_less)
  from Suc.IH [OF this] show ?case by (subst dec_digits.simps) simp
qed

lemma base58_address_roundtrip_witness:
  "AddressFromBase58 plain_env (ToBase58 plain_env (replicate 20 1)) = Some (replicate 20 1)"
proof (rule base58_address_roundtrip)
  let ?d = "23 # replicate 20 1 @ take 4 (sha256 (sha256 (23 # replicate 20 1)))"
  have e: "ToBase58 plain_env (replicate 20 1) = dec_digits (get_be ?d)"
    by (simp add: ToBase58_def plain_env_def Let_def)
  have "get_be ?d < 256 ^ length (rev ?d)" unfolding get_be_def by (rule get_le_less)
  then have "get_be ?d < 256 ^ 25" by simp
  also have "\<dots> < (10 :: nat) ^ Suc 99" by simp
  finally have "length (dec_digits (get_be ?d)) \<le> Suc 99" by (rule length_dec_digits)
  with e show "length (ToBase58 plain_env (replicate 20 1)) \<le> 2048" by simp
  show "ToBase58 plain_env (replicate 20 1) \<noteq> []" unfolding e using dec_digits_props by blast
qed (simp_all add: plain_env_def size_defs)

end
