(* ===== verification/Chain_Tx.thy ===== *)
theory Chain_Tx
  imports Crypto_Env
begin

text \<open>
  \<open>core/types/transaction.go\<close> and \<open>core/payload/invoke_code.go\<close>: the transaction, its encoding, its
  parser with the panic of \<open>make([]Sig, l)\<close> on an absurd length, its hash and its signature addresses.
  Public keys go through the library functions of \<open>Env\<close>.
\<close>

section \<open>Data\<close>

record Sig =
  SigData :: "bytes list"
  PubKeys :: "pubkey list"
  M :: uint16

record Transaction =
  tx_Version :: byte
  TxType :: byte
  Nonce :: uint32
  tx_ChainID :: uint64
  GasLimit :: uint64
  GasPrice :: uint64
  Payload :: "bytes option"
  Attributes :: bytes
  Payer :: address
  CoinType :: byte
  Sigs :: "Sig list"
  Raw :: bytes
  tx_hash :: uint256
  SignedAddr :: "address list"

abbreviation CURR_TX_VERSION :: byte where "CURR_TX_VERSION \<equiv> 0"
abbreviation MAX_ATTRIBUTES_LEN :: nat where "MAX_ATTRIBUTES_LEN \<equiv> 0"
abbreviation MAX_TX_SIZE :: nat where "MAX_TX_SIZE \<equiv> 1024 * 1024"
abbreviation Invoke_tx :: byte where "Invoke_tx \<equiv> 0xD1"
abbreviation ONG :: byte where "ONG \<equiv> 0"

section \<open>Encoding\<close>

definition SerializeUnsigned :: "Transaction \<Rightarrow> string + bytes" where
  "SerializeUnsigned tx =
     (if tx_Version tx > CURR_TX_VERSION then Inl ''invalid tx version''
      else case Payload tx of
        None \<Rightarrow> Inl ''transaction payload is nil''
      | Some code \<Rightarrow>
          if length (Attributes tx) > MAX_ATTRIBUTES_LEN then Inl ''attributes length over max length''
          else Inr (enc_uint8 (tx_Version tx) @ enc_uint8 (TxType tx) @ enc_uint32 (Nonce tx)
                 @ enc_uint64 (tx_ChainID tx) @ enc_uint64 (GasLimit tx) @ enc_uint64 (GasPrice tx)
                 @ enc_varbytes code @ enc_varbytes (Attributes tx) @ Payer tx @ enc_uint8 (CoinType tx)))"

text \<open>The bytes \<open>Sig.Serialize\<close> writes once it has checked that there are public keys.\<close>

definition Sig_bytes :: "Env \<Rightarrow> Sig \<Rightarrow> bytes" where
  "Sig_bytes env s =
     enc_uint16 (of_nat (length (SigData s))) @ concat (map enc_varbytes (SigData s))
     @ enc_uint16 (of_nat (length (PubKeys s)))
     @ concat (map (\<lambda>pk. enc_varbytes (SerializePublicKey env pk)) (PubKeys s))
     @ enc_uint16 (M s)"

definition Sig_Serialize :: "Env \<Rightarrow> Sig \<Rightarrow> string + bytes" where
  "Sig_Serialize env s =
     (if PubKeys s = [] then Inl ''[Sig Serialize] no pubkeys in sig'' else Inr (Sig_bytes env s))"

primrec Sigs_Serialize :: "Env \<Rightarrow> Sig list \<Rightarrow> string + bytes" where
  "Sigs_Serialize env [] = Inr []"
| "Sigs_Serialize env (s # ss) =
     ebind (Sig_Serialize env s) (\<lambda>b. ebind (Sigs_Serialize env ss) (\<lambda>bs. Inr (b @ bs)))"

definition tx_Serialization :: "Env \<Rightarrow> Transaction \<Rightarrow> string + bytes" where
  "tx_Serialization env tx =
     ebind (SerializeUnsigned tx) (\<lambda>u.
     ebind (Sigs_Serialize env (Sigs tx)) (\<lambda>ss.
     Inr (u @ enc_varuint (of_nat (length (Sigs tx))) @ ss)))"

section \<open>Decoding\<close>

definition read_pubkey :: "Env \<Rightarrow> ZeroCopySource \<Rightarrow> (pubkey \<times> ZeroCopySource) option" where
  "read_pubkey env src =
     do { (data, src) \<leftarrow> ok_read NextVarBytes src;
          pk \<leftarrow> DeserializePublicKey env data;
          Some (pk, src) }"

definition Sig_Deserialize :: "Env \<Rightarrow> ZeroCopySource \<Rightarrow> (Sig \<times> ZeroCopySource) option" where
  "Sig_Deserialize env src =
     do { (l, src) \<leftarrow> ok_read NextUint16 src;
          (sigData, src) \<leftarrow> read_list (ok_read NextVarBytes) (unat l) src;
          (l, src) \<leftarrow> ok_read NextUint16 src;
          (pubKeys, src) \<leftarrow> read_list (read_pubkey env) (unat l) src;
          (m, src) \<leftarrow> ok_read NextUint16 src;
          Some (\<lparr>SigData = sigData, PubKeys = pubKeys, M = m\<rparr>, src) }"

text \<open>The fields \<open>DeserializationUnsigned\<close> sets, the others at their zero value.\<close>

definition DeserializationUnsigned :: "ZeroCopySource \<Rightarrow> (Transaction \<times> ZeroCopySource) option" where
  "DeserializationUnsigned src =
     do { (version, src) \<leftarrow> ok_read NextByte src;
          if version > CURR_TX_VERSION then None else do {
          (txType, src) \<leftarrow> ok_read NextByte src;
          (nonce, src) \<leftarrow> ok_read NextUint32 src;
          (chainID, src) \<leftarrow> ok_read NextUint64 src;
          (gasLimit, src) \<leftarrow> ok_read NextUint64 src;
          (gasPrice, src) \<leftarrow> ok_read NextUint64 src;
          if txType \<noteq> Invoke_tx then None else do {
          (code, src) \<leftarrow> ok_read NextVarBytes src;
          (attributes, src) \<leftarrow> ok_read NextVarBytes src;
          if length attributes > MAX_ATTRIBUTES_LEN then None else do {
          (payer, src) \<leftarrow> ok_read NextAddress src;
          (coinType, src) \<leftarrow> ok_read NextByte src;
          if coinType \<noteq> ONG then None
          else Some (\<lparr>tx_Version = version, TxType = txType, Nonce = nonce, tx_ChainID = chainID,
                      GasLimit = gasLimit, GasPrice = gasPrice, Payload = Some code,
                      Attributes = attributes, Payer = payer, CoinType = coinType, Sigs = [],
                      Raw = [], tx_hash = replicate 32 0, SignedAddr = []\<rparr>, src) }}}}"

datatype tx_error = TxErr | TxPanic

text \<open>
  \<open>make([]Sig, l)\<close> panics when the slice would exceed the address space of the runtime (\<open>2^48\<close> bytes on
  a 64-bit platform); a \<open>Sig\<close> takes 56 bytes.
\<close>

definition make_Sigs_panics :: "uint64 \<Rightarrow> bool" where
  "make_Sigs_panics l \<longleftrightarrow> 2 ^ 48 < unat l * 56"

definition tx_Deserialization :: "Env \<Rightarrow> ZeroCopySource \<Rightarrow> tx_error + (Transaction \<times> ZeroCopySource)" where
  "tx_Deserialization env src =
     (let pstart = Source_Pos src in
      ebind (orelse_err (DeserializationUnsigned src) TxErr) (\<lambda>(tx, src).
      let lenUnsigned = Source_Pos src - pstart;
          src = Source_BackUp lenUnsigned src in
      ebind (orelse_err (ok_read (NextBytes lenUnsigned) src) TxErr) (\<lambda>(rawUnsigned, src).
      let tx = tx\<lparr>tx_hash := sha256 (sha256 rawUnsigned)\<rparr> in
      ebind (orelse_err (ok_read NextVarUint src) TxErr) (\<lambda>(l, src).
      if make_Sigs_panics l then Inl TxPanic else
      ebind (orelse_err (read_list (Sig_Deserialize env) (unat l) src) TxErr) (\<lambda>(sigs, src).
      let tx = tx\<lparr>Sigs := sigs\<rparr>;
          lenAll = Source_Pos src - pstart in
      if unat lenAll > MAX_TX_SIZE then Inl TxErr
      else let ((raw, _), src) = NextBytes lenAll (Source_BackUp lenAll src)
           in Inr (tx\<lparr>Raw := raw\<rparr>, src))))))"

definition TransactionFromRawBytes :: "Env \<Rightarrow> bytes \<Rightarrow> tx_error + Transaction" where
  "TransactionFromRawBytes env raw =
     (if length raw > MAX_TX_SIZE then Inl TxErr
      else ebind (tx_Deserialization env (NewZeroCopySource raw)) (\<lambda>(tx, _). Inr tx))"

section \<open>Signers\<close>

primrec sig_addresses :: "Env \<Rightarrow> Sig list \<Rightarrow> (address list) option" where
  "sig_addresses env [] = Some []"
| "sig_addresses env (prog # progs) =
     do { addr \<leftarrow>
            (if length (PubKeys prog) = 0 then None
             else if length (PubKeys prog) = 1 then
               Some (AddressFromVmCode env (SerializePublicKey env (PubKeys prog ! 0)))
             else do { code \<leftarrow> EncodeMultiPubKeyProgramInto env (PubKeys prog) (M prog);
                       Some (AddressFromVmCode env code) });
          addrs \<leftarrow> sig_addresses env progs;
          Some (addr # addrs) }"

text \<open>The result, and the transaction with its cached signers.\<close>

definition GetSignatureAddresses :: "Env \<Rightarrow> Transaction \<Rightarrow> (address list) option \<times> Transaction" where
  "GetSignatureAddresses env self =
     (if SignedAddr self = [] then
        (case sig_addresses env (Sigs self) of
           None \<Rightarrow> (None, self)
         | Some addrs \<Rightarrow> (Some addrs, self\<lparr>SignedAddr := addrs\<rparr>))
      else (Some (SignedAddr self), self))"

section \<open>The codecs\<close>

definition pubkey_wf :: "Env \<Rightarrow> pubkey \<Rightarrow> bool" where
  "pubkey_wf env pk \<longleftrightarrow> DeserializePublicKey env (SerializePublicKey env pk) = Some pk
     \<and> fits (SerializePublicKey env pk)"

definition Sig_wf :: "Env \<Rightarrow> Sig \<Rightarrow> bool" where
  "Sig_wf env s \<longleftrightarrow> length (SigData s) < 2 ^ 16 \<and> length (PubKeys s) < 2 ^ 16
     \<and> list_all fits (SigData s) \<and> list_all (pubkey_wf env) (PubKeys s)"

interpretation rd_pubkey: codec "\<lambda>pk. enc_varbytes (SerializePublicKey env pk)" "read_pubkey env" "pubkey_wf env"
  for env
  unfolding read_pubkey_def
  by unfold_locales (simp add: codec_simps pubkey_wf_def, intro rd_rules)

lemmas [rd_rules] = rd_pubkey.local_read

lemma unat_of_nat_16: "n < 2 ^ 16 \<Longrightarrow> unat (of_nat n :: uint16) = n"
  by (simp add: unat_of_nat)

interpretation rd_sig: codec "Sig_bytes env" "Sig_Deserialize env" "Sig_wf env" for env
proof
  fix x pre rest assume wf: "Sig_wf env x" and fit: "fits (pre @ Sig_bytes env x @ rest)"
  have d: "\<forall>b \<in> set (SigData x). fits b" "\<forall>pk \<in> set (PubKeys x). pubkey_wf env pk"
    and l: "unat (of_nat (length (SigData x)) :: uint16) = length (SigData x)"
      "unat (of_nat (length (PubKeys x)) :: uint16) = length (PubKeys x)"
    using wf by (simp_all add: Sig_wf_def list_all_iff unat_of_nat_16)
  show "Sig_Deserialize env (src_at pre (Sig_bytes env x @ rest)) = Some (x, src_at (pre @ Sig_bytes env x) rest)"
    using fit rd_varbytes.list_roundtrip [OF d(1)] rd_pubkey.list_roundtrip [OF d(2)]
    by (simp add: Sig_Deserialize_def Sig_bytes_def codec_simps l)
next
  show "rd_local (Sig_Deserialize env)"
    unfolding Sig_Deserialize_def [abs_def] by (intro rd_rules)
qed

definition unsigned_bytes :: "Transaction \<Rightarrow> bytes" where
  "unsigned_bytes tx = (case SerializeUnsigned tx of Inr b \<Rightarrow> b | Inl _ \<Rightarrow> [])"

definition unsigned_wf :: "Transaction \<Rightarrow> bool" where
  "unsigned_wf tx \<longleftrightarrow> tx_Version tx = CURR_TX_VERSION \<and> TxType tx = Invoke_tx
     \<and> (\<exists>code. Payload tx = Some code \<and> fits code) \<and> Attributes tx = [] \<and> length (Payer tx) = ADDR_LEN
     \<and> CoinType tx = ONG \<and> Sigs tx = [] \<and> Raw tx = [] \<and> tx_hash tx = replicate 32 0 \<and> SignedAddr tx = []"

interpretation rd_unsigned: codec unsigned_bytes DeserializationUnsigned unsigned_wf
proof
  fix x pre rest assume "unsigned_wf x" and "fits (pre @ unsigned_bytes x @ rest)"
  then show "DeserializationUnsigned (src_at pre (unsigned_bytes x @ rest))
      = Some (x, src_at (pre @ unsigned_bytes x) rest)"
    by (cases x) (auto simp: DeserializationUnsigned_def unsigned_bytes_def SerializeUnsigned_def
        unsigned_wf_def codec_simps NextUint8_eq [symmetric])
next
  show "rd_local DeserializationUnsigned"
    unfolding DeserializationUnsigned_def [abs_def] by (intro rd_rules)
qed

section \<open>Transactions\<close>

definition tx_unsigned :: "Transaction \<Rightarrow> Transaction" where
  "tx_unsigned tx = tx\<lparr>Sigs := [], Raw := [], tx_hash := replicate 32 0, SignedAddr := []\<rparr>"

definition tx_wf :: "Env \<Rightarrow> Transaction \<Rightarrow> bool" where
  "tx_wf env tx \<longleftrightarrow> unsigned_wf (tx_unsigned tx) \<and> (\<forall>s \<in> set (Sigs tx). Sig_wf env s \<and> PubKeys s \<noteq> [])"

lemma BackUp_at:
  "Source_BackUp (of_nat (length xs)) (src_at (pre @ xs) rest) = src_at pre (xs @ rest)"
  by (simp add: Source_BackUp_def src_at_def)

lemma Pos_diff: "Source_Pos (src_at (pre @ xs) rest) - Source_Pos (src_at pre ys) = of_nat (length xs)"
  by (simp add: Source_Pos_def src_at_def)

lemma Sigs_Serialize_bytes:
  "\<forall>s \<in> set ss. PubKeys s \<noteq> [] \<Longrightarrow> Sigs_Serialize env ss = Inr (concat (map (Sig_bytes env) ss))"
  by (induction ss) (simp_all add: Sig_Serialize_def)

lemma unsigned_bytes_strip: "unsigned_bytes (tx_unsigned tx) = unsigned_bytes tx"
  by (cases "Payload tx") (simp_all add: unsigned_bytes_def SerializeUnsigned_def tx_unsigned_def)

lemma length_concat_ge: "\<forall>x \<in> set xs. f x \<noteq> [] \<Longrightarrow> length xs \<le> length (concat (map f xs))"
proof (induction xs)
  case (Cons x xs)
  then have "1 \<le> length (f x)" "length xs \<le> length (concat (map f xs))" by (simp_all add: Suc_le_eq)
  from add_mono [OF this] show ?case by simp
qed simp

lemma Sig_bytes_not_Nil: "Sig_bytes env s \<noteq> []"
proof -
  have "length (Sig_bytes env s) \<ge> 2" by (simp add: Sig_bytes_def enc_uint16_def)
  then show ?thesis by auto
qed

text \<open>What the parser does behind a well-formed unsigned part, at any position of the source.\<close>

lemma tx_Deserialization_unsigned:
  assumes wf: "unsigned_wf tx" and fit: "fits (pre @ unsigned_bytes tx @ rest)"
  defines "u \<equiv> unsigned_bytes tx" and "tx' \<equiv> tx\<lparr>tx_hash := sha256 (sha256 (unsigned_bytes tx))\<rparr>"
  shows "tx_Deserialization env (src_at pre (u @ rest)) =
    ebind (orelse_err (ok_read NextVarUint (src_at (pre @ u) rest)) TxErr) (\<lambda>(l, src).
      if make_Sigs_panics l then Inl TxPanic else
      ebind (orelse_err (read_list (Sig_Deserialize env) (unat l) src) TxErr) (\<lambda>(sigs, src).
      let tx = tx'\<lparr>Sigs := sigs\<rparr>;
          lenAll = Source_Pos src - Source_Pos (src_at pre (u @ rest)) in
      if unat lenAll > MAX_TX_SIZE then Inl TxErr
      else let ((raw, _), src) = NextBytes lenAll (Source_BackUp lenAll src)
           in Inr (tx\<lparr>Raw := raw\<rparr>, src)))"
proof -
  have d: "DeserializationUnsigned (src_at pre (u @ rest)) = Some (tx, src_at (pre @ u) rest)"
    using rd_unsigned.roundtrip [OF wf, of pre rest] fit by (simp add: u_def)
  have n: "Source_Pos (src_at (pre @ u) rest) - Source_Pos (src_at pre (u @ rest)) = of_nat (length u)"
    by (rule Pos_diff)
  have "fits u" using fit by (simp add: u_def)
  then have r: "ok_read (NextBytes (of_nat (length u))) (src_at pre (u @ rest)) = Some (u, src_at (pre @ u) rest)"
    using ok_read_NextBytes [of pre u rest "of_nat (length u)"] fit by (simp add: u_def unat_of_nat_fits)
  show ?thesis
    unfolding tx_Deserialization_def
    by (simp only: d orelse_err_simps ebind_Inr Let_def n BackUp_at r prod.case tx'_def u_def [symmetric])
qed

definition tx_parsed :: "bytes \<Rightarrow> Transaction \<Rightarrow> Transaction" where
  "tx_parsed raw tx = tx\<lparr>Raw := raw, tx_hash := sha256 (sha256 (unsigned_bytes tx)), SignedAddr := []\<rparr>"

lemma tx_read_at:
  assumes wf: "tx_wf env tx" and s: "tx_Serialization env tx = Inr raw" and len: "length raw \<le> MAX_TX_SIZE"
    and fit: "fits (pre @ raw @ rest)"
  shows "tx_Deserialization env (src_at pre (raw @ rest)) = Inr (tx_parsed raw tx, src_at (pre @ raw) rest)"
proof -
  let ?u = "unsigned_bytes tx" and ?ss = "concat (map (Sig_bytes env) (Sigs tx))"
  let ?l = "of_nat (length (Sigs tx)) :: uint64"
  have uw: "unsigned_wf (tx_unsigned tx)" and sw: "\<forall>s \<in> set (Sigs tx). Sig_wf env s"
    and pk: "\<forall>s \<in> set (Sigs tx). PubKeys s \<noteq> []" using wf by (simp_all add: tx_wf_def)
  have raw: "raw = ?u @ enc_varuint ?l @ ?ss"
    using s Sigs_Serialize_bytes [OF pk, of env]
    by (auto simp: tx_Serialization_def unsigned_bytes_def)
  have n: "length (Sigs tx) \<le> MAX_TX_SIZE"
    using length_concat_ge [of "Sigs tx" "Sig_bytes env"] len raw by (simp add: Sig_bytes_not_Nil)
  then have l: "unat ?l = length (Sigs tx)" by (simp add: unat_of_nat)
  have np: "\<not> make_Sigs_panics ?l" using n unfolding make_Sigs_panics_def l by simp
  have rl: "ok_read NextVarUint (src_at (pre @ ?u) (enc_varuint ?l @ ?ss @ rest))
      = Some (?l, src_at (pre @ ?u @ enc_varuint ?l) (?ss @ rest))"
    using rd_varuint.roundtrip [where x = ?l and pre = "pre @ ?u" and rest = "?ss @ rest"] fit raw by simp
  have rs: "read_list (Sig_Deserialize env) (length (Sigs tx)) (src_at (pre @ ?u @ enc_varuint ?l) (?ss @ rest))
      = Some (Sigs tx, src_at (pre @ raw) rest)"
    using rd_sig.list_roundtrip [OF sw, of "pre @ ?u @ enc_varuint ?l" rest] fit raw by simp
  have small: "unat (of_nat (length raw) :: uint64) = length raw"
    using len by (intro unat_of_nat_fits) simp
  have all: "NextBytes (of_nat (length raw)) (src_at pre (raw @ rest)) = ((raw, False), src_at (pre @ raw) rest)"
    using NextBytes_ok [of pre raw rest "of_nat (length raw)"] fit small by simp
  have "fits (pre @ unsigned_bytes (tx_unsigned tx) @ enc_varuint ?l @ ?ss @ rest)"
    using fit unfolding raw unsigned_bytes_strip by simp
  note d = tx_Deserialization_unsigned [OF uw this, of env, unfolded unsigned_bytes_strip]
  have e: "?u @ enc_varuint ?l @ ?ss @ rest = raw @ rest" by (simp add: raw)
  show ?thesis
    using d unfolding e rl orelse_err_simps ebind_Inr prod.case
    using np len by (simp add: l rs Pos_diff small BackUp_at all Let_def) (simp add: tx_unsigned_def tx_parsed_def)
qed

lemma tx_roundtrip_raw:
  assumes "tx_wf env tx" and "tx_Serialization env tx = Inr raw" and "length raw \<le> MAX_TX_SIZE"
  shows "TransactionFromRawBytes env raw = Inr (tx_parsed raw tx)"
proof -
  have "fits raw" using assms(3) by simp
  then show ?thesis
    using tx_read_at [OF assms, of "[]" "[]"] assms(3) by (simp add: TransactionFromRawBytes_def NewZeroCopySource_at)
qed

section \<open>Properties\<close>

text \<open>
  C30 (round trip): parsing the serialized form of a well-formed transaction of at most 1 MiB returns the
  transaction, with its raw bytes kept and its hash the double SHA-256 of the unsigned part.
\<close>

theorem tx_roundtrip:
  assumes "tx_wf env tx" and "tx_Serialization env tx = Inr raw" and "length raw \<le> MAX_TX_SIZE"
  shows "TransactionFromRawBytes env raw =
    Inr (tx\<lparr>Raw := raw, tx_hash := sha256 (sha256 (unsigned_bytes tx)), SignedAddr := []\<rparr>)"
  using tx_roundtrip_raw [OF assms] by (simp add: tx_parsed_def)

definition sample_tx :: Transaction where
  "sample_tx = \<lparr>tx_Version = 0, TxType = 0xD1, Nonce = 7, tx_ChainID = 1, GasLimit = 0, GasPrice = 0,
     Payload = Some [1, 2], Attributes = [], Payer = replicate 20 0, CoinType = 0, Sigs = [], Raw = [],
     tx_hash = replicate 32 0, SignedAddr = []\<rparr>"

lemma sample_tx_wf: "tx_wf env sample_tx" "unsigned_wf sample_tx"
  by (simp_all add: tx_wf_def tx_unsigned_def unsigned_wf_def sample_tx_def size_defs)

theorem tx_roundtrip_witness:
  "\<exists>raw. tx_Serialization plain_env sample_tx = Inr raw \<and>
    TransactionFromRawBytes plain_env raw = Inr (sample_tx\<lparr>Raw := raw,
      tx_hash := sha256 (sha256 (unsigned_bytes sample_tx)), SignedAddr := []\<rparr>)"
proof -
  have "\<exists>raw. tx_Serialization plain_env sample_tx = Inr raw \<and> length raw = 56"
    by (simp add: tx_Serialization_def SerializeUnsigned_def sample_tx_def enc_uint8_def enc_uint32_def
        enc_uint64_def enc_varbytes_def enc_varuint_def)
  then obtain raw where r: "tx_Serialization plain_env sample_tx = Inr raw" "length raw = 56" by blast
  with tx_roundtrip [OF sample_tx_wf(1) r(1)] show ?thesis by simp
qed

text \<open>
  C33 (error): a transaction of a few dozen bytes whose signature count is huge makes the parser panic
  instead of returning an error, because the slice for the signatures is allocated before any is read.
\<close>

theorem huge_signature_count_panics:
  assumes "unsigned_wf tx" and "make_Sigs_panics l"
    and "length (unsigned_bytes tx) + 9 \<le> MAX_TX_SIZE"
  shows "TransactionFromRawBytes env (unsigned_bytes tx @ enc_varuint l) = Inl TxPanic"
proof -
  have "length (enc_varuint l) \<le> 9" by (simp add: enc_varuint_def)
  with assms(3) have len: "length (unsigned_bytes tx @ enc_varuint l) \<le> MAX_TX_SIZE" by simp
  then have fit: "fits (unsigned_bytes tx @ enc_varuint l)" by simp
  have "ok_read NextVarUint (src_at (unsigned_bytes tx) (enc_varuint l))
      = Some (l, src_at (unsigned_bytes tx @ enc_varuint l) [])"
    using rd_varuint.roundtrip [where x = l and pre = "unsigned_bytes tx" and rest = "[]"] fit by simp
  moreover have "fits ([] @ unsigned_bytes tx @ enc_varuint l)" using fit by simp
  ultimately show ?thesis
    using tx_Deserialization_unsigned [OF assms(1), of "[]" "enc_varuint l" env] assms(2) len
    by (simp add: TransactionFromRawBytes_def NewZeroCopySource_at)
qed

theorem huge_signature_count_panics_witness:
  "TransactionFromRawBytes plain_env (unsigned_bytes sample_tx @ enc_varuint (2 ^ 62)) = Inl TxPanic"
proof (rule huge_signature_count_panics [OF sample_tx_wf(2)])
  show "make_Sigs_panics (2 ^ 62)" by (simp add: make_Sigs_panics_def)
  show "length (unsigned_bytes sample_tx) + 9 \<le> MAX_TX_SIZE"
    by (simp add: unsigned_bytes_def SerializeUnsigned_def sample_tx_def enc_uint8_def enc_uint32_def
        enc_uint64_def enc_varbytes_def enc_varuint_def)
qed

end
