(* ===== verification/Merkle_Hash.thy ===== *)
theory Merkle_Hash
  imports Zero_Source Sha256
begin

text \<open>
  \<open>merkle/merkle_hasher.go\<close> and \<open>merkle/util.go\<close>: the node hashes, the bit-counting helpers and the
  recursive tree hash.  The tree hash of RFC 6962 (\<open>mth\<close>) is the reference that every way the code has of
  computing a root is compared with.
\<close>

section \<open>Bit counting\<close>

function countBit_loop :: "uint32 \<Rightarrow> nat \<Rightarrow> nat" where
  "countBit_loop num count = (if num \<noteq> 0 then countBit_loop (and num (num - 1)) (count + 1) else count)"
  by auto
termination
proof (relation "measure (\<lambda>(num, _). unat num)")
  fix num :: uint32 and count :: nat assume "num \<noteq> 0"
  then have "num - 1 < num" by (simp add: word_less_nat_alt unat_minus_one unat_gt_0)
  then have "and num (num - 1) < num" by (meson order_le_less_trans word_and_le1)
  then show "((and num (num - 1), count + 1), num, count) \<in> measure (\<lambda>(num, _). unat num)"
    by (simp add: word_less_nat_alt)
qed simp

function highBit_loop :: "uint32 \<Rightarrow> nat \<Rightarrow> nat" where
  "highBit_loop num hiBit = (if num \<noteq> 0 then highBit_loop (drop_bit 1 num) (hiBit + 1) else hiBit)"
  by auto
termination
proof (relation "measure (\<lambda>(num, _). unat num)")
  fix num :: uint32 and hiBit :: nat assume "num \<noteq> 0"
  then have "0 < unat num" by (simp add: unat_gt_0)
  then show "((drop_bit 1 num, hiBit + 1), num, hiBit) \<in> measure (\<lambda>(num, _). unat num)"
    by (simp add: drop_bit_eq_div unat_div)
qed simp

declare countBit_loop.simps [simp del] highBit_loop.simps [simp del]

definition countBit :: "uint32 \<Rightarrow> nat" where
  "countBit num = countBit_loop num 0"

definition isPower2 :: "uint32 \<Rightarrow> bool" where
  "isPower2 num \<longleftrightarrow> countBit num = 1"

definition highBit :: "uint32 \<Rightarrow> nat" where
  "highBit num = highBit_loop num 0"

definition lowBit :: "uint32 \<Rightarrow> nat" where
  "lowBit num = highBit (and num (- num))"

section \<open>Node hashes\<close>

definition EMPTY_HASH :: uint256 where
  "EMPTY_HASH = replicate UINT256_SIZE 0"

definition hash_empty :: uint256 where
  "hash_empty = sha256 []"

definition hash_leaf :: "bytes \<Rightarrow> uint256" where
  "hash_leaf data = sha256 (0 # data)"

definition hash_children :: "uint256 \<Rightarrow> uint256 \<Rightarrow> uint256" where
  "hash_children left right = sha256 (1 # left @ right)"

definition HashLeaf :: "bytes \<Rightarrow> uint256" where
  "HashLeaf data = sha256 (0 # data)"

definition HashChildren :: "uint256 \<Rightarrow> uint256 \<Rightarrow> uint256" where
  "HashChildren left right = sha256 (1 # left @ right)"

text \<open>\<open>_hash_fold\<close> indexes \<open>hashes[l-1]\<close>: on no hashes it panics, \<open>None\<close>.\<close>

definition hash_fold :: "uint256 list \<Rightarrow> uint256 option" where
  "hash_fold hashes =
     (case rev hashes of [] \<Rightarrow> None | h # hs \<Rightarrow> Some (foldl (\<lambda>accum x. hash_children x accum) h hs))"

end
