(* ===== verification/Go_Maps.thy ===== *)
theory Go_Maps
  imports Poly_Prelude "HOL-Library.Multiset" "HOL-Library.AList"
begin

text \<open>
  Go maps and \<open>sort.SliceStable\<close>.  A Go map is an association list with distinct keys; the order of the
  list is one of the orders a \<open>range\<close> loop may take, and results that must not depend on it are proved
  to be the same for every reordering (\<open>mset\<close>-equal lists).  \<open>m[k] = v\<close> is \<open>AList.update\<close>, \<open>delete(m, k)\<close> is
  \<open>AList.delete\<close>, \<open>v, ok := m[k]\<close> is \<open>map_of\<close>.
\<close>

section \<open>Stable sorting\<close>

primrec insort_by :: "('a \<Rightarrow> 'a \<Rightarrow> bool) \<Rightarrow> 'a \<Rightarrow> 'a list \<Rightarrow> 'a list" where
  "insort_by lt x [] = [x]"
| "insort_by lt x (y # ys) = (if lt y x then y # insort_by lt x ys else x # y # ys)"

definition SliceStable :: "('a \<Rightarrow> 'a \<Rightarrow> bool) \<Rightarrow> 'a list \<Rightarrow> 'a list" where
  "SliceStable lt xs = foldr (insort_by lt) xs []"

lemma mset_insort_by [simp]: "mset (insort_by lt x xs) = add_mset x (mset xs)"
  by (induction xs) auto

lemma mset_SliceStable [simp]: "mset (SliceStable lt xs) = mset xs"
  unfolding SliceStable_def by (induction xs) auto

lemma set_SliceStable [simp]: "set (SliceStable lt xs) = set xs"
  by (metis mset_SliceStable set_mset_mset)

lemma length_SliceStable [simp]: "length (SliceStable lt xs) = length xs"
  by (metis mset_SliceStable size_mset)

text \<open>Sorting downwards by a key, as every caller does.\<close>

abbreviation sort_desc :: "('a \<Rightarrow> 'k :: linorder) \<Rightarrow> 'a list \<Rightarrow> 'a list" where
  "sort_desc f \<equiv> SliceStable (\<lambda>x y. f x > f y)"

lemma sorted_insort_by:
  "sorted_wrt (\<lambda>x y. f x \<ge> f y) xs \<Longrightarrow> sorted_wrt (\<lambda>x y. f x \<ge> f y) (insort_by (\<lambda>x y. f x > f y) a xs)"
  for f :: "'a \<Rightarrow> 'k :: linorder"
proof (induction xs)
  case (Cons x xs)
  have "set (insort_by (\<lambda>x y. f x > f y) a xs) = insert a (set xs)"
    by (metis mset_insort_by set_mset_add_mset_insert set_mset_mset)
  with Cons show ?case by (auto simp: not_less intro: order_trans less_imp_le)
qed simp

lemma sorted_sort_desc: "sorted_wrt (\<lambda>x y. f x \<ge> f y) (sort_desc f xs)"
  unfolding SliceStable_def by (induction xs) (simp_all add: sorted_insort_by)

lemma sort_desc_unique:
  assumes "mset xs = mset ys" and "inj_on f (set ys)"
  shows "sort_desc f xs = sort_desc f ys"
proof -
  have "sorted_wrt (\<lambda>x y. f x \<ge> f y) us \<Longrightarrow> sorted_wrt (\<lambda>x y. f x \<ge> f y) vs \<Longrightarrow> mset us = mset vs
      \<Longrightarrow> inj_on f (set us) \<Longrightarrow> us = vs" for us vs :: "'a list"
  proof (induction us arbitrary: vs)
    case (Cons u us)
    then obtain v ws where vs: "vs = v # ws" by (cases vs) auto
    have "set (u # us) = set vs" using Cons.prems(3) by (metis set_mset_mset)
    then have uv: "u \<in> set vs" "v \<in> set (u # us)" using vs by auto
    from uv(1) Cons.prems(2) vs have "f u \<le> f v" by auto
    moreover from uv(2) Cons.prems(1) have "f v \<le> f u" by auto
    ultimately have "f u = f v" by simp
    with Cons.prems(4) uv(2) have "u = v" by (meson inj_onD list.set_intros(1))
    moreover from this vs Cons.prems have "us = ws"
      by (intro Cons.IH) (auto intro: inj_on_subset)
    ultimately show ?case using vs by simp
  qed simp
  from this [of "sort_desc f xs" "sort_desc f ys"] assms show ?thesis
    by (metis mset_SliceStable set_SliceStable set_mset_mset sorted_sort_desc)
qed

lemma sort_desc_sorted:
  assumes "sorted_wrt (\<lambda>x y. f x > f y) xs"
  shows "sort_desc f xs = xs"
  using assms
proof (induction xs)
  case (Cons x xs)
  then have "sort_desc f (x # xs) = insort_by (\<lambda>x y. f x > f y) x xs" by (simp add: SliceStable_def)
  also have "\<dots> = x # xs" using Cons.prems by (cases xs) auto
  finally show ?case .
qed (simp add: SliceStable_def)

lemma sorted_distinct_desc:
  assumes "sorted_wrt (\<lambda>x y. f x \<ge> f y) xs" and "distinct (map f xs)"
  shows "sorted_wrt (\<lambda>x y. f x > (f y :: 'k :: linorder)) xs"
  using assms
proof (induction xs)
  case (Cons a xs)
  then have "\<forall>x \<in> set xs. f x \<le> f a \<and> f x \<noteq> f a" by (auto simp: image_iff)
  with Cons show ?case by (simp add: less_le)
qed simp

lemma sort_desc_idem:
  assumes "distinct (map f xs)"
  shows "sort_desc f (sort_desc f xs) = sort_desc f xs"
proof (rule sort_desc_sorted, rule sorted_distinct_desc [OF sorted_sort_desc])
  have "mset (map f (sort_desc f xs)) = mset (map f xs)" by (simp add: mset_map)
  with assms show "distinct (map f (sort_desc f xs))" by (metis mset_eq_imp_distinct_iff)
qed

section \<open>Maps\<close>

lemma map_of_mset_eq:
  assumes "mset xs = mset ys" and "distinct (map fst xs)"
  shows "map_of xs = map_of ys"
proof -
  have "distinct (map fst ys)" using assms by (metis mset_eq_imp_distinct_iff mset_map)
  moreover have "set xs = set ys" using assms(1) by (metis set_mset_mset)
  ultimately show ?thesis using assms(2) by (simp add: map_of_inject_set)
qed

text \<open>A map rebuilt from its values, as the deserializers do.\<close>

definition map_by :: "('v \<Rightarrow> 'k) \<Rightarrow> 'v list \<Rightarrow> ('k \<times> 'v) list" where
  "map_by f vs = foldl (\<lambda>m v. AList.update (f v) v m) [] vs"

lemma update_snoc: "k \<notin> fst ` set m \<Longrightarrow> AList.update k v m = m @ [(k, v)]"
  by (induction m) auto

lemma map_by_distinct:
  assumes "distinct (map f vs)"
  shows "map_by f vs = map (\<lambda>v. (f v, v)) vs"
  using assms
proof (induction vs rule: rev_induct)
  case (snoc v vs)
  then have "map_by f (vs @ [v]) = AList.update (f v) v (map (\<lambda>v. (f v, v)) vs)"
    by (simp add: map_by_def)
  also have "\<dots> = map (\<lambda>v. (f v, v)) (vs @ [v])"
    using snoc.prems by (subst update_snoc) (auto simp: image_iff)
  finally show ?case .
qed (simp add: map_by_def)

lemma distinct_map_by: "distinct (map fst (map_by f vs))"
  unfolding map_by_def by (induction vs rule: rev_induct) (simp_all add: distinct_update)

end
