(* ===== verification/Native_Service.thy ===== *)
theory Native_Service
  imports Overlay_DB Serialization_IO Chain_Tx Merkle_Hash Go_Maps "HOL-Library.DAList"
begin

text \<open>
  \<open>native/native.go\<close>, \<open>native/states/contract.go\<close> and the storage helpers of \<open>native/service/utils\<close>.

  A contract reads and writes the transaction cache only through \<open>Get\<close>, \<open>Put\<close> and \<open>Delete\<close>; by
  \<open>cache.run_view\<close> these act on what the cache shows at each key (\<open>kv\<close>: an I/O error, no value, or a
  value), so the state holds the entries written so far over what the block cache shows.  A handler returns an
  error, named by the source's message, or the result with the new state; the state of a failed handler is
  dropped, as the block executor drops it (\<open>Reset\<close> of the cache, theory \<open>Block_Exec\<close>).  \<open>serviceMap\<close> maps a
  method name to the contract that registered it last.
\<close>

section \<open>The service\<close>

type_synonym kv = "bytes \<Rightarrow> store_err + bytes option"
type_synonym err = string

datatype nval = NStr bytes | NNum int | NList "bytes list" | NRec "int list"

text \<open>
  The transaction cache as the contracts use it: the entries of its write buffer, one for each key and with the
  empty value for a deletion, over what the block cache shows.
\<close>

record Cache =
  cwrites :: "(bytes, bytes) alist"
  cbelow :: kv

record NotifyEventInfo =
  ContractAddress :: address
  States :: "nval list"

record NativeService =
  cacheDB :: Cache
  chainID :: uint64
  serviceMap :: "bytes \<rightharpoonup> address"
  notifications :: "NotifyEventInfo list"
  input :: bytes
  tx :: Transaction
  height :: uint32
  time :: uint32
  blockHash :: uint256
  crossHashes :: "uint256 list"
  contexts :: "address list"
  preExec :: bool

type_synonym handler = "NativeService \<Rightarrow> err + (bytes \<times> NativeService)"

text \<open>A contract with the handlers its \<open>Register...Contract\<close> function registers.\<close>

type_synonym contracts = "(address \<times> (bytes \<times> handler) list) list"

definition NewNativeService :: "Cache \<Rightarrow> Transaction \<Rightarrow> uint32 \<Rightarrow> uint32 \<Rightarrow> uint256 \<Rightarrow> uint64 \<Rightarrow> bytes \<Rightarrow> bool
    \<Rightarrow> err + NativeService" where
  "NewNativeService c t tm h bh cid inp pre =
     (if tx_ChainID t \<noteq> cid then Inl ''NewNativeService Error: ChainId in Tx not equal to current block ChainId''
      else Inr \<lparr>cacheDB = c, chainID = cid, serviceMap = Map.empty, notifications = [], input = inp, tx = t,
                height = h, time = tm, blockHash = bh, crossHashes = [], contexts = [], preExec = pre\<rparr>)"

definition Register :: "bytes \<Rightarrow> address \<Rightarrow> NativeService \<Rightarrow> NativeService" where
  "Register methodName contract this = this\<lparr>serviceMap := (serviceMap this)(methodName \<mapsto> contract)\<rparr>"

abbreviation MAX_NATIVE_VERSION :: byte where "MAX_NATIVE_VERSION \<equiv> 0"
abbreviation MAX_CONTEXT_LEN :: nat where "MAX_CONTEXT_LEN \<equiv> 1024"

record ContractInvokeParam =
  ip_Version :: byte
  ip_Address :: address
  Method :: bytes
  Args :: bytes

definition ContractInvokeParam_Serialization :: "ContractInvokeParam \<Rightarrow> bytes" where
  "ContractInvokeParam_Serialization p =
     enc_uint8 (ip_Version p) @ ip_Address p @ enc_varbytes (Method p) @ enc_varbytes (Args p)"

definition ContractInvokeParam_Deserialization ::
  "ZeroCopySource \<Rightarrow> (ContractInvokeParam \<times> ZeroCopySource) option" where
  "ContractInvokeParam_Deserialization src =
     do { (version, src) \<leftarrow> ok_read NextByte src;
          if version > MAX_NATIVE_VERSION then None else do {
          (addr, src) \<leftarrow> ok_read NextAddress src;
          (method, src) \<leftarrow> ok_read NextVarBytes src;
          (args, src) \<leftarrow> ok_read NextVarBytes src;
          Some (\<lparr>ip_Version = version, ip_Address = addr, Method = method, Args = args\<rparr>, src) }}"

definition PushContext :: "address \<Rightarrow> NativeService \<Rightarrow> err + NativeService" where
  "PushContext addr this =
     (if length (contexts this) > MAX_CONTEXT_LEN then Inl ''context over max context lenght''
      else Inr (this\<lparr>contexts := contexts this @ [addr]\<rparr>))"

definition CallingContext :: "NativeService \<Rightarrow> address" where
  "CallingContext this =
     (if length (contexts this) < 2 then ADDRESS_EMPTY
      else contexts this ! (length (contexts this) - 2))"

definition PopContext :: "NativeService \<Rightarrow> NativeService" where
  "PopContext this =
     (if length (contexts this) > 1 then this\<lparr>contexts := butlast (contexts this)\<rparr> else this)"

definition CurrentContext :: "NativeService \<Rightarrow> address" where
  "CurrentContext this = (if contexts this = [] then ADDRESS_EMPTY else last (contexts this))"

text \<open>
  The result of \<open>Invoke\<close>: the handler's bytes, or the error value that a failed \<open>PushContext\<close> hands back
  as the result.
\<close>

datatype invoke_result = Result bytes | ErrAsResult err

definition Invoke :: "contracts \<Rightarrow> NativeService \<Rightarrow> err + (invoke_result \<times> NativeService)" where
  "Invoke Contracts this =
     ebind (orelse_err (ContractInvokeParam_Deserialization (NewZeroCopySource (input this)))
              ''[ContractInvokeParam] deserialize error'') (\<lambda>(invokeParam, _).
     case map_of Contracts (ip_Address invokeParam) of
       None \<Rightarrow> Inl ''[Invoke] Native contract address haven't been registered.''
     | Some services \<Rightarrow>
         let this = foldl (\<lambda>t (m, _). Register m (ip_Address invokeParam) t) this services in
         case serviceMap this (Method invokeParam) of
           None \<Rightarrow> Inl ''[Invoke] Native contract doesn't support this function''
         | Some owner \<Rightarrow>
             (case Option.bind (map_of Contracts owner) (\<lambda>s. map_of s (Method invokeParam)) of
                None \<Rightarrow> Inl ''[Invoke] Native contract doesn't support this function''
              | Some service \<Rightarrow>
                  let args = input this; notifs = notifications this; hashes = crossHashes this;
                      this = this\<lparr>input := Args invokeParam, notifications := [], crossHashes := []\<rparr>
                  in case PushContext (ip_Address invokeParam) this of
                       Inl err \<Rightarrow> Inr (ErrAsResult err, this)
                     | Inr this \<Rightarrow>
                         ebind (service this) (\<lambda>(result, this).
                         let this = PopContext this
                         in Inr (Result result, this\<lparr>notifications := notifs @ notifications this,
                                crossHashes := crossHashes this @ hashes, input := args\<rparr>))))"

definition NativeCall :: "contracts \<Rightarrow> address \<Rightarrow> bytes \<Rightarrow> bytes \<Rightarrow> NativeService
    \<Rightarrow> err + (invoke_result \<times> NativeService)" where
  "NativeCall Contracts addr method args this =
     Invoke Contracts (this\<lparr>input := ContractInvokeParam_Serialization
       \<lparr>ip_Version = 0, ip_Address = addr, Method = method, Args = args\<rparr>\<rparr>)"

definition PutMerkleVal :: "bytes \<Rightarrow> NativeService \<Rightarrow> NativeService" where
  "PutMerkleVal data this = this\<lparr>crossHashes := crossHashes this @ [HashLeaf data]\<rparr>"

definition checkAccountAddress :: "Env \<Rightarrow> NativeService \<Rightarrow> address \<Rightarrow> bool" where
  "checkAccountAddress env this addr =
     (case fst (GetSignatureAddresses env (tx this)) of
        None \<Rightarrow> False
      | Some addresses \<Rightarrow> list_ex (\<lambda>v. v = addr) addresses)"

definition checkContractAddress :: "NativeService \<Rightarrow> address \<Rightarrow> bool" where
  "checkContractAddress this addr \<longleftrightarrow>
     CallingContext this \<noteq> ADDRESS_EMPTY \<and> CallingContext this = addr"

definition CheckWitness :: "Env \<Rightarrow> NativeService \<Rightarrow> address \<Rightarrow> bool" where
  "CheckWitness env this addr \<longleftrightarrow> checkAccountAddress env this addr \<or> checkContractAddress this addr"

definition AddNotify :: "NotifyEventInfo \<Rightarrow> NativeService \<Rightarrow> NativeService" where
  "AddNotify notify this = this\<lparr>notifications := notifications this @ [notify]\<rparr>"

section \<open>Contract storage\<close>

definition db_Get :: "NativeService \<Rightarrow> bytes \<Rightarrow> store_err + bytes option" where
  "db_Get ns key = layer (DAList.impl_of (cwrites (cacheDB ns))) (cbelow (cacheDB ns)) key"

definition db_Put :: "bytes \<Rightarrow> bytes \<Rightarrow> NativeService \<Rightarrow> NativeService" where
  "db_Put key value ns =
     ns\<lparr>cacheDB := (cacheDB ns)\<lparr>cwrites := DAList.update key value (cwrites (cacheDB ns))\<rparr>\<rparr>"

definition db_Delete :: "bytes \<Rightarrow> NativeService \<Rightarrow> NativeService" where
  "db_Delete key ns =
     ns\<lparr>cacheDB := (cacheDB ns)\<lparr>cwrites := DAList.update key [] (cwrites (cacheDB ns))\<rparr>\<rparr>"

definition ConcatKey :: "address \<Rightarrow> bytes list \<Rightarrow> bytes" where
  "ConcatKey contract args = foldl (@) contract args"

definition ValidateOwner :: "Env \<Rightarrow> NativeService \<Rightarrow> address \<Rightarrow> bool" where
  "ValidateOwner env ns addr = CheckWitness env ns addr"

definition GetUint32Bytes :: "uint32 \<Rightarrow> bytes" where
  "GetUint32Bytes num = put_le 4 (unat num)"

definition GetBytesUint32 :: "bytes \<Rightarrow> uint32" where
  "GetBytesUint32 b = (if length b \<noteq> 4 then 0 else of_nat (get_le b))"

definition GetUint64Bytes :: "uint64 \<Rightarrow> bytes" where
  "GetUint64Bytes num = put_le 8 (unat num)"

definition GetBytesUint64 :: "bytes \<Rightarrow> uint64" where
  "GetBytesUint64 b = (if length b \<noteq> 8 then 0 else of_nat (get_le b))"

abbreviation BYTE_FALSE :: bytes where "BYTE_FALSE \<equiv> [0]"
abbreviation BYTE_TRUE :: bytes where "BYTE_TRUE \<equiv> [1]"

text \<open>\<open>PutBytes(native, key, value)\<close> and the inline form \<open>Put(key, GenRawStorageItem(value))\<close>.\<close>

definition PutBytes :: "bytes \<Rightarrow> bytes \<Rightarrow> NativeService \<Rightarrow> NativeService" where
  "PutBytes key value ns = db_Put key (GenRawStorageItem value) ns"

definition GetStorageItem :: "NativeService \<Rightarrow> bytes \<Rightarrow> err + StorageItem option" where
  "GetStorageItem ns key =
     (case db_Get ns key of
        Inl _ \<Rightarrow> Inl ''[GetStorageItem] storage error!''
      | Inr None \<Rightarrow> Inr None
      | Inr (Some st) \<Rightarrow>
          (case StorageItem_Deserialize st of
             Inl _ \<Rightarrow> Inl ''[GetStorageItem] instance doesn't StorageItem!''
           | Inr (item, _) \<Rightarrow> Inr (Some item)))"

definition GetStorageUInt64 :: "NativeService \<Rightarrow> bytes \<Rightarrow> err + uint64" where
  "GetStorageUInt64 ns key =
     ebind (GetStorageItem ns key) (\<lambda>item.
     case item of None \<Rightarrow> Inr 0
     | Some it \<Rightarrow> (case ser_ReadUint64 (Value it) of Inl _ \<Rightarrow> Inl ''ReadUint64'' | Inr (v, _) \<Rightarrow> Inr v))"

definition GetStorageUInt32 :: "NativeService \<Rightarrow> bytes \<Rightarrow> err + uint32" where
  "GetStorageUInt32 ns key =
     ebind (GetStorageItem ns key) (\<lambda>item.
     case item of None \<Rightarrow> Inr 0
     | Some it \<Rightarrow> (case ser_ReadUint32 (Value it) of Inl _ \<Rightarrow> Inl ''ReadUint32'' | Inr (v, _) \<Rightarrow> Inr v))"

definition GetStorageVarBytes :: "NativeService \<Rightarrow> bytes \<Rightarrow> err + bytes" where
  "GetStorageVarBytes ns key =
     ebind (GetStorageItem ns key) (\<lambda>item.
     case item of None \<Rightarrow> Inr []
     | Some it \<Rightarrow> (case ser_ReadVarBytes (Value it) of Inl _ \<Rightarrow> Inl ''ReadVarBytes'' | Inr (v, _) \<Rightarrow> Inr v))"

definition GenUInt64StorageItem :: "uint64 \<Rightarrow> StorageItem" where
  "GenUInt64StorageItem value = \<lparr>StateVersion = 0, Value = ser_WriteUint64 [] value\<rparr>"

definition GenUInt32StorageItem :: "uint32 \<Rightarrow> StorageItem" where
  "GenUInt32StorageItem value = \<lparr>StateVersion = 0, Value = ser_WriteUint32 [] value\<rparr>"

definition GenVarBytesStorageItem :: "bytes \<Rightarrow> StorageItem" where
  "GenVarBytesStorageItem value = \<lparr>StateVersion = 0, Value = ser_WriteVarBytes [] value\<rparr>"

section \<open>Contract addresses and routers\<close>

definition contract_address :: "byte \<Rightarrow> address" where
  "contract_address n = replicate 19 0 @ [n]"

abbreviation HeaderSyncContractAddress :: address where "HeaderSyncContractAddress \<equiv> contract_address 2"
abbreviation CrossChainManagerContractAddress :: address where "CrossChainManagerContractAddress \<equiv> contract_address 3"
abbreviation SideChainManagerContractAddress :: address where "SideChainManagerContractAddress \<equiv> contract_address 4"
abbreviation NodeManagerContractAddress :: address where "NodeManagerContractAddress \<equiv> contract_address 5"
abbreviation RelayerManagerContractAddress :: address where "RelayerManagerContractAddress \<equiv> contract_address 6"
abbreviation Neo3StateManagerContractAddress :: address where "Neo3StateManagerContractAddress \<equiv> contract_address 7"
abbreviation SignatureManagerContractAddress :: address where "SignatureManagerContractAddress \<equiv> contract_address 8"
abbreviation ReplenishContractAddress :: address where "ReplenishContractAddress \<equiv> contract_address 9"

abbreviation VOTE_ROUTER :: uint64 where "VOTE_ROUTER \<equiv> 0"
abbreviation BTC_ROUTER :: uint64 where "BTC_ROUTER \<equiv> 1"
abbreviation ETH_ROUTER :: uint64 where "ETH_ROUTER \<equiv> 2"
abbreviation ONT_ROUTER :: uint64 where "ONT_ROUTER \<equiv> 3"
abbreviation NEO_ROUTER :: uint64 where "NEO_ROUTER \<equiv> 4"
abbreviation COSMOS_ROUTER :: uint64 where "COSMOS_ROUTER \<equiv> 5"
abbreviation BSC_ROUTER :: uint64 where "BSC_ROUTER \<equiv> 6"
abbreviation HECO_ROUTER :: uint64 where "HECO_ROUTER \<equiv> 7"
abbreviation QUORUM_ROUTER :: uint64 where "QUORUM_ROUTER \<equiv> 8"
abbreviation ZILLIQA_LEGACY_ROUTER :: uint64 where "ZILLIQA_LEGACY_ROUTER \<equiv> 9"
abbreviation MSC_ROUTER :: uint64 where "MSC_ROUTER \<equiv> 10"
abbreviation NEO3_LEGACY_ROUTER :: uint64 where "NEO3_LEGACY_ROUTER \<equiv> 11"
abbreviation OKEX_ROUTER :: uint64 where "OKEX_ROUTER \<equiv> 12"
abbreviation NEO3_ROUTER :: uint64 where "NEO3_ROUTER \<equiv> 14"
abbreviation POLYGON_HEIMDALL_ROUTER :: uint64 where "POLYGON_HEIMDALL_ROUTER \<equiv> 15"
abbreviation POLYGON_BOR_ROUTER :: uint64 where "POLYGON_BOR_ROUTER \<equiv> 16"
abbreviation ZILLIQA_ROUTER :: uint64 where "ZILLIQA_ROUTER \<equiv> 17"
abbreviation STARCOIN_ROUTER :: uint64 where "STARCOIN_ROUTER \<equiv> 18"
abbreviation PIXIECHAIN_ROUTER :: uint64 where "PIXIECHAIN_ROUTER \<equiv> 19"
abbreviation RIPPLE_ROUTER :: uint64 where "RIPPLE_ROUTER \<equiv> 23"
abbreviation HSC_ROUTER :: uint64 where "HSC_ROUTER \<equiv> 20"
abbreviation HARMONY_ROUTER :: uint64 where "HARMONY_ROUTER \<equiv> 21"
abbreviation BYTOM_ROUTER :: uint64 where "BYTOM_ROUTER \<equiv> 22"

abbreviation NETWORK_ID_MAIN_NET :: uint32 where "NETWORK_ID_MAIN_NET \<equiv> 1"

text \<open>\<open>config.DefConfig.P2PNode.NetworkId\<close> is the argument \<open>networkId\<close>.\<close>

definition CheckRouterStartBlock :: "uint32 \<Rightarrow> uint64 \<Rightarrow> uint32 \<Rightarrow> err + unit" where
  "CheckRouterStartBlock networkId router block =
     (let startBlock = (if router \<in> {HARMONY_ROUTER, HSC_ROUTER, BYTOM_ROUTER}
                          \<and> networkId = NETWORK_ID_MAIN_NET then 18823000 else 0)
      in if startBlock > 0 \<and> block < startBlock then Inl ''not a supported router'' else Inr ())"

section \<open>Typed records in storage\<close>

text \<open>
  The shape every accessor of the contracts has: read the raw item, unwrap the storage item, deserialize
  the value, with one message per failure.
\<close>

definition load_item :: "err \<Rightarrow> err \<Rightarrow> err \<Rightarrow> (ZeroCopySource \<Rightarrow> ('a \<times> ZeroCopySource) option)
    \<Rightarrow> NativeService \<Rightarrow> bytes \<Rightarrow> err + 'a option" where
  "load_item eget eraw edes deser ns key =
     (case db_Get ns key of
        Inl _ \<Rightarrow> Inl eget
      | Inr None \<Rightarrow> Inr None
      | Inr (Some raw) \<Rightarrow>
          (case GetValueFromRawStorageItem raw of
             Inl _ \<Rightarrow> Inl eraw
           | Inr value \<Rightarrow>
               (case deser (NewZeroCopySource value) of
                  None \<Rightarrow> Inl edes
                | Some (x, _) \<Rightarrow> Inr (Some x))))"

text \<open>A missing record is an error for some accessors.\<close>

definition require :: "err \<Rightarrow> err + 'a option \<Rightarrow> err + 'a" where
  "require e r = ebind r (\<lambda>x. orelse_err x e)"

lemma require_simps [simp]:
  "require e (Inl e') = Inl e'" "require e (Inr None) = Inl e" "require e (Inr (Some x)) = Inr x"
  by (simp_all add: require_def)

subsection \<open>Reads after writes\<close>

lemma layer_upd:
  "layer (DAList.impl_of (DAList.update k v es)) lower = (layer (DAList.impl_of es) lower)(k := written v)"
  by (rule layer_put) (simp add: DAList.update.rep_eq update_conv' fun_eq_iff)

lemma layer_empty [simp]: "layer [] lower = lower" "layer (DAList.impl_of DAList.empty) lower = lower"
  by (simp_all add: layer_def [abs_def] DAList.empty.rep_eq)

lemma db_Get_Put [store_simps]:
  "db_Get (db_Put key value ns) k = (if k = key then written value else db_Get ns k)"
  by (simp add: db_Get_def db_Put_def layer_upd)

lemma db_Get_Delete [store_simps]:
  "db_Get (db_Delete key ns) k = (if k = key then Inr None else db_Get ns k)"
  by (simp add: db_Get_def db_Delete_def layer_upd written_def)

lemma db_Get_AddNotify [store_simps]: "db_Get (AddNotify n ns) k = db_Get ns k"
  by (simp add: db_Get_def AddNotify_def)

lemma written_raw [store_simps]: "written (GenRawStorageItem v) = Inr (Some (GenRawStorageItem v))"
  by (simp add: written_def)

lemma load_item_cong:
  "db_Get ns key = db_Get ns' key \<Longrightarrow> load_item e1 e2 e3 d ns key = load_item e1 e2 e3 d ns' key"
  by (simp add: load_item_def)

lemma load_item_other [store_simps]:
  "k \<noteq> key \<Longrightarrow> load_item e1 e2 e3 d (db_Put key v ns) k = load_item e1 e2 e3 d ns k"
  "k \<noteq> key \<Longrightarrow> load_item e1 e2 e3 d (db_Delete key ns) k = load_item e1 e2 e3 d ns k"
  "load_item e1 e2 e3 d (AddNotify n ns) k = load_item e1 e2 e3 d ns k"
  "load_item e1 e2 e3 d (db_Delete key ns) key = Inr None"
  by (simp_all add: load_item_def store_simps)

lemma service_fields [store_simps]:
  "height (db_Put k v ns) = height ns" "height (db_Delete k ns) = height ns" "height (AddNotify n ns) = height ns"
  "tx (db_Put k v ns) = tx ns" "tx (db_Delete k ns) = tx ns" "tx (AddNotify n ns) = tx ns"
  "input (db_Put k v ns) = input ns" "input (db_Delete k ns) = input ns" "input (AddNotify n ns) = input ns"
  "contexts (db_Put k v ns) = contexts ns" "contexts (db_Delete k ns) = contexts ns"
  "contexts (AddNotify n ns) = contexts ns"
  "notifications (db_Put k v ns) = notifications ns" "notifications (db_Delete k ns) = notifications ns"
  "notifications (AddNotify n ns) = notifications ns @ [n]"
  by (simp_all add: db_Put_def db_Delete_def AddNotify_def)

context codec
begin

lemma load_put:
  assumes "wf x" and "length (ser x) < 2 ^ 62"
  shows "load_item e1 e2 e3 deser (db_Put key (GenRawStorageItem (ser x)) ns) key = Inr (Some x)"
  using decode_encode [OF assms(1)] assms(2)
  by (simp add: load_item_def store_simps)

end

subsection \<open>Keys\<close>

lemma of_char_inject: "(of_char c :: byte) = of_char d \<longleftrightarrow> c = d"
proof
  assume "(of_char c :: byte) = of_char d"
  then have "unat (of_char c :: byte) = unat (of_char d :: byte)" by simp
  moreover have "unat (of_char c :: byte) = of_char c" for c :: char
  proof -
    have "(of_char c :: byte) = of_nat (of_char c)" by (simp add: of_nat_of_char)
    moreover have "of_char c < (256 :: nat)" by (metis of_char_of range_nat_of_char atLeastLessThan_iff rangeI)
    ultimately show ?thesis by (simp add: unat_of_nat)
  qed
  ultimately show "c = d" by (metis of_char_eq_iff)
qed simp

lemma str_eq [key_simps]:
  "str (c # s) @ x = str (d # t) @ y \<longleftrightarrow> c = d \<and> str s @ x = str t @ y"
  "str (c # s) = str (d # t) @ y \<longleftrightarrow> c = d \<and> str s = str t @ y"
  "str (c # s) @ x = str (d # t) \<longleftrightarrow> c = d \<and> str s @ x = str t"
  "str (c # s) = str (d # t) \<longleftrightarrow> c = d \<and> str s = str t"
  "str [] = []" "(str s = []) = (s = [])"
  by (simp_all add: str_def of_char_inject)

lemma ConcatKey_eq [key_simps]: "ConcatKey c xs = ConcatKey c ys \<longleftrightarrow> concat xs = concat ys"
proof -
  have "foldl (@) c xs = c @ concat xs" for c :: bytes and xs by (induction xs arbitrary: c) simp_all
  then show ?thesis by (simp add: ConcatKey_def)
qed

lemma ConcatKey_contract [key_simps]:
  "m \<noteq> n \<Longrightarrow> ConcatKey (contract_address m) xs \<noteq> ConcatKey (contract_address n) ys"
proof -
  have "foldl (@) c xs = c @ concat xs" for c :: bytes and xs by (induction xs arbitrary: c) simp_all
  then show "m \<noteq> n \<Longrightarrow> ?thesis" by (simp add: ConcatKey_def contract_address_def)
qed

lemma length_GetUint32Bytes [simp]: "length (GetUint32Bytes a) = 4"
  and length_GetUint64Bytes [simp]: "length (GetUint64Bytes c) = 8"
  by (simp_all add: GetUint32Bytes_def GetUint64Bytes_def)

lemma GetBytesUint32_Bytes [store_simps]: "GetBytesUint32 (GetUint32Bytes a) = a"
  using unat_word_less [of a] by (simp add: GetBytesUint32_def) (simp add: GetUint32Bytes_def get_le_put_le)

lemma GetBytesUint64_Bytes [store_simps]: "GetBytesUint64 (GetUint64Bytes c) = c"
  using unat_word_less [of c] by (simp add: GetBytesUint64_def) (simp add: GetUint64Bytes_def get_le_put_le)

lemma GetUint32Bytes_inject [key_simps]: "GetUint32Bytes a = GetUint32Bytes b \<longleftrightarrow> a = b"
  by (metis GetBytesUint32_Bytes)

lemma GetUint64Bytes_inject [key_simps]: "GetUint64Bytes c = GetUint64Bytes d \<longleftrightarrow> c = d"
  by (metis GetBytesUint64_Bytes)

section \<open>Invocation parameters\<close>

definition ContractInvokeParam_wf :: "ContractInvokeParam \<Rightarrow> bool" where
  "ContractInvokeParam_wf p \<longleftrightarrow> ip_Version p = 0 \<and> length (ip_Address p) = ADDR_LEN \<and> fits (Method p) \<and> fits (Args p)"

interpretation rd_invoke: codec ContractInvokeParam_Serialization ContractInvokeParam_Deserialization
  ContractInvokeParam_wf
proof
  fix x pre rest assume "ContractInvokeParam_wf x" and "fits (pre @ ContractInvokeParam_Serialization x @ rest)"
  then show "ContractInvokeParam_Deserialization (src_at pre (ContractInvokeParam_Serialization x @ rest))
      = Some (x, src_at (pre @ ContractInvokeParam_Serialization x) rest)"
    by (cases x) (simp add: ContractInvokeParam_Deserialization_def ContractInvokeParam_Serialization_def
        ContractInvokeParam_wf_def codec_simps NextUint8_eq [symmetric])
next
  show "rd_local ContractInvokeParam_Deserialization"
    unfolding ContractInvokeParam_Deserialization_def [abs_def] by (intro rd_rules)
qed

end
