(* ===== verification/Node_States.thy ===== *)
theory Node_States
  imports Native_Service
begin

text \<open>
  The stored records and the parameters of the node manager contract
  (\<open>native/service/governance/node_manager/states.go\<close> and \<open>param.go\<close>) and the genesis configuration it
  is initialised from (\<open>VBFTConfig\<close> of \<open>common/config/config.go\<close>), each with its wire format and the
  proof that serializer and deserializer satisfy the contract \<open>codec\<close>.  The two map types are
  serialized in descending key order; the bytes are shown not to depend on the order in which Go ranges
  over the map.
\<close>

section \<open>Peers\<close>

type_synonym Status = byte

abbreviation CandidateStatus :: Status where "CandidateStatus \<equiv> 0"
abbreviation ConsensusStatus :: Status where "ConsensusStatus \<equiv> 1"
abbreviation QuitingStatus :: Status where "QuitingStatus \<equiv> 2"
abbreviation BlackStatus :: Status where "BlackStatus \<equiv> 3"

definition Status_Serialization :: "Status \<Rightarrow> bytes" where
  "Status_Serialization st = enc_uint8 st"

definition Status_Deserialization :: "ZeroCopySource \<Rightarrow> (Status \<times> ZeroCopySource) option" where
  "Status_Deserialization src = do { (status, src) \<leftarrow> ok_read NextUint8 src; Some (status, src) }"

interpretation rd_status: codec Status_Serialization Status_Deserialization "\<lambda>_. True"
  unfolding Status_Deserialization_def [abs_def] Status_Serialization_def
  by unfold_locales (simp add: codec_simps, intro rd_rules)

lemmas [codec_simps] = rd_status.roundtrip
lemmas [rd_rules] = rd_status.local_read

record BlackListItem =
  bl_PeerPubkey :: bytes
  bl_Address :: address

definition BlackListItem_Serialization :: "BlackListItem \<Rightarrow> bytes" where
  "BlackListItem_Serialization b = enc_varbytes (bl_PeerPubkey b) @ enc_varbytes (bl_Address b)"

definition BlackListItem_Deserialization :: "ZeroCopySource \<Rightarrow> (BlackListItem \<times> ZeroCopySource) option" where
  "BlackListItem_Deserialization src =
     do { (peerPubkey, src) \<leftarrow> ok_read NextString src;
          (addr, src) \<leftarrow> read_addr src;
          Some (\<lparr>bl_PeerPubkey = peerPubkey, bl_Address = addr\<rparr>, src) }"

interpretation rd_blacklist: codec BlackListItem_Serialization BlackListItem_Deserialization
  "\<lambda>b. fits (bl_PeerPubkey b) \<and> length (bl_Address b) = ADDR_LEN"
  unfolding BlackListItem_Deserialization_def [abs_def] BlackListItem_Serialization_def
  by unfold_locales (simp add: codec_simps, intro rd_rules)

record PeerPoolItem =
  Index :: uint32
  PeerPubkey :: bytes
  Address :: address
  Status :: Status

definition PeerPoolItem_Serialization :: "PeerPoolItem \<Rightarrow> bytes" where
  "PeerPoolItem_Serialization p =
     enc_uint32 (Index p) @ enc_varbytes (PeerPubkey p) @ enc_varbytes (Address p) @ Status_Serialization (Status p)"

definition PeerPoolItem_Deserialization :: "ZeroCopySource \<Rightarrow> (PeerPoolItem \<times> ZeroCopySource) option" where
  "PeerPoolItem_Deserialization src =
     do { (index, src) \<leftarrow> ok_read NextUint32 src;
          (peerPubkey, src) \<leftarrow> ok_read NextString src;
          (address, src) \<leftarrow> ok_read NextVarBytes src;
          (status, src) \<leftarrow> Status_Deserialization src;
          addr \<leftarrow> AddressParseFromBytes address;
          Some (\<lparr>Index = index, PeerPubkey = peerPubkey, Address = addr, Status = status\<rparr>, src) }"

definition PeerPoolItem_wf :: "PeerPoolItem \<Rightarrow> bool" where
  "PeerPoolItem_wf p \<longleftrightarrow> fits (PeerPubkey p) \<and> length (Address p) = ADDR_LEN"

interpretation rd_peer: codec PeerPoolItem_Serialization PeerPoolItem_Deserialization PeerPoolItem_wf
  unfolding PeerPoolItem_Deserialization_def [abs_def] PeerPoolItem_Serialization_def PeerPoolItem_wf_def
  by unfold_locales (simp add: codec_simps AddressParseFromBytes_def size_defs, intro rd_rules)

lemmas [rd_rules] = rd_peer.local_read

type_synonym PeerPoolMap = "(bytes \<times> PeerPoolItem) list"

definition PeerPoolMap_Serialization :: "PeerPoolMap \<Rightarrow> bytes" where
  "PeerPoolMap_Serialization m =
     (let peerPoolItemList = sort_desc PeerPubkey (map snd m)
      in enc_varuint (of_nat (length m)) @ concat (map PeerPoolItem_Serialization peerPoolItemList))"

definition PeerPoolMap_Deserialization :: "ZeroCopySource \<Rightarrow> (PeerPoolMap \<times> ZeroCopySource) option" where
  "PeerPoolMap_Deserialization src =
     do { (n, src) \<leftarrow> ok_read NextVarUint src;
          (items, src) \<leftarrow> read_list PeerPoolItem_Deserialization (unat n) src;
          Some (map_by PeerPubkey items, src) }"

text \<open>A pool as \<open>GetPeerPoolMap\<close> builds it: every item under its own key, once.\<close>

definition pool_ok :: "PeerPoolMap \<Rightarrow> bool" where
  "pool_ok m \<longleftrightarrow> distinct (map fst m) \<and> (\<forall>(k, v) \<in> set m. k = PeerPubkey v \<and> PeerPoolItem_wf v)
     \<and> length m < 2 ^ 62"

definition pool_canon :: "PeerPoolMap \<Rightarrow> PeerPoolMap" where
  "pool_canon m = map (\<lambda>v. (PeerPubkey v, v)) (sort_desc PeerPubkey (map snd m))"

lemma pool_okD:
  assumes "pool_ok m"
  shows "distinct (map PeerPubkey (map snd m))" "map (\<lambda>v. (PeerPubkey v, v)) (map snd m) = m"
    "\<forall>v \<in> set (map snd m). PeerPoolItem_wf v"
proof -
  have k: "\<forall>(k, v) \<in> set m. k = PeerPubkey v" using assms by (auto simp: pool_ok_def)
  then have "map PeerPubkey (map snd m) = map fst m" by (auto simp: comp_def)
  then show "distinct (map PeerPubkey (map snd m))" using assms by (metis pool_ok_def)
  show "map (\<lambda>v. (PeerPubkey v, v)) (map snd m) = m" using k by (auto simp: comp_def intro!: map_idI)
  show "\<forall>v \<in> set (map snd m). PeerPoolItem_wf v" using assms by (auto simp: pool_ok_def)
qed

lemma mset_pool_canon:
  assumes "pool_ok m"
  shows "mset (pool_canon m) = mset m"
proof -
  have "mset (pool_canon m) = mset (map (\<lambda>v. (PeerPubkey v, v)) (map snd m))"
    unfolding pool_canon_def mset_map mset_SliceStable ..
  also have "\<dots> = mset m" unfolding pool_okD(2) [OF assms] ..
  finally show ?thesis .
qed

lemma map_of_pool_canon: "pool_ok m \<Longrightarrow> map_of (pool_canon m) = map_of m"
  by (rule sym, rule map_of_mset_eq) (simp_all add: mset_pool_canon pool_ok_def)

lemma pool_ok_mset:
  assumes "mset m = mset m'"
  shows "pool_ok m \<longleftrightarrow> pool_ok m'"
proof -
  have "set m = set m'" "length m = length m'" using assms by (metis set_mset_mset, metis size_mset)
  moreover have "distinct (map fst m) = distinct (map fst m')"
    by (rule mset_eq_imp_distinct_iff) (simp add: assms)
  ultimately show ?thesis by (simp add: pool_ok_def)
qed

lemma pool_ok_canon: "pool_ok m \<Longrightarrow> pool_ok (pool_canon m)"
  using pool_ok_mset mset_pool_canon by blast

text \<open>The stored bytes do not depend on the iteration order of the map.\<close>

lemma PeerPoolMap_order_independent:
  assumes "pool_ok m" and "mset m = mset m'"
  shows "PeerPoolMap_Serialization m = PeerPoolMap_Serialization m'"
proof -
  have "mset (map snd m) = mset (map snd m')" using assms(2) by (metis mset_map)
  moreover have "inj_on PeerPubkey (set (map snd m'))"
    using pool_okD(1) [of m'] assms(1) unfolding pool_ok_mset [OF assms(2)] distinct_map by blast
  ultimately have "sort_desc PeerPubkey (map snd m) = sort_desc PeerPubkey (map snd m')"
    by (rule sort_desc_unique)
  moreover have "length m = length m'" using assms(2) by (metis size_mset)
  ultimately show ?thesis by (simp add: PeerPoolMap_Serialization_def)
qed

lemma sort_canon: "pool_ok m \<Longrightarrow> sort_desc PeerPubkey (map snd (pool_canon m)) = sort_desc PeerPubkey (map snd m)"
  using sort_desc_idem [OF pool_okD(1)] by (simp add: pool_canon_def comp_def)

interpretation rd_pool: codec PeerPoolMap_Serialization PeerPoolMap_Deserialization
  "\<lambda>m. pool_ok m \<and> pool_canon m = m"
proof
  fix x pre rest
  assume wf: "pool_ok x \<and> pool_canon x = x" and fit: "fits (pre @ PeerPoolMap_Serialization x @ rest)"
  let ?s = "sort_desc PeerPubkey (map snd x)" and ?n = "of_nat (length x) :: uint64"
  have n: "unat ?n = length x" using wf by (simp add: unat_of_nat pool_ok_def)
  have w: "\<forall>v \<in> set ?s. PeerPoolItem_wf v" using pool_okD(3) [of x] wf by simp
  have l: "read_list PeerPoolItem_Deserialization (length x)
      (src_at (pre @ enc_varuint ?n) (concat (map PeerPoolItem_Serialization ?s) @ rest))
      = Some (?s, src_at (pre @ PeerPoolMap_Serialization x) rest)"
    using rd_peer.list_roundtrip [OF w, of "pre @ enc_varuint ?n" rest] fit
    by (simp add: PeerPoolMap_Serialization_def Let_def)
  have "distinct (map PeerPubkey ?s) = distinct (map PeerPubkey (map snd x))"
    by (rule mset_eq_imp_distinct_iff) (simp only: mset_map mset_SliceStable)
  then have "distinct (map PeerPubkey ?s)" using pool_okD(1) [of x] wf by blast
  then have "map_by PeerPubkey ?s = pool_canon x" unfolding pool_canon_def by (rule map_by_distinct)
  with wf have m: "map_by PeerPubkey ?s = x" by simp
  have "ok_read NextVarUint (src_at pre (PeerPoolMap_Serialization x @ rest))
      = Some (?n, src_at (pre @ enc_varuint ?n) (concat (map PeerPoolItem_Serialization ?s) @ rest))"
    using fit by (simp add: PeerPoolMap_Serialization_def Let_def codec_simps)
  then show "PeerPoolMap_Deserialization (src_at pre (PeerPoolMap_Serialization x @ rest))
      = Some (x, src_at (pre @ PeerPoolMap_Serialization x) rest)"
    by (simp add: PeerPoolMap_Deserialization_def n l m)
next
  show "rd_local PeerPoolMap_Deserialization"
    unfolding PeerPoolMap_Deserialization_def [abs_def] by (intro rd_rules)
qed

lemma PeerPoolMap_canon_bytes: "pool_ok m \<Longrightarrow> PeerPoolMap_Serialization (pool_canon m) = PeerPoolMap_Serialization m"
  by (rule PeerPoolMap_order_independent) (simp_all add: pool_ok_canon mset_pool_canon)

lemma pool_canon_idem: "pool_ok m \<Longrightarrow> pool_canon (pool_canon m) = pool_canon m"
  unfolding pool_canon_def [of "pool_canon m"] by (simp add: sort_canon) (simp add: pool_canon_def)

section \<open>Views, signatures and configuration\<close>

record GovernanceView =
  View :: uint32
  gv_Height :: uint32
  gv_TxHash :: uint256

definition GovernanceView_Serialization :: "GovernanceView \<Rightarrow> bytes" where
  "GovernanceView_Serialization g = enc_uint32 (View g) @ enc_uint32 (gv_Height g) @ gv_TxHash g"

definition GovernanceView_Deserialization :: "ZeroCopySource \<Rightarrow> (GovernanceView \<times> ZeroCopySource) option" where
  "GovernanceView_Deserialization src =
     do { (view, src) \<leftarrow> ok_read NextUint32 src;
          (h, src) \<leftarrow> ok_read NextUint32 src;
          (txHash, src) \<leftarrow> ok_read NextHash src;
          Some (\<lparr>View = view, gv_Height = h, gv_TxHash = txHash\<rparr>, src) }"

interpretation rd_view: codec GovernanceView_Serialization GovernanceView_Deserialization
  "\<lambda>g. length (gv_TxHash g) = UINT256_SIZE"
  unfolding GovernanceView_Deserialization_def [abs_def] GovernanceView_Serialization_def
  by unfold_locales (simp add: codec_simps, intro rd_rules)

type_synonym SignsMap = "(address \<times> bool) list"

definition sign_bytes :: "address \<times> bool \<Rightarrow> bytes" where
  "sign_bytes e = enc_varbytes (fst e) @ enc_bool (snd e)"

text \<open>The keys are sorted and each one is looked up again for its value.\<close>

definition ConsensusSigns_Serialization :: "SignsMap \<Rightarrow> bytes" where
  "ConsensusSigns_Serialization m =
     (let signsList = sort_desc ToHexString (map fst m)
      in enc_varuint (of_nat (length m))
         @ concat (map (\<lambda>v. enc_varbytes v @ enc_bool (map_of m v = Some True)) signsList))"

definition read_sign :: "ZeroCopySource \<Rightarrow> ((address \<times> bool) \<times> ZeroCopySource) option" where
  "read_sign src =
     do { (address, src) \<leftarrow> ok_read NextVarBytes src;
          (v, src) \<leftarrow> ok_read NextBool src;
          addr \<leftarrow> AddressParseFromBytes address;
          Some ((addr, v), src) }"

definition ConsensusSigns_Deserialization :: "ZeroCopySource \<Rightarrow> (SignsMap \<times> ZeroCopySource) option" where
  "ConsensusSigns_Deserialization src =
     do { (n, src) \<leftarrow> ok_read NextVarUint src;
          (es, src) \<leftarrow> read_list read_sign (unat n) src;
          Some (foldl (\<lambda>m (k, v). AList.update k v m) [] es, src) }"

interpretation rd_sign: codec sign_bytes read_sign "\<lambda>e. length (fst e) = ADDR_LEN"
  unfolding read_sign_def [abs_def] sign_bytes_def
  by unfold_locales (simp add: codec_simps AddressParseFromBytes_def size_defs split_beta, intro rd_rules)

lemmas [rd_rules] = rd_sign.local_read

definition signs_ok :: "SignsMap \<Rightarrow> bool" where
  "signs_ok m \<longleftrightarrow> distinct (map fst m) \<and> (\<forall>a \<in> fst ` set m. length a = ADDR_LEN) \<and> length m < 2 ^ 62"

definition signs_canon :: "SignsMap \<Rightarrow> SignsMap" where
  "signs_canon m = map (\<lambda>k. (k, map_of m k = Some True)) (sort_desc ToHexString (map fst m))"

lemma ToHexString_inj: "inj_on ToHexString A"
  by (auto intro!: inj_onI simp: ToHexString_def hex_Encode_inject)

lemma update_all_distinct:
  assumes "distinct (map fst es)"
  shows "foldl (\<lambda>m (k, v). AList.update k v m) [] es = es"
  using assms
proof (induction es rule: rev_induct)
  case (snoc e es)
  then show ?case by (cases e) (simp add: update_snoc)
qed simp

lemma signs_canon_keys:
  assumes "signs_ok m"
  shows "distinct (map fst (signs_canon m))" "set (map fst (signs_canon m)) = fst ` set m"
    "length (signs_canon m) = length m"
proof -
  have "distinct (sort_desc ToHexString (map fst m)) = distinct (map fst m)"
    by (rule mset_eq_imp_distinct_iff) (simp only: mset_SliceStable)
  with assms show "distinct (map fst (signs_canon m))" by (simp add: signs_canon_def comp_def signs_ok_def)
qed (simp_all add: signs_canon_def comp_def)

lemma map_of_signs_canon: "map_of (signs_canon m) = map_of m"
proof
  fix k
  have "map_of (signs_canon m) k = (if k \<in> fst ` set m then Some (map_of m k = Some True) else None)"
    by (simp add: signs_canon_def map_of_map_restrict restrict_map_def)
  also have "\<dots> = map_of m k"
    unfolding dom_map_of_conv_image_fst [symmetric] by (cases "map_of m k") auto
  finally show "map_of (signs_canon m) k = map_of m k" .
qed

lemma signs_canon_ok: "signs_ok m \<Longrightarrow> signs_ok (signs_canon m)"
  using signs_canon_keys [of m] unfolding signs_ok_def by simp

lemma signs_canon_idem: "signs_ok m \<Longrightarrow> signs_canon (signs_canon m) = signs_canon m"
proof -
  assume ok: "signs_ok m"
  have "map fst (signs_canon m) = sort_desc ToHexString (map fst m)" by (simp add: signs_canon_def comp_def)
  moreover have "sort_desc ToHexString (sort_desc ToHexString (map fst m)) = sort_desc ToHexString (map fst m)"
    using ok by (intro sort_desc_idem)
      (simp add: distinct_map comp_inj_on ToHexString_inj signs_ok_def)
  ultimately show ?thesis
    unfolding signs_canon_def [of "signs_canon m"] map_of_signs_canon by (simp add: signs_canon_def)
qed

text \<open>As for the peer pool, the stored bytes do not depend on the iteration order.\<close>

lemma ConsensusSigns_order_independent:
  assumes "signs_ok m" and "mset m = mset m'"
  shows "ConsensusSigns_Serialization m = ConsensusSigns_Serialization m'"
proof -
  have "mset (map fst m) = mset (map fst m')" using assms(2) by simp
  then have "sort_desc ToHexString (map fst m) = sort_desc ToHexString (map fst m')"
    by (rule sort_desc_unique [OF _ ToHexString_inj])
  moreover have "map_of m = map_of m'" using assms by (intro map_of_mset_eq) (simp_all add: signs_ok_def)
  moreover have "length m = length m'" using assms(2) by (metis size_mset)
  ultimately show ?thesis by (simp add: ConsensusSigns_Serialization_def)
qed

lemma ConsensusSigns_canon_bytes:
  "ConsensusSigns_Serialization m
     = enc_varuint (of_nat (length m)) @ concat (map sign_bytes (signs_canon m))"
  by (simp add: ConsensusSigns_Serialization_def signs_canon_def sign_bytes_def comp_def Let_def)

interpretation rd_signs: codec ConsensusSigns_Serialization ConsensusSigns_Deserialization
  "\<lambda>m. signs_ok m \<and> signs_canon m = m"
proof
  fix x pre rest
  assume wf: "signs_ok x \<and> signs_canon x = x" and fit: "fits (pre @ ConsensusSigns_Serialization x @ rest)"
  let ?n = "of_nat (length x) :: uint64"
  have b: "ConsensusSigns_Serialization x = enc_varuint ?n @ concat (map sign_bytes x)"
    using ConsensusSigns_canon_bytes [of x] wf by simp
  have n: "unat ?n = length x" using wf by (simp add: unat_of_nat signs_ok_def)
  have w: "\<forall>e \<in> set x. length (fst e) = ADDR_LEN" using wf by (auto simp: signs_ok_def)
  have u: "foldl (\<lambda>m (k, v). AList.update k v m) [] x = x"
    using wf by (intro update_all_distinct) (simp add: signs_ok_def)
  show "ConsensusSigns_Deserialization (src_at pre (ConsensusSigns_Serialization x @ rest))
      = Some (x, src_at (pre @ ConsensusSigns_Serialization x) rest)"
    using rd_sign.list_roundtrip [OF w, of "pre @ enc_varuint ?n" rest] fit unfolding b
    by (simp add: ConsensusSigns_Deserialization_def codec_simps n u)
next
  show "rd_local ConsensusSigns_Deserialization"
    unfolding ConsensusSigns_Deserialization_def [abs_def] by (intro rd_rules)
qed

record Configuration =
  BlockMsgDelay :: uint32
  HashMsgDelay :: uint32
  PeerHandshakeTimeout :: uint32
  MaxBlockChangeView :: uint32

definition Configuration_Serialization :: "Configuration \<Rightarrow> bytes" where
  "Configuration_Serialization c =
     enc_uint32 (BlockMsgDelay c) @ enc_uint32 (HashMsgDelay c) @ enc_uint32 (PeerHandshakeTimeout c)
     @ enc_uint32 (MaxBlockChangeView c)"

definition Configuration_Deserialization :: "ZeroCopySource \<Rightarrow> (Configuration \<times> ZeroCopySource) option" where
  "Configuration_Deserialization src =
     do { (blockMsgDelay, src) \<leftarrow> ok_read NextUint32 src;
          (hashMsgDelay, src) \<leftarrow> ok_read NextUint32 src;
          (peerHandshakeTimeout, src) \<leftarrow> ok_read NextUint32 src;
          (maxBlockChangeView, src) \<leftarrow> ok_read NextUint32 src;
          Some (\<lparr>BlockMsgDelay = blockMsgDelay, HashMsgDelay = hashMsgDelay,
                 PeerHandshakeTimeout = peerHandshakeTimeout, MaxBlockChangeView = maxBlockChangeView\<rparr>, src) }"

interpretation rd_config: codec Configuration_Serialization Configuration_Deserialization "\<lambda>_. True"
  unfolding Configuration_Deserialization_def [abs_def] Configuration_Serialization_def
  by unfold_locales (simp add: codec_simps, intro rd_rules)

lemmas [rd_rules] = rd_config.local_read

section \<open>Parameters\<close>

record RegisterPeerParam =
  rp_PeerPubkey :: bytes
  rp_Address :: address

definition RegisterPeerParam_Serialization :: "RegisterPeerParam \<Rightarrow> bytes" where
  "RegisterPeerParam_Serialization p = enc_varbytes (rp_PeerPubkey p) @ enc_varbytes (rp_Address p)"

definition RegisterPeerParam_Deserialization :: "ZeroCopySource \<Rightarrow> (RegisterPeerParam \<times> ZeroCopySource) option" where
  "RegisterPeerParam_Deserialization src =
     do { (peerPubkey, src) \<leftarrow> ok_read NextString src;
          (addr, src) \<leftarrow> read_addr src;
          Some (\<lparr>rp_PeerPubkey = peerPubkey, rp_Address = addr\<rparr>, src) }"

definition RegisterPeerParam_wf :: "RegisterPeerParam \<Rightarrow> bool" where
  "RegisterPeerParam_wf p \<longleftrightarrow> fits (rp_PeerPubkey p) \<and> length (rp_Address p) = ADDR_LEN"

interpretation rd_register: codec RegisterPeerParam_Serialization RegisterPeerParam_Deserialization RegisterPeerParam_wf
  unfolding RegisterPeerParam_Deserialization_def [abs_def] RegisterPeerParam_Serialization_def RegisterPeerParam_wf_def
  by unfold_locales (simp add: codec_simps, intro rd_rules)

record PeerParam =
  pa_PeerPubkey :: bytes
  pa_Address :: address

definition PeerParam_Serialization :: "PeerParam \<Rightarrow> bytes" where
  "PeerParam_Serialization p = enc_varbytes (pa_PeerPubkey p) @ enc_varbytes (pa_Address p)"

definition PeerParam_Deserialization :: "ZeroCopySource \<Rightarrow> (PeerParam \<times> ZeroCopySource) option" where
  "PeerParam_Deserialization src =
     do { (peerPubkey, src) \<leftarrow> ok_read NextString src;
          (addr, src) \<leftarrow> read_addr src;
          Some (\<lparr>pa_PeerPubkey = peerPubkey, pa_Address = addr\<rparr>, src) }"

interpretation rd_peerparam: codec PeerParam_Serialization PeerParam_Deserialization
  "\<lambda>p. fits (pa_PeerPubkey p) \<and> length (pa_Address p) = ADDR_LEN"
  unfolding PeerParam_Deserialization_def [abs_def] PeerParam_Serialization_def
  by unfold_locales (simp add: codec_simps, intro rd_rules)

record PeerListParam =
  PeerPubkeyList :: "bytes list"
  pl_Address :: address

definition PeerListParam_Serialization :: "PeerListParam \<Rightarrow> bytes" where
  "PeerListParam_Serialization p =
     enc_varuint (of_nat (length (PeerPubkeyList p))) @ concat (map enc_varbytes (PeerPubkeyList p))
     @ enc_varbytes (pl_Address p)"

definition PeerListParam_Deserialization :: "ZeroCopySource \<Rightarrow> (PeerListParam \<times> ZeroCopySource) option" where
  "PeerListParam_Deserialization src =
     do { (n, src) \<leftarrow> ok_read NextVarUint src;
          (peerPubkeyList, src) \<leftarrow> read_list (ok_read NextString) (unat n) src;
          (addr, src) \<leftarrow> read_addr src;
          Some (\<lparr>PeerPubkeyList = peerPubkeyList, pl_Address = addr\<rparr>, src) }"

definition PeerListParam_wf :: "PeerListParam \<Rightarrow> bool" where
  "PeerListParam_wf p \<longleftrightarrow> list_all fits (PeerPubkeyList p) \<and> length (PeerPubkeyList p) < 2 ^ 62
     \<and> length (pl_Address p) = ADDR_LEN"

interpretation rd_peerlist: codec PeerListParam_Serialization PeerListParam_Deserialization PeerListParam_wf
proof
  fix x pre rest assume wf: "PeerListParam_wf x" and fit: "fits (pre @ PeerListParam_Serialization x @ rest)"
  have d: "\<forall>b \<in> set (PeerPubkeyList x). fits b"
    and l: "unat (of_nat (length (PeerPubkeyList x)) :: uint64) = length (PeerPubkeyList x)"
    and a: "length (pl_Address x) = ADDR_LEN"
    using wf by (simp_all add: PeerListParam_wf_def list_all_iff unat_of_nat)
  show "PeerListParam_Deserialization (src_at pre (PeerListParam_Serialization x @ rest))
      = Some (x, src_at (pre @ PeerListParam_Serialization x) rest)"
    using fit rd_string.list_roundtrip [OF d] a
    by (simp add: PeerListParam_Deserialization_def PeerListParam_Serialization_def codec_simps l)
next
  show "rd_local PeerListParam_Deserialization"
    unfolding PeerListParam_Deserialization_def [abs_def] by (intro rd_rules)
qed

text \<open>\<open>UpdateConfigParam\<close> has the one field \<open>Configuration\<close>.\<close>

definition UpdateConfigParam_Serialization :: "Configuration \<Rightarrow> bytes" where
  "UpdateConfigParam_Serialization c = Configuration_Serialization c"

definition UpdateConfigParam_Deserialization :: "ZeroCopySource \<Rightarrow> (Configuration \<times> ZeroCopySource) option" where
  "UpdateConfigParam_Deserialization src =
     do { (configuration, src) \<leftarrow> Configuration_Deserialization src; Some (configuration, src) }"

section \<open>The genesis configuration\<close>

record VBFTPeerInfo =
  vp_Index :: uint32
  vp_PeerPubkey :: bytes
  vp_Address :: bytes

definition VBFTPeerInfo_Serialization :: "Env \<Rightarrow> VBFTPeerInfo \<Rightarrow> err + bytes" where
  "VBFTPeerInfo_Serialization env p =
     ebind (orelse_err (AddressFromBase58 env (vp_Address p)) ''serialize VBFTPeerStackInfo error'') (\<lambda>address.
     Inr (enc_uint32 (vp_Index p) @ enc_varbytes (vp_PeerPubkey p) @ address))"

definition VBFTPeerInfo_Deserialization :: "Env \<Rightarrow> ZeroCopySource \<Rightarrow> (VBFTPeerInfo \<times> ZeroCopySource) option" where
  "VBFTPeerInfo_Deserialization env src =
     do { (index, src) \<leftarrow> ok_read NextUint32 src;
          (peerPubkey, src) \<leftarrow> ok_read NextString src;
          (address, src) \<leftarrow> ok_read NextAddress src;
          Some (\<lparr>vp_Index = index, vp_PeerPubkey = peerPubkey, vp_Address = ToBase58 env address\<rparr>, src) }"

record VBFTConfig =
  vc_BlockMsgDelay :: uint32
  vc_HashMsgDelay :: uint32
  vc_PeerHandshakeTimeout :: uint32
  vc_MaxBlockChangeView :: uint32
  VrfValue :: bytes
  VrfProof :: bytes
  Peers :: "VBFTPeerInfo list"

primrec VBFTPeers_Serialization :: "Env \<Rightarrow> VBFTPeerInfo list \<Rightarrow> err + bytes" where
  "VBFTPeers_Serialization env [] = Inr []"
| "VBFTPeers_Serialization env (p # ps) =
     ebind (VBFTPeerInfo_Serialization env p) (\<lambda>b.
     ebind (VBFTPeers_Serialization env ps) (\<lambda>bs. Inr (b @ bs)))"

definition VBFTConfig_Serialization :: "Env \<Rightarrow> VBFTConfig \<Rightarrow> err + bytes" where
  "VBFTConfig_Serialization env c =
     ebind (VBFTPeers_Serialization env (Peers c)) (\<lambda>ps.
     Inr (enc_uint32 (vc_BlockMsgDelay c) @ enc_uint32 (vc_HashMsgDelay c) @ enc_uint32 (vc_PeerHandshakeTimeout c)
          @ enc_uint32 (vc_MaxBlockChangeView c) @ enc_varbytes (VrfValue c) @ enc_varbytes (VrfProof c)
          @ enc_varuint (of_nat (length (Peers c))) @ ps))"

definition VBFTConfig_Deserialization :: "Env \<Rightarrow> ZeroCopySource \<Rightarrow> (VBFTConfig \<times> ZeroCopySource) option" where
  "VBFTConfig_Deserialization env src =
     do { (blockMsgDelay, src) \<leftarrow> ok_read NextUint32 src;
          (hashMsgDelay, src) \<leftarrow> ok_read NextUint32 src;
          (peerHandshakeTimeout, src) \<leftarrow> ok_read NextUint32 src;
          (maxBlockChangeView, src) \<leftarrow> ok_read NextUint32 src;
          (vrfValue, src) \<leftarrow> ok_read NextString src;
          (vrfProof, src) \<leftarrow> ok_read NextString src;
          (length, src) \<leftarrow> ok_read NextVarUint src;
          (peers, src) \<leftarrow> read_list (VBFTPeerInfo_Deserialization env) (unat length) src;
          Some (\<lparr>vc_BlockMsgDelay = blockMsgDelay, vc_HashMsgDelay = hashMsgDelay,
                 vc_PeerHandshakeTimeout = peerHandshakeTimeout, vc_MaxBlockChangeView = maxBlockChangeView,
                 VrfValue = vrfValue, VrfProof = vrfProof, Peers = peers\<rparr>, src) }"

text \<open>The peers whose address text is the base58 form of the address it parses to.\<close>

definition peer_bytes :: "Env \<Rightarrow> VBFTPeerInfo \<Rightarrow> bytes" where
  "peer_bytes env p = (case VBFTPeerInfo_Serialization env p of Inr b \<Rightarrow> b | Inl _ \<Rightarrow> [])"

definition vpeer_wf :: "Env \<Rightarrow> VBFTPeerInfo \<Rightarrow> bool" where
  "vpeer_wf env p \<longleftrightarrow> fits (vp_PeerPubkey p) \<and>
     (\<exists>a. AddressFromBase58 env (vp_Address p) = Some a \<and> length a = ADDR_LEN \<and> ToBase58 env a = vp_Address p)"

interpretation rd_vpeer: codec "peer_bytes env" "VBFTPeerInfo_Deserialization env" "vpeer_wf env" for env
proof
  fix x pre rest assume "vpeer_wf env x" and "fits (pre @ peer_bytes env x @ rest)"
  then show "VBFTPeerInfo_Deserialization env (src_at pre (peer_bytes env x @ rest))
      = Some (x, src_at (pre @ peer_bytes env x) rest)"
    by (cases x) (auto simp: VBFTPeerInfo_Deserialization_def peer_bytes_def VBFTPeerInfo_Serialization_def
        vpeer_wf_def codec_simps)
next
  show "rd_local (VBFTPeerInfo_Deserialization env)"
    unfolding VBFTPeerInfo_Deserialization_def [abs_def] by (intro rd_rules)
qed

lemmas [rd_rules] = rd_vpeer.local_read

lemma VBFTPeers_bytes:
  "\<forall>p \<in> set ps. vpeer_wf env p \<Longrightarrow> VBFTPeers_Serialization env ps = Inr (concat (map (peer_bytes env) ps))"
proof (induction ps)
  case (Cons p ps)
  then obtain a where "AddressFromBase58 env (vp_Address p) = Some a" by (auto simp: vpeer_wf_def)
  then have "VBFTPeerInfo_Serialization env p = Inr (peer_bytes env p)"
    by (simp add: peer_bytes_def VBFTPeerInfo_Serialization_def)
  with Cons show ?case by simp
qed simp

definition VBFTConfig_wf :: "Env \<Rightarrow> VBFTConfig \<Rightarrow> bool" where
  "VBFTConfig_wf env c \<longleftrightarrow> fits (VrfValue c) \<and> fits (VrfProof c) \<and> length (Peers c) < 2 ^ 62
     \<and> (\<forall>p \<in> set (Peers c). vpeer_wf env p)"

definition config_bytes :: "Env \<Rightarrow> VBFTConfig \<Rightarrow> bytes" where
  "config_bytes env c = (case VBFTConfig_Serialization env c of Inr b \<Rightarrow> b | Inl _ \<Rightarrow> [])"

interpretation rd_vbft: codec "config_bytes env" "VBFTConfig_Deserialization env" "VBFTConfig_wf env" for env
proof
  fix x pre rest assume wf: "VBFTConfig_wf env x" and fit: "fits (pre @ config_bytes env x @ rest)"
  have w: "\<forall>p \<in> set (Peers x). vpeer_wf env p"
    and l: "unat (of_nat (length (Peers x)) :: uint64) = length (Peers x)"
    and f: "fits (VrfValue x)" "fits (VrfProof x)"
    using wf by (simp_all add: VBFTConfig_wf_def unat_of_nat)
  show "VBFTConfig_Deserialization env (src_at pre (config_bytes env x @ rest))
      = Some (x, src_at (pre @ config_bytes env x) rest)"
    using fit f rd_vpeer.list_roundtrip [OF w]
    by (simp add: VBFTConfig_Deserialization_def config_bytes_def VBFTConfig_Serialization_def
        VBFTPeers_bytes [OF w] codec_simps l)
next
  show "rd_local (VBFTConfig_Deserialization env)"
    unfolding VBFTConfig_Deserialization_def [abs_def] by (intro rd_rules)
qed

end
