(* ===== verification/Node_Manager.thy ===== *)
theory Node_Manager
  imports Node_States
begin

text \<open>
  The node manager contract: \<open>node_manager.go\<close>, \<open>utils.go\<close> and \<open>method.go\<close> of
  \<open>native/service/governance/node_manager\<close>.  It keeps the pool of consensus peers per view, the
  applications, the black list and the collected signatures of the consensus peers; the governance
  contracts of the other theories call \<open>CheckConsensusSigns\<close> for their approvals.  Every handler is a
  function of the service state; a failing handler returns the source's message without the nested
  error text.
\<close>

section \<open>Constants\<close>

abbreviation REGISTER_CANDIDATE :: bytes where "REGISTER_CANDIDATE \<equiv> str ''registerCandidate''"
abbreviation UNREGISTER_CANDIDATE :: bytes where "UNREGISTER_CANDIDATE \<equiv> str ''unRegisterCandidate''"
abbreviation APPROVE_CANDIDATE :: bytes where "APPROVE_CANDIDATE \<equiv> str ''approveCandidate''"
abbreviation BLACK_NODE :: bytes where "BLACK_NODE \<equiv> str ''blackNode''"
abbreviation WHITE_NODE :: bytes where "WHITE_NODE \<equiv> str ''whiteNode''"
abbreviation QUIT_NODE :: bytes where "QUIT_NODE \<equiv> str ''quitNode''"
abbreviation UPDATE_CONFIG :: bytes where "UPDATE_CONFIG \<equiv> str ''updateConfig''"
abbreviation COMMIT_DPOS :: bytes where "COMMIT_DPOS \<equiv> str ''commitDpos''"
abbreviation INIT_CONFIG :: bytes where "INIT_CONFIG \<equiv> str ''initConfig''"

abbreviation GOVERNANCE_VIEW :: bytes where "GOVERNANCE_VIEW \<equiv> str ''governanceView''"
abbreviation VBFT_CONFIG :: bytes where "VBFT_CONFIG \<equiv> str ''vbftConfig''"
abbreviation CANDIDITE_INDEX :: bytes where "CANDIDITE_INDEX \<equiv> str ''candidateIndex''"
abbreviation PEER_APPLY :: bytes where "PEER_APPLY \<equiv> str ''peerApply''"
abbreviation PEER_POOL :: bytes where "PEER_POOL \<equiv> str ''peerPool''"
abbreviation PEER_INDEX :: bytes where "PEER_INDEX \<equiv> str ''peerIndex''"
abbreviation BLACK_LIST :: bytes where "BLACK_LIST \<equiv> str ''blackList''"
abbreviation CONSENSUS_SIGNS :: bytes where "CONSENSUS_SIGNS \<equiv> str ''consensusSigns''"

abbreviation MIN_PEER_NUM :: nat where "MIN_PEER_NUM \<equiv> 4"

text \<open>Storage keys of the contract, and its notifications.\<close>

abbreviation nkey :: "bytes list \<Rightarrow> bytes" where
  "nkey args \<equiv> ConcatKey NodeManagerContractAddress args"

definition notify_node :: "nval list \<Rightarrow> NativeService \<Rightarrow> NativeService" where
  "notify_node st ns = AddNotify \<lparr>ContractAddress = NodeManagerContractAddress, States = st\<rparr> ns"

section \<open>Accessors\<close>

definition GetPeerApply :: "NativeService \<Rightarrow> bytes \<Rightarrow> err + RegisterPeerParam option" where
  "GetPeerApply ns peerPubkey =
     ebind (orelse_err (hex_DecodeString peerPubkey) ''GetPeerApply, peerPubkey format error'') (\<lambda>peerPubkeyPrefix.
     load_item ''GetPeerApply, get peer error'' ''GetPeerApply, deserialize from raw storage item err''
       ''GetPeerApply, deserialize peer error'' RegisterPeerParam_Deserialization ns
       (nkey [PEER_APPLY, peerPubkeyPrefix]))"

definition putPeerApply :: "RegisterPeerParam \<Rightarrow> NativeService \<Rightarrow> err + NativeService" where
  "putPeerApply peer ns =
     ebind (orelse_err (hex_DecodeString (rp_PeerPubkey peer)) ''putPeerApply, peerPubkey format error'')
       (\<lambda>peerPubkeyPrefix.
     Inr (db_Put (nkey [PEER_APPLY, peerPubkeyPrefix])
            (GenRawStorageItem (RegisterPeerParam_Serialization peer)) ns))"

definition GetPeerPoolMap :: "NativeService \<Rightarrow> uint32 \<Rightarrow> err + PeerPoolMap" where
  "GetPeerPoolMap ns view =
     require ''getPeerPoolMap, peerPoolMap is nil''
       (load_item ''getPeerPoolMap, get all peerPoolMap error'' ''deserialize PeerPoolMap error''
          ''deserialize, deserialize peerPoolMap error'' PeerPoolMap_Deserialization ns
          (nkey [PEER_POOL, GetUint32Bytes view]))"

definition putPeerPoolMap :: "PeerPoolMap \<Rightarrow> uint32 \<Rightarrow> NativeService \<Rightarrow> NativeService" where
  "putPeerPoolMap peerPoolMap view ns =
     db_Put (nkey [PEER_POOL, GetUint32Bytes view]) (GenRawStorageItem (PeerPoolMap_Serialization peerPoolMap)) ns"

primrec check_vbft_peers :: "Env \<Rightarrow> VBFTPeerInfo list \<Rightarrow> uint32 list \<Rightarrow> bytes list \<Rightarrow> err + unit" where
  "check_vbft_peers env [] indexMap peerPubkeyMap = Inr ()"
| "check_vbft_peers env (peer # ps) indexMap peerPubkeyMap =
     (if vp_Index peer \<in> set indexMap then Inl ''initConfig, peer index is duplicated''
      else if vp_PeerPubkey peer \<in> set peerPubkeyMap then Inl ''initConfig, peerPubkey is duplicated''
      else if vp_Index peer \<le> 0 then Inl ''initConfig, peer index in config must > 0''
      else if \<not> ValidatePeerPubKeyFormat env (vp_PeerPubkey peer) then Inl ''invalid peer pubkey''
      else if AddressFromBase58 env (vp_Address peer) = None
           then Inl ''common.AddressFromBase58, address format error''
      else check_vbft_peers env ps (vp_Index peer # indexMap) (vp_PeerPubkey peer # peerPubkeyMap))"

definition CheckVBFTConfig :: "Env \<Rightarrow> VBFTConfig \<Rightarrow> err + unit" where
  "CheckVBFTConfig env configuration =
     (if vc_BlockMsgDelay configuration < 5000 then Inl ''initConfig. BlockMsgDelay must >= 5000''
      else if vc_HashMsgDelay configuration < 5000 then Inl ''initConfig. HashMsgDelay must >= 5000''
      else if vc_PeerHandshakeTimeout configuration < 10 then Inl ''initConfig. PeerHandshakeTimeout must >= 10''
      else if length (VrfProof configuration) < 128 then Inl ''initConfig. VrfProof must >= 128''
      else if length (VrfValue configuration) < 128 then Inl ''initConfig. VrfValue must >= 128''
      else check_vbft_peers env (Peers configuration) [] [])"

definition GetConfig :: "NativeService \<Rightarrow> err + Configuration" where
  "GetConfig ns =
     require ''getConfig, configBytes is nil''
       (load_item ''native.CacheDB.Get, get configBytes error'' ''getConfig, deserialize from raw storage item err''
          ''deserialize, deserialize config error'' Configuration_Deserialization ns (nkey [VBFT_CONFIG]))"

definition putConfig :: "Configuration \<Rightarrow> NativeService \<Rightarrow> NativeService" where
  "putConfig config ns = db_Put (nkey [VBFT_CONFIG]) (GenRawStorageItem (Configuration_Serialization config)) ns"

text \<open>Values stored without a format of their own: the raw value is handed on.\<close>

abbreviation raw_value :: "ZeroCopySource \<Rightarrow> (bytes \<times> ZeroCopySource) option" where
  "raw_value src \<equiv> Some (OffBytes src, src)"

definition getCandidateIndex :: "NativeService \<Rightarrow> err + uint32" where
  "getCandidateIndex ns =
     ebind (require ''getCandidateIndex, candidateIndex is not init''
       (load_item ''native.CacheDB.Get, get candidateIndex error''
          ''getCandidateIndex, deserialize from raw storage item err'' [] raw_value ns (nkey [CANDIDITE_INDEX])))
       (\<lambda>candidateIndexStore. Inr (GetBytesUint32 candidateIndexStore))"

definition putCandidateIndex :: "uint32 \<Rightarrow> NativeService \<Rightarrow> NativeService" where
  "putCandidateIndex candidateIndex ns =
     db_Put (nkey [CANDIDITE_INDEX]) (GenRawStorageItem (GetUint32Bytes candidateIndex)) ns"

definition GetGovernanceView :: "NativeService \<Rightarrow> err + GovernanceView" where
  "GetGovernanceView ns =
     require ''getGovernanceView, get nil governanceViewBytes''
       (load_item ''getGovernanceView, get governanceViewBytes error''
          ''getGovernanceView, deserialize from raw storage item err''
          ''getGovernanceView, deserialize governanceView error'' GovernanceView_Deserialization ns
          (nkey [GOVERNANCE_VIEW]))"

definition putGovernanceView :: "GovernanceView \<Rightarrow> NativeService \<Rightarrow> NativeService" where
  "putGovernanceView governanceView ns =
     db_Put (nkey [GOVERNANCE_VIEW]) (GenRawStorageItem (GovernanceView_Serialization governanceView)) ns"

definition GetView :: "NativeService \<Rightarrow> err + uint32" where
  "GetView ns = ebind (GetGovernanceView ns) (\<lambda>governanceView. Inr (View governanceView))"

definition getConsensusSigns :: "NativeService \<Rightarrow> uint256 \<Rightarrow> err + SignsMap" where
  "getConsensusSigns ns key =
     ebind (load_item ''GetConsensusSigns, get consensusSignsStore error''
         ''getGovernanceView, deserialize from raw storage item err''
         ''getGovernanceView, deserialize governanceView error'' ConsensusSigns_Deserialization ns
         (nkey [CONSENSUS_SIGNS, key]))
       (\<lambda>signs. Inr (case signs of None \<Rightarrow> [] | Some m \<Rightarrow> m))"

definition putConsensusSigns :: "uint256 \<Rightarrow> SignsMap \<Rightarrow> NativeService \<Rightarrow> NativeService" where
  "putConsensusSigns key consensusSigns ns =
     db_Put (nkey [CONSENSUS_SIGNS, key]) (GenRawStorageItem (ConsensusSigns_Serialization consensusSigns)) ns"

definition deleteConsensusSigns :: "uint256 \<Rightarrow> NativeService \<Rightarrow> NativeService" where
  "deleteConsensusSigns key ns = db_Delete (nkey [CONSENSUS_SIGNS, key]) ns"

section \<open>The quorum of the consensus peers\<close>

text \<open>The counting loop of \<open>CheckConsensusSigns\<close>: (signed, all) consensus peers.\<close>

primrec count_signs :: "Env \<Rightarrow> SignsMap \<Rightarrow> PeerPoolMap \<Rightarrow> nat \<times> nat \<Rightarrow> err + (nat \<times> nat)" where
  "count_signs env signs [] acc = Inr acc"
| "count_signs env signs (e # es) acc =
     (let (key, v) = e; (num, sum) = acc in
      if Status v = ConsensusStatus then
        ebind (orelse_err (hex_DecodeString key) ''CheckConsensusSigns, hex.DecodeString public key error'') (\<lambda>k.
        ebind (orelse_err (DeserializePublicKey env k) ''CheckConsensusSigns, keypair.DeserializePublicKey error'')
          (\<lambda>publicKey.
        let num = (if map_of signs (AddressFromPubKey env publicKey) \<noteq> None then num + 1 else num)
        in count_signs env signs es (num, sum + 1)))
      else count_signs env signs es (num, sum))"

definition CheckConsensusSigns :: "Env \<Rightarrow> bytes \<Rightarrow> bytes \<Rightarrow> address \<Rightarrow> NativeService \<Rightarrow> err + (bool \<times> NativeService)" where
  "CheckConsensusSigns env method inp address ns =
     (let message = method @ inp; key = sha256 message in
      ebind (getConsensusSigns ns key) (\<lambda>consensusSigns.
      let consensusSigns = AList.update address True consensusSigns;
          ns = notify_node [NStr (str ''CheckConsensusSigns''), NNum (int (length consensusSigns))] ns in
      ebind (GetView ns) (\<lambda>view.
      ebind (GetPeerPoolMap ns view) (\<lambda>peerPoolMap.
      ebind (count_signs env consensusSigns peerPoolMap (0, 0)) (\<lambda>(num, sum).
      if num \<ge> (2 * sum + 2) div 3 then Inr (True, deleteConsensusSigns key ns)
      else Inr (False, putConsensusSigns key consensusSigns ns))))))"

primrec consensus_keys :: "Env \<Rightarrow> PeerPoolMap \<Rightarrow> err + pubkey list" where
  "consensus_keys env [] = Inr []"
| "consensus_keys env (e # es) =
     (let (key, v) = e in
      if Status v = ConsensusStatus then
        ebind (orelse_err (hex_DecodeString key) ''GetCurConOperator, hex.DecodeString public key error'') (\<lambda>k.
        ebind (orelse_err (DeserializePublicKey env k) ''GetCurConOperator, keypair.DeserializePublicKey error'')
          (\<lambda>publicKey.
        ebind (consensus_keys env es) (\<lambda>ks. Inr (publicKey # ks))))
      else consensus_keys env es)"

definition GetCurConOperator :: "Env \<Rightarrow> NativeService \<Rightarrow> err + address" where
  "GetCurConOperator env ns =
     ebind (GetView ns) (\<lambda>view.
     ebind (GetPeerPoolMap ns view) (\<lambda>peerPoolMap.
     ebind (consensus_keys env peerPoolMap) (\<lambda>publicKeys.
     Inr (AddressFromBookkeepers env publicKeys))))"

section \<open>Changing the view\<close>

text \<open>
  One iteration of the loop of \<open>executeCommitDpos\<close>: an entry deleted by an earlier iteration is not visited.
\<close>

definition commit_peer :: "bytes \<Rightarrow> PeerPoolMap \<Rightarrow> PeerPoolMap" where
  "commit_peer k m =
     (case map_of m k of
        None \<Rightarrow> m
      | Some item \<Rightarrow>
          let m = (if Status item = QuitingStatus then AList.delete (PeerPubkey item) m else m);
              m = (if Status item = BlackStatus then AList.delete (PeerPubkey item) m else m)
          in if Status item = CandidateStatus \<or> Status item = ConsensusStatus
             then AList.update k (item\<lparr>Status := ConsensusStatus\<rparr>) m else m)"

definition commit_peers :: "PeerPoolMap \<Rightarrow> PeerPoolMap" where
  "commit_peers m = fold commit_peer (map fst m) m"

definition executeCommitDpos :: "NativeService \<Rightarrow> err + NativeService" where
  "executeCommitDpos ns =
     ebind (GetGovernanceView ns) (\<lambda>governanceView.
     if height ns = gv_Height governanceView
     then Inl ''executeCommitDpos, can not do commitDpos twice in one block''
     else
       let view = View governanceView; newView = view + 1 in
       ebind (GetPeerPoolMap ns view) (\<lambda>peerPoolMap.
       let ns = putPeerPoolMap (commit_peers peerPoolMap) newView ns;
           oldView = view - 1;
           ns = db_Delete (nkey [PEER_POOL, GetUint32Bytes oldView]) ns;
           ns = putGovernanceView \<lparr>View = view + 1, gv_Height = height ns, gv_TxHash = tx_hash (tx ns)\<rparr> ns
       in Inr ns))"

section \<open>Handlers\<close>

text \<open>\<open>if err := params.Deserialization(source); err != nil\<close> on the handler's input.\<close>

definition parse_input :: "(ZeroCopySource \<Rightarrow> ('a \<times> ZeroCopySource) option) \<Rightarrow> err \<Rightarrow> NativeService \<Rightarrow> err + 'a" where
  "parse_input deser e ns =
     ebind (orelse_err (deser (NewZeroCopySource (input ns))) e) (\<lambda>(params, _). Inr params)"

text \<open>The loop of \<open>InitConfig\<close> over the configured peers.\<close>

primrec init_peers :: "Env \<Rightarrow> VBFTPeerInfo list \<Rightarrow> uint32 \<Rightarrow> PeerPoolMap \<Rightarrow> NativeService
    \<Rightarrow> err + (uint32 \<times> PeerPoolMap \<times> NativeService)" where
  "init_peers env [] maxId peerPoolMap ns = Inr (maxId, peerPoolMap, ns)"
| "init_peers env (peer # ps) maxId peerPoolMap ns =
     (let maxId = (if vp_Index peer > maxId then vp_Index peer else maxId) in
      ebind (orelse_err (AddressFromBase58 env (vp_Address peer)) ''initConfig, address format error'') (\<lambda>address.
      let peerPoolItem = \<lparr>Index = vp_Index peer, PeerPubkey = vp_PeerPubkey peer, Address = address,
                          Status = ConsensusStatus\<rparr>;
          peerPoolMap = AList.update (PeerPubkey peerPoolItem) peerPoolItem peerPoolMap in
      ebind (orelse_err (hex_DecodeString (PeerPubkey peerPoolItem)) ''initConfig, peerPubkey format error'')
        (\<lambda>peerPubkeyPrefix.
      let indexBytes = GetUint32Bytes (Index peerPoolItem);
          ns = db_Put (nkey [PEER_INDEX, peerPubkeyPrefix]) (GenRawStorageItem indexBytes) ns
      in init_peers env ps maxId peerPoolMap ns)))"

definition InitConfig :: "Env \<Rightarrow> handler" where
  "InitConfig env ns =
     ebind (parse_input (VBFTConfig_Deserialization env) ''initConfig, contract params deserialize error'' ns)
       (\<lambda>configuration.
     case db_Get ns (nkey [PEER_POOL]) of
       Inl _ \<Rightarrow> Inl ''initConfig, get peerPoolMap error''
     | Inr (Some _) \<Rightarrow> Inl ''initConfig. initConfig is already executed''
     | Inr None \<Rightarrow>
         ebind (CheckVBFTConfig env configuration) (\<lambda>_.
         let view = 1 in
         ebind (init_peers env (Peers configuration) 0 [] ns) (\<lambda>(maxId, peerPoolMap, ns).
         let ns = putPeerPoolMap peerPoolMap 0 ns;
             ns = putPeerPoolMap peerPoolMap view ns;
             ns = db_Put (nkey [CANDIDITE_INDEX]) (GenRawStorageItem (GetUint32Bytes (maxId + 1))) ns;
             ns = putGovernanceView \<lparr>View = view, gv_Height = height ns, gv_TxHash = tx_hash (tx ns)\<rparr> ns;
             ns = putConfig \<lparr>BlockMsgDelay = vc_BlockMsgDelay configuration,
                             HashMsgDelay = vc_HashMsgDelay configuration,
                             PeerHandshakeTimeout = vc_PeerHandshakeTimeout configuration,
                             MaxBlockChangeView = vc_MaxBlockChangeView configuration\<rparr> ns
         in Inr (BYTE_TRUE, ns))))"

definition RegisterCandidate :: "Env \<Rightarrow> handler" where
  "RegisterCandidate env ns =
     ebind (parse_input RegisterPeerParam_Deserialization ''registerCandidate, contract params deserialize error'' ns)
       (\<lambda>params.
     if \<not> ValidateOwner env ns (rp_Address params) then Inl ''registerCandidate, checkWitness error''
     else if \<not> ValidatePeerPubKeyFormat env (rp_PeerPubkey params) then Inl ''registerCandidate, invalid peer pubkey''
     else
     ebind (orelse_err (hex_DecodeString (rp_PeerPubkey params)) ''registerCandidate, peerPubkey format error'')
       (\<lambda>peerPubkeyPrefix.
     case db_Get ns (nkey [BLACK_LIST, peerPubkeyPrefix]) of
       Inl _ \<Rightarrow> Inl ''registerCandidate, get BlackList error''
     | Inr (Some _) \<Rightarrow> Inl ''registerCandidate, this Peer is in BlackList''
     | Inr None \<Rightarrow>
         ebind (GetPeerApply ns (rp_PeerPubkey params)) (\<lambda>peer.
         if peer \<noteq> None then Inl ''registerCandidate, peer already applied''
         else
         ebind (GetView ns) (\<lambda>view.
         ebind (GetPeerPoolMap ns view) (\<lambda>peerPoolMap.
         if map_of peerPoolMap (rp_PeerPubkey params) \<noteq> None
         then Inl ''registerCandidate, peerPubkey is already in peerPoolMap''
         else
         ebind (putPeerApply params ns) (\<lambda>ns.
         Inr (BYTE_TRUE, notify_node [NStr (str ''registerCandidate''), NStr (rp_PeerPubkey params)] ns)))))))"

definition UnRegisterCandidate :: "Env \<Rightarrow> handler" where
  "UnRegisterCandidate env ns =
     ebind (parse_input PeerParam_Deserialization ''unRegisterCandidate, contract params deserialize error'' ns)
       (\<lambda>params.
     if \<not> ValidateOwner env ns (pa_Address params) then Inl ''unRegisterCandidate, checkWitness error''
     else
     ebind (GetPeerApply ns (pa_PeerPubkey params)) (\<lambda>peer.
     case peer of
       None \<Rightarrow> Inl ''unRegisterCandidate, peer is not applied''
     | Some peer \<Rightarrow>
         if rp_Address peer \<noteq> pa_Address params then Inl ''unRegisterCandidate, address is not peer owner''
         else
         ebind (orelse_err (hex_DecodeString (pa_PeerPubkey params)) ''unRegisterCandidate, peerPubkey format error'')
           (\<lambda>peerPubkeyPrefix.
         let ns = db_Delete (nkey [PEER_APPLY, peerPubkeyPrefix]) ns
         in Inr (BYTE_TRUE, notify_node [NStr (str ''unRegisterCandidate''), NStr (pa_PeerPubkey params)] ns))))"

text \<open>\<open>ApproveCandidate\<close> gives a peer its old index if it had one, or the next free one.\<close>

definition candidate_index :: "bytes \<Rightarrow> NativeService \<Rightarrow> err + (uint32 \<times> NativeService)" where
  "candidate_index peerPubkeyPrefix ns =
     (case db_Get ns (nkey [PEER_INDEX, peerPubkeyPrefix]) of
        Inl _ \<Rightarrow> Inl ''approveCandidate, get indexBytes error''
      | Inr (Some indexBytes) \<Rightarrow>
          (case GetValueFromRawStorageItem indexBytes of
             Inl _ \<Rightarrow> Inl ''approveCandidate, get value from raw storage item error''
           | Inr value \<Rightarrow> Inr (GetBytesUint32 value, ns))
      | Inr None \<Rightarrow>
          ebind (getCandidateIndex ns) (\<lambda>candidateIndex.
          let ns = putCandidateIndex (candidateIndex + 1) ns;
              ns = db_Put (nkey [PEER_INDEX, peerPubkeyPrefix]) (GenRawStorageItem (GetUint32Bytes candidateIndex)) ns
          in Inr (candidateIndex, ns)))"

definition ApproveCandidate :: "Env \<Rightarrow> handler" where
  "ApproveCandidate env ns =
     ebind (parse_input PeerParam_Deserialization ''approveCandidate, contract params deserialize error'' ns)
       (\<lambda>params.
     if \<not> ValidateOwner env ns (pa_Address params) then Inl ''approveCandidate, checkWitness error''
     else
     ebind (GetPeerApply ns (pa_PeerPubkey params)) (\<lambda>peer.
     case peer of
       None \<Rightarrow> Inl ''approveCandidate, peer is not applied''
     | Some peer \<Rightarrow>
         ebind (CheckConsensusSigns env APPROVE_CANDIDATE (pa_PeerPubkey params) (pa_Address params) ns) (\<lambda>(ok, ns).
         if \<not> ok then Inr (BYTE_TRUE, ns)
         else
         ebind (orelse_err (hex_DecodeString (rp_PeerPubkey peer)) ''approveCandidate, peerPubkey format error'')
           (\<lambda>peerPubkeyPrefix.
         ebind (candidate_index peerPubkeyPrefix ns) (\<lambda>(index, ns).
         ebind (GetView ns) (\<lambda>view.
         ebind (GetPeerPoolMap ns view) (\<lambda>peerPoolMap.
         let peerPoolItem = \<lparr>Index = index, PeerPubkey = rp_PeerPubkey peer, Address = rp_Address peer,
                             Status = CandidateStatus\<rparr>;
             peerPoolMap = AList.update (pa_PeerPubkey params) peerPoolItem peerPoolMap;
             ns = putPeerPoolMap peerPoolMap view ns;
             ns = db_Delete (nkey [PEER_APPLY, peerPubkeyPrefix]) ns
         in Inr (BYTE_TRUE, notify_node [NStr (str ''approveCandidate''), NStr (pa_PeerPubkey params)] ns))))))))"

text \<open>The number of candidate and consensus peers.\<close>

definition active :: "PeerPoolItem \<Rightarrow> bool" where
  "active item \<longleftrightarrow> Status item = CandidateStatus \<or> Status item = ConsensusStatus"

definition num_active :: "PeerPoolMap \<Rightarrow> nat" where
  "num_active peerPoolMap = foldl (\<lambda>num (_, item). if active item then num + 1 else num) 0 peerPoolMap"

primrec black_check :: "PeerPoolMap \<Rightarrow> bytes list \<Rightarrow> err + unit" where
  "black_check peerPoolMap [] = Inr ()"
| "black_check peerPoolMap (peerPubkey # ks) =
     (case map_of peerPoolMap peerPubkey of
        None \<Rightarrow> Inl ''blockNode, peerPubkey is not in peerPoolMap''
      | Some item \<Rightarrow>
          if Status item = BlackStatus then Inl ''blackNode, peerPubkey is already blacked''
          else black_check peerPoolMap ks)"

primrec black_peers :: "bytes list \<Rightarrow> bool \<Rightarrow> PeerPoolMap \<Rightarrow> NativeService
    \<Rightarrow> err + (bool \<times> PeerPoolMap \<times> NativeService)" where
  "black_peers [] commit peerPoolMap ns = Inr (commit, peerPoolMap, ns)"
| "black_peers (peerPubkey # ks) commit peerPoolMap ns =
     ebind (orelse_err (hex_DecodeString peerPubkey) ''blackNode, peerPubkey format error'') (\<lambda>peerPubkeyPrefix.
     case map_of peerPoolMap peerPubkey of
       None \<Rightarrow> Inl ''blackNode, peerPubkey is not in peerPoolMap''
     | Some item \<Rightarrow>
         let blackListItem = \<lparr>bl_PeerPubkey = PeerPubkey item, bl_Address = Address item\<rparr>;
             ns = db_Put (nkey [BLACK_LIST, peerPubkeyPrefix])
                    (GenRawStorageItem (BlackListItem_Serialization blackListItem)) ns;
             commit = (if Status item = ConsensusStatus then True else commit);
             peerPoolMap = AList.update peerPubkey (item\<lparr>Status := BlackStatus\<rparr>) peerPoolMap
         in black_peers ks commit peerPoolMap ns)"

definition BlackNode :: "Env \<Rightarrow> handler" where
  "BlackNode env ns =
     ebind (parse_input PeerListParam_Deserialization ''blackNode, contract params deserialize error'' ns)
       (\<lambda>params.
     if \<not> ValidateOwner env ns (pl_Address params) then Inl ''blackNode, checkWitness error''
     else
     ebind (GetView ns) (\<lambda>view.
     ebind (GetPeerPoolMap ns view) (\<lambda>peerPoolMap.
     if num_active peerPoolMap \<le> MIN_PEER_NUM + length (PeerPubkeyList params) - 1
     then Inl ''blackNode, num of peers is less than 4''
     else
     ebind (black_check peerPoolMap (PeerPubkeyList params)) (\<lambda>_.
     ebind (CheckConsensusSigns env BLACK_NODE (concat (PeerPubkeyList params)) (pl_Address params) ns) (\<lambda>(ok, ns).
     if \<not> ok then Inr (BYTE_TRUE, ns)
     else
     ebind (black_peers (PeerPubkeyList params) False peerPoolMap ns) (\<lambda>(commit, peerPoolMap, ns).
     let ns = putPeerPoolMap peerPoolMap view ns in
     ebind (if commit then executeCommitDpos ns else Inr ns) (\<lambda>ns.
     Inr (BYTE_TRUE, notify_node [NStr (str ''blackNode''), NList (PeerPubkeyList params)] ns))))))))"

definition WhiteNode :: "Env \<Rightarrow> handler" where
  "WhiteNode env ns =
     ebind (parse_input PeerParam_Deserialization ''whiteNode, contract params deserialize error'' ns) (\<lambda>params.
     if \<not> ValidateOwner env ns (pa_Address params) then Inl ''whiteNode, checkWitness error''
     else
     ebind (orelse_err (hex_DecodeString (pa_PeerPubkey params)) ''whiteNode, peerPubkey format error'')
       (\<lambda>peerPubkeyPrefix.
     case db_Get ns (nkey [BLACK_LIST, peerPubkeyPrefix]) of
       Inl _ \<Rightarrow> Inl ''whiteNode, get BlackList error''
     | Inr None \<Rightarrow> Inl ''whiteNode, this Peer is not in BlackList''
     | Inr (Some _) \<Rightarrow>
         ebind (CheckConsensusSigns env WHITE_NODE (pa_PeerPubkey params) (pa_Address params) ns) (\<lambda>(ok, ns).
         if \<not> ok then Inr (BYTE_TRUE, ns)
         else
         let ns = db_Delete (nkey [BLACK_LIST, peerPubkeyPrefix]) ns
         in Inr (BYTE_TRUE, notify_node [NStr (str ''whiteNode''), NStr (pa_PeerPubkey params)] ns))))"

definition QuitNode :: "Env \<Rightarrow> handler" where
  "QuitNode env ns =
     ebind (parse_input PeerParam_Deserialization ''quitNode, contract params deserialize error'' ns) (\<lambda>params.
     if \<not> ValidateOwner env ns (pa_Address params) then Inl ''quitNode, checkWitness error''
     else
     ebind (GetView ns) (\<lambda>view.
     ebind (GetPeerPoolMap ns view) (\<lambda>peerPoolMap.
     case map_of peerPoolMap (pa_PeerPubkey params) of
       None \<Rightarrow> Inl ''quitNode, peerPubkey is not in peerPoolMap''
     | Some item \<Rightarrow>
         if Status item \<noteq> ConsensusStatus \<and> Status item \<noteq> CandidateStatus
         then Inl ''quitNode, peerPubkey is not CandidateStatus or ConsensusStatus''
         else if pa_Address params \<noteq> Address item
         then Inl ''quitNode, peerPubkey is not registered by this address''
         else if num_active peerPoolMap \<le> MIN_PEER_NUM then Inl ''quitNode, num of peers is less than 4''
         else
         let peerPoolMap = AList.update (pa_PeerPubkey params) (item\<lparr>Status := QuitingStatus\<rparr>) peerPoolMap;
             ns = putPeerPoolMap peerPoolMap view ns
         in Inr (BYTE_TRUE, notify_node [NStr (str ''quitNode''), NStr (pa_PeerPubkey params)] ns))))"

definition CommitDpos :: "Env \<Rightarrow> handler" where
  "CommitDpos env ns =
     ebind (GetConfig ns) (\<lambda>config.
     ebind (GetGovernanceView ns) (\<lambda>governanceView.
     ebind (GetCurConOperator env ns) (\<lambda>operatorAddress.
     if \<not> ValidateOwner env ns operatorAddress
        \<and> \<not> (height ns - gv_Height governanceView \<ge> MaxBlockChangeView config)
     then Inl ''commitDpos, authentication Failed''
     else
     ebind (executeCommitDpos ns) (\<lambda>ns.
     Inr (BYTE_TRUE, notify_node [NStr (str ''commitDpos'')] ns)))))"

definition UpdateConfig :: "Env \<Rightarrow> handler" where
  "UpdateConfig env ns =
     ebind (parse_input UpdateConfigParam_Deserialization ''updateConfig, deserialize configuration error'' ns)
       (\<lambda>configuration.
     ebind (GetCurConOperator env ns) (\<lambda>operatorAddress.
     if \<not> ValidateOwner env ns operatorAddress then Inl ''updateConfig, checkWitness error''
     else if BlockMsgDelay configuration < 5000 then Inl ''updateConfig. BlockMsgDelay must >= 5000''
     else if HashMsgDelay configuration < 5000 then Inl ''updateConfig. HashMsgDelay must >= 5000''
     else if PeerHandshakeTimeout configuration < 10 then Inl ''updateConfig. PeerHandshakeTimeout must >= 10''
     else if MaxBlockChangeView configuration < 10000 then Inl ''updateConfig. MaxBlockChangeView must >= 10000''
     else
     let ns = putConfig configuration ns
     in Inr (BYTE_TRUE, notify_node [NStr (str ''updateConfig''),
          NRec [uint (BlockMsgDelay configuration), uint (HashMsgDelay configuration),
                uint (PeerHandshakeTimeout configuration), uint (MaxBlockChangeView configuration)]] ns)))"

definition RegisterNodeManagerContract :: "Env \<Rightarrow> (bytes \<times> handler) list" where
  "RegisterNodeManagerContract env =
     [(INIT_CONFIG, InitConfig env), (REGISTER_CANDIDATE, RegisterCandidate env),
      (UNREGISTER_CANDIDATE, UnRegisterCandidate env), (QUIT_NODE, QuitNode env),
      (APPROVE_CANDIDATE, ApproveCandidate env), (BLACK_NODE, BlackNode env), (WHITE_NODE, WhiteNode env),
      (UPDATE_CONFIG, UpdateConfig env), (COMMIT_DPOS, CommitDpos env)]"

end
