(* ===== verification/Node_Props.thy ===== *)
theory Node_Props
  imports Node_Manager
begin

text \<open>
  Properties of the node manager contract: reads after writes of its records, the quorum rule and its
  consequences (two approvals share an honest signer, collecting signatures succeeds exactly at the
  quorum), the change of the view, and the lower bound on the number of active peers.
\<close>

section \<open>Reads after writes\<close>

lemmas node_gets = GetPeerApply_def GetPeerPoolMap_def GetConfig_def getCandidateIndex_def GetGovernanceView_def
  getConsensusSigns_def

lemmas node_puts = putPeerPoolMap_def putConfig_def putCandidateIndex_def putGovernanceView_def
  putConsensusSigns_def deleteConsensusSigns_def notify_node_def

text \<open>A write to one kind of record leaves the others alone.\<close>

lemma node_frame [store_simps]:
  "GetGovernanceView (putPeerPoolMap m v ns) = GetGovernanceView ns"
  "GetGovernanceView (putConsensusSigns k s ns) = GetGovernanceView ns"
  "GetGovernanceView (deleteConsensusSigns k ns) = GetGovernanceView ns"
  "GetGovernanceView (notify_node st ns) = GetGovernanceView ns"
  "GetGovernanceView (putConfig c ns) = GetGovernanceView ns"
  "GetGovernanceView (putCandidateIndex i ns) = GetGovernanceView ns"
  "GetGovernanceView (db_Put (nkey [BLACK_LIST, x]) b ns) = GetGovernanceView ns"
  "GetGovernanceView (db_Put (nkey [PEER_INDEX, x]) b ns) = GetGovernanceView ns"
  "GetGovernanceView (db_Put (nkey [PEER_APPLY, x]) b ns) = GetGovernanceView ns"
  "GetGovernanceView (db_Delete (nkey [BLACK_LIST, x]) ns) = GetGovernanceView ns"
  "GetGovernanceView (db_Delete (nkey [PEER_APPLY, x]) ns) = GetGovernanceView ns"
  "GetGovernanceView (db_Delete (nkey [PEER_POOL, x]) ns) = GetGovernanceView ns"
  by (simp_all add: node_gets node_puts store_simps key_simps)

lemma pool_frame [store_simps]:
  "GetPeerPoolMap (putGovernanceView g ns) w = GetPeerPoolMap ns w"
  "GetPeerPoolMap (putConsensusSigns k s ns) w = GetPeerPoolMap ns w"
  "GetPeerPoolMap (deleteConsensusSigns k ns) w = GetPeerPoolMap ns w"
  "GetPeerPoolMap (notify_node st ns) w = GetPeerPoolMap ns w"
  "GetPeerPoolMap (putConfig c ns) w = GetPeerPoolMap ns w"
  "GetPeerPoolMap (putCandidateIndex i ns) w = GetPeerPoolMap ns w"
  "GetPeerPoolMap (db_Put (nkey [BLACK_LIST, x]) b ns) w = GetPeerPoolMap ns w"
  "GetPeerPoolMap (db_Put (nkey [PEER_INDEX, x]) b ns) w = GetPeerPoolMap ns w"
  "GetPeerPoolMap (db_Put (nkey [PEER_APPLY, x]) b ns) w = GetPeerPoolMap ns w"
  "GetPeerPoolMap (db_Delete (nkey [BLACK_LIST, x]) ns) w = GetPeerPoolMap ns w"
  "GetPeerPoolMap (db_Delete (nkey [PEER_APPLY, x]) ns) w = GetPeerPoolMap ns w"
  by (simp_all add: node_gets node_puts store_simps key_simps)

lemma signs_frame [store_simps]:
  "getConsensusSigns (notify_node st ns) k = getConsensusSigns ns k"
  "getConsensusSigns (putPeerPoolMap m v ns) k = getConsensusSigns ns k"
  by (simp_all add: node_gets node_puts store_simps key_simps)

lemma node_state_fields [store_simps]:
  "height (putPeerPoolMap m v ns) = height ns" "tx (putPeerPoolMap m v ns) = tx ns"
  "height (notify_node st ns) = height ns" "tx (notify_node st ns) = tx ns"
  "height (putGovernanceView g ns) = height ns" "tx (putGovernanceView g ns) = tx ns"
  "height (putConsensusSigns k s ns) = height ns" "tx (putConsensusSigns k s ns) = tx ns"
  "height (deleteConsensusSigns k ns) = height ns" "tx (deleteConsensusSigns k ns) = tx ns"
  by (simp_all add: node_puts store_simps)

lemma GetGovernanceView_put [store_simps]:
  "length (gv_TxHash g) = UINT256_SIZE \<Longrightarrow> GetGovernanceView (putGovernanceView g ns) = Inr g"
  using rd_view.load_put [of g]
  by (simp add: GetGovernanceView_def putGovernanceView_def GovernanceView_Serialization_def enc_uint32_def size_defs)

text \<open>The size of a stored pool.\<close>

definition small_pool :: "PeerPoolMap \<Rightarrow> bool" where
  "small_pool m \<longleftrightarrow> (\<Sum>e\<leftarrow>m. length (PeerPoolItem_Serialization (snd e))) < 2 ^ 61"

lemma small_pool_bytes:
  assumes "small_pool m"
  shows "length (PeerPoolMap_Serialization m) < 2 ^ 62"
proof -
  let ?f = "\<lambda>v. length (PeerPoolItem_Serialization v)"
  have "(\<Sum>v\<leftarrow>sort_desc PeerPubkey (map snd m). ?f v) = (\<Sum>v\<leftarrow>map snd m. ?f v)"
    by (simp only: sum_mset_sum_list [symmetric] mset_map mset_SliceStable)
  moreover have "length (enc_varuint (of_nat (length m))) \<le> 9" by (simp add: enc_varuint_def)
  ultimately show ?thesis
    using assms by (simp add: PeerPoolMap_Serialization_def small_pool_def length_concat comp_def Let_def)
qed

lemma GetPeerPoolMap_put [store_simps]:
  assumes "pool_ok m" and "small_pool m"
  shows "GetPeerPoolMap (putPeerPoolMap m v ns) v = Inr (pool_canon m)"
proof -
  have "length (PeerPoolMap_Serialization (pool_canon m)) < 2 ^ 62"
    using small_pool_bytes [OF assms(2)] by (simp add: PeerPoolMap_canon_bytes [OF assms(1)])
  from rd_pool.load_put [OF _ this] assms(1) show ?thesis
    unfolding GetPeerPoolMap_def putPeerPoolMap_def PeerPoolMap_canon_bytes [OF assms(1), symmetric]
    by (simp add: pool_ok_canon pool_canon_idem)
qed

lemma GetPeerPoolMap_put_other [store_simps]:
  "w \<noteq> v \<Longrightarrow> GetPeerPoolMap (putPeerPoolMap m v ns) w = GetPeerPoolMap ns w"
  "w \<noteq> v \<Longrightarrow> GetPeerPoolMap (db_Delete (nkey [PEER_POOL, GetUint32Bytes v]) ns) w = GetPeerPoolMap ns w"
  by (simp_all add: GetPeerPoolMap_def putPeerPoolMap_def store_simps key_simps)

lemma getConsensusSigns_put [store_simps]:
  assumes "signs_ok m" and "length (ConsensusSigns_Serialization m) < 2 ^ 62"
  shows "getConsensusSigns (putConsensusSigns k m ns) k = Inr (signs_canon m)"
proof -
  have e: "ConsensusSigns_Serialization (signs_canon m) = ConsensusSigns_Serialization m"
    using assms(1) by (simp add: ConsensusSigns_canon_bytes signs_canon_idem signs_canon_keys(3))
  with assms rd_signs.load_put [of "signs_canon m"] show ?thesis
    unfolding getConsensusSigns_def putConsensusSigns_def e [symmetric]
    by (simp add: signs_canon_ok signs_canon_idem)
qed

lemma getConsensusSigns_delete [store_simps]: "getConsensusSigns (deleteConsensusSigns k ns) k = Inr []"
  by (simp add: getConsensusSigns_def deleteConsensusSigns_def store_simps)

section \<open>Counting signatures\<close>

text \<open>The address under which a consensus peer signs, when its key is well formed.\<close>

definition signer :: "Env \<Rightarrow> bytes \<Rightarrow> address option" where
  "signer env key = do { k \<leftarrow> hex_DecodeString key; pk \<leftarrow> DeserializePublicKey env k; Some (AddressFromPubKey env pk) }"

definition consensus :: "bytes \<times> PeerPoolItem \<Rightarrow> bool" where
  "consensus e \<longleftrightarrow> Status (snd e) = ConsensusStatus"

definition signed :: "Env \<Rightarrow> address set \<Rightarrow> bytes \<times> PeerPoolItem \<Rightarrow> bool" where
  "signed env A e \<longleftrightarrow> (case signer env (fst e) of None \<Rightarrow> False | Some a \<Rightarrow> a \<in> A)"

definition keys_decode :: "Env \<Rightarrow> PeerPoolMap \<Rightarrow> bool" where
  "keys_decode env m \<longleftrightarrow> (\<forall>e \<in> set m. consensus e \<longrightarrow> signer env (fst e) \<noteq> None)"

definition n_consensus :: "PeerPoolMap \<Rightarrow> nat" where
  "n_consensus m = length (filter consensus m)"

definition n_signed :: "Env \<Rightarrow> address set \<Rightarrow> PeerPoolMap \<Rightarrow> nat" where
  "n_signed env A m = length (filter (\<lambda>e. consensus e \<and> signed env A e) m)"

lemma keys_update: "fst ` set (AList.update k v m) = insert k (fst ` set m)"
  by (induction m) auto

lemma signer_SomeE:
  assumes "signer env key = Some a"
  obtains k pk where "hex_DecodeString key = Some k" "DeserializePublicKey env k = Some pk"
    "a = AddressFromPubKey env pk"
  using assms by (auto simp: signer_def bind_eq_Some_conv)

lemma count_signs_spec:
  "keys_decode env m \<Longrightarrow>
   count_signs env signs m (i, j) = Inr (i + n_signed env (fst ` set signs) m, j + n_consensus m)"
proof (induction m arbitrary: i j)
  case (Cons e m)
  then have IH: "count_signs env signs m (i, j) = Inr (i + n_signed env (fst ` set signs) m, j + n_consensus m)"
    for i j by (simp add: keys_decode_def)
  obtain key v where e: "e = (key, v)" by (cases e)
  show ?case
  proof (cases "Status v = ConsensusStatus")
    case True
    with Cons.prems e obtain a where "signer env key = Some a" by (auto simp: keys_decode_def consensus_def)
    then obtain k pk where "hex_DecodeString key = Some k" "DeserializePublicKey env k = Some pk"
      "a = AddressFromPubKey env pk" "signer env key = Some (AddressFromPubKey env pk)"
      by (auto elim: signer_SomeE)
    with True show ?thesis
      by (auto simp: e IH n_signed_def n_consensus_def consensus_def signed_def map_of_eq_None_iff)
  next
    case False
    then show ?thesis by (simp add: e IH n_signed_def n_consensus_def consensus_def)
  qed
qed (simp add: n_signed_def n_consensus_def)

lemma count_signs_decodes: "count_signs env signs m acc = Inr r \<Longrightarrow> keys_decode env m"
proof (induction m arbitrary: acc)
  case (Cons e m)
  then show ?case
    by (cases acc) (auto simp: keys_decode_def consensus_def signer_def orelse_err_def Let_def split_beta
        split: if_splits option.splits)
qed (simp add: keys_decode_def)

lemma quorum_iff: "Suc (Suc (2 * s)) div 3 \<le> n \<longleftrightarrow> 2 * s \<le> 3 * (n :: nat)"
  by linarith

text \<open>The three outcomes of \<open>CheckConsensusSigns\<close>.\<close>

lemma CheckConsensusSigns_eq:
  assumes "getConsensusSigns ns (sha256 (method @ inp)) = Inr signs"
    "GetGovernanceView ns = Inr gv" "GetPeerPoolMap ns (View gv) = Inr pool" "keys_decode env pool"
  shows "CheckConsensusSigns env method inp a ns =
    (let ns1 = notify_node [NStr (str ''CheckConsensusSigns''), NNum (int (length (AList.update a True signs)))] ns
     in if 2 * n_consensus pool \<le> 3 * n_signed env (insert a (fst ` set signs)) pool
        then Inr (True, deleteConsensusSigns (sha256 (method @ inp)) ns1)
        else Inr (False, putConsensusSigns (sha256 (method @ inp)) (AList.update a True signs) ns1))"
  using assms unfolding CheckConsensusSigns_def GetView_def Let_def
  by (simp add: store_simps quorum_iff count_signs_spec keys_update)

lemma CheckConsensusSigns_Inr:
  assumes "CheckConsensusSigns env method inp a ns = Inr (ok, ns')"
  obtains signs gv pool where
    "getConsensusSigns ns (sha256 (method @ inp)) = Inr signs"
    "GetGovernanceView ns = Inr gv" "GetPeerPoolMap ns (View gv) = Inr pool" "keys_decode env pool"
    "ok \<longleftrightarrow> 2 * n_consensus pool \<le> 3 * n_signed env (insert a (fst ` set signs)) pool"
    "ns' = (let ns1 = notify_node [NStr (str ''CheckConsensusSigns''), NNum (int (length (AList.update a True signs)))] ns
            in if ok then deleteConsensusSigns (sha256 (method @ inp)) ns1
               else putConsensusSigns (sha256 (method @ inp)) (AList.update a True signs) ns1)"
proof -
  from assms obtain signs gv pool r where g: "getConsensusSigns ns (sha256 (method @ inp)) = Inr signs"
    "GetGovernanceView ns = Inr gv" "GetPeerPoolMap ns (View gv) = Inr pool"
    and "count_signs env (AList.update a True signs) pool (0, 0) = Inr r"
    unfolding CheckConsensusSigns_def GetView_def Let_def by (auto simp: store_simps)
  then have d: "keys_decode env pool" by (blast dest: count_signs_decodes)
  from that [OF g d] CheckConsensusSigns_eq [OF g d, of a] assms show ?thesis
    by (simp add: Let_def split: if_splits)
qed

lemma n_signed_mono: "A \<subseteq> B \<Longrightarrow> n_signed env A m \<le> n_signed env B m"
  unfolding n_signed_def by (induction m) (auto simp: signed_def split: option.splits)

lemma n_signed_le: "n_signed env A m \<le> n_consensus m"
  unfolding n_signed_def n_consensus_def by (induction m) auto

text \<open>Two quorums overlap in at least a third of the consensus peers.\<close>

lemma quorum_overlap:
  assumes "2 * n_consensus m \<le> 3 * n_signed env A m" and "2 * n_consensus m \<le> 3 * n_signed env B m"
  shows "n_consensus m \<le> 3 * n_signed env (A \<inter> B) m"
proof -
  have "n_signed env A m + n_signed env B m \<le> n_consensus m + n_signed env (A \<inter> B) m"
    unfolding n_signed_def n_consensus_def by (induction m) (auto simp: signed_def split: option.splits)
  with assms show ?thesis by linarith
qed

text \<open>The counts do not depend on the iteration order of the pool.\<close>

lemma counts_mset:
  assumes "mset m = mset m'"
  shows "n_signed env A m = n_signed env A m'" "n_consensus m = n_consensus m'"
    "keys_decode env m = keys_decode env m'"
proof -
  have "length (filter P m) = length (filter P m')" for P :: "bytes \<times> PeerPoolItem \<Rightarrow> bool"
    using assms by (metis mset_filter size_mset)
  moreover have "set m = set m'" using assms by (metis set_mset_mset)
  ultimately show "n_signed env A m = n_signed env A m'" "n_consensus m = n_consensus m'"
    "keys_decode env m = keys_decode env m'"
    by (simp_all add: n_signed_def n_consensus_def keys_decode_def)
qed

section \<open>Collecting signatures\<close>

text \<open>The consensus peers call in turn, until a call reports the quorum.\<close>

primrec collect :: "Env \<Rightarrow> bytes \<Rightarrow> bytes \<Rightarrow> address list \<Rightarrow> NativeService \<Rightarrow> err + (bool \<times> NativeService)" where
  "collect env method inp [] ns = Inr (False, ns)"
| "collect env method inp (a # as) ns =
     ebind (CheckConsensusSigns env method inp a ns) (\<lambda>(ok, ns).
       if ok then Inr (True, ns) else collect env method inp as ns)"

lemma length_signs_bytes:
  assumes "signs_ok m"
  shows "length (ConsensusSigns_Serialization m) \<le> 9 + 22 * length m"
proof -
  have "length (concat (map sign_bytes es)) = 22 * length es" if "\<forall>e \<in> set es. length (fst e) = ADDR_LEN" for es
    using that by (induction es)
      (auto simp: sign_bytes_def enc_varbytes_def enc_varuint_def enc_bool_def size_defs)
  moreover have "\<forall>e \<in> set (signs_canon m). length (fst e) = ADDR_LEN"
    using signs_canon_ok [OF assms] by (auto simp: signs_ok_def)
  ultimately have "length (concat (map sign_bytes (signs_canon m))) = 22 * length m"
    using signs_canon_keys(3) [OF assms] by metis
  moreover have "length (enc_varuint (of_nat (length m))) \<le> 9" by (simp add: enc_varuint_def)
  ultimately show ?thesis by (simp add: ConsensusSigns_canon_bytes)
qed

lemma signs_ok_update:
  assumes "signs_ok m" and "length a = ADDR_LEN" and "length m < 2 ^ 50"
  shows "signs_ok (AList.update a True m)" "length (AList.update a True m) \<le> Suc (length m)"
proof -
  have l: "length (AList.update a True m) \<le> Suc (length m)" by (induction m) auto
  then show "length (AList.update a True m) \<le> Suc (length m)" .
  with assms show "signs_ok (AList.update a True m)"
    by (simp add: signs_ok_def distinct_update keys_update)
qed

lemma collect_spec:
  assumes "GetGovernanceView ns = Inr gv" "GetPeerPoolMap ns (View gv) = Inr pool" "keys_decode env pool"
    and "getConsensusSigns ns (sha256 (method @ inp)) = Inr signs" "signs_ok signs"
    and "length signs + length as < 2 ^ 50" "\<forall>a \<in> set as. length a = ADDR_LEN" "as \<noteq> []"
  shows "\<exists>ok ns'. collect env method inp as ns = Inr (ok, ns') \<and>
    (ok \<longleftrightarrow> 2 * n_consensus pool \<le> 3 * n_signed env (set as \<union> fst ` set signs) pool)"
  using assms
proof (induction as arbitrary: ns signs)
  case (Cons a as)
  let ?k = "sha256 (method @ inp)" and ?signs = "AList.update a True signs"
  let ?A = "insert a (fst ` set signs)"
  define ns1 where "ns1 = notify_node [NStr (str ''CheckConsensusSigns''), NNum (int (length ?signs))] ns"
  note eq = CheckConsensusSigns_eq [OF Cons.prems(4,1,2,3), of a, folded ns1_def, unfolded Let_def]
  show ?case
  proof (cases "2 * n_consensus pool \<le> 3 * n_signed env ?A pool")
    case True
    moreover have "n_signed env ?A pool \<le> n_signed env (set (a # as) \<union> fst ` set signs) pool"
      by (rule n_signed_mono) auto
    ultimately show ?thesis using eq by auto
  next
    case False
    show ?thesis
    proof (cases "as = []")
      case True
      with False eq show ?thesis by (auto intro!: exI [of _ False])
    next
      case as: False
      have ok: "signs_ok ?signs" "length ?signs \<le> Suc (length signs)"
        using Cons.prems by (auto intro: signs_ok_update)
      then have "length (ConsensusSigns_Serialization ?signs) < 2 ^ 62"
        using length_signs_bytes [OF ok(1)] Cons.prems(6) by simp
      with ok have g: "getConsensusSigns (putConsensusSigns ?k ?signs ns1) ?k = Inr (signs_canon ?signs)"
        by (simp add: store_simps)
      have "\<exists>ok ns'. collect env method inp as (putConsensusSigns ?k ?signs ns1) = Inr (ok, ns') \<and>
          (ok \<longleftrightarrow> 2 * n_consensus pool \<le> 3 * n_signed env (set as \<union> fst ` set (signs_canon ?signs)) pool)"
        using Cons.prems ok as signs_canon_keys(3) [OF ok(1)]
        by (intro Cons.IH g) (simp_all add: store_simps ns1_def signs_canon_ok)
      moreover have "set as \<union> fst ` set (signs_canon ?signs) = set (a # as) \<union> fst ` set signs"
        using signs_canon_keys(2) [OF ok(1)] by (simp add: keys_update)
      ultimately show ?thesis using False eq by simp
    qed
  qed
qed simp

section \<open>The change of the view\<close>

definition keyed :: "PeerPoolMap \<Rightarrow> bool" where
  "keyed m \<longleftrightarrow> distinct (map fst m) \<and> (\<forall>(k, v) \<in> set m. k = PeerPubkey v)"

text \<open>What the change of the view makes of one peer: it leaves, or it is a consensus peer of the next view.\<close>

definition committed :: "PeerPoolItem \<Rightarrow> PeerPoolItem option" where
  "committed v =
     (if Status v = QuitingStatus \<or> Status v = BlackStatus then None
      else Some (if active v then v\<lparr>Status := ConsensusStatus\<rparr> else v))"

lemma set_update_subset: "set (AList.update k v m) \<subseteq> insert (k, v) (set m)"
  by (induction m) auto

lemma keyed_update: "keyed m \<Longrightarrow> k = PeerPubkey v \<Longrightarrow> keyed (AList.update k v m)"
  unfolding keyed_def using set_update_subset [of k v m] by (auto simp: distinct_update)

lemma keyed_delete: "keyed m \<Longrightarrow> keyed (AList.delete k m)"
  unfolding keyed_def by (auto simp: AList.delete_eq distinct_map_filter)

lemma commit_peer_map:
  assumes "keyed m"
  shows "map_of (commit_peer k m) = (map_of m)(k := Option.bind (map_of m k) committed)" "keyed (commit_peer k m)"
proof -
  consider "map_of m k = None" | v where "map_of m k = Some v" "k = PeerPubkey v"
    using assms by (cases "map_of m k") (auto simp: keyed_def dest: map_of_SomeD)
  then show "map_of (commit_peer k m) = (map_of m)(k := Option.bind (map_of m k) committed)" "keyed (commit_peer k m)"
    using assms
    by (cases; auto simp: commit_peer_def committed_def active_def update_conv' delete_conv' fun_eq_iff
        Let_def keyed_update keyed_delete)+
qed

lemma fold_commit_peer:
  "keyed m \<Longrightarrow> distinct ks \<Longrightarrow> keyed (fold commit_peer ks m) \<and>
   map_of (fold commit_peer ks m) k = (if k \<in> set ks then Option.bind (map_of m k) committed else map_of m k)"
proof (induction ks arbitrary: m)
  case (Cons k' ks)
  from Cons.IH [OF commit_peer_map(2) [OF Cons.prems(1), of k']] Cons.prems show ?case
    by (auto simp: commit_peer_map(1))
qed simp

lemma commit_peers_map:
  assumes "keyed m"
  shows "map_of (commit_peers m) k = Option.bind (map_of m k) committed" "keyed (commit_peers m)"
proof -
  have d: "distinct (map fst m)" using assms by (simp add: keyed_def)
  show "keyed (commit_peers m)" using fold_commit_peer [OF assms d] by (simp add: commit_peers_def)
  show "map_of (commit_peers m) k = Option.bind (map_of m k) committed"
    using fold_commit_peer [OF assms d, of k] map_of_eq_None_iff [of m k]
    by (auto simp: commit_peers_def split: if_splits)
qed

text \<open>
  A pool in which peers only left or changed their status is well formed and not larger than before.
\<close>

lemma sum_list_map_of:
  assumes "distinct (map fst m)"
  shows "(\<Sum>e\<leftarrow>m. f (snd e)) = (\<Sum>k\<in>dom (map_of m). f (the (map_of m k)))"
proof -
  have "(\<Sum>e\<leftarrow>m. f (snd e)) = (\<Sum>k\<leftarrow>map fst m. f (the (map_of m k)))"
    using assms by (auto simp: comp_def intro!: arg_cong [where f = sum_list] map_cong)
  also have "\<dots> = (\<Sum>k\<in>set (map fst m). f (the (map_of m k)))"
    using assms by (rule sum_list_distinct_conv_sum_set)
  finally show ?thesis by (simp add: dom_map_of_conv_image_fst)
qed

definition restatus :: "PeerPoolMap \<Rightarrow> PeerPoolMap \<Rightarrow> bool" where
  "restatus m m' \<longleftrightarrow> (\<forall>k v'. map_of m' k = Some v' \<longrightarrow> (\<exists>v st. map_of m k = Some v \<and> v' = v\<lparr>Status := st\<rparr>))"

lemma restatus_refl: "restatus m m"
  unfolding restatus_def
proof (intro allI impI)
  fix k v' assume "map_of m k = Some v'"
  then show "\<exists>v st. map_of m k = Some v \<and> v' = v\<lparr>Status := st\<rparr>" by (intro exI [of _ v'] exI [of _ "Status v'"]) simp
qed

lemma pool_ok_keyed: "pool_ok m \<longleftrightarrow> keyed m \<and> (\<forall>v \<in> snd ` set m. PeerPoolItem_wf v) \<and> length m < 2 ^ 62"
  by (auto simp: pool_ok_def keyed_def)

lemma pool_shrink:
  assumes ok: "pool_ok m" and small: "small_pool m" and keyed: "keyed m'" and st: "restatus m m'"
  shows "pool_ok m'" "small_pool m'"
proof -
  let ?f = "\<lambda>v. length (PeerPoolItem_Serialization v)"
  have d: "distinct (map fst m)" "distinct (map fst m')" using ok keyed by (simp_all add: pool_ok_def keyed_def)
  have sub: "dom (map_of m') \<subseteq> dom (map_of m)" using st by (fastforce simp: restatus_def)
  have size: "?f (the (map_of m' k)) = ?f (the (map_of m k))" if "k \<in> dom (map_of m')" for k
    using st that by (fastforce simp: restatus_def PeerPoolItem_Serialization_def Status_Serialization_def enc_uint8_def)
  have "(\<Sum>e\<leftarrow>m'. ?f (snd e)) = (\<Sum>k\<in>dom (map_of m'). ?f (the (map_of m k)))"
    unfolding sum_list_map_of [OF d(2), where f = ?f] by (rule sum.cong) (simp_all add: size)
  also have "\<dots> \<le> (\<Sum>k\<in>dom (map_of m). ?f (the (map_of m k)))"
    by (rule sum_mono2 [OF finite_dom_map_of sub]) simp
  also have "\<dots> = (\<Sum>e\<leftarrow>m. ?f (snd e))" by (rule sum_list_map_of [OF d(1), where f = ?f, symmetric])
  finally show "small_pool m'" using small by (simp add: small_pool_def)
  have wf: "PeerPoolItem_wf v'" if "(k, v') \<in> set m'" for k v'
  proof -
    from that d(2) have "map_of m' k = Some v'" by simp
    with st obtain v u where "map_of m k = Some v" "v' = v\<lparr>Status := u\<rparr>"
      unfolding restatus_def by blast
    moreover from this(1) have "PeerPoolItem_wf v" using ok by (auto simp: pool_ok_def dest: map_of_SomeD)
    ultimately show ?thesis by (simp add: PeerPoolItem_wf_def)
  qed
  have "length m' = card (dom (map_of m'))" "length m = card (dom (map_of m))"
    using d by (metis distinct_card dom_map_of_conv_image_fst length_map set_map)+
  then have "length m' \<le> length m" using card_mono [OF finite_dom_map_of sub] by simp
  with ok keyed wf show "pool_ok m'" by (auto simp: pool_ok_keyed)
qed

lemma restatus_commit: "pool_ok m \<Longrightarrow> restatus m (commit_peers m)"
proof (unfold restatus_def, intro allI impI)
  fix k v' assume ok: "pool_ok m" and v': "map_of (commit_peers m) k = Some v'"
  then obtain v where "map_of m k = Some v" "committed v = Some v'"
    using commit_peers_map(1) [of m k] by (auto simp: pool_ok_keyed bind_eq_Some_conv)
  then show "\<exists>v st. map_of m k = Some v \<and> v' = v\<lparr>Status := st\<rparr>"
    by (intro exI [of _ v] exI [of _ "Status v'"]) (auto simp: committed_def split: if_splits)
qed

lemma commit_peers_ok:
  assumes "pool_ok m" "small_pool m"
  shows "pool_ok (commit_peers m)" "small_pool (commit_peers m)"
  using pool_shrink [OF assms commit_peers_map(2) restatus_commit] assms by (simp_all add: pool_ok_keyed)

lemma word_view_neq: "(v :: uint32) + 1 \<noteq> v - 1" "v \<noteq> v + 1" "v \<noteq> v - 1"
  by (auto simp: diff_eq_eq add.assoc)

lemma executeCommitDpos_ok:
  assumes "GetGovernanceView ns = Inr gv" "height ns \<noteq> gv_Height gv" "GetPeerPoolMap ns (View gv) = Inr pool"
    and "pool_ok pool" "small_pool pool" "length (tx_hash (tx ns)) = UINT256_SIZE"
  shows "\<exists>ns'. executeCommitDpos ns = Inr ns' \<and>
    GetGovernanceView ns' = Inr \<lparr>View = View gv + 1, gv_Height = height ns, gv_TxHash = tx_hash (tx ns)\<rparr> \<and>
    GetPeerPoolMap ns' (View gv + 1) = Inr (pool_canon (commit_peers pool)) \<and>
    GetPeerPoolMap ns' (View gv) = Inr pool \<and>
    GetPeerPoolMap ns' (View gv - 1) = Inl ''getPeerPoolMap, peerPoolMap is nil''"
proof -
  have nil: "GetPeerPoolMap (db_Delete (nkey [PEER_POOL, GetUint32Bytes v]) s) v
      = Inl ''getPeerPoolMap, peerPoolMap is nil''" for v s
    by (simp add: GetPeerPoolMap_def store_simps)
  show ?thesis using assms commit_peers_ok [OF assms(4,5)] word_view_neq [of "View gv"]
    by (simp add: executeCommitDpos_def Let_def store_simps nil)
qed

section \<open>The number of active peers\<close>

definition active_set :: "PeerPoolMap \<Rightarrow> bytes set" where
  "active_set m = {k. \<exists>v. map_of m k = Some v \<and> active v}"

lemma finite_active_set: "finite (active_set m)"
  by (rule finite_subset [OF _ finite_dom_map_of [of m]]) (auto simp: active_set_def)

lemma num_active_filter: "num_active m = length (filter (\<lambda>e. active (snd e)) m)"
proof -
  have "foldl (\<lambda>num (_, item). if active item then num + 1 else num) n m
      = n + length (filter (\<lambda>e. active (snd e)) m)" for n
    by (induction m arbitrary: n) auto
  then show ?thesis by (simp add: num_active_def)
qed

lemma num_active_card:
  assumes "distinct (map fst m)"
  shows "num_active m = card (active_set m)"
proof -
  have "active_set m = set (map fst (filter (\<lambda>e. active (snd e)) m))"
    using assms by (force simp: active_set_def)
  moreover have "distinct (map fst (filter (\<lambda>e. active (snd e)) m))"
    using assms by (rule distinct_map_filter)
  ultimately show ?thesis by (metis distinct_card length_map num_active_filter)
qed

lemma active_set_commit:
  assumes "keyed m"
  shows "active_set (commit_peers m) = active_set m"
  by (auto simp: active_set_def commit_peers_map [OF assms] bind_eq_Some_conv committed_def active_def split: if_splits)

lemma num_active_cong:
  "distinct (map fst m) \<Longrightarrow> distinct (map fst m') \<Longrightarrow> active_set m' = active_set m \<Longrightarrow> num_active m' = num_active m"
  by (simp add: num_active_card)

lemma num_active_canon: "pool_ok m \<Longrightarrow> num_active (pool_canon m) = num_active m"
  using pool_ok_canon [of m]
  by (intro num_active_cong) (simp_all add: pool_ok_def active_set_def map_of_pool_canon)

lemma num_active_commit: "pool_ok m \<Longrightarrow> num_active (commit_peers m) = num_active m"
  using commit_peers_map(2) [of m] active_set_commit [of m]
  by (intro num_active_cong) (auto simp: pool_ok_keyed keyed_def)

text \<open>Blacking some peers takes at most that many active ones out.\<close>

lemma black_peers_spec:
  assumes "black_peers ks c m ns = Inr (c', m', ns')" and "keyed m"
  shows "keyed m' \<and> restatus m m' \<and> active_set m - set ks \<subseteq> active_set m'
    \<and> GetGovernanceView ns' = GetGovernanceView ns \<and> height ns' = height ns \<and> tx ns' = tx ns"
  using assms
proof (induction ks arbitrary: c m ns)
  case Nil
  then show ?case by (auto simp: restatus_refl)
next
  case (Cons k ks)
  from Cons.prems obtain pfx v where pfx: "hex_DecodeString k = Some pfx" and v: "map_of m k = Some v"
    by (auto simp: orelse_err_def split: option.splits)
  define m1 ns1 where "m1 = AList.update k (v\<lparr>Status := BlackStatus\<rparr>) m"
    and "ns1 = db_Put (nkey [BLACK_LIST, pfx]) (GenRawStorageItem
      (BlackListItem_Serialization \<lparr>bl_PeerPubkey = PeerPubkey v, bl_Address = Address v\<rparr>)) ns"
  have k: "k = PeerPubkey v" using Cons.prems(2) v by (auto simp: keyed_def dest: map_of_SomeD)
  have m1: "keyed m1" "map_of m1 = (map_of m)(k \<mapsto> v\<lparr>Status := BlackStatus\<rparr>)"
    using Cons.prems(2) k by (simp_all add: m1_def keyed_update update_conv')
  from Cons.prems pfx v obtain c1 where "black_peers ks c1 m1 ns1 = Inr (c', m', ns')"
    by (auto simp: m1_def ns1_def Let_def)
  from Cons.IH [OF this m1(1)] have IH: "keyed m'" "restatus m1 m'" "active_set m1 - set ks \<subseteq> active_set m'"
    "GetGovernanceView ns' = GetGovernanceView ns1" "height ns' = height ns1" "tx ns' = tx ns1" by blast+
  have "restatus m m'"
    unfolding restatus_def
  proof (intro allI impI)
    fix x v' assume "map_of m' x = Some v'"
    with IH(2) obtain u st where u: "map_of m1 x = Some u" "v' = u\<lparr>Status := st\<rparr>" unfolding restatus_def by blast
    show "\<exists>v st. map_of m x = Some v \<and> v' = v\<lparr>Status := st\<rparr>"
      using u v by (cases "x = k") (auto simp: m1(2) intro!: exI [of _ st])
  qed
  moreover have "active_set m - set (k # ks) \<subseteq> active_set m'"
  proof -
    have "active_set m - {k} \<subseteq> active_set m1" by (auto simp: active_set_def m1(2))
    with IH(3) show ?thesis by auto
  qed
  moreover have "GetGovernanceView ns1 = GetGovernanceView ns" "height ns1 = height ns" "tx ns1 = tx ns"
    by (simp_all add: ns1_def store_simps)
  ultimately show ?case using IH by simp
qed

text \<open>The stored governance state: the current view with a well-formed pool.\<close>

definition gov_state :: "NativeService \<Rightarrow> GovernanceView \<Rightarrow> PeerPoolMap \<Rightarrow> bool" where
  "gov_state ns gv pool \<longleftrightarrow> GetGovernanceView ns = Inr gv \<and> GetPeerPoolMap ns (View gv) = Inr pool
     \<and> pool_ok pool \<and> small_pool pool \<and> length (tx_hash (tx ns)) = UINT256_SIZE"

definition enough_peers :: "NativeService \<Rightarrow> bool" where
  "enough_peers ns \<longleftrightarrow> (\<exists>gv pool. gov_state ns gv pool \<and> MIN_PEER_NUM \<le> num_active pool)"

lemma small_pool_canon:
  assumes "pool_ok m"
  shows "small_pool (pool_canon m) = small_pool m"
  unfolding small_pool_def
  by (simp only: sum_mset_sum_list [symmetric] mset_map mset_pool_canon [OF assms])

lemma gov_state_put:
  assumes "GetGovernanceView ns = Inr gv" "pool_ok m" "small_pool m" "length (tx_hash (tx ns)) = UINT256_SIZE"
  shows "gov_state (putPeerPoolMap m (View gv) ns) gv (pool_canon m)"
  using assms by (simp add: gov_state_def store_simps pool_ok_canon small_pool_canon)

lemma gov_state_notify: "gov_state (notify_node st ns) gv pool = gov_state ns gv pool"
  by (simp add: gov_state_def store_simps)

lemma CheckConsensusSigns_gov:
  assumes "CheckConsensusSigns env m i a ns = Inr (ok, ns')"
  shows "gov_state ns' gv pool = gov_state ns gv pool" "height ns' = height ns"
  using assms by (auto elim!: CheckConsensusSigns_Inr simp: gov_state_def Let_def store_simps)

lemma executeCommitDpos_gov:
  assumes "executeCommitDpos ns = Inr ns'" and "gov_state ns gv pool"
  shows "\<exists>gv'. gov_state ns' gv' (pool_canon (commit_peers pool))"
proof -
  have g: "GetGovernanceView ns = Inr gv" "GetPeerPoolMap ns (View gv) = Inr pool" "pool_ok pool" "small_pool pool"
    "length (tx_hash (tx ns)) = UINT256_SIZE" using assms(2) by (simp_all add: gov_state_def)
  from assms(1) g have h: "height ns \<noteq> gv_Height gv" by (auto simp: executeCommitDpos_def)
  have t: "tx ns' = tx ns" using assms(1) g h by (auto simp: executeCommitDpos_def Let_def store_simps)
  from executeCommitDpos_ok [OF g(1) h g(2-5)] assms(1) t g commit_peers_ok [OF g(3,4)] show ?thesis
    by (auto simp: gov_state_def pool_ok_canon small_pool_canon)
qed

lemma QuitNode_peers:
  assumes "QuitNode env ns = Inr (r, ns')" and "gov_state ns gv pool"
  shows "enough_peers ns'"
proof -
  have g: "GetGovernanceView ns = Inr gv" "GetPeerPoolMap ns (View gv) = Inr pool" "pool_ok pool" "small_pool pool"
    "length (tx_hash (tx ns)) = UINT256_SIZE" using assms(2) by (simp_all add: gov_state_def)
  from assms(1) obtain params where p: "parse_input PeerParam_Deserialization
      ''quitNode, contract params deserialize error'' ns = Inr params" unfolding QuitNode_def by blast
  with assms(1) g(1,2) obtain v where v: "map_of pool (pa_PeerPubkey params) = Some v"
    "\<not> num_active pool \<le> MIN_PEER_NUM"
    and ns': "ns' = notify_node [NStr (str ''quitNode''), NStr (pa_PeerPubkey params)]
      (putPeerPoolMap (AList.update (pa_PeerPubkey params) (v\<lparr>Status := QuitingStatus\<rparr>) pool) (View gv) ns)"
    unfolding QuitNode_def by (cases "map_of pool (pa_PeerPubkey params)")
      (simp_all add: GetView_def Let_def split: if_splits)
  define k m where "k = pa_PeerPubkey params" and "m = AList.update k (v\<lparr>Status := QuitingStatus\<rparr>) pool"
  have kv: "k = PeerPubkey v" using v g(3) by (auto simp: pool_ok_def k_def dest: map_of_SomeD)
  have keyed: "keyed m" using g(3) kv by (simp add: m_def keyed_update pool_ok_keyed)
  have map_m: "map_of m = (map_of pool)(k \<mapsto> v\<lparr>Status := QuitingStatus\<rparr>)" by (simp add: m_def update_conv')
  have "restatus pool m"
    using v(1) restatus_refl [of pool] by (auto simp: restatus_def map_m k_def)
  from pool_shrink [OF g(3,4) keyed this] have ok: "pool_ok m" "small_pool m" .
  have "active_set pool - {k} \<subseteq> active_set m" by (auto simp: active_set_def map_m)
  then have "card (active_set pool) - 1 \<le> card (active_set m)"
    using card_mono [OF finite_active_set] card_Diff_singleton_if [of "active_set pool" k]
    by (metis (no_types, opaque_lifting) diff_le_self le_trans)
  then have "MIN_PEER_NUM \<le> num_active (pool_canon m)"
    using v(2) ok(1) g(3) keyed by (simp add: num_active_canon num_active_card pool_ok_def keyed_def)
  moreover have "gov_state ns' gv (pool_canon m)"
    unfolding ns' gov_state_notify using gov_state_put [OF g(1) ok g(5)] by (simp add: m_def k_def)
  ultimately show ?thesis by (auto simp: enough_peers_def)
qed

lemma BlackNode_peers:
  assumes "BlackNode env ns = Inr (r, ns')" and "gov_state ns gv pool" and "MIN_PEER_NUM \<le> num_active pool"
  shows "enough_peers ns'"
proof -
  have g: "GetGovernanceView ns = Inr gv" "GetPeerPoolMap ns (View gv) = Inr pool" "pool_ok pool" "small_pool pool"
    "length (tx_hash (tx ns)) = UINT256_SIZE" using assms(2) by (simp_all add: gov_state_def)
  from assms(1) obtain params where p: "parse_input PeerListParam_Deserialization
      ''blackNode, contract params deserialize error'' ns = Inr params" unfolding BlackNode_def by blast
  define ks where "ks = PeerPubkeyList params"
  note run = assms(1) [unfolded BlackNode_def p ebind_Inr GetView_def g(1) g(2), folded ks_def]
  have lim: "\<not> num_active pool \<le> MIN_PEER_NUM + length ks - 1"
    using run by (simp add: g split: if_splits)
  obtain u where bc: "black_check pool ks = Inr u"
    using run lim by (cases "black_check pool ks") (simp_all add: g split: if_splits)
  obtain x where "CheckConsensusSigns env BLACK_NODE (concat ks) (pl_Address params) ns = Inr x"
    using run lim bc by (cases "CheckConsensusSigns env BLACK_NODE (concat ks) (pl_Address params) ns")
      (simp_all add: g split: if_splits)
  then obtain ok ns1 where sg: "CheckConsensusSigns env BLACK_NODE (concat ks) (pl_Address params) ns = Inr (ok, ns1)"
    by (cases x) simp
  have rest: "if ok then \<exists>c m ns2 ns3 st. black_peers ks False pool ns1 = Inr (c, m, ns2)
      \<and> (if c then executeCommitDpos (putPeerPoolMap m (View gv) ns2) else Inr (putPeerPoolMap m (View gv) ns2)) = Inr ns3
      \<and> ns' = notify_node st ns3 else ns' = ns1"
  proof (cases ok)
    case True
    with run lim bc sg obtain c m ns2 where b: "black_peers ks False pool ns1 = Inr (c, m, ns2)"
      by (cases "black_peers ks False pool ns1") (auto simp: g split: if_splits)
    from run lim bc sg b True show ?thesis
      by (auto simp: g Let_def split: if_splits)
  next
    case False
    with run lim bc sg show ?thesis by (simp add: g split: if_splits)
  qed
  have g1: "gov_state ns1 gv pool" using CheckConsensusSigns_gov [OF sg] assms(2) by simp
  show ?thesis
  proof (cases ok)
    case False
    with rest g1 assms(3) show ?thesis by (auto simp: enough_peers_def)
  next
    case True
    with rest obtain c m ns2 ns3 st where b: "black_peers ks False pool ns1 = Inr (c, m, ns2)"
      and c: "(if c then executeCommitDpos (putPeerPoolMap m (View gv) ns2) else Inr (putPeerPoolMap m (View gv) ns2)) = Inr ns3"
      and ns': "ns' = notify_node st ns3" by auto
    have keyed: "keyed pool" using g(3) by (simp add: pool_ok_keyed)
    note B = black_peers_spec [OF b keyed]
    with pool_shrink [OF g(3,4)] have ok: "pool_ok m" "small_pool m" by blast+
    have "card (active_set pool - set ks) \<le> card (active_set m)"
      using B by (intro card_mono finite_active_set) blast
    moreover have "card (active_set pool) - length ks \<le> card (active_set pool - set ks)"
      using diff_card_le_card_Diff [of "set ks" "active_set pool"] card_length [of ks] by simp
    ultimately have n: "MIN_PEER_NUM \<le> num_active m"
      using lim ok(1) g(3) by (simp add: num_active_card pool_ok_def)
    have s: "gov_state (putPeerPoolMap m (View gv) ns2) gv (pool_canon m)"
      using B g1 ok by (intro gov_state_put) (auto simp: gov_state_def)
    show ?thesis
    proof (cases c)
      case True
      with c have "executeCommitDpos (putPeerPoolMap m (View gv) ns2) = Inr ns3" by simp
      from executeCommitDpos_gov [OF this s] obtain gv' where
        "gov_state ns3 gv' (pool_canon (commit_peers (pool_canon m)))" by blast
      moreover have "MIN_PEER_NUM \<le> num_active (pool_canon (commit_peers (pool_canon m)))"
        using n ok by (simp add: num_active_canon num_active_commit commit_peers_ok pool_ok_canon small_pool_canon)
      ultimately show ?thesis unfolding ns' enough_peers_def gov_state_notify by blast
    next
      case False
      with c have "ns3 = putPeerPoolMap m (View gv) ns2" by simp
      with s n ok(1) show ?thesis
        unfolding ns' enough_peers_def gov_state_notify by (metis num_active_canon)
    qed
  qed
qed

lemma CommitDpos_peers:
  assumes "CommitDpos env ns = Inr (r, ns')" and "gov_state ns gv pool" and "MIN_PEER_NUM \<le> num_active pool"
  shows "enough_peers ns'"
proof -
  from assms(1) obtain ns1 st where e: "executeCommitDpos ns = Inr ns1" and ns': "ns' = notify_node st ns1"
    by (auto simp: CommitDpos_def split: if_splits)
  have ok: "pool_ok pool" "small_pool pool" using assms(2) by (simp_all add: gov_state_def)
  have "num_active (pool_canon (commit_peers pool)) = num_active pool"
    using ok by (simp add: num_active_canon num_active_commit commit_peers_ok)
  with executeCommitDpos_gov [OF e assms(2)] assms(3) show ?thesis
    unfolding ns' enough_peers_def gov_state_notify by metis
qed

lemma gov_state_frame:
  "gov_state (putConfig c ns) gv pool = gov_state ns gv pool"
  "gov_state (db_Put (nkey [PEER_APPLY, x]) b ns) gv pool = gov_state ns gv pool"
  "gov_state (db_Delete (nkey [PEER_APPLY, x]) ns) gv pool = gov_state ns gv pool"
  "gov_state (db_Delete (nkey [BLACK_LIST, x]) ns) gv pool = gov_state ns gv pool"
  by (simp_all add: gov_state_def store_simps) (simp add: putConfig_def store_simps)

lemma RegisterCandidate_frame:
  assumes "RegisterCandidate env ns = Inr (r, ns')"
  shows "gov_state ns' gv pool = gov_state ns gv pool"
  using assms by (auto simp: RegisterCandidate_def putPeerApply_def gov_state_notify gov_state_frame
      split: if_splits sum.splits option.splits)

lemma UnRegisterCandidate_frame:
  assumes "UnRegisterCandidate env ns = Inr (r, ns')"
  shows "gov_state ns' gv pool = gov_state ns gv pool"
  using assms by (auto simp: UnRegisterCandidate_def gov_state_notify gov_state_frame Let_def
      split: if_splits option.splits)

lemma WhiteNode_frame:
  assumes "WhiteNode env ns = Inr (r, ns')"
  shows "gov_state ns' gv pool = gov_state ns gv pool"
  using assms by (auto simp: WhiteNode_def gov_state_notify gov_state_frame CheckConsensusSigns_gov Let_def
      split: if_splits sum.splits option.splits)

lemma UpdateConfig_frame:
  assumes "UpdateConfig env ns = Inr (r, ns')"
  shows "gov_state ns' gv pool = gov_state ns gv pool"
  using assms by (auto simp: UpdateConfig_def gov_state_notify gov_state_frame Let_def split: if_splits)

lemma frame_peers:
  "RegisterCandidate env ns = Inr (r, ns') \<Longrightarrow> enough_peers ns \<Longrightarrow> enough_peers ns'"
  "UnRegisterCandidate env ns = Inr (r, ns') \<Longrightarrow> enough_peers ns \<Longrightarrow> enough_peers ns'"
  "WhiteNode env ns = Inr (r, ns') \<Longrightarrow> enough_peers ns \<Longrightarrow> enough_peers ns'"
  "UpdateConfig env ns = Inr (r, ns') \<Longrightarrow> enough_peers ns \<Longrightarrow> enough_peers ns'"
  by (simp_all add: enough_peers_def RegisterCandidate_frame UnRegisterCandidate_frame WhiteNode_frame
      UpdateConfig_frame)

section \<open>The black list\<close>

abbreviation black_listed :: "NativeService \<Rightarrow> bytes \<Rightarrow> bool" where
  "black_listed ns pfx \<equiv> \<exists>b. db_Get ns (nkey [BLACK_LIST, pfx]) = Inr (Some b)"

lemma black_frame [store_simps]:
  "db_Get (putPeerPoolMap m v ns) (nkey [BLACK_LIST, x]) = db_Get ns (nkey [BLACK_LIST, x])"
  "db_Get (putGovernanceView g ns) (nkey [BLACK_LIST, x]) = db_Get ns (nkey [BLACK_LIST, x])"
  "db_Get (notify_node st ns) (nkey [BLACK_LIST, x]) = db_Get ns (nkey [BLACK_LIST, x])"
  "db_Get (db_Delete (nkey [PEER_POOL, y]) ns) (nkey [BLACK_LIST, x]) = db_Get ns (nkey [BLACK_LIST, x])"
  by (simp_all add: node_puts store_simps key_simps)

lemma black_peers_keeps:
  "black_peers ks c m ns = Inr (c', m', ns') \<Longrightarrow> black_listed ns pfx \<Longrightarrow> black_listed ns' pfx"
proof (induction ks arbitrary: c m ns)
  case (Cons k ks)
  then show ?case
    by (auto simp: Let_def split: option.splits) (blast intro: Cons.IH | auto simp: store_simps intro: Cons.IH)+
qed simp

lemma black_peers_listed:
  "black_peers ks c m ns = Inr (c', m', ns') \<Longrightarrow> k \<in> set ks \<Longrightarrow> hex_DecodeString k = Some pfx \<Longrightarrow> black_listed ns' pfx"
proof (induction ks arbitrary: c m ns)
  case (Cons k0 ks)
  from Cons.prems(1) obtain p v c1 where p: "hex_DecodeString k0 = Some p" "map_of m k0 = Some v"
    and run: "black_peers ks c1 (AList.update k0 (v\<lparr>Status := BlackStatus\<rparr>) m)
      (db_Put (nkey [BLACK_LIST, p]) (GenRawStorageItem (BlackListItem_Serialization
        \<lparr>bl_PeerPubkey = PeerPubkey v, bl_Address = Address v\<rparr>)) ns) = Inr (c', m', ns')"
    by (auto simp: orelse_err_def Let_def split: option.splits)
  show ?case
  proof (cases "k \<in> set ks")
    case True
    from Cons.IH [OF run True Cons.prems(3)] show ?thesis .
  next
    case False
    with Cons.prems p have "p = pfx" by simp
    then show ?thesis by (intro black_peers_keeps [OF run]) (simp add: store_simps)
  qed
qed simp

lemma nkey_neq [key_simps]:
  "nkey [BLACK_LIST, x] \<noteq> nkey [PEER_POOL, y]" "nkey [PEER_POOL] \<noteq> nkey [PEER_INDEX, x]"
  by (simp_all add: key_simps)

lemma executeCommitDpos_black: "executeCommitDpos ns = Inr ns' \<Longrightarrow> black_listed ns' pfx = black_listed ns pfx"
  by (auto simp: executeCommitDpos_def Let_def store_simps nkey_neq split: if_splits)

lemma RegisterCandidate_black:
  assumes "black_listed ns pfx" and "parse_input RegisterPeerParam_Deserialization e ns = Inr params"
    and "hex_DecodeString (rp_PeerPubkey params) = Some pfx"
  shows "\<exists>e. RegisterCandidate env ns = Inl e"
proof -
  have "parse_input RegisterPeerParam_Deserialization e' ns = Inr params" for e'
    using assms(2) by (auto simp: parse_input_def orelse_err_def split: option.splits)
  with assms show ?thesis by (auto simp: RegisterCandidate_def)
qed

section \<open>Initialisation\<close>

lemma init_guard_frame [store_simps]:
  "db_Get (putPeerPoolMap m v ns) (nkey [PEER_POOL]) = db_Get ns (nkey [PEER_POOL])"
  "db_Get (putGovernanceView g ns) (nkey [PEER_POOL]) = db_Get ns (nkey [PEER_POOL])"
  "db_Get (putConfig c ns) (nkey [PEER_POOL]) = db_Get ns (nkey [PEER_POOL])"
  "db_Get (db_Put (nkey [CANDIDITE_INDEX]) b ns) (nkey [PEER_POOL]) = db_Get ns (nkey [PEER_POOL])"
  "db_Get (db_Put (nkey [PEER_INDEX, x]) b ns) (nkey [PEER_POOL]) = db_Get ns (nkey [PEER_POOL])"
proof -
  have "GetUint32Bytes v \<noteq> []" using length_GetUint32Bytes [of v] by (metis length_0_conv numeral_eq_Suc zero_neq_numeral)
  then show "db_Get (putPeerPoolMap m v ns) (nkey [PEER_POOL]) = db_Get ns (nkey [PEER_POOL])"
    by (simp add: putPeerPoolMap_def store_simps key_simps)
qed (simp_all add: node_puts store_simps key_simps)

lemma init_peers_ok:
  "init_peers env ps i m ns = Inr (i', m', ns') \<Longrightarrow>
   db_Get ns' (nkey [PEER_POOL]) = db_Get ns (nkey [PEER_POOL]) \<and> input ns' = input ns \<and>
   (\<forall>s j q. \<exists>j' q' s'. init_peers env ps j q s = Inr (j', q', s'))"
proof (induction ps arbitrary: i m ns)
  case (Cons p ps)
  then obtain a x where a: "AddressFromBase58 env (vp_Address p) = Some a" "hex_DecodeString (vp_PeerPubkey p) = Some x"
    by (auto simp: orelse_err_def Let_def split: option.splits)
  with Cons.prems obtain j q where
    "init_peers env ps j q (db_Put (nkey [PEER_INDEX, x]) (GenRawStorageItem (GetUint32Bytes (vp_Index p))) ns)
       = Inr (i', m', ns')" by (auto simp: Let_def)
  from Cons.IH [OF this] a show ?case by (simp add: Let_def store_simps nkey_neq)
qed simp

section \<open>Runs of the contract\<close>

text \<open>
  One transaction that calls a handler which admits no new peer, with any input, signatures and height.
\<close>

inductive node_step :: "Env \<Rightarrow> NativeService \<Rightarrow> NativeService \<Rightarrow> bool" for env where
  call: "h \<in> {RegisterCandidate env, UnRegisterCandidate env, BlackNode env, WhiteNode env, QuitNode env,
           CommitDpos env, UpdateConfig env} \<Longrightarrow>
         length (tx_hash t) = UINT256_SIZE \<Longrightarrow>
         h (ns\<lparr>input := i, tx := t, height := ht\<rparr>) = Inr (r, ns') \<Longrightarrow> node_step env ns ns'"

lemma gov_state_call:
  assumes "gov_state ns gv pool" and "length (tx_hash t) = UINT256_SIZE"
  shows "gov_state (ns\<lparr>input := i, tx := t, height := ht\<rparr>) gv pool"
proof -
  have "db_Get (ns\<lparr>input := i, tx := t, height := ht\<rparr>) k = db_Get ns k" for k by (simp add: db_Get_def)
  with assms show ?thesis
    by (simp add: gov_state_def GetGovernanceView_def GetPeerPoolMap_def load_item_def)
qed

lemma node_step_peers:
  assumes "node_step env ns ns'" and "enough_peers ns"
  shows "enough_peers ns'"
  using assms(1)
proof (cases rule: node_step.cases)
  case (call h t ht i r)
  from assms(2) obtain gv pool where g: "gov_state ns gv pool" "MIN_PEER_NUM \<le> num_active pool"
    by (auto simp: enough_peers_def)
  let ?ns = "ns\<lparr>input := i, tx := t, height := ht\<rparr>"
  have g': "gov_state ?ns gv pool" by (rule gov_state_call [OF g(1) call(2)])
  then have e: "enough_peers ?ns" using g(2) by (auto simp: enough_peers_def)
  from call(1) consider "h = RegisterCandidate env" | "h = UnRegisterCandidate env" | "h = BlackNode env"
    | "h = WhiteNode env" | "h = QuitNode env" | "h = CommitDpos env" | "h = UpdateConfig env" by blast
  then show ?thesis
    using call(3) e g' g(2)
    by cases (simp_all, (blast intro: frame_peers QuitNode_peers BlackNode_peers CommitDpos_peers)+)
qed

end
