(* ===== verification/Approval.thy ===== *)
theory Approval
  imports Node_Props
begin

text \<open>
  What the other governance contracts rely on when they ask the consensus peers for their consent: a call
  changes nothing but the collected signatures (and the notifications), and a handler that goes on only
  after a positive answer changes the contract's own records only with the quorum's consent.  The locale
  states the contract; it is interpreted on \<open>CheckConsensusSigns\<close>.
\<close>

lemma parse_any: "parse_input d e ns = Inr p \<Longrightarrow> parse_input d e' ns = Inr p"
  by (auto simp: parse_input_def orelse_err_def split: option.splits)

definition same_request :: "NativeService \<Rightarrow> NativeService \<Rightarrow> bool" where
  "same_request ns ns' \<longleftrightarrow> input ns' = input ns \<and> tx ns' = tx ns \<and> height ns' = height ns \<and> contexts ns' = contexts ns"

text \<open>The shape of the approving handlers: ask, stop without consent, go on with it.\<close>

definition approved :: "(bytes \<Rightarrow> bytes \<Rightarrow> address \<Rightarrow> NativeService \<Rightarrow> err + (bool \<times> NativeService)) \<Rightarrow>
    bytes \<Rightarrow> bytes \<Rightarrow> address \<Rightarrow> handler \<Rightarrow> handler" where
  "approved check m i a f ns = ebind (check m i a ns) (\<lambda>(ok, ns). if \<not> ok then Inr (BYTE_TRUE, ns) else f ns)"

locale approval =
  fixes check :: "bytes \<Rightarrow> bytes \<Rightarrow> address \<Rightarrow> NativeService \<Rightarrow> err + (bool \<times> NativeService)"
    and own :: "bytes \<Rightarrow> bool"
  assumes check_frame: "check m i a ns = Inr (ok, ns') \<Longrightarrow> \<not> own k \<Longrightarrow> db_Get ns' k = db_Get ns k"
    and check_request: "check m i a ns = Inr (ok, ns') \<Longrightarrow> same_request ns ns'"
begin

lemma approvedE:
  assumes "approved check m i a f ns = Inr (r, ns')"
  obtains (pending) "r = BYTE_TRUE" "check m i a ns = Inr (False, ns')" "\<And>k. \<not> own k \<Longrightarrow> db_Get ns' k = db_Get ns k"
  | (consent) ns1 where "check m i a ns = Inr (True, ns1)" "f ns1 = Inr (r, ns')" "same_request ns ns1"
      "\<And>k. \<not> own k \<Longrightarrow> db_Get ns1 k = db_Get ns k"
proof -
  from assms obtain ok ns1 where c: "check m i a ns = Inr (ok, ns1)"
    and r: "(if \<not> ok then Inr (BYTE_TRUE, ns1) else f ns1) = Inr (r, ns')"
    by (auto simp: approved_def)
  show thesis
  proof (cases ok)
    case True
    with c r check_frame [OF c] check_request [OF c] show thesis by (intro consent [of ns1]) simp_all
  next
    case False
    with c r check_frame [OF c] show thesis by (intro pending) simp_all
  qed
qed

text \<open>A record changes only with consent.\<close>

lemma change_needs_consent:
  assumes "approved check m i a f ns = Inr (r, ns')" and "\<not> own k" and "db_Get ns' k \<noteq> db_Get ns k"
  shows "\<exists>ns1. check m i a ns = Inr (True, ns1) \<and> f ns1 = Inr (r, ns')"
  using assms(1) by (cases rule: approvedE) (use assms in auto)

end

definition signs_key :: "bytes \<Rightarrow> bool" where
  "signs_key k \<longleftrightarrow> take 34 k = nkey [CONSENSUS_SIGNS]"

lemma nkey_eq: "nkey xs = replicate 19 0 @ 5 # concat xs"
proof -
  have "foldl (@) c xs = c @ concat xs" for c :: bytes by (induction xs arbitrary: c) simp_all
  then show ?thesis by (simp add: ConcatKey_def contract_address_def)
qed

lemma signs_key_sign: "signs_key (nkey [CONSENSUS_SIGNS, x])"
  by (simp add: signs_key_def nkey_eq numeral_eq_Suc)

lemma CheckConsensusSigns_frame:
  assumes "CheckConsensusSigns env m i a ns = Inr (ok, ns')"
  shows "\<not> signs_key k \<Longrightarrow> db_Get ns' k = db_Get ns k" and "same_request ns ns'"
proof -
  from assms show "\<not> signs_key k \<Longrightarrow> db_Get ns' k = db_Get ns k"
    by (rule CheckConsensusSigns_Inr)
      (auto simp: Let_def deleteConsensusSigns_def putConsensusSigns_def notify_node_def store_simps signs_key_sign
        split: if_splits)
  from assms show "same_request ns ns'"
    by (rule CheckConsensusSigns_Inr)
      (simp add: Let_def same_request_def deleteConsensusSigns_def putConsensusSigns_def notify_node_def store_simps)
qed

interpretation signs: approval "CheckConsensusSigns env" signs_key for env
  by unfold_locales (rule CheckConsensusSigns_frame; assumption)+

lemma signs_key_other:
  "n \<noteq> 5 \<Longrightarrow> \<not> signs_key (ConcatKey (contract_address n) xs)"
proof -
  have f: "foldl (@) c xs = c @ concat xs" for c :: bytes by (induction xs arbitrary: c) simp_all
  assume "n \<noteq> 5"
  moreover have "take 34 (ConcatKey (contract_address n) xs) ! 19 = n"
    by (simp add: ConcatKey_def f contract_address_def nth_append)
  moreover have "nkey [CONSENSUS_SIGNS] ! 19 = 5" by (simp add: nkey_eq nth_append)
  ultimately show ?thesis unfolding signs_key_def by metis
qed

end
