(* ===== verification/Sample_States.thy ===== *)
theory Sample_States
  imports Approval
begin

text \<open>
  Concrete states for the governance contracts: a small pool of peers at view 1, a consensus peer whose
  signature alone makes the quorum, and the calls it sends.  They show that the hypotheses of the properties hold.
\<close>

section \<open>The node manager\<close>

definition empty_service :: NativeService where
  "empty_service = \<lparr>cacheDB = \<lparr>cwrites = DAList.empty, cbelow = \<lambda>_. Inr None\<rparr>, chainID = 1, serviceMap = Map.empty, notifications = [], input = [],
     tx = sample_tx, height = 10, time = 0, blockHash = [], crossHashes = [], contexts = [], preExec = False\<rparr>"

definition sample_peer :: "bytes \<Rightarrow> bytes \<times> PeerPoolItem" where
  "sample_peer k = (k, \<lparr>Index = 1, PeerPubkey = k, Address = replicate 20 0, Status = ConsensusStatus\<rparr>)"

definition sample_view :: GovernanceView where
  "sample_view = \<lparr>View = 1, gv_Height = 3, gv_TxHash = replicate 32 0\<rparr>"

definition sample_service :: "PeerPoolMap \<Rightarrow> NativeService" where
  "sample_service pool = putGovernanceView sample_view (putPeerPoolMap pool 1 empty_service)"

definition pool1 :: PeerPoolMap where
  "pool1 = [sample_peer (str ''aa'')]"

definition pool5 :: PeerPoolMap where
  "pool5 = map sample_peer [str ''a5'', str ''a4'', str ''a3'', str ''a2'', str ''a1'']"

lemma pool1_ok: "pool_ok pool1" "small_pool pool1" "pool_canon pool1 = pool1"
  by (simp_all add: pool_ok_def small_pool_def pool_canon_def pool1_def sample_peer_def SliceStable_def
      PeerPoolItem_wf_def PeerPoolItem_Serialization_def Status_Serialization_def enc_uint8_def enc_uint32_def
      enc_varbytes_def enc_varuint_def size_defs)

lemma pool5_ok: "pool_ok pool5" "small_pool pool5"
  by (simp_all add: pool_ok_def small_pool_def pool5_def sample_peer_def key_simps
      PeerPoolItem_wf_def PeerPoolItem_Serialization_def Status_Serialization_def enc_uint8_def enc_uint32_def
      enc_varbytes_def enc_varuint_def size_defs)

lemma sample_state:
  assumes "pool_ok pool" "small_pool pool"
  shows "gov_state (sample_service pool) sample_view (pool_canon pool)"
  using assms by (simp add: gov_state_def sample_service_def sample_view_def store_simps pool_ok_canon small_pool_canon
      empty_service_def size_defs) (simp add: sample_tx_def)

lemma sample_gets:
  assumes "pool_ok pool" "small_pool pool"
  shows "GetGovernanceView (sample_service pool) = Inr sample_view"
    "GetPeerPoolMap (sample_service pool) 1 = Inr (pool_canon pool)"
    "getConsensusSigns (sample_service pool) k = Inr []"
    "height (sample_service pool) = 10" "length (tx_hash (tx (sample_service pool))) = UINT256_SIZE"
proof -
  show "getConsensusSigns (sample_service pool) k = Inr []"
    by (simp add: getConsensusSigns_def sample_service_def node_puts store_simps key_simps)
      (simp add: load_item_def db_Get_def empty_service_def)
  show "height (sample_service pool) = 10" by (simp add: sample_service_def store_simps empty_service_def)
qed (use sample_state [OF assms] in \<open>simp_all add: gov_state_def sample_view_def\<close>)

lemma str_aa: "hex_DecodeString (str ''aa'') = Some [0xAA]"
  by code_simp

lemma pool1_keys: "keys_decode plain_env pool1" "n_consensus pool1 = 1"
  "n_signed plain_env (insert (take 20 (sha256 [0xAA])) A) pool1 = 1"
  by (simp_all add: keys_decode_def n_consensus_def n_signed_def pool1_def sample_peer_def consensus_def signed_def
      signer_def str_aa plain_env_def AddressFromPubKey_def AddressFromVmCode_def)

lemma call_gets:
  "getConsensusSigns (ns\<lparr>input := i, tx := t, height := ht\<rparr>) k = getConsensusSigns ns k"
  by (simp add: getConsensusSigns_def load_item_def db_Get_def)

section \<open>Calls of the other contracts\<close>

lemma other_contract_gets:
  assumes "n \<noteq> 5"
  shows "GetGovernanceView (db_Put (ConcatKey (contract_address n) xs) v ns) = GetGovernanceView ns"
    "GetPeerPoolMap (db_Put (ConcatKey (contract_address n) xs) v ns) w = GetPeerPoolMap ns w"
    "getConsensusSigns (db_Put (ConcatKey (contract_address n) xs) v ns) k = getConsensusSigns ns k"
proof -
  have "ConcatKey (contract_address 5) ys \<noteq> ConcatKey (contract_address n) xs" for ys
    using assms by (simp add: key_simps)
  then show "GetGovernanceView (db_Put (ConcatKey (contract_address n) xs) v ns) = GetGovernanceView ns"
    "GetPeerPoolMap (db_Put (ConcatKey (contract_address n) xs) v ns) w = GetPeerPoolMap ns w"
    "getConsensusSigns (db_Put (ConcatKey (contract_address n) xs) v ns) k = getConsensusSigns ns k"
    by (simp_all add: GetGovernanceView_def GetPeerPoolMap_def getConsensusSigns_def
        store_simps)
qed

definition solo :: address where "solo = take 20 (sha256 [0xAA])"

lemma length_solo [simp]: "length solo = ADDR_LEN"
  by (simp add: solo_def size_defs)

text \<open>A call signed by \<open>solo\<close>, where the contract with the given number has some records.\<close>

definition solo_call :: "byte \<Rightarrow> (bytes list \<times> bytes) list \<Rightarrow> bytes \<Rightarrow> NativeService" where
  "solo_call n recs i = fold (\<lambda>(k, v). db_Put (ConcatKey (contract_address n) k) (GenRawStorageItem v)) recs
     ((sample_service pool1)\<lparr>input := i, tx := sample_tx\<lparr>SignedAddr := [solo]\<rparr>, height := 11\<rparr>)"

lemma solo_call_fields:
  "input (solo_call n recs i) = i" "tx (solo_call n recs i) = sample_tx\<lparr>SignedAddr := [solo]\<rparr>"
  "height (solo_call n recs i) = 11" "contexts (solo_call n recs i) = []"
proof -
  have "f (fold (\<lambda>(k, v). db_Put (ConcatKey (contract_address n) k) (GenRawStorageItem v)) recs ns) = f ns"
    if "\<And>k v ns. f (db_Put k v ns) = f ns" for f :: "NativeService \<Rightarrow> 'a" and ns
    by (induction recs arbitrary: ns) (auto simp: that split: prod.splits)
  from this [of input] this [of tx] this [of height] this [of contexts]
  show "input (solo_call n recs i) = i" "tx (solo_call n recs i) = sample_tx\<lparr>SignedAddr := [solo]\<rparr>"
    "height (solo_call n recs i) = 11" "contexts (solo_call n recs i) = []"
    by (simp_all add: solo_call_def store_simps) (simp add: sample_service_def node_puts store_simps empty_service_def)
qed

lemma solo_owner: "ValidateOwner env (solo_call n recs i) solo"
  by (simp add: ValidateOwner_def CheckWitness_def checkAccountAddress_def GetSignatureAddresses_def solo_call_fields)

lemma solo_call_gets:
  assumes "n \<noteq> 5"
  shows "GetGovernanceView (solo_call n recs i) = Inr sample_view"
    "GetPeerPoolMap (solo_call n recs i) 1 = Inr pool1" "getConsensusSigns (solo_call n recs i) k = Inr []"
proof -
  have "f (fold (\<lambda>(k, v). db_Put (ConcatKey (contract_address n) k) (GenRawStorageItem v)) recs ns) = f ns"
    if "\<And>xs v ns. f (db_Put (ConcatKey (contract_address n) xs) v ns) = f ns" for f :: "NativeService \<Rightarrow> 'a" and ns
    by (induction recs arbitrary: ns) (auto simp: that split: prod.splits)
  note drop = this [of GetGovernanceView] this [of "\<lambda>ns. GetPeerPoolMap ns 1"] this [of "\<lambda>ns. getConsensusSigns ns k"]
  have st: "gov_state ((sample_service pool1)\<lparr>input := i, tx := sample_tx\<lparr>SignedAddr := [solo]\<rparr>, height := 11\<rparr>)
      sample_view (pool_canon pool1)"
    by (rule gov_state_call [OF sample_state [OF pool1_ok(1,2)]]) (simp add: sample_tx_def size_defs)
  then show "GetGovernanceView (solo_call n recs i) = Inr sample_view"
    "GetPeerPoolMap (solo_call n recs i) 1 = Inr pool1"
    using drop other_contract_gets [OF assms]
    by (simp_all add: solo_call_def gov_state_def pool1_ok) (simp add: sample_view_def)
  show "getConsensusSigns (solo_call n recs i) k = Inr []"
    using drop other_contract_gets [OF assms] sample_gets(3) [OF pool1_ok(1,2)]
    by (simp add: solo_call_def call_gets)
qed

lemma solo_call_base:
  assumes "n \<noteq> 5"
  shows "db_Get ((sample_service pool)\<lparr>input := i, tx := t, height := h\<rparr>) (ConcatKey (contract_address n) xs) = Inr None"
proof -
  have "ConcatKey (contract_address n) xs \<noteq> ConcatKey (contract_address 5) ys" for ys
    using assms by (simp add: key_simps)
  then have "db_Get (sample_service pool) (ConcatKey (contract_address n) xs) = Inr None"
    by (simp add: sample_service_def node_puts store_simps)
      (simp add: db_Get_def empty_service_def)
  then show ?thesis by (simp add: db_Get_def)
qed

lemma solo_consent:
  assumes "n \<noteq> 5"
  obtains ns1 where "CheckConsensusSigns plain_env m arg solo (solo_call n recs i) = Inr (True, ns1)"
    "db_Get ns1 (ConcatKey (contract_address n) xs) = db_Get (solo_call n recs i) (ConcatKey (contract_address n) xs)"
proof -
  have p: "GetPeerPoolMap (solo_call n recs i) (View sample_view) = Inr pool1"
    using solo_call_gets(2) [OF assms] by (simp add: sample_view_def)
  obtain ns1 where c: "CheckConsensusSigns plain_env m arg solo (solo_call n recs i) = Inr (True, ns1)"
    using CheckConsensusSigns_eq [OF solo_call_gets(3) [OF assms] solo_call_gets(1) [OF assms] p pool1_keys(1)]
    by (simp add: Let_def pool1_keys solo_def)
  with that CheckConsensusSigns_frame(1) [OF c signs_key_other [OF assms]] show ?thesis by blast
qed

end
