(* ===== verification/Node_Claims.thy ===== *)
theory Node_Claims
  imports Sample_States
begin

text \<open>
  The properties of the node manager contract.
\<close>

section \<open>Properties\<close>

text \<open>
  C2 (functional): an approval call adds the caller to the collected signatures and reports success
  exactly when at least two thirds of the consensus peers of the current view have signed; on success
  the collected signatures are removed, otherwise they are stored with the caller added.
\<close>

theorem approval_quorum:
  assumes "getConsensusSigns ns (sha256 (meth @ inp)) = Inr signs" "signs_ok signs" "length signs < 2 ^ 49"
    and "GetGovernanceView ns = Inr gv" "GetPeerPoolMap ns (View gv) = Inr pool" "keys_decode env pool"
    and "length a = ADDR_LEN"
  defines "ok \<equiv> 2 * n_consensus pool \<le> 3 * n_signed env (insert a (fst ` set signs)) pool"
  shows "\<exists>ns'. CheckConsensusSigns env meth inp a ns = Inr (ok, ns') \<and>
    getConsensusSigns ns' (sha256 (meth @ inp)) = Inr (if ok then [] else signs_canon (AList.update a True signs))"
proof -
  have s: "signs_ok (AList.update a True signs)" "length (AList.update a True signs) \<le> Suc (length signs)"
    using assms by (auto intro: signs_ok_update)
  have "length (ConsensusSigns_Serialization (AList.update a True signs)) < 2 ^ 62"
    using length_signs_bytes [OF s(1)] s(2) assms(3) by simp
  with s(1) CheckConsensusSigns_eq [OF assms(1,4,5,6), of a] show ?thesis
    by (simp add: ok_def Let_def store_simps)
qed

theorem approval_quorum_witness:
  "\<exists>ns'. CheckConsensusSigns plain_env [1] [2] (take 20 (sha256 [0xAA])) (sample_service pool1) = Inr (True, ns')"
proof -
  note g = sample_gets [OF pool1_ok(1,2)]
  have p: "GetPeerPoolMap (sample_service pool1) (View sample_view) = Inr pool1"
    using g(2) pool1_ok(3) by (simp add: sample_view_def)
  have "signs_ok []" "length (take 20 (sha256 [0xAA])) = ADDR_LEN" by (simp_all add: signs_ok_def size_defs)
  from approval_quorum [where meth = "[1]" and inp = "[2]", OF g(3) this(1) _ g(1) p pool1_keys(1) this(2)]
  show ?thesis by (auto simp: pool1_keys)
qed

text \<open>
  C3 (safety): any two successful approvals under the same pool share signers that make up at least a
  third of the consensus peers, so with fewer faulty peers than that some honest peer signed both.
\<close>

theorem approvals_share_signers:
  assumes "CheckConsensusSigns env m1 i1 a1 s1 = Inr (True, s1')"
    and "CheckConsensusSigns env m2 i2 a2 s2 = Inr (True, s2')"
    and "getConsensusSigns s1 (sha256 (m1 @ i1)) = Inr g1" "getConsensusSigns s2 (sha256 (m2 @ i2)) = Inr g2"
    and "GetGovernanceView s1 = Inr gv1" "GetPeerPoolMap s1 (View gv1) = Inr pool"
    and "GetGovernanceView s2 = Inr gv2" "GetPeerPoolMap s2 (View gv2) = Inr pool"
  shows "n_consensus pool \<le> 3 * n_signed env (insert a1 (fst ` set g1) \<inter> insert a2 (fst ` set g2)) pool"
proof (rule quorum_overlap)
  show "2 * n_consensus pool \<le> 3 * n_signed env (insert a1 (fst ` set g1)) pool"
    by (rule CheckConsensusSigns_Inr [OF assms(1)]) (use assms in simp)
  show "2 * n_consensus pool \<le> 3 * n_signed env (insert a2 (fst ` set g2)) pool"
    by (rule CheckConsensusSigns_Inr [OF assms(2)]) (use assms in simp)
qed

theorem approvals_share_signers_witness:
  "n_consensus pool1 \<le> 3 * n_signed plain_env {take 20 (sha256 [0xAA])} pool1"
proof -
  note g = sample_gets [OF pool1_ok(1,2)]
  let ?a = "take 20 (sha256 [0xAA])"
  have p: "GetPeerPoolMap (sample_service pool1) (View sample_view) = Inr pool1"
    using g(2) pool1_ok(3) by (simp add: sample_view_def)
  have "\<exists>ns'. CheckConsensusSigns plain_env m i ?a (sample_service pool1) = Inr (True, ns')" for m i
    using CheckConsensusSigns_eq [OF g(3,1) p pool1_keys(1)] by (simp add: Let_def pool1_keys)
  then obtain s1 s2 where "CheckConsensusSigns plain_env [1] [2] ?a (sample_service pool1) = Inr (True, s1)"
    "CheckConsensusSigns plain_env [3] [4] ?a (sample_service pool1) = Inr (True, s2)" by metis
  from approvals_share_signers [OF this g(3) g(3) g(1) p g(1) p] show ?thesis by simp
qed

text \<open>
  C6 (equivalence): the order in which Go ranges over the peer map is irrelevant: for every reordering of
  the same pool the signature count has the same result and the pool is stored as the same bytes.
\<close>

theorem map_order_irrelevant:
  assumes "mset pool = mset pool'" and "pool_ok pool" and "keys_decode env pool"
  shows "count_signs env signs pool (0, 0) = count_signs env signs pool' (0, 0) \<and>
    PeerPoolMap_Serialization pool = PeerPoolMap_Serialization pool'"
  using counts_mset [OF assms(1)] PeerPoolMap_order_independent [OF assms(2,1)] assms(3)
  by (simp add: count_signs_spec)

theorem map_order_irrelevant_witness:
  "PeerPoolMap_Serialization pool5 = PeerPoolMap_Serialization (rev pool5)"
proof -
  have k: "keys_decode plain_env pool5"
  proof -
    have "hex_DecodeString (str ''a5'') = Some [0xA5]" "hex_DecodeString (str ''a4'') = Some [0xA4]"
      "hex_DecodeString (str ''a3'') = Some [0xA3]" "hex_DecodeString (str ''a2'') = Some [0xA2]"
      "hex_DecodeString (str ''a1'') = Some [0xA1]" by code_simp+
    then show ?thesis by (simp add: keys_decode_def pool5_def sample_peer_def signer_def plain_env_def)
  qed
  show ?thesis by (rule map_order_irrelevant [THEN conjunct2, OF _ pool5_ok(1) k]) (rule mset_rev [symmetric])
qed

text \<open>
  C4 (liveness): when peers sign one after the other, the collection ends without error and reports the
  quorum exactly when the signers, with those who had signed before, make up two thirds of the consensus
  peers; no signature is lost on the way.
\<close>

theorem signatures_collect:
  assumes "GetGovernanceView ns = Inr gv" "GetPeerPoolMap ns (View gv) = Inr pool" "keys_decode env pool"
    and "getConsensusSigns ns (sha256 (method @ inp)) = Inr signs" "signs_ok signs"
    and "length signs + length as < 2 ^ 50" "list_all (\<lambda>a. length a = ADDR_LEN) as" "as \<noteq> []"
  shows "\<exists>ok ns'. collect env method inp as ns = Inr (ok, ns') \<and>
    (ok \<longleftrightarrow> 2 * n_consensus pool \<le> 3 * n_signed env (set as \<union> fst ` set signs) pool)"
  using collect_spec [OF assms(1-6)] assms(7,8) by (simp add: list_all_iff)

theorem signatures_collect_witness:
  "\<exists>ns'. collect plain_env [1] [2] [replicate 20 0, take 20 (sha256 [0xAA])] (sample_service pool1) = Inr (True, ns')"
proof -
  note g = sample_gets [OF pool1_ok(1,2)]
  have p: "GetPeerPoolMap (sample_service pool1) (View sample_view) = Inr pool1"
    using g(2) pool1_ok(3) by (simp add: sample_view_def)
  have i: "{replicate 20 0, take 20 (sha256 [0xAA])} = insert (take 20 (sha256 [0xAA])) {replicate 20 0}" by blast
  from signatures_collect [OF g(1) p pool1_keys(1) g(3), of "[replicate 20 0, take 20 (sha256 [0xAA])]" "[1]" "[2]"]
  show ?thesis by (fastforce simp: signs_ok_def size_defs i pool1_keys simp del: collect.simps)
qed

text \<open>
  C5 (functional): the change of the view, refused twice in one block, moves to the next view with a pool
  in which the quitting and the black peers are gone and every candidate has become a consensus peer;
  the pool of the previous view is kept and the one before it deleted.
\<close>

theorem view_change:
  assumes "GetGovernanceView ns = Inr gv" "GetPeerPoolMap ns (View gv) = Inr pool" "pool_ok pool" "small_pool pool"
    and "length (tx_hash (tx ns)) = UINT256_SIZE"
  shows "if height ns = gv_Height gv
    then executeCommitDpos ns = Inl ''executeCommitDpos, can not do commitDpos twice in one block''
    else \<exists>ns' pool'. executeCommitDpos ns = Inr ns' \<and>
      GetGovernanceView ns' = Inr \<lparr>View = View gv + 1, gv_Height = height ns, gv_TxHash = tx_hash (tx ns)\<rparr> \<and>
      GetPeerPoolMap ns' (View gv + 1) = Inr pool' \<and>
      (\<forall>k. map_of pool' k = Option.bind (map_of pool k) (\<lambda>v.
         if Status v = QuitingStatus \<or> Status v = BlackStatus then None
         else Some (if active v then v\<lparr>Status := ConsensusStatus\<rparr> else v))) \<and>
      GetPeerPoolMap ns' (View gv) = Inr pool \<and>
      GetPeerPoolMap ns' (View gv - 1) = Inl ''getPeerPoolMap, peerPoolMap is nil''"
proof (cases "height ns = gv_Height gv")
  case True
  then show ?thesis using assms(1) by (simp add: executeCommitDpos_def)
next
  case False
  from executeCommitDpos_ok [OF assms(1) False assms(2-5)] obtain ns' where ns': "executeCommitDpos ns = Inr ns'"
    "GetGovernanceView ns' = Inr \<lparr>View = View gv + 1, gv_Height = height ns, gv_TxHash = tx_hash (tx ns)\<rparr>"
    "GetPeerPoolMap ns' (View gv + 1) = Inr (pool_canon (commit_peers pool))"
    "GetPeerPoolMap ns' (View gv) = Inr pool"
    "GetPeerPoolMap ns' (View gv - 1) = Inl ''getPeerPoolMap, peerPoolMap is nil''" by blast
  moreover have "map_of (pool_canon (commit_peers pool)) k = Option.bind (map_of pool k) committed" for k
    using commit_peers_map(1) [of pool k] assms(3)
    by (simp add: map_of_pool_canon [OF commit_peers_ok(1) [OF assms(3,4)]] pool_ok_keyed)
  ultimately show ?thesis using False by (simp add: committed_def [abs_def])
qed

theorem view_change_witness:
  "\<exists>ns'. executeCommitDpos (sample_service pool5) = Inr ns' \<and>
    GetGovernanceView ns' = Inr \<lparr>View = 2, gv_Height = 10, gv_TxHash = tx_hash sample_tx\<rparr>"
proof -
  note g = sample_gets [OF pool5_ok]
  have p: "GetPeerPoolMap (sample_service pool5) (View sample_view) = Inr (pool_canon pool5)"
    using g(2) by (simp add: sample_view_def)
  have t: "tx (sample_service pool5) = sample_tx" by (simp add: sample_service_def store_simps empty_service_def)
  have "gv_Height sample_view = 3" "View sample_view = 1" by (simp_all add: sample_view_def)
  with view_change [OF g(1) p pool_ok_canon [OF pool5_ok(1)] _ g(5)] pool5_ok g(4) show ?thesis
    by (auto simp: small_pool_canon t)
qed

text \<open>
  C1 (invariant): along every run of transactions to the handlers that admit no new peer, in any order and
  with any inputs, a stored pool with at least four active peers keeps at least four.
\<close>

theorem at_least_four_active:
  assumes "rtranclp (node_step env) ns ns'" and "enough_peers ns"
  shows "enough_peers ns'"
  using assms by (induction rule: rtranclp_induct) (auto intro: node_step_peers)

theorem at_least_four_active_witness:
  "\<exists>ns'. node_step plain_env (sample_service pool5) ns' \<and> enough_peers ns'"
proof -
  let ?i = "PeerParam_Serialization \<lparr>pa_PeerPubkey = str ''a1'', pa_Address = replicate 20 0\<rparr>"
  let ?t = "sample_tx\<lparr>SignedAddr := [replicate 20 0]\<rparr>"
  let ?s = "(sample_service pool5)\<lparr>input := ?i, tx := ?t, height := 11\<rparr>"
  have c: "pool_canon pool5 = pool5"
  proof -
    have "sort_desc PeerPubkey (map snd pool5) = map snd pool5" by (rule sort_desc_sorted) code_simp
    then show ?thesis by (simp add: pool_canon_def) (simp add: pool5_def sample_peer_def)
  qed
  have h: "length (tx_hash ?t) = UINT256_SIZE" by (simp add: sample_tx_def size_defs)
  have st: "gov_state ?s sample_view pool5"
    using gov_state_call [OF sample_state [OF pool5_ok] h] by (simp add: c)
  have n: "num_active pool5 = 5" by (simp add: num_active_filter pool5_def sample_peer_def active_def)
  have p: "parse_input PeerParam_Deserialization e ?s = Inr \<lparr>pa_PeerPubkey = str ''a1'', pa_Address = replicate 20 0\<rparr>" for e
    using rd_peerparam.decode_encode [of "\<lparr>pa_PeerPubkey = str ''a1'', pa_Address = replicate 20 0\<rparr>"]
    by (simp add: parse_input_def size_defs PeerParam_Serialization_def enc_varbytes_def enc_varuint_def)
  have o: "ValidateOwner plain_env ?s (replicate 20 0)"
    by (simp add: ValidateOwner_def CheckWitness_def checkAccountAddress_def GetSignatureAddresses_def)
  have v: "map_of pool5 (str ''a1'') = Some (snd (sample_peer (str ''a1'')))"
    by (simp add: pool5_def sample_peer_def key_simps)
  have "\<exists>ns'. QuitNode plain_env ?s = Inr (BYTE_TRUE, ns')"
    using st p o v n unfolding QuitNode_def
    by (simp add: gov_state_def GetView_def sample_peer_def Let_def)
  then obtain ns' where q: "QuitNode plain_env ?s = Inr (BYTE_TRUE, ns')" by blast
  have step: "node_step plain_env (sample_service pool5) ns'"
    by (rule node_step.call [where h = "QuitNode plain_env", OF _ h]) (simp, rule q)
  moreover have "enough_peers (sample_service pool5)"
    unfolding enough_peers_def using sample_state [OF pool5_ok] n
    by (intro exI [of _ sample_view] exI [of _ pool5]) (simp add: c)
  ultimately show ?thesis using at_least_four_active [OF r_into_rtranclp] by blast
qed

text \<open>
  C7 (safety): once \<open>BlackNode\<close> has blacked a peer with the quorum's consent, an application for that peer
  fails, however its key is spelled in hexadecimal, at whatever address.
\<close>

theorem blacked_peer_cannot_register:
  assumes "parse_input PeerListParam_Deserialization e ns = Inr params"
    and "CheckConsensusSigns env BLACK_NODE (concat (PeerPubkeyList params)) (pl_Address params) ns = Inr (True, ns1)"
    and "BlackNode env ns = Inr (r, ns')"
    and "k \<in> set (PeerPubkeyList params)" and "hex_DecodeString k = Some pfx"
    and "parse_input RegisterPeerParam_Deserialization e (ns'\<lparr>input := i, tx := t, height := ht\<rparr>) = Inr application"
    and "hex_DecodeString (rp_PeerPubkey application) = Some pfx"
  shows "\<exists>msg. RegisterCandidate env (ns'\<lparr>input := i, tx := t, height := ht\<rparr>) = Inl msg"
proof (rule RegisterCandidate_black [OF _ assms(6,7)])
  have p: "parse_input PeerListParam_Deserialization e' ns = Inr params" for e'
    using assms(1) by (auto simp: parse_input_def orelse_err_def split: option.splits)
  from assms(3) obtain c m ns2 ns3 st v pool where b: "black_peers (PeerPubkeyList params) False pool ns1 = Inr (c, m, ns2)"
    and x: "(if c then executeCommitDpos (putPeerPoolMap m v ns2) else Inr (putPeerPoolMap m v ns2)) = Inr ns3"
    and ns': "ns' = notify_node st ns3"
    by (auto simp: BlackNode_def p assms(2) Let_def split: if_splits)
  have "black_listed (putPeerPoolMap m v ns2) pfx"
    using black_peers_listed [OF b assms(4,5)] by (simp add: store_simps)
  with x have "black_listed ns3 pfx" by (cases c) (auto simp: executeCommitDpos_black)
  then show "black_listed (ns'\<lparr>input := i, tx := t, height := ht\<rparr>) pfx"
    by (simp add: ns' db_Get_def notify_node_def AddNotify_def)
qed

definition sample_candidate :: "bytes \<Rightarrow> bytes \<times> PeerPoolItem" where
  "sample_candidate k = (k, (snd (sample_peer k))\<lparr>Status := CandidateStatus\<rparr>)"

definition pool6 :: PeerPoolMap where
  "pool6 = sample_peer (str ''aa'') # map sample_candidate [str ''a5'', str ''a4'', str ''a3'', str ''a2'']"

lemma pool6_facts:
  "pool_ok pool6" "small_pool pool6" "keys_decode plain_env pool6" "n_consensus pool6 = 1"
  "n_signed plain_env (insert (take 20 (sha256 [0xAA])) A) pool6 = 1" "num_active pool6 = 5"
  "map_of pool6 (str ''a5'') = Some (snd (sample_candidate (str ''a5'')))"
  by (simp_all add: pool_ok_def small_pool_def pool6_def sample_peer_def sample_candidate_def key_simps
      PeerPoolItem_wf_def PeerPoolItem_Serialization_def Status_Serialization_def enc_uint8_def enc_uint32_def
      enc_varbytes_def enc_varuint_def size_defs keys_decode_def n_consensus_def n_signed_def consensus_def signed_def
      signer_def str_aa plain_env_def AddressFromPubKey_def AddressFromVmCode_def num_active_filter active_def)

definition black_param :: PeerListParam where
  "black_param = \<lparr>PeerPubkeyList = [str ''a5''], pl_Address = take 20 (sha256 [0xAA])\<rparr>"

definition black_call :: NativeService where
  "black_call = (sample_service pool6)\<lparr>input := PeerListParam_Serialization black_param,
     tx := sample_tx\<lparr>SignedAddr := [take 20 (sha256 [0xAA])]\<rparr>, height := 11\<rparr>"

lemma black_call_facts:
  "parse_input PeerListParam_Deserialization e black_call = Inr black_param"
  "ValidateOwner plain_env black_call (pl_Address black_param)"
  "gov_state black_call sample_view (pool_canon pool6)"
  "getConsensusSigns black_call k = Inr []"
proof -
  have "PeerListParam_wf black_param" by (simp add: PeerListParam_wf_def black_param_def size_defs)
  moreover have "fits (PeerListParam_Serialization black_param)"
    by (simp add: PeerListParam_Serialization_def black_param_def enc_varbytes_def enc_varuint_def)
  ultimately show "parse_input PeerListParam_Deserialization e black_call = Inr black_param"
    using rd_peerlist.decode_encode by (simp add: parse_input_def black_call_def)
  show "ValidateOwner plain_env black_call (pl_Address black_param)"
    by (simp add: ValidateOwner_def CheckWitness_def checkAccountAddress_def GetSignatureAddresses_def black_call_def
        black_param_def)
  have "length (tx_hash (sample_tx\<lparr>SignedAddr := [take 20 (sha256 [0xAA])]\<rparr>)) = UINT256_SIZE"
    by (simp add: sample_tx_def size_defs)
  from gov_state_call [OF sample_state [OF pool6_facts(1,2)] this]
  show "gov_state black_call sample_view (pool_canon pool6)" by (simp add: black_call_def)
  show "getConsensusSigns black_call k = Inr []"
    using sample_gets(3) [OF pool6_facts(1,2)] by (simp add: black_call_def call_gets)
qed

lemma black_call_runs:
  "\<exists>ns1 ns'. CheckConsensusSigns plain_env BLACK_NODE (concat (PeerPubkeyList black_param)) (pl_Address black_param)
      black_call = Inr (True, ns1) \<and> BlackNode plain_env black_call = Inr (BYTE_TRUE, ns')"
proof -
  have g: "GetGovernanceView black_call = Inr sample_view" "GetPeerPoolMap black_call (View sample_view) = Inr (pool_canon pool6)"
    using black_call_facts(3) by (simp_all add: gov_state_def)
  note c = counts_mset [OF mset_pool_canon [OF pool6_facts(1)]]
  have k: "keys_decode plain_env (pool_canon pool6)" using c(3) pool6_facts(3) by simp
  from CheckConsensusSigns_eq [OF black_call_facts(4) g k] obtain ns1 where
    s: "CheckConsensusSigns plain_env BLACK_NODE (concat (PeerPubkeyList black_param)) (pl_Address black_param)
      black_call = Inr (True, ns1)"
    by (simp add: black_param_def c pool6_facts Let_def)
  have hex: "hex_DecodeString (str ''a5'') = Some [0xA5]" by code_simp
  have "\<exists>ns'. BlackNode plain_env black_call = Inr (BYTE_TRUE, ns')"
    unfolding BlackNode_def
    using s by (simp add: black_call_facts g GetView_def num_active_canon pool6_facts)
      (simp add: black_param_def map_of_pool_canon pool6_facts hex sample_candidate_def Let_def)
  with s show ?thesis by blast
qed

theorem blacked_peer_cannot_register_witness:
  "\<exists>ns' msg. BlackNode plain_env black_call = Inr (BYTE_TRUE, ns') \<and>
    RegisterCandidate plain_env (ns'\<lparr>input := RegisterPeerParam_Serialization
      \<lparr>rp_PeerPubkey = str ''A5'', rp_Address = replicate 20 0\<rparr>, tx := sample_tx, height := 12\<rparr>) = Inl msg"
proof -
  from black_call_runs obtain ns1 ns' where r: "CheckConsensusSigns plain_env BLACK_NODE
      (concat (PeerPubkeyList black_param)) (pl_Address black_param) black_call = Inr (True, ns1)"
    "BlackNode plain_env black_call = Inr (BYTE_TRUE, ns')" by blast
  let ?a = "\<lparr>rp_PeerPubkey = str ''A5'', rp_Address = replicate 20 0\<rparr>"
  have "parse_input RegisterPeerParam_Deserialization []
      (ns'\<lparr>input := RegisterPeerParam_Serialization ?a, tx := sample_tx, height := 12\<rparr>) = Inr ?a"
    using rd_register.decode_encode [of ?a]
    by (simp add: parse_input_def size_defs RegisterPeerParam_wf_def RegisterPeerParam_Serialization_def enc_varbytes_def
        enc_varuint_def)
  moreover have "hex_DecodeString (str ''a5'') = Some [0xA5]" "hex_DecodeString (rp_PeerPubkey ?a) = Some [0xA5]"
    by code_simp+
  moreover have "str ''a5'' \<in> set (PeerPubkeyList black_param)" by (simp add: black_param_def)
  ultimately show ?thesis
    using blacked_peer_cannot_register [OF black_call_facts(1) r] r(2) by blast
qed

text \<open>
  C8 (error): the guard against a second \<open>initConfig\<close> never fires: it reads the pool under a key without
  the view that every write of the pool appends, so after a successful call the same call succeeds again.
\<close>

theorem init_config_runs_twice:
  assumes "InitConfig env ns = Inr (r, ns')"
  shows "\<exists>ns''. InitConfig env ns' = Inr (BYTE_TRUE, ns'')"
proof -
  from assms obtain cfg u i m ns1 where cfg: "parse_input (VBFTConfig_Deserialization env)
        ''initConfig, contract params deserialize error'' ns = Inr cfg"
    and nil: "db_Get ns (nkey [PEER_POOL]) = Inr None" and chk: "CheckVBFTConfig env cfg = Inr u"
    and ps: "init_peers env (Peers cfg) 0 [] ns = Inr (i, m, ns1)"
    by (auto simp: InitConfig_def split: sum.splits option.splits)
  with assms have ns': "db_Get ns' (nkey [PEER_POOL]) = db_Get ns1 (nkey [PEER_POOL])" "input ns' = input ns1"
    by (auto simp: InitConfig_def Let_def init_guard_frame) (simp_all add: node_puts store_simps)
  from init_peers_ok [OF ps] have ns1: "db_Get ns1 (nkey [PEER_POOL]) = Inr None" "input ns1 = input ns"
    and "\<exists>j' q' s'. init_peers env (Peers cfg) 0 [] ns' = Inr (j', q', s')" using nil by auto
  then obtain j q s where "init_peers env (Peers cfg) 0 [] ns' = Inr (j, q, s)" by blast
  moreover have "parse_input (VBFTConfig_Deserialization env)
        ''initConfig, contract params deserialize error'' ns' = Inr cfg"
    using cfg ns' ns1 by (simp add: parse_input_def)
  ultimately show ?thesis using ns' ns1 chk by (simp add: InitConfig_def Let_def)
qed

definition sample_config :: VBFTConfig where
  "sample_config = \<lparr>vc_BlockMsgDelay = 5000, vc_HashMsgDelay = 5000, vc_PeerHandshakeTimeout = 10,
     vc_MaxBlockChangeView = 10000, VrfValue = replicate 128 0, VrfProof = replicate 128 0, Peers = []\<rparr>"

theorem init_config_runs_twice_witness:
  "\<exists>ns' ns''. InitConfig plain_env (empty_service\<lparr>input := config_bytes plain_env sample_config\<rparr>) = Inr (BYTE_TRUE, ns')
     \<and> InitConfig plain_env ns' = Inr (BYTE_TRUE, ns'')"
proof -
  let ?s = "empty_service\<lparr>input := config_bytes plain_env sample_config\<rparr>"
  have "VBFTConfig_wf plain_env sample_config" by (simp add: VBFTConfig_wf_def sample_config_def)
  moreover have "fits (config_bytes plain_env sample_config)"
    by (simp add: config_bytes_def VBFTConfig_Serialization_def sample_config_def enc_varbytes_def enc_varuint_def
        enc_uint32_def)
  ultimately have "parse_input (VBFTConfig_Deserialization plain_env) e ?s = Inr sample_config" for e
    using rd_vbft.decode_encode by (simp add: parse_input_def)
  moreover have "db_Get ?s k = Inr None" for k by (simp add: db_Get_def empty_service_def)
  ultimately have "\<exists>ns'. InitConfig plain_env ?s = Inr (BYTE_TRUE, ns')"
    by (simp add: InitConfig_def CheckVBFTConfig_def sample_config_def Let_def)
  with init_config_runs_twice show ?thesis by blast
qed

end
