(* ===== verification/Relayer_Manager.thy ===== *)
theory Relayer_Manager
  imports Approval
begin

text \<open>
  The relayer manager contract (\<open>native/service/governance/relayer_manager\<close>): lists of relayer addresses
  are proposed for registration or removal under a running number, and take effect when the consensus
  peers have approved the number.
\<close>

section \<open>Parameters\<close>

record RelayerListParam =
  AddressList :: "address list"
  rl_Address :: address

definition RelayerListParam_Serialization :: "RelayerListParam \<Rightarrow> bytes" where
  "RelayerListParam_Serialization p =
     enc_varuint (of_nat (length (AddressList p))) @ concat (map enc_varbytes (AddressList p))
     @ enc_varbytes (rl_Address p)"

definition RelayerListParam_Deserialization :: "ZeroCopySource \<Rightarrow> (RelayerListParam \<times> ZeroCopySource) option" where
  "RelayerListParam_Deserialization src =
     do { (n, src) \<leftarrow> ok_read NextVarUint src;
          (addressList, src) \<leftarrow> read_list read_addr (unat n) src;
          (addr, src) \<leftarrow> read_addr src;
          Some (\<lparr>AddressList = addressList, rl_Address = addr\<rparr>, src) }"

definition RelayerListParam_wf :: "RelayerListParam \<Rightarrow> bool" where
  "RelayerListParam_wf p \<longleftrightarrow> length (AddressList p) < 2 ^ 62 \<and> (\<forall>a \<in> set (AddressList p). length a = ADDR_LEN)
     \<and> length (rl_Address p) = ADDR_LEN"

record ApproveRelayerParam =
  ar_ID :: uint64
  ar_Address :: address

definition ApproveRelayerParam_Serialization :: "ApproveRelayerParam \<Rightarrow> bytes" where
  "ApproveRelayerParam_Serialization p = enc_varuint (ar_ID p) @ enc_varbytes (ar_Address p)"

definition ApproveRelayerParam_Deserialization ::
  "ZeroCopySource \<Rightarrow> (ApproveRelayerParam \<times> ZeroCopySource) option" where
  "ApproveRelayerParam_Deserialization src =
     do { (ID, src) \<leftarrow> ok_read NextVarUint src;
          (addr, src) \<leftarrow> read_addr src;
          Some (\<lparr>ar_ID = ID, ar_Address = addr\<rparr>, src) }"

interpretation rd_approve_relayer: codec ApproveRelayerParam_Serialization ApproveRelayerParam_Deserialization
  "\<lambda>p. length (ar_Address p) = ADDR_LEN"
  unfolding ApproveRelayerParam_Deserialization_def [abs_def] ApproveRelayerParam_Serialization_def
  by unfold_locales (simp add: codec_simps, intro rd_rules)

section \<open>Accessors\<close>

abbreviation REGISTER_RELAYER :: bytes where "REGISTER_RELAYER \<equiv> str ''registerRelayer''"
abbreviation APPROVE_REGISTER_RELAYER :: bytes where "APPROVE_REGISTER_RELAYER \<equiv> str ''approveRegisterRelayer''"
abbreviation REMOVE_RELAYER :: bytes where "REMOVE_RELAYER \<equiv> str ''RemoveRelayer''"
abbreviation APPROVE_REMOVE_RELAYER :: bytes where "APPROVE_REMOVE_RELAYER \<equiv> str ''approveRemoveRelayer''"

abbreviation RELAYER :: bytes where "RELAYER \<equiv> str ''relayer''"
abbreviation RELAYER_APPLY :: bytes where "RELAYER_APPLY \<equiv> str ''relayerApply''"
abbreviation RELAYER_REMOVE :: bytes where "RELAYER_REMOVE \<equiv> str ''relayerRemove''"
abbreviation APPLY_ID :: bytes where "APPLY_ID \<equiv> str ''applyID''"
abbreviation REMOVE_ID :: bytes where "REMOVE_ID \<equiv> str ''removeID''"

abbreviation rkey :: "bytes list \<Rightarrow> bytes" where
  "rkey args \<equiv> ConcatKey RelayerManagerContractAddress args"

definition putRelayer :: "address \<Rightarrow> NativeService \<Rightarrow> NativeService" where
  "putRelayer relayer ns = db_Put (rkey [RELAYER, relayer]) (GenRawStorageItem relayer) ns"

text \<open>A running number: zero if it was never stored.\<close>

definition getApplyID :: "NativeService \<Rightarrow> err + uint64" where
  "getApplyID ns =
     ebind (load_item ''getApplyID, get applyIDStore error'' ''getApplyID, deserialize from raw storage item err''
         [] raw_value ns (rkey [APPLY_ID]))
       (\<lambda>applyIDBytes. Inr (case applyIDBytes of None \<Rightarrow> 0 | Some b \<Rightarrow> GetBytesUint64 b))"

definition putApplyID :: "uint64 \<Rightarrow> NativeService \<Rightarrow> NativeService" where
  "putApplyID applyID ns = db_Put (rkey [APPLY_ID]) (GenRawStorageItem (GetUint64Bytes applyID)) ns"

definition putRelayerApply :: "RelayerListParam \<Rightarrow> NativeService \<Rightarrow> err + NativeService" where
  "putRelayerApply relayerListParam ns =
     ebind (getApplyID ns) (\<lambda>applyID.
     let newApplyID = applyID + 1;
         ns = putApplyID newApplyID ns;
         ns = db_Put (rkey [RELAYER_APPLY, GetUint64Bytes applyID])
                (GenRawStorageItem (RelayerListParam_Serialization relayerListParam)) ns
     in Inr (AddNotify \<lparr>ContractAddress = NodeManagerContractAddress,
                        States = [NStr (str ''putRelayerApply''), NNum (uint applyID)]\<rparr> ns))"

text \<open>
  A list record whose bytes do not parse is read as the empty list: the error of \<open>Deserialization\<close> is
  discarded, and \<open>Deserialization\<close> sets the fields only at its end.
\<close>

definition lenient_list :: "ZeroCopySource \<Rightarrow> (RelayerListParam \<times> ZeroCopySource) option" where
  "lenient_list src =
     Some (case RelayerListParam_Deserialization src of
             None \<Rightarrow> (\<lparr>AddressList = [], rl_Address = ADDRESS_EMPTY\<rparr>, src)
           | Some r \<Rightarrow> r)"

definition getRelayerApply :: "NativeService \<Rightarrow> uint64 \<Rightarrow> err + RelayerListParam" where
  "getRelayerApply ns applyID =
     require ''getRelayerApply, can't find any record''
       (load_item ''getRelayerApply, get relayerListParamStore error''
          ''getRelayerApply, deserialize from raw storage item err'' [] lenient_list ns
          (rkey [RELAYER_APPLY, GetUint64Bytes applyID]))"

definition getRemoveID :: "NativeService \<Rightarrow> err + uint64" where
  "getRemoveID ns =
     ebind (load_item ''getRemoveID, get removeIDStore error'' ''getRemoveID, deserialize from raw storage item err''
         [] raw_value ns (rkey [REMOVE_ID]))
       (\<lambda>removeIDBytes. Inr (case removeIDBytes of None \<Rightarrow> 0 | Some b \<Rightarrow> GetBytesUint64 b))"

definition putRemoveID :: "uint64 \<Rightarrow> NativeService \<Rightarrow> NativeService" where
  "putRemoveID removeID ns = db_Put (rkey [REMOVE_ID]) (GenRawStorageItem (GetUint64Bytes removeID)) ns"

definition putRelayerRemove :: "RelayerListParam \<Rightarrow> NativeService \<Rightarrow> err + NativeService" where
  "putRelayerRemove relayerListParam ns =
     ebind (getRemoveID ns) (\<lambda>removeID.
     let newRemoveID = removeID + 1;
         ns = putRemoveID newRemoveID ns;
         ns = db_Put (rkey [RELAYER_REMOVE, GetUint64Bytes removeID])
                (GenRawStorageItem (RelayerListParam_Serialization relayerListParam)) ns
     in Inr (AddNotify \<lparr>ContractAddress = NodeManagerContractAddress,
                        States = [NStr (str ''putRelayerRemove''), NNum (uint removeID)]\<rparr> ns))"

definition getRelayerRemove :: "NativeService \<Rightarrow> uint64 \<Rightarrow> err + RelayerListParam" where
  "getRelayerRemove ns removeID =
     require ''getRelayerRemove, can't find any record''
       (load_item ''getRelayerRemove, get relayerListParamStore error''
          ''getRelayerRemove, deserialize from raw storage item err'' [] lenient_list ns
          (rkey [RELAYER_REMOVE, GetUint64Bytes removeID]))"

section \<open>Handlers\<close>

definition notify_relayer :: "nval list \<Rightarrow> NativeService \<Rightarrow> NativeService" where
  "notify_relayer st ns = AddNotify \<lparr>ContractAddress = RelayerManagerContractAddress, States = st\<rparr> ns"

definition RegisterRelayer :: "Env \<Rightarrow> handler" where
  "RegisterRelayer env ns =
     ebind (parse_input RelayerListParam_Deserialization ''RegisterRelayer, contract params deserialize error'' ns)
       (\<lambda>params.
     if \<not> ValidateOwner env ns (rl_Address params) then Inl ''RegisterRelayer, checkWitness''
     else ebind (putRelayerApply params ns) (\<lambda>ns. Inr (BYTE_TRUE, ns)))"

definition ApproveRegisterRelayer :: "Env \<Rightarrow> handler" where
  "ApproveRegisterRelayer env ns =
     ebind (parse_input ApproveRelayerParam_Deserialization
         ''ApproveRegisterRelayer, contract params deserialize error'' ns) (\<lambda>params.
     if \<not> ValidateOwner env ns (ar_Address params) then Inl ''ApproveRegisterRelayer, checkWitness error''
     else
     ebind (getRelayerApply ns (ar_ID params)) (\<lambda>relayerListParam.
     approved (CheckConsensusSigns env) APPROVE_REGISTER_RELAYER (GetUint64Bytes (ar_ID params)) (ar_Address params)
       (\<lambda>ns.
     let ns = fold putRelayer (AddressList relayerListParam) ns;
         ns = db_Delete (rkey [RELAYER_APPLY, GetUint64Bytes (ar_ID params)]) ns
     in Inr (BYTE_TRUE, notify_relayer [NStr (str ''ApproveRegisterRelayer''), NNum (uint (ar_ID params))] ns)) ns))"

definition RemoveRelayer :: "Env \<Rightarrow> handler" where
  "RemoveRelayer env ns =
     ebind (parse_input RelayerListParam_Deserialization ''RemoveRelayer, contract params deserialize error'' ns)
       (\<lambda>params.
     if \<not> ValidateOwner env ns (rl_Address params) then Inl ''RemoveRelayer, checkWitness''
     else ebind (putRelayerRemove params ns) (\<lambda>ns. Inr (BYTE_TRUE, ns)))"

definition ApproveRemoveRelayer :: "Env \<Rightarrow> handler" where
  "ApproveRemoveRelayer env ns =
     ebind (parse_input ApproveRelayerParam_Deserialization
         ''ApproveRemoveRelayer, contract params deserialize error'' ns) (\<lambda>params.
     if \<not> ValidateOwner env ns (ar_Address params) then Inl ''ApproveRemoveRelayer, checkWitness error''
     else
     ebind (getRelayerRemove ns (ar_ID params)) (\<lambda>relayerListParam.
     approved (CheckConsensusSigns env) APPROVE_REMOVE_RELAYER (GetUint64Bytes (ar_ID params)) (ar_Address params)
       (\<lambda>ns.
     let ns = fold (\<lambda>address. db_Delete (rkey [RELAYER, address])) (AddressList relayerListParam) ns
     in Inr (BYTE_TRUE, notify_relayer [NStr (str ''ApproveRemoveRelayer''), NNum (uint (ar_ID params))] ns)) ns))"

definition RegisterRelayerManagerContract :: "Env \<Rightarrow> (bytes \<times> handler) list" where
  "RegisterRelayerManagerContract env =
     [(REGISTER_RELAYER, RegisterRelayer env), (APPROVE_REGISTER_RELAYER, ApproveRegisterRelayer env),
      (REMOVE_RELAYER, RemoveRelayer env), (APPROVE_REMOVE_RELAYER, ApproveRemoveRelayer env)]"

section \<open>Records\<close>

interpretation rd_relayers: codec RelayerListParam_Serialization RelayerListParam_Deserialization RelayerListParam_wf
proof
  fix x pre rest assume wf: "RelayerListParam_wf x" and fit: "fits (pre @ RelayerListParam_Serialization x @ rest)"
  have w: "\<forall>a \<in> set (AddressList x). length a = ADDR_LEN"
    and l: "unat (of_nat (length (AddressList x)) :: uint64) = length (AddressList x)"
    using wf by (simp_all add: RelayerListParam_wf_def unat_of_nat)
  show "RelayerListParam_Deserialization (src_at pre (RelayerListParam_Serialization x @ rest))
      = Some (x, src_at (pre @ RelayerListParam_Serialization x) rest)"
    using fit wf rd_addr.list_roundtrip [OF w]
    by (simp add: RelayerListParam_Deserialization_def RelayerListParam_Serialization_def RelayerListParam_wf_def
        codec_simps l)
next
  show "rd_local RelayerListParam_Deserialization"
    unfolding RelayerListParam_Deserialization_def [abs_def] by (intro rd_rules)
qed

lemma lenient_load:
  assumes "RelayerListParam_wf p" and "length (RelayerListParam_Serialization p) < 2 ^ 62"
  shows "load_item e1 e2 e3 lenient_list (db_Put key (GenRawStorageItem (RelayerListParam_Serialization p)) ns) key
    = Inr (Some p)"
  using rd_relayers.decode_encode [OF assms(1)] assms(2)
  by (simp add: load_item_def lenient_list_def store_simps)

lemma length_list_bytes:
  assumes "RelayerListParam_wf p"
  shows "length (RelayerListParam_Serialization p) \<le> 30 + 21 * length (AddressList p)"
proof -
  have "length (concat (map enc_varbytes as)) = 21 * length as" if "\<forall>a \<in> set as. length a = ADDR_LEN" for as
    using that by (induction as) (auto simp: enc_varbytes_def enc_varuint_def size_defs)
  then show ?thesis
    using assms by (simp add: RelayerListParam_wf_def RelayerListParam_Serialization_def enc_varbytes_def
        enc_varuint_def size_defs)
qed

subsection \<open>Frames\<close>

lemma rkey_relayer:
  "length a = ADDR_LEN \<Longrightarrow> rkey [RELAYER, a] \<noteq> rkey [RELAYER_APPLY, GetUint64Bytes i]"
  "length a = ADDR_LEN \<Longrightarrow> rkey [RELAYER, a] \<noteq> rkey [RELAYER_REMOVE, GetUint64Bytes i]"
  "length a = ADDR_LEN \<Longrightarrow> rkey [RELAYER, a] \<noteq> rkey [APPLY_ID]"
  "length a = ADDR_LEN \<Longrightarrow> rkey [RELAYER, a] \<noteq> rkey [REMOVE_ID]"
proof -
  assume a: "length a = ADDR_LEN"
  have "a \<noteq> str ''Apply'' @ GetUint64Bytes i" "a \<noteq> str ''Remove'' @ GetUint64Bytes i"
    using a by (auto simp: size_defs str_def)
  then show "rkey [RELAYER, a] \<noteq> rkey [RELAYER_APPLY, GetUint64Bytes i]"
    "rkey [RELAYER, a] \<noteq> rkey [RELAYER_REMOVE, GetUint64Bytes i]"
    "rkey [RELAYER, a] \<noteq> rkey [APPLY_ID]" "rkey [RELAYER, a] \<noteq> rkey [REMOVE_ID]"
    by (simp_all add: key_simps)
qed

lemma rkey_other:
  "rkey [RELAYER_APPLY, GetUint64Bytes i] \<noteq> rkey [APPLY_ID]"
  "rkey [RELAYER_REMOVE, GetUint64Bytes i] \<noteq> rkey [REMOVE_ID]"
  "rkey [RELAYER_APPLY, GetUint64Bytes i] = rkey [RELAYER_APPLY, GetUint64Bytes j] \<longleftrightarrow> i = j"
  "rkey [RELAYER_REMOVE, GetUint64Bytes i] = rkey [RELAYER_REMOVE, GetUint64Bytes j] \<longleftrightarrow> i = j"
  "rkey [RELAYER, a] = rkey [RELAYER, b] \<longleftrightarrow> a = b"
  by (simp_all add: key_simps)

lemma rkey_not_sign: "\<not> signs_key (rkey xs)"
  by (rule signs_key_other) simp

lemma get_putRelayers:
  "db_Get (fold putRelayer as ns) (rkey [RELAYER, a])
    = (if a \<in> set as then Inr (Some (GenRawStorageItem a)) else db_Get ns (rkey [RELAYER, a]))"
  by (induction as arbitrary: ns) (auto simp: putRelayer_def store_simps rkey_other)

lemma get_deleteRelayers:
  "db_Get (fold (\<lambda>a. db_Delete (rkey [RELAYER, a])) as ns) (rkey [RELAYER, a])
    = (if a \<in> set as then Inr None else db_Get ns (rkey [RELAYER, a]))"
  by (induction as arbitrary: ns) (auto simp: store_simps rkey_other)

lemma get_fold_other:
  assumes "\<forall>a \<in> set as. k \<noteq> rkey [RELAYER, a]"
  shows "db_Get (fold putRelayer as ns) k = db_Get ns k"
    "db_Get (fold (\<lambda>a. db_Delete (rkey [RELAYER, a])) as ns) k = db_Get ns k"
  using assms by (induction as arbitrary: ns) (auto simp: putRelayer_def store_simps)

lemma proposals_keep_relayers:
  assumes "length a = ADDR_LEN"
  shows "putRelayerApply p ns = Inr ns' \<Longrightarrow> db_Get ns' (rkey [RELAYER, a]) = db_Get ns (rkey [RELAYER, a])"
    "putRelayerRemove p ns = Inr ns' \<Longrightarrow> db_Get ns' (rkey [RELAYER, a]) = db_Get ns (rkey [RELAYER, a])"
  by (auto simp: putRelayerApply_def putRelayerRemove_def putApplyID_def putRemoveID_def Let_def store_simps
      rkey_relayer [OF assms])

text \<open>Every stored list holds addresses only.\<close>

lemma list_addresses: "lenient_list src = Some (p, src') \<Longrightarrow> \<forall>a \<in> set (AddressList p). length a = ADDR_LEN"
proof -
  have rd: "length a = ADDR_LEN" if "read_addr s = Some (a, s')" for a s s'
    using that by (auto simp: read_addr_def AddressParseFromBytes_def split: if_splits bind_splits)
  have "\<forall>a \<in> set as. length a = ADDR_LEN" if "read_list read_addr n s = Some (as, s')" for n s as s'
    using that by (induction n arbitrary: s as s') (auto simp: rd split: bind_splits)
  then show "lenient_list src = Some (p, src') \<Longrightarrow> ?thesis"
    by (auto simp: lenient_list_def RelayerListParam_Deserialization_def split: option.splits bind_splits)
qed

end
