(* ===== verification/Relayer_Claims.thy ===== *)
theory Relayer_Claims
  imports Relayer_Manager Sample_States
begin

text \<open>
  The properties of the relayer manager contract.
\<close>

section \<open>Approving handlers\<close>

lemma ApproveRegisterRelayer_Inr:
  assumes "ApproveRegisterRelayer env ns = Inr (r, ns')"
  obtains (pending) "\<And>a. db_Get ns' (rkey [RELAYER, a]) = db_Get ns (rkey [RELAYER, a])"
  | (consent) params p ns1 where "parse_input ApproveRelayerParam_Deserialization [] ns = Inr params"
    "ValidateOwner env ns (ar_Address params)" "getRelayerApply ns (ar_ID params) = Inr p"
    "CheckConsensusSigns env APPROVE_REGISTER_RELAYER (GetUint64Bytes (ar_ID params)) (ar_Address params) ns = Inr (True, ns1)"
    "\<And>a. length a = ADDR_LEN \<Longrightarrow> db_Get ns' (rkey [RELAYER, a])
      = (if a \<in> set (AddressList p) then Inr (Some (GenRawStorageItem a)) else db_Get ns (rkey [RELAYER, a]))"
    "db_Get ns' (rkey [RELAYER_APPLY, GetUint64Bytes (ar_ID params)]) = Inr None"
proof -
  from assms obtain params p where p: "parse_input ApproveRelayerParam_Deserialization
      ''ApproveRegisterRelayer, contract params deserialize error'' ns = Inr params"
    "ValidateOwner env ns (ar_Address params)" "getRelayerApply ns (ar_ID params) = Inr p"
    and h: "approved (CheckConsensusSigns env) APPROVE_REGISTER_RELAYER (GetUint64Bytes (ar_ID params))
      (ar_Address params) (\<lambda>ns. let ns = fold putRelayer (AddressList p) ns;
         ns = db_Delete (rkey [RELAYER_APPLY, GetUint64Bytes (ar_ID params)]) ns
       in Inr (BYTE_TRUE, notify_relayer [NStr (str ''ApproveRegisterRelayer''), NNum (uint (ar_ID params))] ns)) ns
      = Inr (r, ns')"
    by (auto simp: ApproveRegisterRelayer_def split: if_splits)
  from h show thesis
  proof (cases rule: signs.approvedE)
    case pending
    then show thesis by (intro that(1)) (simp add: rkey_not_sign)
  next
    case (consent ns1)
    then show thesis
      by (intro that(2) [OF parse_any [OF p(1)] p(2,3)])
        (auto simp: Let_def notify_relayer_def store_simps rkey_relayer get_putRelayers rkey_not_sign)
  qed
qed

lemma ApproveRemoveRelayer_Inr:
  assumes "ApproveRemoveRelayer env ns = Inr (r, ns')"
  obtains (pending) "\<And>k. \<not> signs_key k \<Longrightarrow> db_Get ns' k = db_Get ns k"
  | (consent) params p ns1 where "parse_input ApproveRelayerParam_Deserialization [] ns = Inr params"
    "ValidateOwner env ns (ar_Address params)" "getRelayerRemove ns (ar_ID params) = Inr p"
    "CheckConsensusSigns env APPROVE_REMOVE_RELAYER (GetUint64Bytes (ar_ID params)) (ar_Address params) ns = Inr (True, ns1)"
    "\<And>a. db_Get ns' (rkey [RELAYER, a]) = (if a \<in> set (AddressList p) then Inr None else db_Get ns (rkey [RELAYER, a]))"
    "\<And>k. \<not> signs_key k \<Longrightarrow> \<forall>a \<in> set (AddressList p). k \<noteq> rkey [RELAYER, a] \<Longrightarrow> db_Get ns' k = db_Get ns k"
proof -
  from assms obtain params p where p: "parse_input ApproveRelayerParam_Deserialization
      ''ApproveRemoveRelayer, contract params deserialize error'' ns = Inr params"
    "ValidateOwner env ns (ar_Address params)" "getRelayerRemove ns (ar_ID params) = Inr p"
    and h: "approved (CheckConsensusSigns env) APPROVE_REMOVE_RELAYER (GetUint64Bytes (ar_ID params))
      (ar_Address params) (\<lambda>ns. let ns = fold (\<lambda>address. db_Delete (rkey [RELAYER, address])) (AddressList p) ns
       in Inr (BYTE_TRUE, notify_relayer [NStr (str ''ApproveRemoveRelayer''), NNum (uint (ar_ID params))] ns)) ns
      = Inr (r, ns')"
    by (auto simp: ApproveRemoveRelayer_def split: if_splits)
  from h show thesis
  proof (cases rule: signs.approvedE)
    case pending
    then show thesis by (intro that(1)) simp
  next
    case (consent ns1)
    then show thesis
      by (intro that(2) [OF parse_any [OF p(1)] p(2,3)])
        (auto simp: Let_def notify_relayer_def store_simps get_deleteRelayers get_fold_other rkey_not_sign)
  qed
qed

section \<open>Properties\<close>

text \<open>
  C15 (safety): no handler of the relayer manager changes the registration of a relayer unless the
  consensus peers have just approved a stored proposal that names the relayer.
\<close>

theorem relayer_change_needs_quorum:
  assumes "(m, h) \<in> set (RegisterRelayerManagerContract env)" and "h ns = Inr (r, ns')" and "length a = ADDR_LEN"
    and "db_Get ns' (rkey [RELAYER, a]) \<noteq> db_Get ns (rkey [RELAYER, a])"
  shows "\<exists>i c p ns1. ValidateOwner env ns c \<and> a \<in> set (AddressList p) \<and>
    CheckConsensusSigns env m (GetUint64Bytes i) c ns = Inr (True, ns1) \<and>
    (m = APPROVE_REGISTER_RELAYER \<and> getRelayerApply ns i = Inr p \<and>
       db_Get ns' (rkey [RELAYER, a]) = Inr (Some (GenRawStorageItem a)) \<or>
     m = APPROVE_REMOVE_RELAYER \<and> getRelayerRemove ns i = Inr p \<and> db_Get ns' (rkey [RELAYER, a]) = Inr None)"
proof -
  from assms(1) consider "h = RegisterRelayer env" | "h = RemoveRelayer env"
    | "m = APPROVE_REGISTER_RELAYER" "h = ApproveRegisterRelayer env"
    | "m = APPROVE_REMOVE_RELAYER" "h = ApproveRemoveRelayer env"
    by (auto simp: RegisterRelayerManagerContract_def)
  then show ?thesis
  proof cases
    case 1
    with assms show ?thesis
      by (auto simp: RegisterRelayer_def dest: proposals_keep_relayers(1) [OF assms(3)] split: if_splits)
  next
    case 2
    with assms show ?thesis
      by (auto simp: RemoveRelayer_def dest: proposals_keep_relayers(2) [OF assms(3)] split: if_splits)
  next
    case 3
    with assms(2) have "ApproveRegisterRelayer env ns = Inr (r, ns')" by simp
    then show ?thesis
      by (cases rule: ApproveRegisterRelayer_Inr) (use assms(3,4) 3(1) in \<open>auto split: if_splits\<close>)
  next
    case 4
    with assms(2) have "ApproveRemoveRelayer env ns = Inr (r, ns')" by simp
    then show ?thesis
      by (cases rule: ApproveRemoveRelayer_Inr) (use assms(4) 4(1) rkey_not_sign in \<open>auto split: if_splits\<close>)
  qed
qed

definition sample_relayers :: RelayerListParam where
  "sample_relayers = \<lparr>AddressList = [replicate 20 7], rl_Address = solo\<rparr>"

definition relayer_call :: NativeService where
  "relayer_call = solo_call 6 [([RELAYER_APPLY, GetUint64Bytes 0], RelayerListParam_Serialization sample_relayers)]
     (ApproveRelayerParam_Serialization \<lparr>ar_ID = 0, ar_Address = solo\<rparr>)"

lemma relayer_call_facts:
  "parse_input ApproveRelayerParam_Deserialization e relayer_call = Inr \<lparr>ar_ID = 0, ar_Address = solo\<rparr>"
  "getRelayerApply relayer_call 0 = Inr sample_relayers" "db_Get relayer_call (rkey [RELAYER, replicate 20 7]) = Inr None"
proof -
  show "parse_input ApproveRelayerParam_Deserialization e relayer_call = Inr \<lparr>ar_ID = 0, ar_Address = solo\<rparr>"
    using rd_approve_relayer.decode_encode [of "\<lparr>ar_ID = 0, ar_Address = solo\<rparr>"]
    by (simp add: parse_input_def relayer_call_def solo_call_fields ApproveRelayerParam_Serialization_def
        enc_varbytes_def enc_varuint_def size_defs)
  have wf: "RelayerListParam_wf sample_relayers" by (simp add: RelayerListParam_wf_def sample_relayers_def size_defs)
  moreover have "length (RelayerListParam_Serialization sample_relayers) < 2 ^ 62"
    using length_list_bytes [OF wf] by (simp add: sample_relayers_def)
  ultimately show "getRelayerApply relayer_call 0 = Inr sample_relayers"
    by (simp add: getRelayerApply_def relayer_call_def solo_call_def lenient_load)
  have "rkey [RELAYER, replicate 20 7] \<noteq> rkey [RELAYER_APPLY, GetUint64Bytes 0]"
    by (rule rkey_relayer) (simp add: size_defs)
  then show "db_Get relayer_call (rkey [RELAYER, replicate 20 7]) = Inr None"
    by (simp add: relayer_call_def solo_call_def store_simps solo_call_base)
qed

lemma relayer_call_runs:
  obtains ns' where "ApproveRegisterRelayer plain_env relayer_call = Inr (BYTE_TRUE, ns')"
    "db_Get ns' (rkey [RELAYER, replicate 20 7]) = Inr (Some (GenRawStorageItem (replicate 20 7)))"
proof -
  obtain ns1 where c: "CheckConsensusSigns plain_env APPROVE_REGISTER_RELAYER (GetUint64Bytes 0) solo relayer_call
      = Inr (True, ns1)"
    unfolding relayer_call_def by (rule solo_consent [of 6]) simp_all
  have o: "ValidateOwner plain_env relayer_call solo" unfolding relayer_call_def by (rule solo_owner)
  have "rkey [RELAYER, replicate 20 7] \<noteq> rkey [RELAYER_APPLY, GetUint64Bytes 0]"
    by (rule rkey_relayer) (simp add: size_defs)
  with that show ?thesis
    by (simp add: ApproveRegisterRelayer_def relayer_call_facts o approved_def c Let_def notify_relayer_def store_simps
        get_putRelayers sample_relayers_def putRelayer_def)
qed

theorem relayer_change_needs_quorum_witness:
  "\<exists>i c ns1. ValidateOwner plain_env relayer_call c \<and>
    CheckConsensusSigns plain_env APPROVE_REGISTER_RELAYER (GetUint64Bytes i) c relayer_call = Inr (True, ns1)"
proof -
  obtain ns' where r: "ApproveRegisterRelayer plain_env relayer_call = Inr (BYTE_TRUE, ns')"
    "db_Get ns' (rkey [RELAYER, replicate 20 7]) = Inr (Some (GenRawStorageItem (replicate 20 7)))"
    by (rule relayer_call_runs)
  have "db_Get ns' (rkey [RELAYER, replicate 20 7]) \<noteq> db_Get relayer_call (rkey [RELAYER, replicate 20 7])"
    using r(2) relayer_call_facts(3) by simp
  moreover have "(APPROVE_REGISTER_RELAYER, ApproveRegisterRelayer plain_env) \<in> set (RegisterRelayerManagerContract plain_env)"
    by (simp add: RegisterRelayerManagerContract_def)
  moreover have "length (replicate 20 (7 :: byte)) = ADDR_LEN" by (simp add: size_defs)
  ultimately have "\<exists>i c p ns1. ValidateOwner plain_env relayer_call c \<and> replicate 20 7 \<in> set (AddressList p) \<and>
    CheckConsensusSigns plain_env APPROVE_REGISTER_RELAYER (GetUint64Bytes i) c relayer_call = Inr (True, ns1) \<and>
    (APPROVE_REGISTER_RELAYER = APPROVE_REGISTER_RELAYER \<and> getRelayerApply relayer_call i = Inr p \<and>
       db_Get ns' (rkey [RELAYER, replicate 20 7]) = Inr (Some (GenRawStorageItem (replicate 20 7))) \<or>
     APPROVE_REGISTER_RELAYER = APPROVE_REMOVE_RELAYER \<and> getRelayerRemove relayer_call i = Inr p \<and>
       db_Get ns' (rkey [RELAYER, replicate 20 7]) = Inr None)"
    by (intro relayer_change_needs_quorum [where h = "ApproveRegisterRelayer plain_env"]) (use r in simp_all)
  then show ?thesis by blast
qed

text \<open>
  An approved removal keeps its proposal: after \<open>ApproveRemoveRelayer\<close> every removal proposal
  reads as before, so the peers can be asked to approve the same removal again.
\<close>

lemma removal_proposal_stays:
  assumes "ApproveRemoveRelayer env ns = Inr (r, ns')"
  shows "getRelayerRemove ns' i = getRelayerRemove ns i"
proof -
  have e: "db_Get ns' (rkey [RELAYER_REMOVE, GetUint64Bytes i]) = db_Get ns (rkey [RELAYER_REMOVE, GetUint64Bytes i])"
    using assms
  proof (cases rule: ApproveRemoveRelayer_Inr)
    case pending
    then show ?thesis by (simp add: rkey_not_sign)
  next
    case (consent params p ns1)
    from consent(3) have "\<forall>a \<in> set (AddressList p). length a = ADDR_LEN"
      by (auto simp: getRelayerRemove_def require_def orelse_err_def load_item_def dest: list_addresses
          split: option.splits sum.splits)
    then have "\<forall>a \<in> set (AddressList p). rkey [RELAYER_REMOVE, GetUint64Bytes i] \<noteq> rkey [RELAYER, a]"
      using rkey_relayer(2) by metis
    with consent(6) show ?thesis by (simp add: rkey_not_sign)
  qed
  then show ?thesis unfolding getRelayerRemove_def by (simp only: load_item_cong [OF e])
qed

definition removal_call :: NativeService where
  "removal_call = solo_call 6 [([RELAYER_REMOVE, GetUint64Bytes 0], RelayerListParam_Serialization sample_relayers)]
     (ApproveRelayerParam_Serialization \<lparr>ar_ID = 0, ar_Address = solo\<rparr>)"

lemma removal_proposal_stays_witness:
  "\<exists>ns'. ApproveRemoveRelayer plain_env removal_call = Inr (BYTE_TRUE, ns') \<and>
    getRelayerRemove ns' 0 = Inr sample_relayers"
proof -
  have p: "parse_input ApproveRelayerParam_Deserialization e removal_call = Inr \<lparr>ar_ID = 0, ar_Address = solo\<rparr>" for e
    using rd_approve_relayer.decode_encode [of "\<lparr>ar_ID = 0, ar_Address = solo\<rparr>"]
    by (simp add: parse_input_def removal_call_def solo_call_fields ApproveRelayerParam_Serialization_def
        enc_varbytes_def enc_varuint_def size_defs)
  have wf: "RelayerListParam_wf sample_relayers" by (simp add: RelayerListParam_wf_def sample_relayers_def size_defs)
  moreover have "length (RelayerListParam_Serialization sample_relayers) < 2 ^ 62"
    using length_list_bytes [OF wf] by (simp add: sample_relayers_def)
  ultimately have g: "getRelayerRemove removal_call 0 = Inr sample_relayers"
    by (simp add: getRelayerRemove_def removal_call_def solo_call_def lenient_load)
  obtain ns1 where c: "CheckConsensusSigns plain_env APPROVE_REMOVE_RELAYER (GetUint64Bytes 0) solo removal_call
      = Inr (True, ns1)"
    unfolding removal_call_def by (rule solo_consent [of 6]) simp_all
  have o: "ValidateOwner plain_env removal_call solo" unfolding removal_call_def by (rule solo_owner)
  have "\<exists>ns'. ApproveRemoveRelayer plain_env removal_call = Inr (BYTE_TRUE, ns')"
    by (simp add: ApproveRemoveRelayer_def p g o approved_def c Let_def)
  with removal_proposal_stays g show ?thesis by metis
qed

end
