(* ===== verification/Map_Codec.thy ===== *)
theory Map_Codec
  imports Native_Service Crypto_Env
begin

text \<open>
  Go maps in storage.  The serializers of the contracts' maps write the number of entries, sort the keys
  downwards and write each key with the value it maps to; the deserializers cnt entries back into an empty
  map.  The locale \<open>map_codec\<close> states what an ent's format and the cnt's format must provide and derives the
  contract \<open>codec\<close> for the whole map, that the bytes do not depend on Go's iteration order, and that a map read
  back looks up like the map written.
\<close>

definition map_ser :: "(uint64 \<Rightarrow> bytes) \<Rightarrow> ('k \<times> 'v \<Rightarrow> bytes) \<Rightarrow> ('k \<Rightarrow> 'o :: linorder) \<Rightarrow> ('k \<times> 'v) list \<Rightarrow> bytes" where
  "map_ser cnt ent key m =
     cnt (of_nat (length m)) @ concat (map (\<lambda>k. ent (k, the (map_of m k))) (sort_desc key (map fst m)))"

definition map_deser :: "(ZeroCopySource \<Rightarrow> (uint64 \<times> ZeroCopySource) option) \<Rightarrow>
    (ZeroCopySource \<Rightarrow> (('k \<times> 'v) \<times> ZeroCopySource) option) \<Rightarrow> ZeroCopySource \<Rightarrow>
    (('k \<times> 'v) list \<times> ZeroCopySource) option" where
  "map_deser cnt ent src =
     do { (n, src) \<leftarrow> cnt src;
          (es, src) \<leftarrow> read_list ent (unat n) src;
          Some (foldl (\<lambda>m (k, v). AList.update k v m) [] es, src) }"

text \<open>The map in the order in which it is stored.\<close>

definition map_canon :: "('k \<Rightarrow> 'o :: linorder) \<Rightarrow> ('k \<times> 'v) list \<Rightarrow> ('k \<times> 'v) list" where
  "map_canon key m = map (\<lambda>k. (k, the (map_of m k))) (sort_desc key (map fst m))"

definition map_ok :: "('k \<times> 'v \<Rightarrow> bool) \<Rightarrow> ('k \<times> 'v) list \<Rightarrow> bool" where
  "map_ok P m \<longleftrightarrow> distinct (map fst m) \<and> list_all P m \<and> length m < 2 ^ 62"

lemma map_of_canon: "map_of (map_canon key m) = map_of m"
proof
  fix k
  have "map_of (map_canon key m) k = (if k \<in> fst ` set m then Some (the (map_of m k)) else None)"
    by (simp add: map_canon_def map_of_map_restrict restrict_map_def)
  also have "\<dots> = map_of m k"
    unfolding dom_map_of_conv_image_fst [symmetric] by (cases "map_of m k") auto
  finally show "map_of (map_canon key m) k = map_of m k" .
qed

lemma map_fst_canon: "map fst (map_canon key m) = sort_desc key (map fst m)"
  by (simp add: map_canon_def comp_def)

lemma canon_distinct:
  assumes "distinct (map fst m)"
  shows "distinct (map fst (map_canon key m))" "set (map_canon key m) = set m" "length (map_canon key m) = length m"
    "mset (map_canon key m) = mset m"
proof -
  have "distinct (sort_desc key (map fst m)) = distinct (map fst m)"
    by (rule mset_eq_imp_distinct_iff) (simp only: mset_SliceStable)
  with assms show d: "distinct (map fst (map_canon key m))" by (simp add: map_fst_canon)
  show s: "set (map_canon key m) = set m"
    using map_of_canon [of key m] d assms by (simp add: map_of_inject_set)
  show "length (map_canon key m) = length m" by (simp add: map_canon_def)
  have "distinct (map_canon key m)" "distinct m" using d assms by (auto simp: distinct_map)
  with s show "mset (map_canon key m) = mset m" by (metis set_eq_iff_mset_eq_distinct)
qed

lemma map_ok_canon: "map_ok P m \<Longrightarrow> map_ok P (map_canon key m)"
  using canon_distinct [of m key] by (simp add: map_ok_def list_all_iff)

lemma map_ok_update:
  assumes "map_ok P m" and "P (k, v)" and "length m < 2 ^ 62 - 1"
  shows "map_ok P (AList.update k v m)"
proof -
  have "set (AList.update k v m) \<subseteq> insert (k, v) (set m)" by (induction m) auto
  moreover have "length (AList.update k v m) \<le> Suc (length m)" by (induction m) auto
  ultimately show ?thesis using assms by (auto simp: map_ok_def list_all_iff distinct_update)
qed

lemma update_all_canon:
  assumes "distinct (map fst es)"
  shows "foldl (\<lambda>m (k, v). AList.update k v m) [] es = es"
  using assms
proof (induction es rule: rev_induct)
  case (snoc e es)
  then show ?case by (cases e) (simp add: update_snoc)
qed simp

locale map_codec =
  ent: codec ent_ser ent_deser ent_wf + cnt: codec cnt_ser cnt_deser "\<lambda>_. True"
  for ent_ser :: "'k \<times> 'v \<Rightarrow> bytes" and ent_deser and ent_wf and cnt_ser :: "uint64 \<Rightarrow> bytes" and cnt_deser +
  fixes key :: "'k \<Rightarrow> 'o :: linorder"
  assumes key_inj: "inj key"
begin

lemma canon_idem:
  assumes "distinct (map fst m)"
  shows "map_canon key (map_canon key m) = map_canon key m"
proof -
  have "sort_desc key (sort_desc key (map fst m)) = sort_desc key (map fst m)"
    using assms by (intro sort_desc_idem) (simp add: distinct_map comp_inj_on inj_on_subset [OF key_inj])
  then show ?thesis
    unfolding map_canon_def [of key "map_canon key m"] map_of_canon map_fst_canon by (simp add: map_canon_def)
qed

lemma ser_canon:
  "map_ser cnt_ser ent_ser key m = cnt_ser (of_nat (length m)) @ concat (map ent_ser (map_canon key m))"
  by (simp add: map_ser_def map_canon_def comp_def)

text \<open>The bytes do not depend on the iteration order.\<close>

lemma order_independent:
  assumes "mset m = mset m'" and "distinct (map fst m)"
  shows "map_ser cnt_ser ent_ser key m = map_ser cnt_ser ent_ser key m'"
proof -
  have "sort_desc key (map fst m) = sort_desc key (map fst m')"
    by (rule sort_desc_unique) (use assms(1) in \<open>simp_all add: inj_on_subset [OF key_inj]\<close>)
  moreover have "map_of m = map_of m'" using assms by (rule map_of_mset_eq)
  moreover have "length m = length m'" using assms(1) by (metis size_mset)
  ultimately show ?thesis by (simp add: map_ser_def)
qed

lemma bytes_canon: "distinct (map fst m) \<Longrightarrow> map_ser cnt_ser ent_ser key (map_canon key m) = map_ser cnt_ser ent_ser key m"
  by (rule order_independent) (simp_all add: canon_distinct)

lemma whole_roundtrip:
  assumes "map_ok ent_wf x \<and> map_canon key x = x" and "fits (pre @ map_ser cnt_ser ent_ser key x @ rest)"
  shows "map_deser cnt_deser ent_deser (src_at pre (map_ser cnt_ser ent_ser key x @ rest))
    = Some (x, src_at (pre @ map_ser cnt_ser ent_ser key x) rest)"
proof -
  let ?n = "of_nat (length x) :: uint64"
  have b: "map_ser cnt_ser ent_ser key x = cnt_ser ?n @ concat (map ent_ser x)"
    using ser_canon [of x] assms(1) by simp
  have n: "unat ?n = length x" using assms(1) by (simp add: unat_of_nat map_ok_def)
  have w: "\<forall>e \<in> set x. ent_wf e" using assms(1) by (simp add: map_ok_def list_all_iff)
  have u: "foldl (\<lambda>m (k, v). AList.update k v m) [] x = x"
    using assms(1) by (intro update_all_canon) (simp add: map_ok_def)
  have "cnt_deser (src_at pre (cnt_ser ?n @ concat (map ent_ser x) @ rest))
      = Some (?n, src_at (pre @ cnt_ser ?n) (concat (map ent_ser x) @ rest))"
    using assms(2) unfolding b by (intro cnt.roundtrip) simp_all
  then show ?thesis
    using ent.list_roundtrip [OF w, of "pre @ cnt_ser ?n" rest] assms(2) unfolding b by (simp add: map_deser_def n u)
qed

end

sublocale map_codec \<subseteq> whole: codec "map_ser cnt_ser ent_ser key" "map_deser cnt_deser ent_deser"
  "\<lambda>m. map_ok ent_wf m \<and> map_canon key m = m"
proof
  show "rd_local (map_deser cnt_deser ent_deser)"
    unfolding map_deser_def [abs_def] by (intro rd_rules ent.local_read cnt.local_read)
qed (rule whole_roundtrip)

context map_codec
begin

lemma length_ser:
  assumes "distinct (map fst m)"
  shows "length (map_ser cnt_ser ent_ser key m) = length (cnt_ser (of_nat (length m))) + (\<Sum>e\<leftarrow>m. length (ent_ser e))"
proof -
  have "mset (map (length \<circ> ent_ser) (map_canon key m)) = mset (map (length \<circ> ent_ser) m)"
    using canon_distinct(4) [OF assms, of key] by (metis mset_map)
  then have "sum_list (map (length \<circ> ent_ser) (map_canon key m)) = sum_list (map (length \<circ> ent_ser) m)"
    by (metis sum_mset_sum_list)
  then show ?thesis by (simp add: ser_canon length_concat comp_def)
qed

text \<open>A map of any order is read back in canonical order.\<close>

lemma read_any:
  assumes "map_ok ent_wf m" and "fits (pre @ map_ser cnt_ser ent_ser key m @ rest)"
  shows "map_deser cnt_deser ent_deser (src_at pre (map_ser cnt_ser ent_ser key m @ rest))
    = Some (map_canon key m, src_at (pre @ map_ser cnt_ser ent_ser key m) rest)"
proof -
  have d: "distinct (map fst m)" using assms(1) by (simp add: map_ok_def)
  show ?thesis
    using whole_roundtrip [of "map_canon key m" pre rest] assms map_ok_canon [OF assms(1), of key]
    by (simp add: bytes_canon [OF d] canon_idem [OF d])
qed

end

section \<open>Maps whose values carry their keys\<close>

text \<open>
  The other shape: the values are sorted by the key they contain, the key is not written, and the
  deserializer enters each value under its own key.
\<close>

definition keyed_ser :: "(uint64 \<Rightarrow> bytes) \<Rightarrow> ('v \<Rightarrow> bytes) \<Rightarrow> ('v \<Rightarrow> 'k :: linorder) \<Rightarrow> ('k \<times> 'v) list \<Rightarrow> bytes" where
  "keyed_ser cnt itm key m = cnt (of_nat (length m)) @ concat (map itm (sort_desc key (map snd m)))"

definition keyed_deser :: "(ZeroCopySource \<Rightarrow> (uint64 \<times> ZeroCopySource) option) \<Rightarrow>
    (ZeroCopySource \<Rightarrow> ('v \<times> ZeroCopySource) option) \<Rightarrow> ('v \<Rightarrow> 'k) \<Rightarrow> ZeroCopySource \<Rightarrow>
    (('k \<times> 'v) list \<times> ZeroCopySource) option" where
  "keyed_deser cnt itm key src =
     do { (n, src) \<leftarrow> cnt src;
          (vs, src) \<leftarrow> read_list itm (unat n) src;
          Some (map_by key vs, src) }"

definition keyed_ok :: "('v \<Rightarrow> bool) \<Rightarrow> ('v \<Rightarrow> 'k) \<Rightarrow> ('k \<times> 'v) list \<Rightarrow> bool" where
  "keyed_ok P key m \<longleftrightarrow> distinct (map fst m) \<and> (\<forall>(k, v) \<in> set m. k = key v \<and> P v) \<and> length m < 2 ^ 62"

definition keyed_canon :: "('v \<Rightarrow> 'k :: linorder) \<Rightarrow> ('k \<times> 'v) list \<Rightarrow> ('k \<times> 'v) list" where
  "keyed_canon key m = map (\<lambda>v. (key v, v)) (sort_desc key (map snd m))"

lemma keyed_okD:
  assumes "keyed_ok P key m"
  shows "distinct (map key (map snd m))" "map (\<lambda>v. (key v, v)) (map snd m) = m" "\<forall>v \<in> set (map snd m). P v"
proof -
  have k: "\<forall>(k, v) \<in> set m. k = key v" using assms by (auto simp: keyed_ok_def)
  then have "map key (map snd m) = map fst m" by (auto simp: comp_def)
  then show "distinct (map key (map snd m))" using assms by (metis keyed_ok_def)
  show "map (\<lambda>v. (key v, v)) (map snd m) = m" using k by (auto simp: comp_def intro!: map_idI)
  show "\<forall>v \<in> set (map snd m). P v" using assms by (auto simp: keyed_ok_def)
qed

lemma mset_keyed_canon:
  assumes "keyed_ok P key m"
  shows "mset (keyed_canon key m) = mset m"
proof -
  have "mset (keyed_canon key m) = mset (map (\<lambda>v. (key v, v)) (map snd m))"
    unfolding keyed_canon_def mset_map mset_SliceStable ..
  also have "\<dots> = mset m" unfolding keyed_okD(2) [OF assms] ..
  finally show ?thesis .
qed

lemma keyed_ok_mset:
  assumes "mset m = mset m'"
  shows "keyed_ok P key m \<longleftrightarrow> keyed_ok P key m'"
proof -
  have "set m = set m'" "length m = length m'" using assms by (metis set_mset_mset, metis size_mset)
  moreover have "distinct (map fst m) = distinct (map fst m')"
    by (rule mset_eq_imp_distinct_iff) (simp add: assms)
  ultimately show ?thesis by (simp add: keyed_ok_def)
qed

lemma keyed_ok_canon: "keyed_ok P key m \<Longrightarrow> keyed_ok P key (keyed_canon key m)"
  using keyed_ok_mset mset_keyed_canon by blast

lemma map_of_keyed_canon:
  assumes "keyed_ok P key m"
  shows "map_of (keyed_canon key m) = map_of m"
proof -
  have "distinct (map fst (keyed_canon key m))" using keyed_ok_canon [OF assms] by (simp add: keyed_ok_def)
  with mset_keyed_canon [OF assms] show ?thesis by (rule map_of_mset_eq)
qed

lemma update_entries:
  "set (AList.update k v m) \<subseteq> insert (k, v) (set m)" "length (AList.update k v m) \<le> Suc (length m)"
  "fst ` set (AList.update k v m) = insert k (fst ` set m)"
  by (induction m) auto

lemma map_by_entries:
  "set (map_by key vs) \<subseteq> (\<lambda>v. (key v, v)) ` set vs" "length (map_by key vs) \<le> length vs"
  "fst ` set (map_by key vs) = key ` set vs"
proof (induction vs rule: rev_induct)
  case (snoc v vs)
  have u: "map_by key (vs @ [v]) = AList.update (key v) v (map_by key vs)" by (simp add: map_by_def)
  note e = update_entries [of "key v" v "map_by key vs"]
  { case 1 show ?case using e(1) snoc(1) unfolding u by auto }
  { case 2 show ?case using e(2) snoc(2) unfolding u by simp }
  { case 3 show ?case using e(3) snoc(3) unfolding u by simp }
qed (simp_all add: map_by_def)

lemma keyed_ok_map_by:
  assumes "\<forall>v \<in> set vs. P v" and "length vs < 2 ^ 62"
  shows "keyed_ok P key (map_by key vs)"
  using map_by_entries(1,2) [of key vs] assms by (auto simp: keyed_ok_def distinct_map_by)

locale keyed_codec =
  itm: codec itm_ser itm_deser itm_wf + cnt: codec cnt_ser cnt_deser "\<lambda>_. True"
  for itm_ser :: "'v \<Rightarrow> bytes" and itm_deser and itm_wf and cnt_ser :: "uint64 \<Rightarrow> bytes" and cnt_deser +
  fixes key :: "'v \<Rightarrow> 'k :: linorder"
begin

text \<open>A map of any order is read back in canonical order, and the bytes do not depend on the order.\<close>

lemma read_keyed:
  assumes "keyed_ok itm_wf key m" and "fits (pre @ keyed_ser cnt_ser itm_ser key m @ rest)"
  shows "keyed_deser cnt_deser itm_deser key (src_at pre (keyed_ser cnt_ser itm_ser key m @ rest))
    = Some (keyed_canon key m, src_at (pre @ keyed_ser cnt_ser itm_ser key m) rest)"
proof -
  let ?s = "sort_desc key (map snd m)" and ?n = "of_nat (length m) :: uint64"
  have n: "unat ?n = length m" using assms(1) by (simp add: unat_of_nat keyed_ok_def)
  have w: "\<forall>v \<in> set ?s. itm_wf v" using keyed_okD(3) [OF assms(1)] by simp
  have l: "read_list itm_deser (length m) (src_at (pre @ cnt_ser ?n) (concat (map itm_ser ?s) @ rest))
      = Some (?s, src_at (pre @ cnt_ser ?n @ concat (map itm_ser ?s)) rest)"
    using itm.list_roundtrip [OF w, of "pre @ cnt_ser ?n" rest] assms(2) by (simp add: keyed_ser_def)
  have "distinct (map key ?s) = distinct (map key (map snd m))"
    by (rule mset_eq_imp_distinct_iff) (simp only: mset_map mset_SliceStable)
  then have "distinct (map key ?s)" using keyed_okD(1) [OF assms(1)] by blast
  then have u: "map_by key ?s = keyed_canon key m" unfolding keyed_canon_def by (rule map_by_distinct)
  have "cnt_deser (src_at pre (cnt_ser ?n @ concat (map itm_ser ?s) @ rest))
      = Some (?n, src_at (pre @ cnt_ser ?n) (concat (map itm_ser ?s) @ rest))"
    using assms(2) by (intro cnt.roundtrip) (simp_all add: keyed_ser_def)
  then show ?thesis by (simp add: keyed_deser_def keyed_ser_def n l u)
qed

lemma keyed_order:
  assumes "keyed_ok itm_wf key m" and "mset m = mset m'"
  shows "keyed_ser cnt_ser itm_ser key m = keyed_ser cnt_ser itm_ser key m'"
proof -
  have "mset (map snd m) = mset (map snd m')" using assms(2) by (metis mset_map)
  moreover have "inj_on key (set (map snd m'))"
    using keyed_okD(1) [of itm_wf key m'] assms(1) unfolding keyed_ok_mset [OF assms(2)] distinct_map by blast
  ultimately have "sort_desc key (map snd m) = sort_desc key (map snd m')" by (rule sort_desc_unique)
  moreover have "length m = length m'" using assms(2) by (metis size_mset)
  ultimately show ?thesis by (simp add: keyed_ser_def)
qed

lemma local_keyed: "rd_local (keyed_deser cnt_deser itm_deser key)"
  unfolding keyed_deser_def [abs_def] by (intro rd_rules itm.local_read cnt.local_read)

end

end
