(* ===== verification/Cross_Common.thy ===== *)
theory Cross_Common
  imports Approval Map_Codec
begin

text \<open>
  The records shared by the cross-chain contracts (\<open>native/service/cross_chain_manager/common\<close>): the
  parameters with their wire formats, the marks of processed cross-chain transactions and of blacked chains.
  The settings the contracts read from the node's configuration and from its ledger are a record.
\<close>

section \<open>Configuration\<close>

record NodeConfig =
  NetworkId :: uint32
  EXTRA_INFO_HEIGHT_FORK_CHECK :: bool
  CurrentBlockHeight :: uint32
  EnableEventLog :: bool

abbreviation NETWORK_ID_TEST_NET :: uint32 where "NETWORK_ID_TEST_NET \<equiv> 2"

section \<open>Parameters\<close>

type_synonym InitRedeemScriptParam = bytes

definition InitRedeemScriptParam_Serialization :: "InitRedeemScriptParam \<Rightarrow> bytes" where
  "InitRedeemScriptParam_Serialization redeemScript = enc_varbytes redeemScript"

definition InitRedeemScriptParam_Deserialization :: "ZeroCopySource \<Rightarrow> (InitRedeemScriptParam \<times> ZeroCopySource) option" where
  "InitRedeemScriptParam_Deserialization src = do { (redeemScript, src) \<leftarrow> ok_read NextString src; Some (redeemScript, src) }"

record EntranceParam =
  SourceChainID :: uint64
  ep_Height :: uint32
  Proof :: bytes
  RelayerAddress :: bytes
  Extra :: bytes
  HeaderOrCrossChainMsg :: bytes

definition EntranceParam_Serialization :: "EntranceParam \<Rightarrow> bytes" where
  "EntranceParam_Serialization p =
     enc_uint64 (SourceChainID p) @ enc_uint32 (ep_Height p) @ enc_varbytes (Proof p) @ enc_varbytes (RelayerAddress p)
     @ enc_varbytes (Extra p) @ enc_varbytes (HeaderOrCrossChainMsg p)"

definition EntranceParam_Deserialization :: "ZeroCopySource \<Rightarrow> (EntranceParam \<times> ZeroCopySource) option" where
  "EntranceParam_Deserialization src =
     do { (sourceChainID, src) \<leftarrow> ok_read NextUint64 src;
          (hgt, src) \<leftarrow> ok_read NextUint32 src;
          (prf, src) \<leftarrow> ok_read NextVarBytes src;
          (relayerAddr, src) \<leftarrow> ok_read NextVarBytes src;
          (extra, src) \<leftarrow> ok_read NextVarBytes src;
          (headerOrCrossChainMsg, src) \<leftarrow> ok_read NextVarBytes src;
          Some (\<lparr>SourceChainID = sourceChainID, ep_Height = hgt, Proof = prf, RelayerAddress = relayerAddr,
                 Extra = extra, HeaderOrCrossChainMsg = headerOrCrossChainMsg\<rparr>, src) }"

definition EntranceParam_wf :: "EntranceParam \<Rightarrow> bool" where
  "EntranceParam_wf p \<longleftrightarrow> fits (Proof p) \<and> fits (RelayerAddress p) \<and> fits (Extra p) \<and> fits (HeaderOrCrossChainMsg p)"

interpretation rd_entrance: codec EntranceParam_Serialization EntranceParam_Deserialization EntranceParam_wf
  unfolding EntranceParam_Deserialization_def [abs_def] EntranceParam_Serialization_def EntranceParam_wf_def
  by unfold_locales (simp add: codec_simps, intro rd_rules)

record MakeTxParam =
  mt_TxHash :: bytes
  CrossChainID :: bytes
  FromContractAddress :: bytes
  ToChainID :: uint64
  ToContractAddress :: bytes
  mt_Method :: bytes
  mt_Args :: bytes

definition MakeTxParam_Serialization :: "MakeTxParam \<Rightarrow> bytes" where
  "MakeTxParam_Serialization p =
     enc_varbytes (mt_TxHash p) @ enc_varbytes (CrossChainID p) @ enc_varbytes (FromContractAddress p)
     @ enc_uint64 (ToChainID p) @ enc_varbytes (ToContractAddress p) @ enc_varbytes (mt_Method p)
     @ enc_varbytes (mt_Args p)"

definition MakeTxParam_Deserialization :: "ZeroCopySource \<Rightarrow> (MakeTxParam \<times> ZeroCopySource) option" where
  "MakeTxParam_Deserialization src =
     do { (txHash, src) \<leftarrow> ok_read NextVarBytes src;
          (crossChainID, src) \<leftarrow> ok_read NextVarBytes src;
          (fromContractAddress, src) \<leftarrow> ok_read NextVarBytes src;
          (toChainID, src) \<leftarrow> ok_read NextUint64 src;
          (toContractAddress, src) \<leftarrow> ok_read NextVarBytes src;
          (meth, src) \<leftarrow> ok_read NextString src;
          (args, src) \<leftarrow> ok_read NextVarBytes src;
          Some (\<lparr>mt_TxHash = txHash, CrossChainID = crossChainID, FromContractAddress = fromContractAddress,
                 ToChainID = toChainID, ToContractAddress = toContractAddress, mt_Method = meth, mt_Args = args\<rparr>, src) }"

definition MakeTxParam_wf :: "MakeTxParam \<Rightarrow> bool" where
  "MakeTxParam_wf p \<longleftrightarrow> fits (mt_TxHash p) \<and> fits (CrossChainID p) \<and> fits (FromContractAddress p)
     \<and> fits (ToContractAddress p) \<and> fits (mt_Method p) \<and> fits (mt_Args p)"

interpretation rd_maketx: codec MakeTxParam_Serialization MakeTxParam_Deserialization MakeTxParam_wf
  unfolding MakeTxParam_Deserialization_def [abs_def] MakeTxParam_Serialization_def MakeTxParam_wf_def
  by unfold_locales (simp add: codec_simps, intro rd_rules)

lemmas [codec_simps] = rd_maketx.roundtrip
lemmas [rd_rules] = rd_maketx.local_read

text \<open>\<open>MakeTxParamWithSender\<close>: an address followed by the parameters.\<close>

definition MakeTxParamWithSender_Serialization :: "address \<times> MakeTxParam \<Rightarrow> bytes" where
  "MakeTxParamWithSender_Serialization p = fst p @ MakeTxParam_Serialization (snd p)"

definition MakeTxParamWithSender_Deserialization :: "bytes \<Rightarrow> (address \<times> MakeTxParam) option" where
  "MakeTxParamWithSender_Deserialization data =
     do { (addr, src) \<leftarrow> ok_read NextAddress (NewZeroCopySource data);
          (p, src) \<leftarrow> MakeTxParam_Deserialization src;
          Some (addr, p) }"

record MultiSignParam =
  ms_ChainID :: uint64
  RedeemKey :: bytes
  ms_TxHash :: bytes
  ms_Address :: bytes
  ms_Signs :: "bytes list"

definition MultiSignParam_Serialization :: "MultiSignParam \<Rightarrow> bytes" where
  "MultiSignParam_Serialization p =
     enc_uint64 (ms_ChainID p) @ enc_varbytes (RedeemKey p) @ enc_varbytes (ms_TxHash p) @ enc_varbytes (ms_Address p)
     @ enc_uint64 (of_nat (length (ms_Signs p))) @ concat (map enc_varbytes (ms_Signs p))"

definition MultiSignParam_Deserialization :: "ZeroCopySource \<Rightarrow> (MultiSignParam \<times> ZeroCopySource) option" where
  "MultiSignParam_Deserialization src =
     do { (chain, src) \<leftarrow> ok_read NextUint64 src;
          (redeemKey, src) \<leftarrow> ok_read NextString src;
          (txHash, src) \<leftarrow> ok_read NextVarBytes src;
          (address, src) \<leftarrow> ok_read NextString src;
          (n, src) \<leftarrow> ok_read NextUint64 src;
          (signs, src) \<leftarrow> read_list (ok_read NextVarBytes) (unat n) src;
          Some (\<lparr>ms_ChainID = chain, RedeemKey = redeemKey, ms_TxHash = txHash, ms_Address = address,
                 ms_Signs = signs\<rparr>, src) }"

definition MultiSignParam_wf :: "MultiSignParam \<Rightarrow> bool" where
  "MultiSignParam_wf p \<longleftrightarrow> fits (RedeemKey p) \<and> fits (ms_TxHash p) \<and> fits (ms_Address p)
     \<and> list_all fits (ms_Signs p) \<and> length (ms_Signs p) < 2 ^ 62"

interpretation rd_multisign: codec MultiSignParam_Serialization MultiSignParam_Deserialization MultiSignParam_wf
proof
  fix x pre rest assume wf: "MultiSignParam_wf x" and fit: "fits (pre @ MultiSignParam_Serialization x @ rest)"
  have d: "\<forall>b \<in> set (ms_Signs x). fits b"
    and l: "unat (of_nat (length (ms_Signs x)) :: uint64) = length (ms_Signs x)"
    using wf by (simp_all add: MultiSignParam_wf_def list_all_iff unat_of_nat)
  show "MultiSignParam_Deserialization (src_at pre (MultiSignParam_Serialization x @ rest))
      = Some (x, src_at (pre @ MultiSignParam_Serialization x) rest)"
    using fit wf rd_varbytes.list_roundtrip [OF d]
    by (simp add: MultiSignParam_Deserialization_def MultiSignParam_Serialization_def MultiSignParam_wf_def codec_simps l)
next
  show "rd_local MultiSignParam_Deserialization"
    unfolding MultiSignParam_Deserialization_def [abs_def] by (intro rd_rules)
qed

record ToMerkleValue =
  mv_TxHash :: bytes
  FromChainID :: uint64
  mv_MakeTxParam :: MakeTxParam

definition ToMerkleValue_Serialization :: "ToMerkleValue \<Rightarrow> bytes" where
  "ToMerkleValue_Serialization v =
     enc_varbytes (mv_TxHash v) @ enc_uint64 (FromChainID v) @ MakeTxParam_Serialization (mv_MakeTxParam v)"

definition ToMerkleValue_Deserialization :: "ZeroCopySource \<Rightarrow> (ToMerkleValue \<times> ZeroCopySource) option" where
  "ToMerkleValue_Deserialization src =
     do { (txHash, src) \<leftarrow> ok_read NextVarBytes src;
          (fromChainID, src) \<leftarrow> ok_read NextUint64 src;
          (makeTxParam, src) \<leftarrow> MakeTxParam_Deserialization src;
          Some (\<lparr>mv_TxHash = txHash, FromChainID = fromChainID, mv_MakeTxParam = makeTxParam\<rparr>, src) }"

interpretation rd_merkle: codec ToMerkleValue_Serialization ToMerkleValue_Deserialization
  "\<lambda>v. fits (mv_TxHash v) \<and> MakeTxParam_wf (mv_MakeTxParam v)"
  unfolding ToMerkleValue_Deserialization_def [abs_def] ToMerkleValue_Serialization_def
  by unfold_locales (simp add: codec_simps, intro rd_rules)

type_synonym BlackChainParam = uint64

definition BlackChainParam_Serialization :: "BlackChainParam \<Rightarrow> bytes" where
  "BlackChainParam_Serialization chain = enc_varuint chain"

definition BlackChainParam_Deserialization :: "ZeroCopySource \<Rightarrow> (BlackChainParam \<times> ZeroCopySource) option" where
  "BlackChainParam_Deserialization src = do { (chain, src) \<leftarrow> ok_read NextVarUint src; Some (chain, src) }"

interpretation rd_blackchain: codec BlackChainParam_Serialization BlackChainParam_Deserialization "\<lambda>_. True"
  unfolding BlackChainParam_Deserialization_def [abs_def] BlackChainParam_Serialization_def
  by unfold_locales (simp add: codec_simps, intro rd_rules)

section \<open>Marks\<close>

abbreviation ckey :: "bytes list \<Rightarrow> bytes" where
  "ckey args \<equiv> ConcatKey CrossChainManagerContractAddress args"

abbreviation DONE_TX :: bytes where "DONE_TX \<equiv> str ''doneTx''"
abbreviation REQUEST :: bytes where "REQUEST \<equiv> str ''request''"
abbreviation BLACKED_CHAIN :: bytes where "BLACKED_CHAIN \<equiv> str ''BlackedChain''"
abbreviation VOTE_INFO :: bytes where "VOTE_INFO \<equiv> str ''voteInfo''"

definition NotifyMakeProof :: "NodeConfig \<Rightarrow> uint64 \<Rightarrow> uint64 \<Rightarrow> bytes \<Rightarrow> bytes \<Rightarrow> NativeService \<Rightarrow> NativeService" where
  "NotifyMakeProof cfg fromChainID toChainID txHash key ns =
     (if \<not> EnableEventLog cfg then ns
      else AddNotify \<lparr>ContractAddress = CrossChainManagerContractAddress,
             States = [NStr (str ''makeProof''), NNum (uint fromChainID), NNum (uint toChainID), NStr txHash,
                       NNum (uint (height ns)), NStr key]\<rparr> ns)"

definition PutDoneTx :: "bytes \<Rightarrow> uint64 \<Rightarrow> NativeService \<Rightarrow> NativeService" where
  "PutDoneTx crossChainID chain ns =
     db_Put (ckey [DONE_TX, GetUint64Bytes chain, crossChainID]) (GenRawStorageItem crossChainID) ns"

definition CheckDoneTx :: "bytes \<Rightarrow> uint64 \<Rightarrow> NativeService \<Rightarrow> err + unit" where
  "CheckDoneTx crossChainID chain ns =
     (case db_Get ns (ckey [DONE_TX, GetUint64Bytes chain, crossChainID]) of
        Inl _ \<Rightarrow> Inl ''checkDoneTx, native.GetCacheDB().Get error''
      | Inr (Some _) \<Rightarrow> Inl ''checkDoneTx, tx already done''
      | Inr None \<Rightarrow> Inr ())"

definition PutBlackChain :: "uint64 \<Rightarrow> NativeService \<Rightarrow> NativeService" where
  "PutBlackChain chain ns =
     db_Put (ckey [BLACKED_CHAIN, GetUint64Bytes chain]) (GenRawStorageItem (GetUint64Bytes chain)) ns"

definition CheckIfChainBlacked :: "NativeService \<Rightarrow> uint64 \<Rightarrow> err + bool" where
  "CheckIfChainBlacked ns chain =
     (case db_Get ns (ckey [BLACKED_CHAIN, GetUint64Bytes chain]) of
        Inl _ \<Rightarrow> Inl ''CheckBlackChain, get black chainIDStore error''
      | Inr None \<Rightarrow> Inr False
      | Inr (Some _) \<Rightarrow> Inr True)"

definition RemoveBlackChain :: "uint64 \<Rightarrow> NativeService \<Rightarrow> NativeService" where
  "RemoveBlackChain chain ns = db_Delete (ckey [BLACKED_CHAIN, GetUint64Bytes chain]) ns"

text \<open>Whether a cross-chain transaction of a chain is marked as processed.\<close>

definition done_tx :: "NativeService \<Rightarrow> uint64 \<Rightarrow> bytes \<Rightarrow> bool" where
  "done_tx ns chain crossChainID \<longleftrightarrow> db_Get ns (ckey [DONE_TX, GetUint64Bytes chain, crossChainID]) \<noteq> Inr None"

lemma ckey_done:
  "ckey [DONE_TX, GetUint64Bytes c, x] = ckey [DONE_TX, GetUint64Bytes d, y] \<longleftrightarrow> c = d \<and> x = y"
  by (auto simp: key_simps append_eq_append_conv)

lemma ckey_not_done:
  "ckey [DONE_TX, GetUint64Bytes c, x] \<noteq> ckey [VOTE_INFO, i]"
  "ckey [DONE_TX, GetUint64Bytes c, x] \<noteq> ckey [BLACKED_CHAIN, i]"
  "ckey [DONE_TX, GetUint64Bytes c, x] \<noteq> ckey [REQUEST, i, j]"
  by (simp_all add: key_simps)

lemma done_Put: "done_tx (PutDoneTx x c ns) d y \<longleftrightarrow> d = c \<and> y = x \<or> done_tx ns d y"
  by (auto simp: done_tx_def PutDoneTx_def store_simps ckey_done)

lemma CheckDoneTx_Inr: "CheckDoneTx x c ns = Inr u \<longleftrightarrow> \<not> done_tx ns c x"
  by (auto simp: CheckDoneTx_def done_tx_def split: sum.splits option.splits)

section \<open>Handlers of the source chains\<close>

text \<open>\<open>ChainHandler\<close>: what a chain's verifier returns, and the state it leaves.\<close>

type_synonym ChainHandler = "NativeService \<Rightarrow> err + (MakeTxParam option \<times> NativeService)"

definition source_chain :: "NativeService \<Rightarrow> uint64 option" where
  "source_chain ns =
     (case parse_input EntranceParam_Deserialization [] ns of Inr p \<Rightarrow> Some (SourceChainID p) | Inl _ \<Rightarrow> None)"

lemma source_chain_parse: "parse_input EntranceParam_Deserialization e ns = Inr p \<Longrightarrow> source_chain ns = Some (SourceChainID p)"
  by (drule parse_any [where e' = "[]"]) (simp add: source_chain_def)

text \<open>
  The promise of a handler: a proposal is accepted only if it was not marked as processed, it is marked on
  acceptance, and no mark is ever removed.
\<close>

locale deposit_handler =
  fixes make :: ChainHandler
  assumes accepts_new: "make ns = Inr (Some p, ns') \<Longrightarrow>
      \<exists>c. source_chain ns = Some c \<and> \<not> done_tx ns c (CrossChainID p) \<and> done_tx ns' c (CrossChainID p)"
    and keeps_done: "make ns = Inr (r, ns') \<Longrightarrow> done_tx ns c x \<Longrightarrow> done_tx ns' c x"

end
