(* ===== verification/Peer_Quorum.thy ===== *)
theory Peer_Quorum
  imports Approval
begin

text \<open>
  The two loops over the peer pool that the vote on a cross-chain transaction
  (\<open>cross_chain_manager/consensus_vote/utils.go\<close>, \<open>CheckVotes\<close>) and the collection of signatures
  (\<open>governance/signature_manager/utils.go\<close>, \<open>CheckSigns\<close>) have in common: is the caller a consensus peer, and
  how many consensus peers are recorded under the base58 text of their address.  \<open>who\<close> is the function's name
  in the error messages, \<open>recorded\<close> the lookup in the map of records.
\<close>

section \<open>The loops\<close>

text \<open>The address of the peer under a pool key, or the error of the decoding steps.\<close>

definition peer_address :: "string \<Rightarrow> Env \<Rightarrow> bytes \<Rightarrow> err + address" where
  "peer_address who env key =
     ebind (orelse_err (hex_DecodeString key) (who @ '', hex.DecodeString public key error'')) (\<lambda>k.
     ebind (orelse_err (DeserializePublicKey env k) (who @ '', keypair.DeserializePublicKey error'')) (\<lambda>publicKey.
     Inr (AddressFromPubKey env publicKey)))"

text \<open>The first loop: is the caller a consensus peer?\<close>

primrec is_consensus_peer :: "string \<Rightarrow> Env \<Rightarrow> address \<Rightarrow> PeerPoolMap \<Rightarrow> err + bool" where
  "is_consensus_peer who env address [] = Inr False"
| "is_consensus_peer who env address (e # es) =
     (let (key, v) = e in
      if Status v = ConsensusStatus then
        ebind (peer_address who env key) (\<lambda>addr.
        if addr = address then Inr True else is_consensus_peer who env address es)
      else is_consensus_peer who env address es)"

text \<open>The second loop: recorded consensus peers, consensus peers, and whether the caller is new.\<close>

primrec count_votes ::
  "string \<Rightarrow> Env \<Rightarrow> (bytes \<Rightarrow> bool) \<Rightarrow> address \<Rightarrow> PeerPoolMap \<Rightarrow> nat \<times> nat \<times> bool \<Rightarrow> err + (nat \<times> nat \<times> bool)" where
  "count_votes who env recorded address [] acc = Inr acc"
| "count_votes who env recorded address (e # es) acc =
     (let (key, v) = e; (num, sum, flag) = acc in
      if Status v = ConsensusStatus then
        ebind (peer_address who env key) (\<lambda>addr.
        let num = (if recorded (ToBase58 env addr) then num + 1 else num);
            flag = (if \<not> recorded (ToBase58 env address) then True else flag)
        in count_votes who env recorded address es (num, sum + 1, flag))
      else count_votes who env recorded address es acc)"

section \<open>What they compute\<close>

lemma peer_address_signer: "peer_address who env key = Inr a \<longleftrightarrow> signer env key = Some a"
  by (auto simp: peer_address_def signer_def orelse_err_def split: option.splits)

lemma keys_decode_Cons:
  assumes "keys_decode env ((key, v) # m)"
  shows "keys_decode env m"
    and "Status v = ConsensusStatus \<Longrightarrow> \<exists>a. signer env key = Some a \<and> peer_address who env key = Inr a"
  using assms by (auto simp: keys_decode_def consensus_def peer_address_signer)

definition consensus_addr :: "Env \<Rightarrow> PeerPoolMap \<Rightarrow> address \<Rightarrow> bool" where
  "consensus_addr env m a \<longleftrightarrow> (\<exists>e \<in> set m. consensus e \<and> signer env (fst e) = Some a)"

lemma consensus_addr_pos: "consensus_addr env m a \<Longrightarrow> n_consensus m > 0"
  by (auto simp: consensus_addr_def n_consensus_def filter_empty_conv)

lemma is_consensus_peer_spec:
  "keys_decode env m \<Longrightarrow> is_consensus_peer who env a m = Inr (consensus_addr env m a)"
proof (induction m)
  case (Cons e m)
  obtain key v where e: "e = (key, v)" by (cases e)
  from keys_decode_Cons(1) [OF Cons.prems [unfolded e]] keys_decode_Cons(2) [OF Cons.prems [unfolded e], of who]
    Cons.IH show ?case
    by (cases "Status v = ConsensusStatus") (auto simp: e consensus_addr_def consensus_def)
qed (simp add: consensus_addr_def)

text \<open>The peers whose record is there.\<close>

definition recorded_peers :: "Env \<Rightarrow> (bytes \<Rightarrow> bool) \<Rightarrow> address set" where
  "recorded_peers env rec = {a. rec (ToBase58 env a)}"

lemma map_of_recorded: "(\<exists>y. map_of m k = Some y) \<longleftrightarrow> k \<in> fst ` set m"
  using map_of_eq_None_iff [of m k] by (cases "map_of m k") auto

lemma count_votes_spec:
  "keys_decode env m \<Longrightarrow> count_votes who env rec a m (i, j, f)
    = Inr (i + n_signed env (recorded_peers env rec) m, j + n_consensus m,
        f \<or> (n_consensus m > 0 \<and> a \<notin> recorded_peers env rec))"
proof (induction m arbitrary: i j f)
  case (Cons e m)
  obtain key w where e: "e = (key, w)" by (cases e)
  show ?case
  proof (cases "Status w = ConsensusStatus")
    case True
    with keys_decode_Cons(2) [OF Cons.prems [unfolded e]] obtain b where
      "signer env key = Some b" "peer_address who env key = Inr b" by blast
    with True Cons.IH [OF keys_decode_Cons(1) [OF Cons.prems [unfolded e]]] show ?thesis
      by (auto simp: e n_signed_def n_consensus_def consensus_def signed_def recorded_peers_def Let_def)
  next
    case False
    with Cons.IH [OF keys_decode_Cons(1) [OF Cons.prems [unfolded e]]] show ?thesis
      by (auto simp: e n_signed_def n_consensus_def consensus_def signed_def)
  qed
qed (simp add: n_signed_def n_consensus_def)

lemma count_votes_decodes: "count_votes who env rec a m acc = Inr r \<Longrightarrow> keys_decode env m"
proof (induction m arbitrary: acc)
  case (Cons e m)
  obtain key w where e: "e = (key, w)" by (cases e)
  obtain i j f where acc: "acc = (i, j, f)" by (cases acc)
  show ?case
  proof (cases "Status w = ConsensusStatus")
    case True
    with Cons.prems obtain b acc' where b: "peer_address who env key = Inr b" "count_votes who env rec a m acc' = Inr r"
      by (auto simp: e acc Let_def)
    from b(1) have "signer env key = Some b" by (simp add: peer_address_signer)
    with Cons.IH [OF b(2)] show ?thesis by (simp add: keys_decode_def e)
  next
    case False
    with Cons.prems have "count_votes who env rec a m acc = Inr r" by (simp add: e acc)
    with Cons.IH False show ?thesis by (simp add: keys_decode_def e consensus_def)
  qed
qed (simp add: keys_decode_def)

section \<open>One more peer\<close>

text \<open>No two consensus peers of the pool have the same address.\<close>

definition distinct_signers :: "Env \<Rightarrow> PeerPoolMap \<Rightarrow> bool" where
  "distinct_signers env m \<longleftrightarrow> distinct (map (\<lambda>e. signer env (fst e)) (filter consensus m))"

lemma n_signed_insert:
  assumes "distinct_signers env m" and "consensus_addr env m a" and "a \<notin> A"
  shows "n_signed env (insert a A) m = Suc (n_signed env A m)"
  using assms
proof (induction m)
  case (Cons e m)
  show ?case
  proof (cases "consensus e \<and> signer env (fst e) = Some a")
    case True
    have none: "\<forall>x \<in> set m. consensus x \<longrightarrow> signer env (fst x) \<noteq> Some a"
    proof (intro ballI impI notI)
      fix x assume "x \<in> set m" "consensus x" "signer env (fst x) = Some a"
      then have "Some a \<in> (\<lambda>e. signer env (fst e)) ` set (filter consensus m)" by force
      with Cons.prems(1) True show False by (simp add: distinct_signers_def)
    qed
    have "n_signed env (insert a A) m = n_signed env A m"
      unfolding n_signed_def using none
      by (intro arg_cong [where f = length] filter_cong) (auto simp: signed_def split: option.splits)
    with True Cons.prems(3) show ?thesis by (simp add: n_signed_def signed_def)
  next
    case False
    with Cons.prems have "distinct_signers env m" "consensus_addr env m a"
      by (auto simp: distinct_signers_def consensus_addr_def split: if_splits)
    with Cons.IH Cons.prems(3) have "n_signed env (insert a A) m = Suc (n_signed env A m)" by simp
    with False show ?thesis by (auto simp: n_signed_def signed_def split: option.splits)
  qed
qed (simp add: consensus_addr_def)

text \<open>The number of recorded peers once the caller is recorded too.\<close>

definition count_with :: "Env \<Rightarrow> address \<Rightarrow> address set \<Rightarrow> PeerPoolMap \<Rightarrow> nat" where
  "count_with env a A m = n_signed env A m + (if a \<in> A then 0 else 1)"

lemma count_with_insert:
  "distinct_signers env m \<Longrightarrow> consensus_addr env m a \<Longrightarrow> count_with env a A m = n_signed env (insert a A) m"
  by (cases "a \<in> A") (simp_all add: count_with_def n_signed_insert insert_absorb)

end
