(* ===== verification/Consensus_Vote.thy ===== *)
theory Consensus_Vote
  imports Cross_Common Peer_Quorum
begin

text \<open>
  Voting of the consensus peers on cross-chain transactions
  (\<open>native/service/cross_chain_manager/consensus_vote\<close>): the votes for an identifier are collected under the
  base58 text of the voters' addresses; the call that completes the quorum sets the status, and no later call
  for the identifier reports success again.
\<close>

section \<open>Votes\<close>

record VoteInfo =
  vi_Status :: bool
  vi_Votes :: "(bytes \<times> bool) list"

definition vote_bytes :: "bytes \<times> bool \<Rightarrow> bytes" where
  "vote_bytes e = enc_varbytes (fst e) @ enc_bool (snd e)"

definition read_vote :: "ZeroCopySource \<Rightarrow> ((bytes \<times> bool) \<times> ZeroCopySource) option" where
  "read_vote src =
     do { (k, src) \<leftarrow> ok_read NextString src;
          (v, src) \<leftarrow> ok_read NextBool src;
          Some ((k, v), src) }"

definition VoteInfo_Serialization :: "VoteInfo \<Rightarrow> bytes" where
  "VoteInfo_Serialization v = enc_bool (vi_Status v) @ map_ser enc_uint64 vote_bytes (\<lambda>k. k) (vi_Votes v)"

definition VoteInfo_Deserialization :: "ZeroCopySource \<Rightarrow> (VoteInfo \<times> ZeroCopySource) option" where
  "VoteInfo_Deserialization src =
     do { (status, src) \<leftarrow> ok_read NextBool src;
          (voteInfo, src) \<leftarrow> map_deser (ok_read NextUint64) read_vote src;
          Some (\<lparr>vi_Status = status, vi_Votes = voteInfo\<rparr>, src) }"

interpretation rd_vote: codec vote_bytes read_vote "\<lambda>e. fits (fst e)"
  unfolding read_vote_def [abs_def] vote_bytes_def
  by unfold_locales (simp add: codec_simps, intro rd_rules)

interpretation rd_votes: map_codec vote_bytes read_vote "\<lambda>e. fits (fst e)" enc_uint64 "ok_read NextUint64" "\<lambda>k. k"
  by unfold_locales (simp add: inj_on_def)

definition votes_ok :: "VoteInfo \<Rightarrow> bool" where
  "votes_ok v \<longleftrightarrow> map_ok (\<lambda>e. fits (fst e)) (vi_Votes v)"

definition votes_canon :: "VoteInfo \<Rightarrow> VoteInfo" where
  "votes_canon v = v\<lparr>vi_Votes := map_canon (\<lambda>k. k) (vi_Votes v)\<rparr>"

lemma VoteInfo_read:
  assumes "votes_ok v" and "fits (VoteInfo_Serialization v)"
  shows "VoteInfo_Deserialization (NewZeroCopySource (VoteInfo_Serialization v))
    = Some (votes_canon v, src_at (VoteInfo_Serialization v) [])"
  using rd_votes.read_any [of "vi_Votes v" "enc_bool (vi_Status v)" "[]"] assms
  by (simp add: VoteInfo_Deserialization_def VoteInfo_Serialization_def votes_ok_def votes_canon_def codec_simps
      NewZeroCopySource_at rd_bool.roundtrip [where pre = "[]", simplified])

definition getVoteInfo :: "NativeService \<Rightarrow> bytes \<Rightarrow> err + VoteInfo" where
  "getVoteInfo ns i =
     ebind (load_item ''getVoteInfo, get getVoteInfoStore error'' ''getVoteInfo, deserialize from raw storage item err''
         ''getVoteInfo, deserialize VoteInfo err'' VoteInfo_Deserialization ns (ckey [VOTE_INFO, i]))
       (\<lambda>voteInfo. Inr (case voteInfo of None \<Rightarrow> \<lparr>vi_Status = False, vi_Votes = []\<rparr> | Some v \<Rightarrow> v))"

definition putVoteInfo :: "bytes \<Rightarrow> VoteInfo \<Rightarrow> NativeService \<Rightarrow> NativeService" where
  "putVoteInfo i voteInfo ns =
     db_Put (ckey [VOTE_INFO, i]) (GenRawStorageItem (VoteInfo_Serialization voteInfo)) ns"

section \<open>Counting\<close>

definition CheckVotes :: "Env \<Rightarrow> bytes \<Rightarrow> address \<Rightarrow> NativeService \<Rightarrow> err + (bool \<times> NativeService)" where
  "CheckVotes env i address ns =
     ebind (getVoteInfo ns i) (\<lambda>voteInfo.
     if vi_Status voteInfo then Inr (False, ns)
     else
     ebind (GetView ns) (\<lambda>view.
     ebind (GetPeerPoolMap ns view) (\<lambda>peerPoolMap.
     ebind (is_consensus_peer ''CheckVotes'' env address peerPoolMap) (\<lambda>cons.
     if \<not> cons then Inl ''CheckVotes, signer is not consensus peer''
     else
     ebind (count_votes ''CheckVotes'' env (\<lambda>k. map_of (vi_Votes voteInfo) k \<noteq> None) address peerPoolMap (0, 0, False)) (\<lambda>(num, sum, flag).
     let (voteInfo, num, ns) =
           (if flag
            then (let voteInfo = voteInfo\<lparr>vi_Votes := AList.update (ToBase58 env address) True (vi_Votes voteInfo)\<rparr>
                  in (voteInfo, num + 1, putVoteInfo i voteInfo ns))
            else (voteInfo, num, ns))
     in if num \<ge> (2 * sum + 2) div 3
        then Inr (True, putVoteInfo i (voteInfo\<lparr>vi_Status := True\<rparr>) ns)
        else Inr (False, ns))))))"

section \<open>What a call does\<close>

text \<open>The peers whose vote is recorded.\<close>

definition voters :: "Env \<Rightarrow> VoteInfo \<Rightarrow> address set" where
  "voters env v = {a. ToBase58 env a \<in> fst ` set (vi_Votes v)}"

lemma recorded_voters [simp]: "recorded_peers env (\<lambda>k. \<exists>y. map_of (vi_Votes v) k = Some y) = voters env v"
  by (simp add: recorded_peers_def voters_def map_of_recorded)

definition add_vote :: "Env \<Rightarrow> address \<Rightarrow> VoteInfo \<Rightarrow> VoteInfo" where
  "add_vote env a v =
     (if a \<in> voters env v then v else v\<lparr>vi_Votes := AList.update (ToBase58 env a) True (vi_Votes v)\<rparr>)"

abbreviation new_votes :: "Env \<Rightarrow> address \<Rightarrow> VoteInfo \<Rightarrow> PeerPoolMap \<Rightarrow> nat" where
  "new_votes env a v m \<equiv> count_with env a (voters env v) m"

lemma putVoteInfo_twice: "putVoteInfo i v (putVoteInfo i w ns) = putVoteInfo i v ns"
  by (simp add: putVoteInfo_def db_Put_def)

lemma CheckVotes_eq:
  assumes "getVoteInfo ns i = Inr v" "\<not> vi_Status v" "GetGovernanceView ns = Inr gv"
    "GetPeerPoolMap ns (View gv) = Inr m" "keys_decode env m"
  shows "CheckVotes env i a ns =
    (if \<not> consensus_addr env m a then Inl ''CheckVotes, signer is not consensus peer''
     else if 2 * n_consensus m \<le> 3 * new_votes env a v m
     then Inr (True, putVoteInfo i ((add_vote env a v)\<lparr>vi_Status := True\<rparr>) ns)
     else Inr (False, if a \<in> voters env v then ns else putVoteInfo i (add_vote env a v) ns))"
  using assms consensus_addr_pos [of env m a]
  by (auto simp: CheckVotes_def GetView_def is_consensus_peer_spec count_votes_spec Let_def quorum_iff count_with_def
      add_vote_def putVoteInfo_twice)

lemma CheckVotes_Inr:
  assumes "CheckVotes env i a ns = Inr (ok, ns')"
  obtains (passed) v where "getVoteInfo ns i = Inr v" "vi_Status v" "\<not> ok" "ns' = ns"
  | (counted) v gv m where "getVoteInfo ns i = Inr v" "\<not> vi_Status v" "GetGovernanceView ns = Inr gv"
    "GetPeerPoolMap ns (View gv) = Inr m" "keys_decode env m" "consensus_addr env m a"
    "ok \<longleftrightarrow> 2 * n_consensus m \<le> 3 * new_votes env a v m"
    "ns' = (if ok then putVoteInfo i ((add_vote env a v)\<lparr>vi_Status := True\<rparr>) ns
            else if a \<in> voters env v then ns else putVoteInfo i (add_vote env a v) ns)"
proof -
  from assms obtain v where v: "getVoteInfo ns i = Inr v" by (auto simp: CheckVotes_def)
  show thesis
  proof (cases "vi_Status v")
    case True
    with v assms passed [OF v] show thesis by (simp add: CheckVotes_def)
  next
    case False
    with v assms obtain gv m b r where g: "GetGovernanceView ns = Inr gv" "GetPeerPoolMap ns (View gv) = Inr m"
      and r: "count_votes ''CheckVotes'' env (\<lambda>k. \<exists>y. map_of (vi_Votes v) k = Some y) a m (0, 0, False) = Inr r"
      by (auto simp: CheckVotes_def GetView_def split: if_splits)
    note d = count_votes_decodes [OF r]
    from CheckVotes_eq [OF v False g d, of a] assms counted [OF v False g d] show thesis
      by (simp split: if_splits)
  qed
qed

section \<open>Votes stay\<close>

lemma getVoteInfo_put:
  assumes "votes_ok v" and "length (VoteInfo_Serialization v) < 2 ^ 62"
  shows "getVoteInfo (putVoteInfo i v ns) i = Inr (votes_canon v)"
  using VoteInfo_read [OF assms(1)] assms(2)
  by (simp add: getVoteInfo_def putVoteInfo_def load_item_def store_simps)

lemma voters_canon [simp]: "votes_ok v \<Longrightarrow> voters env (votes_canon v) = voters env v"
  by (simp add: voters_def votes_canon_def votes_ok_def map_ok_def canon_distinct)

lemma status_canon [simp]: "vi_Status (votes_canon v) = vi_Status v"
  by (simp add: votes_canon_def)

lemma length_votes:
  "distinct (map fst m) \<Longrightarrow>
   length (map_ser enc_uint64 vote_bytes (\<lambda>k. k) m) = 8 + (\<Sum>e\<leftarrow>m. length (vote_bytes e))"
  by (simp add: rd_votes.length_ser enc_uint64_def)

text \<open>The size bounds under which a vote is read back.\<close>

definition small_votes :: "Env \<Rightarrow> address \<Rightarrow> VoteInfo \<Rightarrow> bool" where
  "small_votes env a v \<longleftrightarrow> votes_ok v \<and> length (VoteInfo_Serialization v) < 2 ^ 61 \<and> length (ToBase58 env a) < 2 ^ 60
     \<and> length (vi_Votes v) < 2 ^ 61"

lemma add_vote_ok:
  assumes "small_votes env a v"
  shows "votes_ok (add_vote env a v)" "length (VoteInfo_Serialization ((add_vote env a v)\<lparr>vi_Status := s\<rparr>)) < 2 ^ 62"
proof -
  let ?k = "ToBase58 env a"
  have d: "distinct (map fst (vi_Votes v))" using assms by (simp add: small_votes_def votes_ok_def map_ok_def)
  show "votes_ok (add_vote env a v)"
    using assms map_ok_update [of "\<lambda>e. fits (fst e)" "vi_Votes v" ?k True]
    by (auto simp: add_vote_def small_votes_def votes_ok_def)
  have n: "length (VoteInfo_Serialization v) = 1 + (8 + (\<Sum>e\<leftarrow>vi_Votes v. length (vote_bytes e)))"
    by (simp add: VoteInfo_Serialization_def length_votes [OF d] enc_bool_def)
  have b: "length (vote_bytes (?k, True)) \<le> 2 ^ 60 + 10"
    using assms by (simp add: vote_bytes_def enc_varbytes_def enc_varuint_def enc_bool_def small_votes_def)
  show "length (VoteInfo_Serialization ((add_vote env a v)\<lparr>vi_Status := s\<rparr>)) < 2 ^ 62"
  proof (cases "a \<in> voters env v")
    case True
    then show ?thesis using n assms
      by (simp add: add_vote_def VoteInfo_Serialization_def length_votes [OF d] enc_bool_def small_votes_def)
  next
    case False
    then have k: "?k \<notin> fst ` set (vi_Votes v)" by (simp add: voters_def)
    have "length (VoteInfo_Serialization ((add_vote env a v)\<lparr>vi_Status := s\<rparr>))
        = 9 + (\<Sum>e\<leftarrow>vi_Votes v. length (vote_bytes e)) + length (vote_bytes (?k, True))"
      using False d k by (simp add: add_vote_def VoteInfo_Serialization_def update_snoc [OF k] length_votes enc_bool_def)
    with n b assms show ?thesis by (simp add: small_votes_def)
  qed
qed

subsection \<open>Base58 texts are different for different addresses\<close>

lemma get_be_inject: "length xs = length ys \<Longrightarrow> get_be xs = get_be ys \<Longrightarrow> xs = ys"
proof -
  assume "length xs = length ys" "get_be xs = get_be ys"
  then have "put_le (length (rev xs)) (get_le (rev xs)) = put_le (length (rev ys)) (get_le (rev ys))"
    by (simp add: get_be_def)
  then show "xs = ys" unfolding put_le_get_le by simp
qed

lemma ToBase58_inject:
  assumes "\<And>d. base58_Decode env (base58_Encode env d) = Some d" and "length a = length b"
    and "ToBase58 env a = ToBase58 env b"
  shows "a = b"
proof -
  let ?d = "\<lambda>a. (23 :: byte) # a @ take 4 (sha256 (sha256 (23 # a)))"
  have e: "base58_Decode env (ToBase58 env x) = Some (dec_digits (get_be (?d x)))" for x
    by (simp only: ToBase58_def Let_def append_Cons assms(1))
  have "Some (dec_digits (get_be (?d a))) = Some (dec_digits (get_be (?d b)))"
    unfolding e [symmetric] assms(3) ..
  then have "big_SetString (dec_digits (get_be (?d a))) = big_SetString (dec_digits (get_be (?d b)))" by simp
  then have "get_be (?d a) = get_be (?d b)"
    unfolding big_SetString_dec_digits by simp
  moreover have "length (?d a) = length (?d b)" using assms(2) by simp
  ultimately have "?d a = ?d b" by (intro get_be_inject)
  with assms(2) show ?thesis by simp
qed

section \<open>The handler\<close>

text \<open>The marks were introduced on the test net at a certain height.\<close>

definition marks_done :: "NodeConfig \<Rightarrow> NativeService \<Rightarrow> bool" where
  "marks_done cfg ns \<longleftrightarrow> NETWORK_ID_TEST_NET \<noteq> NetworkId cfg \<or> height ns \<ge> 19954185"

lemma marks_done_main: "marks_done (cfg\<lparr>NetworkId := NETWORK_ID_MAIN_NET\<rparr>) ns"
  by (simp add: marks_done_def)

definition vote_MakeDepositProposal :: "Env \<Rightarrow> NodeConfig \<Rightarrow> ChainHandler" where
  "vote_MakeDepositProposal env cfg ns =
     ebind (parse_input EntranceParam_Deserialization
         ''vote MakeDepositProposal, contract params deserialize error'' ns) (\<lambda>params.
     ebind (orelse_err (AddressParseFromBytes (RelayerAddress params))
         ''vote MakeDepositProposal, common.AddressParseFromBytes error'') (\<lambda>address.
     if \<not> ValidateOwner env ns address then Inl ''vote MakeDepositProposal, checkWitness error''
     else
     let unique = \<lparr>SourceChainID = SourceChainID params, ep_Height = ep_Height params, Proof = [], RelayerAddress = [],
                   Extra = Extra params, HeaderOrCrossChainMsg = []\<rparr>;
         i = sha256 (EntranceParam_Serialization unique) in
     ebind (CheckVotes env i address ns) (\<lambda>(ok, ns).
     if ok then
       ebind (orelse_err (MakeTxParam_Deserialization (NewZeroCopySource (Extra params)))
         ''vote MakeDepositProposal, deserialize MakeTxParam error'') (\<lambda>(txParam, _).
       if marks_done cfg ns then
         ebind (CheckDoneTx (CrossChainID txParam) (SourceChainID params) ns) (\<lambda>_.
         Inr (Some txParam, PutDoneTx (CrossChainID txParam) (SourceChainID params) ns))
       else Inr (Some txParam, ns))
     else Inr (None, ns))))"

lemma putVoteInfo_done: "done_tx (putVoteInfo i v ns) c x \<longleftrightarrow> done_tx ns c x"
  by (simp add: done_tx_def putVoteInfo_def store_simps ckey_not_done)

lemma CheckVotes_done: "CheckVotes env i a ns = Inr (ok, ns') \<Longrightarrow> done_tx ns' c x \<longleftrightarrow> done_tx ns c x"
  by (erule CheckVotes_Inr) (simp_all add: putVoteInfo_done)

lemma vote_MakeDepositProposal_Inr:
  assumes "vote_MakeDepositProposal env cfg ns = Inr (r, ns')"
  obtains (pending) c i address where "source_chain ns = Some c"
    "ValidateOwner env ns address" "CheckVotes env i address ns = Inr (False, ns')" "r = None"
  | (unmarked) c i address txParam where "source_chain ns = Some c"
    "ValidateOwner env ns address" "CheckVotes env i address ns = Inr (True, ns')" "r = Some txParam"
    "\<not> marks_done cfg ns'"
  | (marked) c i address ns1 txParam where "source_chain ns = Some c"
    "ValidateOwner env ns address" "CheckVotes env i address ns = Inr (True, ns1)" "r = Some txParam"
    "marks_done cfg ns1" "\<not> done_tx ns1 (c) (CrossChainID txParam)"
    "ns' = PutDoneTx (CrossChainID txParam) c ns1"
proof -
  let ?e = "''vote MakeDepositProposal, contract params deserialize error''"
  obtain params where p: "parse_input EntranceParam_Deserialization ?e ns = Inr params"
    using assms by (cases "parse_input EntranceParam_Deserialization ?e ns") (simp_all add: vote_MakeDepositProposal_def)
  obtain address where a: "AddressParseFromBytes (RelayerAddress params) = Some address"
    using assms p by (cases "AddressParseFromBytes (RelayerAddress params)") (simp_all add: vote_MakeDepositProposal_def)
  have v: "ValidateOwner env ns address"
    by (rule ccontr) (use assms p a in \<open>simp add: vote_MakeDepositProposal_def\<close>)
  define i where "i = sha256 (EntranceParam_Serialization \<lparr>SourceChainID = SourceChainID params, ep_Height = ep_Height params,
      Proof = [], RelayerAddress = [], Extra = Extra params, HeaderOrCrossChainMsg = []\<rparr>)"
  note run = assms [unfolded vote_MakeDepositProposal_def Let_def p a ebind_Inr orelse_err_simps, folded i_def]
  obtain ok ns1 where c: "CheckVotes env i address ns = Inr (ok, ns1)"
    using run v by (cases "CheckVotes env i address ns") auto
  note s = source_chain_parse [OF p]
  show thesis
  proof (cases ok)
    case False
    with run v c show thesis by (intro pending [OF s v, of i]) simp_all
  next
    case True
    obtain txParam rest where t: "MakeTxParam_Deserialization (NewZeroCopySource (Extra params)) = Some (txParam, rest)"
      using run v c True by (cases "MakeTxParam_Deserialization (NewZeroCopySource (Extra params))") auto
    show thesis
    proof (cases "marks_done cfg ns1")
      case m: True
      with run v c t True show thesis
        by (cases "CheckDoneTx (CrossChainID txParam) (SourceChainID params) ns1")
          (auto simp: CheckDoneTx_Inr intro: marked [OF s v, of i ns1 txParam])
    next
      case False
      with run v c t True show thesis by (intro unmarked [OF s v, of i txParam]) simp_all
    qed
  qed
qed

interpretation vote: deposit_handler "vote_MakeDepositProposal env (cfg\<lparr>NetworkId := NETWORK_ID_MAIN_NET\<rparr>)" for env cfg
proof
  fix ns p ns'
  assume "vote_MakeDepositProposal env (cfg\<lparr>NetworkId := NETWORK_ID_MAIN_NET\<rparr>) ns = Inr (Some p, ns')"
  then show "\<exists>c. source_chain ns = Some c \<and> \<not> done_tx ns c (CrossChainID p) \<and> done_tx ns' c (CrossChainID p)"
  proof (cases rule: vote_MakeDepositProposal_Inr)
    case (marked c' i address ns1 txParam)
    then show ?thesis using CheckVotes_done [OF marked(3)] by (simp add: done_Put)
  qed (simp_all add: marks_done_main)
next
  fix ns r ns' c x
  assume "vote_MakeDepositProposal env (cfg\<lparr>NetworkId := NETWORK_ID_MAIN_NET\<rparr>) ns = Inr (r, ns')" and n: "done_tx ns c x"
  then show "done_tx ns' c x"
  proof (cases rule: vote_MakeDepositProposal_Inr)
    case (pending c' i address)
    then show ?thesis using CheckVotes_done [OF pending(3)] n by simp
  next
    case (unmarked c' i address txParam)
    then show ?thesis using CheckVotes_done [OF unmarked(3)] n by simp
  next
    case (marked c' i address ns1 txParam)
    then show ?thesis using CheckVotes_done [OF marked(3)] n by (simp add: done_Put)
  qed
qed

end
