(* ===== verification/Vote_Claims.thy ===== *)
theory Vote_Claims
  imports Consensus_Vote Sample_States
begin

text \<open>
  The properties of the voting on cross-chain transactions: when a vote completes the quorum, and that an
  identifier is reported at most once.
\<close>

section \<open>Votes and the quorum\<close>

lemma new_votes_insert:
  "distinct_signers env m \<Longrightarrow> consensus_addr env m a \<Longrightarrow>
    new_votes env a v m = n_signed env (insert a (voters env v)) m"
  by (rule count_with_insert)

lemma voters_add:
  assumes "\<And>d. base58_Decode env (base58_Encode env d) = Some d" and "length a = ADDR_LEN" and "length b = ADDR_LEN"
  shows "b \<in> voters env (add_vote env a v) \<longleftrightarrow> b = a \<or> b \<in> voters env v"
proof -
  have "ToBase58 env b = ToBase58 env a \<longleftrightarrow> b = a" using ToBase58_inject [OF assms(1)] assms(2,3) by metis
  then show ?thesis by (auto simp: voters_def add_vote_def keys_update)
qed

section \<open>A sample vote\<close>

lemma length_ToBase58_plain: "length a = ADDR_LEN \<Longrightarrow> length (ToBase58 plain_env a) \<le> 100"
proof -
  let ?d = "23 # a @ take 4 (sha256 (sha256 (23 # a)))"
  assume a: "length a = ADDR_LEN"
  have "get_be ?d < 256 ^ length (rev ?d)" unfolding get_be_def by (rule get_le_less)
  then have "get_be ?d < 256 ^ 25" using a by (simp add: size_defs)
  also have "\<dots> < (10 :: nat) ^ Suc 99" by simp
  finally have "length (dec_digits (get_be ?d)) \<le> Suc 99" by (rule length_dec_digits)
  moreover have "ToBase58 plain_env a = dec_digits (get_be ?d)"
    by (simp only: ToBase58_def Let_def append_Cons) (simp add: plain_env_def)
  ultimately show ?thesis by simp
qed

definition vote_call :: NativeService where "vote_call = solo_call 3 [] []"

lemma vote_call_facts:
  "getVoteInfo vote_call i = Inr \<lparr>vi_Status = False, vi_Votes = []\<rparr>"
  "small_votes plain_env solo \<lparr>vi_Status = False, vi_Votes = []\<rparr>"
  "GetGovernanceView vote_call = Inr sample_view" "GetPeerPoolMap vote_call (View sample_view) = Inr pool1"
  "distinct_signers plain_env pool1" "consensus_addr plain_env pool1 solo"
proof -
  show "getVoteInfo vote_call i = Inr \<lparr>vi_Status = False, vi_Votes = []\<rparr>"
    by (simp add: getVoteInfo_def load_item_def vote_call_def solo_call_def solo_call_base)
  show "small_votes plain_env solo \<lparr>vi_Status = False, vi_Votes = []\<rparr>"
    using length_ToBase58_plain [of solo]
    by (simp add: small_votes_def votes_ok_def map_ok_def VoteInfo_Serialization_def map_ser_def SliceStable_def
        enc_bool_def enc_uint64_def)
  show "GetGovernanceView vote_call = Inr sample_view" "GetPeerPoolMap vote_call (View sample_view) = Inr pool1"
    using solo_call_gets [of 3 "[]" "[]"] by (simp_all add: vote_call_def) (simp add: sample_view_def)
  show "distinct_signers plain_env pool1" "consensus_addr plain_env pool1 solo"
    by (simp_all add: distinct_signers_def consensus_addr_def pool1_def sample_peer_def consensus_def signer_def str_aa
        plain_env_def AddressFromPubKey_def AddressFromVmCode_def solo_def)
qed

section \<open>Properties\<close>



text \<open>
  Calls on one identifier by any callers, interleaved with anything that leaves the identifier's record alone;
  the answers are logged.
\<close>

inductive vote_run :: "Env \<Rightarrow> bytes \<Rightarrow> NativeService \<Rightarrow> bool list \<Rightarrow> NativeService \<Rightarrow> bool" for env i ns where
  start: "vote_run env i ns [] ns"
| vote: "vote_run env i ns rs ns1 \<Longrightarrow> \<forall>v. getVoteInfo ns1 i = Inr v \<longrightarrow> small_votes env a v \<Longrightarrow>
    CheckVotes env i a ns1 = Inr (ok, ns2) \<Longrightarrow> vote_run env i ns (rs @ [ok]) ns2"
| other: "vote_run env i ns rs ns1 \<Longrightarrow> db_Get ns2 (ckey [VOTE_INFO, i]) = db_Get ns1 (ckey [VOTE_INFO, i]) \<Longrightarrow>
    vote_run env i ns rs ns2"

definition closed :: "bytes \<Rightarrow> NativeService \<Rightarrow> bool" where
  "closed i ns \<longleftrightarrow> (\<exists>v. getVoteInfo ns i = Inr v \<and> vi_Status v)"

lemma CheckVotes_closed:
  assumes "CheckVotes env i a ns = Inr (ok, ns')" and "\<forall>v. getVoteInfo ns i = Inr v \<longrightarrow> small_votes env a v"
  shows "closed i ns \<Longrightarrow> \<not> ok \<and> closed i ns'" "ok \<Longrightarrow> closed i ns'"
proof -
  from assms(1) show "closed i ns \<Longrightarrow> \<not> ok \<and> closed i ns'"
    by (auto simp: closed_def CheckVotes_def)
  from assms(1) show "closed i ns'" if ok
  proof (cases rule: CheckVotes_Inr)
    case (counted v gv m)
    note k = add_vote_ok [OF assms(2) [rule_format, OF counted(1)]]
    have "votes_ok ((add_vote env a v)\<lparr>vi_Status := True\<rparr>)" using k(1) by (simp add: votes_ok_def)
    from getVoteInfo_put [OF this k(2)] counted(8) that show ?thesis by (simp add: closed_def)
  qed (use that in simp)
qed

text \<open>
  C10 (safety): whoever votes, in whatever order and between whatever other transactions, the voting on one
  identifier reports success at most once.
\<close>

theorem votes_report_once:
  assumes "vote_run env i ns rs ns'"
  shows "length (filter (\<lambda>ok. ok) rs) \<le> 1"
proof -
  from assms have "length (filter (\<lambda>ok. ok) rs) \<le> 1 \<and> (filter (\<lambda>ok. ok) rs \<noteq> [] \<longrightarrow> closed i ns')"
  proof induction
    case (vote rs ns1 a ok ns2)
    note c = CheckVotes_closed [OF vote(3,2)]
    show ?case
    proof (cases "filter (\<lambda>ok. ok) rs = []")
      case True
      with c(2) show ?thesis by (cases ok) simp_all
    next
      case False
      with vote.IH c(1) show ?thesis by simp
    qed
  next
    case (other rs ns1 ns2)
    have "getVoteInfo ns2 i = getVoteInfo ns1 i" unfolding getVoteInfo_def load_item_cong [OF other(2)] ..
    with other.IH show ?case by (simp add: closed_def)
  qed simp
  then show ?thesis ..
qed

theorem votes_report_once_witness:
  "\<exists>rs ns'. vote_run plain_env [7] vote_call rs ns' \<and> True \<in> set rs \<and> length (filter (\<lambda>ok. ok) rs) \<le> 1"
proof -
  note f = vote_call_facts
  have n: "new_votes plain_env solo \<lparr>vi_Status = False, vi_Votes = []\<rparr> pool1 = 1"
    using new_votes_insert [OF f(5,6)] pool1_keys(3) by (simp add: solo_def)
  obtain ns' where "CheckVotes plain_env [7] solo vote_call = Inr (True, ns')"
    using CheckVotes_eq [OF f(1) _ f(3,4) pool1_keys(1), of "[7]" solo] by (simp add: f(6) n pool1_keys)
  then have r: "vote_run plain_env [7] vote_call ([] @ [True]) ns'"
    by (rule vote_run.vote [OF vote_run.start, rotated]) (simp add: f(1,2))
  with votes_report_once [OF r] show ?thesis by (intro exI [of _ "[] @ [True]"] exI [of _ ns']) simp
qed

end
