(* ===== verification/Side_Chain_States.thy ===== *)
theory Side_Chain_States
  imports Cross_Common
begin

text \<open>
  The stored records and the parameters of the side chain manager contract
  (\<open>native/service/governance/side_chain_manager/states.go\<close> and \<open>param.go\<close>).  A side chain's record ends with
  an extra field that older blocks do not write and that the reader takes without looking at the end-of-file
  flag; the other records satisfy the contract \<open>codec\<close>, the maps through \<open>map_codec\<close>.  A \<open>big.Int\<close> is a
  natural number written as its big-endian bytes.
\<close>

section \<open>Big integers\<close>

lemma get_be_snoc_byte: "get_be (bs @ [b]) = 256 * get_be bs + unat b"
  by (simp add: get_be_def)

lemma get_be_big_Bytes: "get_be (big_Bytes n) = n"
proof (induction n rule: big_Bytes.induct)
  case (1 n)
  show ?case
  proof (cases "n = 0")
    case False
    have "unat (of_nat (n mod 256) :: byte) = n mod 256" by (simp add: unat_of_nat)
    with 1 False show ?thesis by (subst big_Bytes.simps) (simp add: get_be_snoc_byte)
  qed (simp add: big_Bytes.simps get_be_def)
qed

section \<open>Side chains\<close>

record SideChain =
  sc_Address :: address
  sc_ChainId :: uint64
  Router :: uint64
  Name :: bytes
  BlocksToWait :: uint64
  CCMCAddress :: bytes
  ExtraInfo :: bytes

text \<open>\<open>config.GetExtraInfoHeight\<close> and the test on it.\<close>

definition GetExtraInfoHeight :: "uint32 \<Rightarrow> uint32" where
  "GetExtraInfoHeight i = (if i = NETWORK_ID_MAIN_NET then 2917744 else if i = NETWORK_ID_TEST_NET then 1664798 else 0)"

definition extra_info_on :: "NodeConfig \<Rightarrow> bool" where
  "extra_info_on cfg \<longleftrightarrow>
     \<not> EXTRA_INFO_HEIGHT_FORK_CHECK cfg \<or> CurrentBlockHeight cfg \<ge> GetExtraInfoHeight (NetworkId cfg)"

definition SideChain_Serialization :: "NodeConfig \<Rightarrow> SideChain \<Rightarrow> bytes" where
  "SideChain_Serialization cfg s =
     enc_varbytes (sc_Address s) @ enc_varuint (sc_ChainId s) @ enc_varuint (Router s) @ enc_varbytes (Name s)
     @ enc_varuint (BlocksToWait s) @ enc_varbytes (CCMCAddress s)
     @ (if extra_info_on cfg then enc_varbytes (ExtraInfo s) else [])"

definition SideChain_Deserialization :: "ZeroCopySource \<Rightarrow> (SideChain \<times> ZeroCopySource) option" where
  "SideChain_Deserialization src =
     do { (addr, src) \<leftarrow> read_addr src;
          (chainId, src) \<leftarrow> ok_read NextVarUint src;
          (router, src) \<leftarrow> ok_read NextVarUint src;
          (name, src) \<leftarrow> ok_read NextString src;
          (blocksToWait, src) \<leftarrow> ok_read NextVarUint src;
          (ccmcAddress, src) \<leftarrow> ok_read NextVarBytes src;
          let ((extraInfo, _), src) = NextVarBytes src in
          Some (\<lparr>sc_Address = addr, sc_ChainId = chainId, Router = router, Name = name, BlocksToWait = blocksToWait,
                 CCMCAddress = ccmcAddress, ExtraInfo = extraInfo\<rparr>, src) }"

text \<open>\<open>RegisterSideChainParam\<close> has the fields and the format of \<open>SideChain\<close>; a zero \<open>BlocksToWait\<close> is refused.\<close>

type_synonym RegisterSideChainParam = SideChain

definition RegisterSideChainParam_Serialization :: "NodeConfig \<Rightarrow> RegisterSideChainParam \<Rightarrow> bytes" where
  "RegisterSideChainParam_Serialization cfg s =
     enc_varbytes (sc_Address s) @ enc_varuint (sc_ChainId s) @ enc_varuint (Router s) @ enc_varbytes (Name s)
     @ enc_varuint (BlocksToWait s) @ enc_varbytes (CCMCAddress s)
     @ (if extra_info_on cfg then enc_varbytes (ExtraInfo s) else [])"

definition RegisterSideChainParam_Deserialization :: "ZeroCopySource \<Rightarrow> (RegisterSideChainParam \<times> ZeroCopySource) option" where
  "RegisterSideChainParam_Deserialization src =
     do { (addr, src) \<leftarrow> read_addr src;
          (chainId, src) \<leftarrow> ok_read NextVarUint src;
          (router, src) \<leftarrow> ok_read NextVarUint src;
          (name, src) \<leftarrow> ok_read NextString src;
          (blocksToWait, src) \<leftarrow> ok_read NextVarUint src;
          if blocksToWait = 0 then None else do {
          (ccmcAddress, src) \<leftarrow> ok_read NextVarBytes src;
          let ((extraInfo, _), src) = NextVarBytes src in
          Some (\<lparr>sc_Address = addr, sc_ChainId = chainId, Router = router, Name = name, BlocksToWait = blocksToWait,
                 CCMCAddress = ccmcAddress, ExtraInfo = extraInfo\<rparr>, src) }}"

definition SideChain_wf :: "SideChain \<Rightarrow> bool" where
  "SideChain_wf s \<longleftrightarrow> length (sc_Address s) = ADDR_LEN \<and> fits (Name s) \<and> fits (CCMCAddress s) \<and> fits (ExtraInfo s)"

text \<open>What is read back: the extra field is empty if it was not written.\<close>

definition stored_chain :: "NodeConfig \<Rightarrow> SideChain \<Rightarrow> SideChain" where
  "stored_chain cfg s = (if extra_info_on cfg then s else s\<lparr>ExtraInfo := []\<rparr>)"

lemma NextVarBytes_end: "fits pre \<Longrightarrow> NextVarBytes (src_at pre []) = (([], True), src_at pre [])"
  by (simp add: NextVarBytes_def NextVarUint_def NextByte_def src_at_def)

lemma NextVarBytes_at:
  assumes "fits b" "fits (pre @ enc_varbytes b @ rest)"
  shows "NextVarBytes (src_at pre (enc_varbytes b @ rest)) = ((b, False), src_at (pre @ enc_varbytes b) rest)"
  using rd_varbytes.roundtrip [OF assms] by (auto simp: ok_read_def split: prod.splits if_splits)

lemma SideChain_read:
  assumes "SideChain_wf s" and "fits (SideChain_Serialization cfg s)"
  shows "\<exists>src. SideChain_Deserialization (NewZeroCopySource (SideChain_Serialization cfg s)) = Some (stored_chain cfg s, src)"
proof (cases "extra_info_on cfg")
  case True
  with assms NextVarBytes_at [of "ExtraInfo s" _ "[]"] show ?thesis
    by (simp add: SideChain_Deserialization_def SideChain_Serialization_def SideChain_wf_def stored_chain_def
        NewZeroCopySource_at codec_simps rd_addr.roundtrip [where pre = "[]", simplified])
next
  case False
  with assms show ?thesis
    by (cases s) (simp add: SideChain_Deserialization_def SideChain_Serialization_def SideChain_wf_def stored_chain_def
        NewZeroCopySource_at codec_simps rd_addr.roundtrip [where pre = "[]", simplified]
        rd_varbytes.roundtrip [where rest = "[]", simplified] NextVarBytes_end)
qed

section \<open>Votes on redeem scripts\<close>

type_synonym BindSignInfo = "(bytes \<times> bytes) list"

definition bind_bytes :: "bytes \<times> bytes \<Rightarrow> bytes" where
  "bind_bytes e = enc_varbytes (fst e) @ enc_varbytes (snd e)"

definition read_bind :: "ZeroCopySource \<Rightarrow> ((bytes \<times> bytes) \<times> ZeroCopySource) option" where
  "read_bind src =
     do { (k, src) \<leftarrow> ok_read NextString src;
          (v, src) \<leftarrow> ok_read NextVarBytes src;
          Some ((k, v), src) }"

definition BindSignInfo_Serialization :: "BindSignInfo \<Rightarrow> bytes" where
  "BindSignInfo_Serialization m = map_ser enc_varuint bind_bytes (\<lambda>k. k) m"

definition BindSignInfo_Deserialization :: "ZeroCopySource \<Rightarrow> (BindSignInfo \<times> ZeroCopySource) option" where
  "BindSignInfo_Deserialization src = map_deser (ok_read NextVarUint) read_bind src"

interpretation rd_bind: codec bind_bytes read_bind "\<lambda>e. fits (fst e) \<and> fits (snd e)"
  unfolding read_bind_def [abs_def] bind_bytes_def
  by unfold_locales (simp add: codec_simps, intro rd_rules)

interpretation rd_binds: map_codec bind_bytes read_bind "\<lambda>e. fits (fst e) \<and> fits (snd e)" enc_varuint
  "ok_read NextVarUint" "\<lambda>k. k"
  by unfold_locales (simp add: inj_on_def)

record ContractBinded =
  Contract :: bytes
  Ver :: uint64

definition ContractBinded_Serialization :: "ContractBinded \<Rightarrow> bytes" where
  "ContractBinded_Serialization c = enc_varbytes (Contract c) @ enc_uint64 (Ver c)"

definition ContractBinded_Deserialization :: "ZeroCopySource \<Rightarrow> (ContractBinded \<times> ZeroCopySource) option" where
  "ContractBinded_Deserialization src =
     do { (contract, src) \<leftarrow> ok_read NextVarBytes src;
          (ver, src) \<leftarrow> ok_read NextUint64 src;
          Some (\<lparr>Contract = contract, Ver = ver\<rparr>, src) }"

interpretation rd_contract: codec ContractBinded_Serialization ContractBinded_Deserialization "\<lambda>c. fits (Contract c)"
  unfolding ContractBinded_Deserialization_def [abs_def] ContractBinded_Serialization_def
  by unfold_locales (simp add: codec_simps, intro rd_rules)

section \<open>Fees\<close>

record Fee =
  fee_View :: uint64
  fee_Fee :: nat

definition Fee_Serialization :: "Fee \<Rightarrow> bytes" where
  "Fee_Serialization f = enc_uint64 (fee_View f) @ enc_varbytes (big_Bytes (fee_Fee f))"

definition Fee_Deserialization :: "ZeroCopySource \<Rightarrow> (Fee \<times> ZeroCopySource) option" where
  "Fee_Deserialization src =
     do { (view, src) \<leftarrow> ok_read NextUint64 src;
          (fee, src) \<leftarrow> ok_read NextVarBytes src;
          Some (\<lparr>fee_View = view, fee_Fee = get_be fee\<rparr>, src) }"

interpretation rd_fee: codec Fee_Serialization Fee_Deserialization "\<lambda>f. fits (big_Bytes (fee_Fee f))"
  unfolding Fee_Deserialization_def [abs_def] Fee_Serialization_def
  by unfold_locales (simp add: codec_simps get_be_big_Bytes, intro rd_rules)

record FeeInfo =
  StartTime :: uint32
  fi_FeeInfo :: "(address \<times> nat) list"

definition fee_bytes :: "address \<times> nat \<Rightarrow> bytes" where
  "fee_bytes e = fst e @ enc_varbytes (big_Bytes (snd e))"

definition read_fee :: "ZeroCopySource \<Rightarrow> ((address \<times> nat) \<times> ZeroCopySource) option" where
  "read_fee src =
     do { (k, src) \<leftarrow> ok_read NextAddress src;
          (v, src) \<leftarrow> ok_read NextVarBytes src;
          Some ((k, get_be v), src) }"

definition FeeInfo_Serialization :: "FeeInfo \<Rightarrow> bytes" where
  "FeeInfo_Serialization f = enc_uint32 (StartTime f) @ map_ser enc_varuint fee_bytes ToHexString (fi_FeeInfo f)"

definition FeeInfo_Deserialization :: "ZeroCopySource \<Rightarrow> (FeeInfo \<times> ZeroCopySource) option" where
  "FeeInfo_Deserialization src =
     do { (startTime, src) \<leftarrow> ok_read NextUint32 src;
          (feeInfo, src) \<leftarrow> map_deser (ok_read NextVarUint) read_fee src;
          Some (\<lparr>StartTime = startTime, fi_FeeInfo = feeInfo\<rparr>, src) }"

definition fee_wf :: "address \<times> nat \<Rightarrow> bool" where
  "fee_wf e \<longleftrightarrow> length (fst e) = ADDR_LEN \<and> fits (big_Bytes (snd e))"

interpretation rd_feeent: codec fee_bytes read_fee fee_wf
  unfolding read_fee_def [abs_def] fee_bytes_def fee_wf_def
  by unfold_locales (simp add: codec_simps get_be_big_Bytes, intro rd_rules)

interpretation rd_fees: map_codec fee_bytes read_fee fee_wf enc_varuint "ok_read NextVarUint" ToHexString
  by unfold_locales (rule ToHexString_inj)

interpretation rd_feeinfo: codec FeeInfo_Serialization FeeInfo_Deserialization
  "\<lambda>f. map_ok fee_wf (fi_FeeInfo f) \<and> map_canon ToHexString (fi_FeeInfo f) = fi_FeeInfo f"
  unfolding FeeInfo_Deserialization_def [abs_def] FeeInfo_Serialization_def
  by unfold_locales (simp add: codec_simps rd_fees.whole.roundtrip, intro rd_rules rd_fees.whole.local_read)

section \<open>Ripple\<close>

text \<open>
  \<open>make([][]byte, l)\<close> panics when the slice of 24-byte headers would exceed the address space of the runtime.
\<close>

definition make_slices_panics :: "uint64 \<Rightarrow> bool" where
  "make_slices_panics l \<longleftrightarrow> 2 ^ 48 < unat l * 24"

abbreviation panic_makeslice :: err where
  "panic_makeslice \<equiv> ''panic: runtime error: makeslice: len out of range''"

record RippleExtraInfo =
  Operator :: address
  Sequence :: uint64
  Quorum :: uint64
  SignerNum :: uint64
  Pks :: "bytes list"
  ReserveAmount :: nat

definition RippleExtraInfo_Serialization :: "RippleExtraInfo \<Rightarrow> bytes" where
  "RippleExtraInfo_Serialization r =
     Operator r @ enc_uint64 (Sequence r) @ enc_uint64 (Quorum r) @ enc_uint64 (SignerNum r)
     @ enc_varuint (of_nat (length (Pks r))) @ concat (map enc_varbytes (Pks r)) @ enc_varbytes (big_Bytes (ReserveAmount r))"

text \<open>No value is returned on an error and on the panic; the next definition tells the two apart.\<close>

definition RippleExtraInfo_Deserialization :: "ZeroCopySource \<Rightarrow> (RippleExtraInfo \<times> ZeroCopySource) option" where
  "RippleExtraInfo_Deserialization src =
     do { (operator, src) \<leftarrow> ok_read NextAddress src;
          (sequence, src) \<leftarrow> ok_read NextUint64 src;
          (quorum, src) \<leftarrow> ok_read NextUint64 src;
          (signerNum, src) \<leftarrow> ok_read NextUint64 src;
          (l, src) \<leftarrow> ok_read NextVarUint src;
          if make_slices_panics l then None else do {
          (pks, src) \<leftarrow> read_list (ok_read NextVarBytes) (unat l) src;
          (reserveAmount, src) \<leftarrow> ok_read NextVarBytes src;
          Some (\<lparr>Operator = operator, Sequence = sequence, Quorum = quorum, SignerNum = signerNum, Pks = pks,
                 ReserveAmount = get_be reserveAmount\<rparr>, src) }}"

definition RippleExtraInfo_panics :: "ZeroCopySource \<Rightarrow> bool" where
  "RippleExtraInfo_panics src =
     (case (do { (operator, src) \<leftarrow> ok_read NextAddress src;
                 (sequence, src) \<leftarrow> ok_read NextUint64 src;
                 (quorum, src) \<leftarrow> ok_read NextUint64 src;
                 (signerNum, src) \<leftarrow> ok_read NextUint64 src;
                 ok_read NextVarUint src }) of None \<Rightarrow> False | Some (l, _) \<Rightarrow> make_slices_panics l)"

definition RippleExtraInfo_wf :: "RippleExtraInfo \<Rightarrow> bool" where
  "RippleExtraInfo_wf r \<longleftrightarrow> length (Operator r) = ADDR_LEN \<and> list_all fits (Pks r) \<and> length (Pks r) < 2 ^ 43
     \<and> fits (big_Bytes (ReserveAmount r))"

interpretation rd_ripple: codec RippleExtraInfo_Serialization RippleExtraInfo_Deserialization RippleExtraInfo_wf
proof
  fix x pre rest assume wf: "RippleExtraInfo_wf x" and fit: "fits (pre @ RippleExtraInfo_Serialization x @ rest)"
  have d: "\<forall>b \<in> set (Pks x). fits b" and l: "unat (of_nat (length (Pks x)) :: uint64) = length (Pks x)"
    using wf by (simp_all add: RippleExtraInfo_wf_def list_all_iff unat_of_nat)
  have p: "\<not> make_slices_panics (of_nat (length (Pks x)))"
    using wf l by (simp add: RippleExtraInfo_wf_def make_slices_panics_def)
  show "RippleExtraInfo_Deserialization (src_at pre (RippleExtraInfo_Serialization x @ rest))
      = Some (x, src_at (pre @ RippleExtraInfo_Serialization x) rest)"
    using fit wf rd_varbytes.list_roundtrip [OF d]
    by (simp add: RippleExtraInfo_Deserialization_def RippleExtraInfo_Serialization_def RippleExtraInfo_wf_def codec_simps
        l p get_be_big_Bytes)
next
  show "rd_local RippleExtraInfo_Deserialization"
    unfolding RippleExtraInfo_Deserialization_def [abs_def] by (intro rd_rules)
qed

section \<open>Parameters\<close>

record ChainidParam =
  Chainid :: uint64
  ci_Address :: address

definition ChainidParam_Serialization :: "ChainidParam \<Rightarrow> bytes" where
  "ChainidParam_Serialization p = enc_varuint (Chainid p) @ enc_varbytes (ci_Address p)"

definition ChainidParam_Deserialization :: "ZeroCopySource \<Rightarrow> (ChainidParam \<times> ZeroCopySource) option" where
  "ChainidParam_Deserialization src =
     do { (chainid, src) \<leftarrow> ok_read NextVarUint src;
          (addr, src) \<leftarrow> read_addr src;
          Some (\<lparr>Chainid = chainid, ci_Address = addr\<rparr>, src) }"

interpretation rd_chainid: codec ChainidParam_Serialization ChainidParam_Deserialization
  "\<lambda>p. length (ci_Address p) = ADDR_LEN"
  unfolding ChainidParam_Deserialization_def [abs_def] ChainidParam_Serialization_def
  by unfold_locales (simp add: codec_simps, intro rd_rules)

record RegisterRedeemParam =
  RedeemChainID :: uint64
  ContractChainID :: uint64
  Redeem :: bytes
  CVersion :: uint64
  rr_ContractAddress :: bytes
  rr_Signs :: "bytes list"

definition RegisterRedeemParam_Serialization :: "RegisterRedeemParam \<Rightarrow> bytes" where
  "RegisterRedeemParam_Serialization p =
     enc_varuint (RedeemChainID p) @ enc_varuint (ContractChainID p) @ enc_varbytes (Redeem p) @ enc_varuint (CVersion p)
     @ enc_varbytes (rr_ContractAddress p) @ enc_varuint (of_nat (length (rr_Signs p)))
     @ concat (map enc_varbytes (rr_Signs p))"

definition RegisterRedeemParam_Deserialization :: "ZeroCopySource \<Rightarrow> (RegisterRedeemParam \<times> ZeroCopySource) option" where
  "RegisterRedeemParam_Deserialization src =
     do { (redeemChainID, src) \<leftarrow> ok_read NextVarUint src;
          (contractChainID, src) \<leftarrow> ok_read NextVarUint src;
          (redeem, src) \<leftarrow> ok_read NextVarBytes src;
          (cver, src) \<leftarrow> ok_read NextVarUint src;
          (contractAddress, src) \<leftarrow> ok_read NextVarBytes src;
          (n, src) \<leftarrow> ok_read NextVarUint src;
          (signs, src) \<leftarrow> read_list (ok_read NextVarBytes) (unat n) src;
          Some (\<lparr>RedeemChainID = redeemChainID, ContractChainID = contractChainID, Redeem = redeem, CVersion = cver,
                 rr_ContractAddress = contractAddress, rr_Signs = signs\<rparr>, src) }"

definition RegisterRedeemParam_wf :: "RegisterRedeemParam \<Rightarrow> bool" where
  "RegisterRedeemParam_wf p \<longleftrightarrow> fits (Redeem p) \<and> fits (rr_ContractAddress p) \<and> list_all fits (rr_Signs p)
     \<and> length (rr_Signs p) < 2 ^ 62"

interpretation rd_redeem: codec RegisterRedeemParam_Serialization RegisterRedeemParam_Deserialization RegisterRedeemParam_wf
proof
  fix x pre rest assume wf: "RegisterRedeemParam_wf x" and fit: "fits (pre @ RegisterRedeemParam_Serialization x @ rest)"
  have d: "\<forall>b \<in> set (rr_Signs x). fits b" and l: "unat (of_nat (length (rr_Signs x)) :: uint64) = length (rr_Signs x)"
    using wf by (simp_all add: RegisterRedeemParam_wf_def list_all_iff unat_of_nat)
  show "RegisterRedeemParam_Deserialization (src_at pre (RegisterRedeemParam_Serialization x @ rest))
      = Some (x, src_at (pre @ RegisterRedeemParam_Serialization x) rest)"
    using fit wf rd_varbytes.list_roundtrip [OF d]
    by (simp add: RegisterRedeemParam_Deserialization_def RegisterRedeemParam_Serialization_def RegisterRedeemParam_wf_def
        codec_simps l)
next
  show "rd_local RegisterRedeemParam_Deserialization"
    unfolding RegisterRedeemParam_Deserialization_def [abs_def] by (intro rd_rules)
qed

record BtcTxParamDetial =
  PVersion :: uint64
  FeeRate :: uint64
  MinChange :: uint64

definition BtcTxParamDetial_Serialization :: "BtcTxParamDetial \<Rightarrow> bytes" where
  "BtcTxParamDetial_Serialization d = enc_varuint (PVersion d) @ enc_varuint (FeeRate d) @ enc_varuint (MinChange d)"

definition BtcTxParamDetial_Deserialization :: "ZeroCopySource \<Rightarrow> (BtcTxParamDetial \<times> ZeroCopySource) option" where
  "BtcTxParamDetial_Deserialization src =
     do { (pVersion, src) \<leftarrow> ok_read NextVarUint src;
          (feeRate, src) \<leftarrow> ok_read NextVarUint src;
          (minChange, src) \<leftarrow> ok_read NextVarUint src;
          Some (\<lparr>PVersion = pVersion, FeeRate = feeRate, MinChange = minChange\<rparr>, src) }"

interpretation rd_detial: codec BtcTxParamDetial_Serialization BtcTxParamDetial_Deserialization "\<lambda>_. True"
  unfolding BtcTxParamDetial_Deserialization_def [abs_def] BtcTxParamDetial_Serialization_def
  by unfold_locales (simp add: codec_simps, intro rd_rules)

lemmas [codec_simps] = rd_detial.roundtrip
lemmas [rd_rules] = rd_detial.local_read

record BtcTxParam =
  bt_Redeem :: bytes
  bt_RedeemChainId :: uint64
  bt_Sigs :: "bytes list"
  Detial :: BtcTxParamDetial

definition BtcTxParam_Serialization :: "BtcTxParam \<Rightarrow> bytes" where
  "BtcTxParam_Serialization p =
     enc_varbytes (bt_Redeem p) @ enc_varuint (bt_RedeemChainId p) @ enc_varuint (of_nat (length (bt_Sigs p)))
     @ concat (map enc_varbytes (bt_Sigs p)) @ BtcTxParamDetial_Serialization (Detial p)"

definition BtcTxParam_Deserialization :: "ZeroCopySource \<Rightarrow> (BtcTxParam \<times> ZeroCopySource) option" where
  "BtcTxParam_Deserialization src =
     do { (redeem, src) \<leftarrow> ok_read NextVarBytes src;
          (redeemChainId, src) \<leftarrow> ok_read NextVarUint src;
          (l, src) \<leftarrow> ok_read NextVarUint src;
          if make_slices_panics l then None else do {
          (sigs, src) \<leftarrow> read_list (ok_read NextVarBytes) (unat l) src;
          (detial, src) \<leftarrow> BtcTxParamDetial_Deserialization src;
          Some (\<lparr>bt_Redeem = redeem, bt_RedeemChainId = redeemChainId, bt_Sigs = sigs, Detial = detial\<rparr>, src) }}"

definition BtcTxParam_panics :: "ZeroCopySource \<Rightarrow> bool" where
  "BtcTxParam_panics src =
     (case (do { (redeem, src) \<leftarrow> ok_read NextVarBytes src;
                 (redeemChainId, src) \<leftarrow> ok_read NextVarUint src;
                 ok_read NextVarUint src }) of None \<Rightarrow> False | Some (l, _) \<Rightarrow> make_slices_panics l)"

definition BtcTxParam_wf :: "BtcTxParam \<Rightarrow> bool" where
  "BtcTxParam_wf p \<longleftrightarrow> fits (bt_Redeem p) \<and> list_all fits (bt_Sigs p) \<and> length (bt_Sigs p) < 2 ^ 43"

interpretation rd_btctx: codec BtcTxParam_Serialization BtcTxParam_Deserialization BtcTxParam_wf
proof
  fix x pre rest assume wf: "BtcTxParam_wf x" and fit: "fits (pre @ BtcTxParam_Serialization x @ rest)"
  have d: "\<forall>b \<in> set (bt_Sigs x). fits b" and l: "unat (of_nat (length (bt_Sigs x)) :: uint64) = length (bt_Sigs x)"
    using wf by (simp_all add: BtcTxParam_wf_def list_all_iff unat_of_nat)
  have p: "\<not> make_slices_panics (of_nat (length (bt_Sigs x)))"
    using wf l by (simp add: BtcTxParam_wf_def make_slices_panics_def)
  show "BtcTxParam_Deserialization (src_at pre (BtcTxParam_Serialization x @ rest))
      = Some (x, src_at (pre @ BtcTxParam_Serialization x) rest)"
    using fit wf rd_varbytes.list_roundtrip [OF d]
    by (simp add: BtcTxParam_Deserialization_def BtcTxParam_Serialization_def BtcTxParam_wf_def codec_simps l p)
next
  show "rd_local BtcTxParam_Deserialization"
    unfolding BtcTxParam_Deserialization_def [abs_def] by (intro rd_rules)
qed

type_synonym ChainMap = "(uint64 \<times> bytes) list"

definition chain_bytes :: "uint64 \<times> bytes \<Rightarrow> bytes" where
  "chain_bytes e = enc_varuint (fst e) @ enc_varbytes (snd e)"

definition read_chain :: "ZeroCopySource \<Rightarrow> ((uint64 \<times> bytes) \<times> ZeroCopySource) option" where
  "read_chain src =
     do { (k, src) \<leftarrow> ok_read NextVarUint src;
          (v, src) \<leftarrow> ok_read NextVarBytes src;
          Some ((k, v), src) }"

interpretation rd_chain: codec chain_bytes read_chain "\<lambda>e. fits (snd e)"
  unfolding read_chain_def [abs_def] chain_bytes_def
  by unfold_locales (simp add: codec_simps, intro rd_rules)

interpretation rd_chains: map_codec chain_bytes read_chain "\<lambda>e. fits (snd e)" enc_varuint "ok_read NextVarUint" "\<lambda>k. k"
  by unfold_locales (simp add: inj_on_def)

lemmas [codec_simps] = rd_chains.whole.roundtrip
lemmas [rd_rules] = rd_chains.whole.local_read

definition chains_canonical :: "ChainMap \<Rightarrow> bool" where
  "chains_canonical m \<longleftrightarrow> map_ok (\<lambda>e. fits (snd e)) m \<and> map_canon (\<lambda>k. k) m = m"

record RegisterAssetParam =
  OperatorAddress :: address
  ra_ChainId :: uint64
  ra_AssetMap :: ChainMap
  ra_LockProxyMap :: ChainMap

definition RegisterAssetParam_Serialization :: "RegisterAssetParam \<Rightarrow> bytes" where
  "RegisterAssetParam_Serialization p =
     OperatorAddress p @ enc_varuint (ra_ChainId p) @ map_ser enc_varuint chain_bytes (\<lambda>k. k) (ra_AssetMap p)
     @ map_ser enc_varuint chain_bytes (\<lambda>k. k) (ra_LockProxyMap p)"

definition RegisterAssetParam_Deserialization :: "ZeroCopySource \<Rightarrow> (RegisterAssetParam \<times> ZeroCopySource) option" where
  "RegisterAssetParam_Deserialization src =
     do { (operatorAddress, src) \<leftarrow> ok_read NextAddress src;
          (chainId, src) \<leftarrow> ok_read NextVarUint src;
          (assetMap, src) \<leftarrow> map_deser (ok_read NextVarUint) read_chain src;
          (lockProxyMap, src) \<leftarrow> map_deser (ok_read NextVarUint) read_chain src;
          Some (\<lparr>OperatorAddress = operatorAddress, ra_ChainId = chainId, ra_AssetMap = assetMap,
                 ra_LockProxyMap = lockProxyMap\<rparr>, src) }"

interpretation rd_asset: codec RegisterAssetParam_Serialization RegisterAssetParam_Deserialization
  "\<lambda>p. length (OperatorAddress p) = ADDR_LEN \<and> chains_canonical (ra_AssetMap p) \<and> chains_canonical (ra_LockProxyMap p)"
  unfolding RegisterAssetParam_Deserialization_def [abs_def] RegisterAssetParam_Serialization_def chains_canonical_def
  by unfold_locales (simp add: codec_simps, intro rd_rules)

record AssetBind =
  AssetMap :: ChainMap
  LockProxyMap :: ChainMap

definition AssetBind_Serialization :: "AssetBind \<Rightarrow> bytes" where
  "AssetBind_Serialization a =
     map_ser enc_varuint chain_bytes (\<lambda>k. k) (AssetMap a) @ map_ser enc_varuint chain_bytes (\<lambda>k. k) (LockProxyMap a)"

definition AssetBind_Deserialization :: "ZeroCopySource \<Rightarrow> (AssetBind \<times> ZeroCopySource) option" where
  "AssetBind_Deserialization src =
     do { (assetMap, src) \<leftarrow> map_deser (ok_read NextVarUint) read_chain src;
          (lockProxyMap, src) \<leftarrow> map_deser (ok_read NextVarUint) read_chain src;
          Some (\<lparr>AssetMap = assetMap, LockProxyMap = lockProxyMap\<rparr>, src) }"

interpretation rd_assetbind: codec AssetBind_Serialization AssetBind_Deserialization
  "\<lambda>a. chains_canonical (AssetMap a) \<and> chains_canonical (LockProxyMap a)"
  unfolding AssetBind_Deserialization_def [abs_def] AssetBind_Serialization_def chains_canonical_def
  by unfold_locales (simp add: codec_simps, intro rd_rules)

record UpdateFeeParam =
  uf_Address :: address
  uf_ChainId :: uint64
  uf_View :: uint64
  uf_Fee :: nat

definition UpdateFeeParam_Serialization :: "UpdateFeeParam \<Rightarrow> bytes" where
  "UpdateFeeParam_Serialization p =
     uf_Address p @ enc_uint64 (uf_ChainId p) @ enc_uint64 (uf_View p) @ enc_varbytes (big_Bytes (uf_Fee p))"

definition UpdateFeeParam_Deserialization :: "ZeroCopySource \<Rightarrow> (UpdateFeeParam \<times> ZeroCopySource) option" where
  "UpdateFeeParam_Deserialization src =
     do { (address, src) \<leftarrow> ok_read NextAddress src;
          (chainId, src) \<leftarrow> ok_read NextUint64 src;
          (view, src) \<leftarrow> ok_read NextUint64 src;
          (fee, src) \<leftarrow> ok_read NextVarBytes src;
          Some (\<lparr>uf_Address = address, uf_ChainId = chainId, uf_View = view, uf_Fee = get_be fee\<rparr>, src) }"

interpretation rd_updatefee: codec UpdateFeeParam_Serialization UpdateFeeParam_Deserialization
  "\<lambda>p. length (uf_Address p) = ADDR_LEN \<and> fits (big_Bytes (uf_Fee p))"
  unfolding UpdateFeeParam_Deserialization_def [abs_def] UpdateFeeParam_Serialization_def
  by unfold_locales (simp add: codec_simps get_be_big_Bytes, intro rd_rules)

end
