(* ===== verification/Side_Chain_Manager.thy ===== *)
theory Side_Chain_Manager
  imports Side_Chain_States Consensus_Vote
begin

text \<open>
  The side chain manager contract (\<open>side_chain_manager.go\<close> and \<open>utils.go\<close> of
  \<open>native/service/governance/side_chain_manager\<close>): registering, updating and removing side chains with the consent
  of the consensus peers, the bindings of bitcoin redeem scripts by the signatures of their key holders, the asset
  maps of the ripple chain and the fees voted by the consensus peers.  The bitcoin libraries are the record \<open>BtcEnv\<close>.
\<close>

section \<open>Bitcoin libraries\<close>

record BtcEnv =
  ExtractPkScriptAddrs :: "bytes \<Rightarrow> (bytes \<times> bytes list \<times> nat) option"
  GetScriptClass :: "bytes \<Rightarrow> bytes"
  Hash160 :: "bytes \<Rightarrow> bytes"
  ParseDERSignature :: "bytes \<Rightarrow> bytes option"
  VerifySignature :: "bytes \<Rightarrow> bytes \<Rightarrow> bytes \<Rightarrow> bool"
  EncodeAddress :: "bytes \<Rightarrow> bytes"

abbreviation MultiSigTy :: bytes where "MultiSigTy \<equiv> str ''multisig''"

section \<open>Accessors\<close>

abbreviation skey :: "bytes list \<Rightarrow> bytes" where
  "skey args \<equiv> ConcatKey SideChainManagerContractAddress args"

abbreviation SIDE_CHAIN_APPLY :: bytes where "SIDE_CHAIN_APPLY \<equiv> str ''sideChainApply''"
abbreviation UPDATE_SIDE_CHAIN_REQUEST :: bytes where "UPDATE_SIDE_CHAIN_REQUEST \<equiv> str ''updateSideChainRequest''"
abbreviation QUIT_SIDE_CHAIN_REQUEST :: bytes where "QUIT_SIDE_CHAIN_REQUEST \<equiv> str ''quitSideChainRequest''"
abbreviation SIDE_CHAIN :: bytes where "SIDE_CHAIN \<equiv> str ''sideChain''"
abbreviation REDEEM_BIND :: bytes where "REDEEM_BIND \<equiv> str ''redeemBind''"
abbreviation BIND_SIGN_INFO :: bytes where "BIND_SIGN_INFO \<equiv> str ''bindSignInfo''"
abbreviation BTC_TX_PARAM :: bytes where "BTC_TX_PARAM \<equiv> str ''btcTxParam''"
abbreviation REDEEM_SCRIPT :: bytes where "REDEEM_SCRIPT \<equiv> str ''redeemScript''"
abbreviation ASSET_BIND :: bytes where "ASSET_BIND \<equiv> str ''assetBind''"
abbreviation FEE :: bytes where "FEE \<equiv> str ''fee''"
abbreviation FEE_INFO :: bytes where "FEE_INFO \<equiv> str ''feeInfo''"
abbreviation QUIT_SIDE_CHAIN :: bytes where "QUIT_SIDE_CHAIN \<equiv> str ''quitSideChain''"

definition getSideChainApply :: "NativeService \<Rightarrow> uint64 \<Rightarrow> err + SideChain option" where
  "getSideChainApply ns chanid =
     load_item ''getRegisterSideChain,get registerSideChainRequestStore error''
       ''getRegisterSideChain, deserialize from raw storage item err'' ''getRegisterSideChain, deserialize sideChain error''
       SideChain_Deserialization ns (skey [SIDE_CHAIN_APPLY, GetUint64Bytes chanid])"

definition putSideChainApply :: "NodeConfig \<Rightarrow> SideChain \<Rightarrow> NativeService \<Rightarrow> NativeService" where
  "putSideChainApply cfg sideChain ns =
     db_Put (skey [SIDE_CHAIN_APPLY, GetUint64Bytes (sc_ChainId sideChain)])
       (GenRawStorageItem (SideChain_Serialization cfg sideChain)) ns"

definition GetSideChain :: "NativeService \<Rightarrow> uint64 \<Rightarrow> err + SideChain option" where
  "GetSideChain ns chain =
     load_item ''getSideChain,get registerSideChainRequestStore error''
       ''getSideChain, deserialize from raw storage item err'' ''getSideChain, deserialize sideChain error''
       SideChain_Deserialization ns (skey [SIDE_CHAIN, GetUint64Bytes chain])"

definition PutSideChain :: "NodeConfig \<Rightarrow> SideChain \<Rightarrow> NativeService \<Rightarrow> NativeService" where
  "PutSideChain cfg sideChain ns =
     db_Put (skey [SIDE_CHAIN, GetUint64Bytes (sc_ChainId sideChain)])
       (GenRawStorageItem (SideChain_Serialization cfg sideChain)) ns"

definition getUpdateSideChain :: "NativeService \<Rightarrow> uint64 \<Rightarrow> err + SideChain option" where
  "getUpdateSideChain ns chanid =
     load_item ''getUpdateSideChain,get registerSideChainRequestStore error''
       ''getUpdateSideChain, deserialize from raw storage item err'' ''getUpdateSideChain, deserialize sideChain error''
       SideChain_Deserialization ns (skey [UPDATE_SIDE_CHAIN_REQUEST, GetUint64Bytes chanid])"

definition putUpdateSideChain :: "NodeConfig \<Rightarrow> SideChain \<Rightarrow> NativeService \<Rightarrow> NativeService" where
  "putUpdateSideChain cfg sideChain ns =
     db_Put (skey [UPDATE_SIDE_CHAIN_REQUEST, GetUint64Bytes (sc_ChainId sideChain)])
       (GenRawStorageItem (SideChain_Serialization cfg sideChain)) ns"

definition getQuitSideChain :: "NativeService \<Rightarrow> uint64 \<Rightarrow> err + unit" where
  "getQuitSideChain ns chainid =
     (case db_Get ns (skey [QUIT_SIDE_CHAIN_REQUEST, GetUint64Bytes chainid]) of
        Inl _ \<Rightarrow> Inl ''getQuitSideChain, get registerSideChainRequestStore error''
      | Inr (Some _) \<Rightarrow> Inr ()
      | Inr None \<Rightarrow> Inl ''getQuitSideChain, no record'')"

definition putQuitSideChain :: "uint64 \<Rightarrow> NativeService \<Rightarrow> NativeService" where
  "putQuitSideChain chainid ns =
     db_Put (skey [QUIT_SIDE_CHAIN_REQUEST, GetUint64Bytes chainid]) (GenRawStorageItem (GetUint64Bytes chainid)) ns"

definition GetContractBind :: "NativeService \<Rightarrow> uint64 \<Rightarrow> uint64 \<Rightarrow> bytes \<Rightarrow> err + ContractBinded option" where
  "GetContractBind ns redeemChainID contractChainID redeemKey =
     load_item ''GetContractBind, get contractBindStore error'' ''GetContractBind, deserialize from raw storage item err''
       ''GetContractBind, deserialize BindContract err'' ContractBinded_Deserialization ns
       (skey [REDEEM_BIND, GetUint64Bytes redeemChainID, GetUint64Bytes contractChainID, redeemKey])"

definition putContractBind :: "uint64 \<Rightarrow> uint64 \<Rightarrow> bytes \<Rightarrow> bytes \<Rightarrow> uint64 \<Rightarrow> NativeService \<Rightarrow> NativeService" where
  "putContractBind redeemChainID contractChainID redeemKey contractAddress cver ns =
     db_Put (skey [REDEEM_BIND, GetUint64Bytes redeemChainID, GetUint64Bytes contractChainID, redeemKey])
       (GenRawStorageItem (ContractBinded_Serialization \<lparr>Contract = contractAddress, Ver = cver\<rparr>)) ns"

definition putBindSignInfo :: "bytes \<Rightarrow> BindSignInfo \<Rightarrow> NativeService \<Rightarrow> NativeService" where
  "putBindSignInfo message multiSignInfo ns =
     db_Put (skey [BIND_SIGN_INFO, message]) (GenRawStorageItem (BindSignInfo_Serialization multiSignInfo)) ns"

definition getBindSignInfo :: "NativeService \<Rightarrow> bytes \<Rightarrow> err + BindSignInfo" where
  "getBindSignInfo ns message =
     ebind (load_item ''getBtcMultiSignInfo, get multiSignInfoStore error''
         ''getBtcMultiSignInfo, deserialize from raw storage item err'' ''getBtcMultiSignInfo, deserialize multiSignInfo err''
         BindSignInfo_Deserialization ns (skey [BIND_SIGN_INFO, message]))
       (\<lambda>info. Inr (case info of None \<Rightarrow> [] | Some m \<Rightarrow> m))"

definition putBtcTxParam :: "bytes \<Rightarrow> uint64 \<Rightarrow> BtcTxParamDetial \<Rightarrow> NativeService \<Rightarrow> NativeService" where
  "putBtcTxParam redeemKey redeemChainId detail ns =
     db_Put (skey [BTC_TX_PARAM, redeemKey, GetUint64Bytes redeemChainId])
       (GenRawStorageItem (BtcTxParamDetial_Serialization detail)) ns"

definition GetBtcTxParam :: "NativeService \<Rightarrow> bytes \<Rightarrow> uint64 \<Rightarrow> err + BtcTxParamDetial option" where
  "GetBtcTxParam ns redeemKey redeemChainId =
     load_item ''GetBtcTxParam, get btcTxParam error'' ''GetBtcTxParam, deserialize from raw storage item error''
       ''GetBtcTxParam, deserialize BtcTxParam error'' BtcTxParamDetial_Deserialization ns
       (skey [BTC_TX_PARAM, redeemKey, GetUint64Bytes redeemChainId])"

text \<open>\<open>verify\<close>: every signature must parse; it counts for each address it verifies under.\<close>

primrec verify_sigs :: "BtcEnv \<Rightarrow> bytes list \<Rightarrow> bytes list \<Rightarrow> bytes \<Rightarrow> BindSignInfo \<Rightarrow> err + BindSignInfo" where
  "verify_sigs btc [] addrs hash res = Inr res"
| "verify_sigs btc (sig # sigs) addrs hash res =
     (if length sig < 1 then Inl ''length of sig is less than 1''
      else
      ebind (orelse_err (ParseDERSignature btc sig) ''failed to parse sig'') (\<lambda>pSig.
      let res = fold (\<lambda>addr res. if VerifySignature btc pSig hash addr
                                  then AList.update (EncodeAddress btc addr) sig res else res) addrs res
      in verify_sigs btc sigs addrs hash res))"

definition verify :: "BtcEnv \<Rightarrow> bytes list \<Rightarrow> bytes list \<Rightarrow> bytes \<Rightarrow> err + BindSignInfo" where
  "verify btc sigs addrs hash =
     ebind (verify_sigs btc sigs addrs hash []) (\<lambda>res.
     if length res = 0 then Inl ''no sigs is verified'' else Inr res)"

definition verifyRedeemRegister :: "BtcEnv \<Rightarrow> RegisterRedeemParam \<Rightarrow> bytes list \<Rightarrow> err + BindSignInfo" where
  "verifyRedeemRegister btc param addrs =
     (let hash = Hash160 btc (Redeem param @ GetUint64Bytes (RedeemChainID param) @ rr_ContractAddress param
                   @ GetUint64Bytes (ContractChainID param) @ GetUint64Bytes (CVersion param))
      in verify btc (rr_Signs param) addrs hash)"

definition verifyBtcTxParam :: "BtcEnv \<Rightarrow> BtcTxParam \<Rightarrow> bytes list \<Rightarrow> err + BindSignInfo" where
  "verifyBtcTxParam btc param addrs =
     (let hash = Hash160 btc (bt_Redeem param @ GetUint64Bytes (bt_RedeemChainId param)
                   @ GetUint64Bytes (FeeRate (Detial param)) @ GetUint64Bytes (MinChange (Detial param))
                   @ GetUint64Bytes (PVersion (Detial param)))
      in verify btc (bt_Sigs param) addrs hash)"

definition putBtcRedeemScript :: "BtcEnv \<Rightarrow> bytes \<Rightarrow> bytes \<Rightarrow> uint64 \<Rightarrow> NativeService \<Rightarrow> err + NativeService" where
  "putBtcRedeemScript btc redeemScriptKey redeemScriptBytes redeemChainId ns =
     (if GetScriptClass btc redeemScriptBytes \<noteq> MultiSigTy then Inl ''putBtcRedeemScript, wrong type of redeem''
      else Inr (db_Put (skey [REDEEM_SCRIPT, GetUint64Bytes redeemChainId, redeemScriptKey])
                  (GenRawStorageItem redeemScriptBytes) ns))"

definition GetBtcRedeemScriptBytes :: "NativeService \<Rightarrow> bytes \<Rightarrow> uint64 \<Rightarrow> err + bytes" where
  "GetBtcRedeemScriptBytes ns redeemScriptKey redeemChainId =
     require ''getBtcRedeemScript, can not find any records''
       (load_item ''getBtcRedeemScript, get btcProofStore error''
          ''getBtcRedeemScript, deserialize from raw storage item err'' [] raw_value ns
          (skey [REDEEM_SCRIPT, GetUint64Bytes redeemChainId, redeemScriptKey]))"

definition PutAssetBind :: "uint64 \<Rightarrow> AssetBind \<Rightarrow> NativeService \<Rightarrow> NativeService" where
  "PutAssetBind chainId assetBind ns =
     db_Put (skey [ASSET_BIND, GetUint64Bytes chainId]) (GenRawStorageItem (AssetBind_Serialization assetBind)) ns"

definition GetAssetBind :: "NativeService \<Rightarrow> uint64 \<Rightarrow> err + AssetBind" where
  "GetAssetBind ns chainId =
     ebind (load_item ''GetAssetMap, get asset map store error'' ''GetAssetMap, deserialize from raw storage item err''
         ''GetAssetMap, deserialize asset map err'' AssetBind_Deserialization ns (skey [ASSET_BIND, GetUint64Bytes chainId]))
       (\<lambda>a. Inr (case a of None \<Rightarrow> \<lparr>AssetMap = [], LockProxyMap = []\<rparr> | Some a \<Rightarrow> a))"

definition PutFee :: "uint64 \<Rightarrow> Fee \<Rightarrow> NativeService \<Rightarrow> NativeService" where
  "PutFee chainId fee ns = db_Put (skey [FEE, GetUint64Bytes chainId]) (GenRawStorageItem (Fee_Serialization fee)) ns"

definition GetFee :: "NativeService \<Rightarrow> uint64 \<Rightarrow> err + Fee" where
  "GetFee ns chain =
     ebind (load_item ''GetFee, get fee info store error'' ''GetFee, deserialize from raw storage item err''
         ''GetFee, deserialize fee info err'' Fee_Deserialization ns (skey [FEE, GetUint64Bytes chain]))
       (\<lambda>f. Inr (case f of None \<Rightarrow> \<lparr>fee_View = 0, fee_Fee = 0\<rparr> | Some f \<Rightarrow> f))"

definition PutFeeInfo :: "uint64 \<Rightarrow> uint64 \<Rightarrow> FeeInfo \<Rightarrow> NativeService \<Rightarrow> NativeService" where
  "PutFeeInfo chainId view feeInfo ns =
     db_Put (skey [FEE_INFO, GetUint64Bytes chainId, GetUint64Bytes view])
       (GenRawStorageItem (FeeInfo_Serialization feeInfo)) ns"

definition GetFeeInfo :: "NativeService \<Rightarrow> uint64 \<Rightarrow> uint64 \<Rightarrow> err + FeeInfo" where
  "GetFeeInfo ns chain view =
     ebind (load_item ''GetFeeInfo, get fee info store error'' ''GetFeeInfo, deserialize from raw storage item err''
         ''GetFeeInfo, deserialize fee info err'' FeeInfo_Deserialization ns
         (skey [FEE_INFO, GetUint64Bytes chain, GetUint64Bytes view]))
       (\<lambda>f. Inr (case f of None \<Rightarrow> \<lparr>StartTime = 0, fi_FeeInfo = []\<rparr> | Some f \<Rightarrow> f))"

definition GetRippleExtraInfo :: "NativeService \<Rightarrow> uint64 \<Rightarrow> err + RippleExtraInfo" where
  "GetRippleExtraInfo ns chainId =
     ebind (require ''GetRippleExtraInfo, side chain info is nil'' (GetSideChain ns chainId)) (\<lambda>sideChainInfo.
     let src = NewZeroCopySource (ExtraInfo sideChainInfo) in
     ebind (orelse_err (RippleExtraInfo_Deserialization src)
         (if RippleExtraInfo_panics src then panic_makeslice
          else ''GetRippleExtraInfo, rippleExtraInfo.Deserialization error''))
       (\<lambda>(rippleExtraInfo, _). Inr rippleExtraInfo))"

text \<open>Without a record the source dereferences a nil pointer.\<close>

definition PutRippleExtraInfo :: "NodeConfig \<Rightarrow> uint64 \<Rightarrow> RippleExtraInfo \<Rightarrow> NativeService \<Rightarrow> err + NativeService" where
  "PutRippleExtraInfo cfg chainId rippleExtraInfo ns =
     ebind (require ''panic: nil pointer dereference'' (GetSideChain ns chainId)) (\<lambda>sideChainInfo.
     Inr (PutSideChain cfg (sideChainInfo\<lparr>ExtraInfo := RippleExtraInfo_Serialization rippleExtraInfo\<rparr>) ns))"

section \<open>Side chains\<close>

abbreviation REGISTER_SIDE_CHAIN :: bytes where "REGISTER_SIDE_CHAIN \<equiv> str ''registerSideChain''"
abbreviation APPROVE_REGISTER_SIDE_CHAIN :: bytes where "APPROVE_REGISTER_SIDE_CHAIN \<equiv> str ''approveRegisterSideChain''"
abbreviation UPDATE_SIDE_CHAIN :: bytes where "UPDATE_SIDE_CHAIN \<equiv> str ''updateSideChain''"
abbreviation APPROVE_UPDATE_SIDE_CHAIN :: bytes where "APPROVE_UPDATE_SIDE_CHAIN \<equiv> str ''approveUpdateSideChain''"
abbreviation APPROVE_QUIT_SIDE_CHAIN :: bytes where "APPROVE_QUIT_SIDE_CHAIN \<equiv> str ''approveQuitSideChain''"

definition notify_chain :: "bytes \<Rightarrow> SideChain \<Rightarrow> NativeService \<Rightarrow> NativeService" where
  "notify_chain what p ns = notify_node [NStr what, NNum (uint (sc_ChainId p)), NNum (uint (Router p)), NStr (Name p),
     NNum (uint (BlocksToWait p))] ns"

definition RegisterSideChain :: "Env \<Rightarrow> NodeConfig \<Rightarrow> handler" where
  "RegisterSideChain env cfg ns =
     ebind (parse_input RegisterSideChainParam_Deserialization ''RegisterSideChain, contract params deserialize error'' ns)
       (\<lambda>params.
     if \<not> ValidateOwner env ns (sc_Address params) then Inl ''RegisterSideChain, checkWitness error''
     else
     ebind (getSideChainApply ns (sc_ChainId params)) (\<lambda>registerSideChain.
     if registerSideChain \<noteq> None then Inl ''RegisterSideChain, chainid already requested''
     else
     ebind (GetSideChain ns (sc_ChainId params)) (\<lambda>sideChain.
     if sideChain \<noteq> None then Inl ''RegisterSideChain, chainid already registered''
     else
     let sideChain = \<lparr>sc_Address = sc_Address params, sc_ChainId = sc_ChainId params, Router = Router params,
                      Name = Name params, BlocksToWait = BlocksToWait params, CCMCAddress = CCMCAddress params,
                      ExtraInfo = ExtraInfo params\<rparr>;
         ns = putSideChainApply cfg sideChain ns
     in Inr (BYTE_TRUE, notify_chain (str ''RegisterSideChain'') params ns))))"

definition ApproveRegisterSideChain :: "Env \<Rightarrow> NodeConfig \<Rightarrow> handler" where
  "ApproveRegisterSideChain env cfg ns =
     ebind (parse_input ChainidParam_Deserialization ''ApproveRegisterSideChain, contract params deserialize error'' ns)
       (\<lambda>params.
     if \<not> ValidateOwner env ns (ci_Address params) then Inl ''ApproveRegisterSideChain, checkWitness error''
     else
     ebind (require ''ApproveRegisterSideChain, chainid is not requested'' (getSideChainApply ns (Chainid params)))
       (\<lambda>registerSideChain.
     approved (CheckConsensusSigns env) APPROVE_REGISTER_SIDE_CHAIN (GetUint64Bytes (Chainid params)) (ci_Address params)
       (\<lambda>ns.
     let ns = PutSideChain cfg registerSideChain ns;
         ns = db_Delete (skey [SIDE_CHAIN_APPLY, GetUint64Bytes (Chainid params)]) ns
     in Inr (BYTE_TRUE, notify_node [NStr (str ''ApproveRegisterSideChain''), NNum (uint (Chainid params))] ns)) ns))"

definition UpdateSideChain :: "Env \<Rightarrow> NodeConfig \<Rightarrow> handler" where
  "UpdateSideChain env cfg ns =
     ebind (parse_input RegisterSideChainParam_Deserialization ''UpdateSideChain, contract params deserialize error'' ns)
       (\<lambda>params.
     if \<not> ValidateOwner env ns (sc_Address params) then Inl ''UpdateSideChain, checkWitness error''
     else
     ebind (require ''UpdateSideChain, side chain is not registered'' (GetSideChain ns (sc_ChainId params))) (\<lambda>sideChain.
     if sc_Address sideChain \<noteq> sc_Address params then Inl ''UpdateSideChain, side chain owner is wrong''
     else
     let updateSideChain = \<lparr>sc_Address = sc_Address params, sc_ChainId = sc_ChainId params, Router = Router params,
                      Name = Name params, BlocksToWait = BlocksToWait params, CCMCAddress = CCMCAddress params,
                      ExtraInfo = ExtraInfo params\<rparr>;
         ns = putUpdateSideChain cfg updateSideChain ns
     in Inr (BYTE_TRUE, notify_chain (str ''UpdateSideChain'') params ns)))"

definition ApproveUpdateSideChain :: "Env \<Rightarrow> NodeConfig \<Rightarrow> handler" where
  "ApproveUpdateSideChain env cfg ns =
     ebind (parse_input ChainidParam_Deserialization ''ApproveUpdateSideChain, contract params deserialize error'' ns)
       (\<lambda>params.
     if \<not> ValidateOwner env ns (ci_Address params) then Inl ''ApproveUpdateSideChain, checkWitness error''
     else
     ebind (require ''ApproveUpdateSideChain, chainid is not requested update'' (getUpdateSideChain ns (Chainid params)))
       (\<lambda>sideChain.
     approved (CheckConsensusSigns env) APPROVE_UPDATE_SIDE_CHAIN (GetUint64Bytes (Chainid params)) (ci_Address params)
       (\<lambda>ns.
     let ns = PutSideChain cfg sideChain ns;
         ns = db_Delete (skey [UPDATE_SIDE_CHAIN_REQUEST, GetUint64Bytes (Chainid params)]) ns
     in Inr (BYTE_TRUE, notify_node [NStr (str ''ApproveUpdateSideChain''), NNum (uint (Chainid params))] ns)) ns))"

definition QuitSideChain :: "Env \<Rightarrow> handler" where
  "QuitSideChain env ns =
     ebind (parse_input ChainidParam_Deserialization ''QuitSideChain, contract params deserialize error'' ns) (\<lambda>params.
     if \<not> ValidateOwner env ns (ci_Address params) then Inl ''QuitSideChain, checkWitness error''
     else
     ebind (require ''QuitSideChain, side chain is not registered'' (GetSideChain ns (Chainid params))) (\<lambda>sideChain.
     if sc_Address sideChain \<noteq> ci_Address params then Inl ''QuitSideChain, side chain owner is wrong''
     else
     let ns = putQuitSideChain (Chainid params) ns
     in Inr (BYTE_TRUE, notify_node [NStr (str ''QuitSideChain''), NNum (uint (Chainid params))] ns)))"

text \<open>The request is stored under \<open>QUIT_SIDE_CHAIN_REQUEST\<close>; what is deleted is the key \<open>QUIT_SIDE_CHAIN\<close>.\<close>

definition ApproveQuitSideChain :: "Env \<Rightarrow> handler" where
  "ApproveQuitSideChain env ns =
     ebind (parse_input ChainidParam_Deserialization ''ApproveQuitSideChain, contract params deserialize error'' ns)
       (\<lambda>params.
     if \<not> ValidateOwner env ns (ci_Address params) then Inl ''ApproveQuitSideChain, checkWitness error''
     else
     ebind (getQuitSideChain ns (Chainid params)) (\<lambda>_.
     approved (CheckConsensusSigns env) QUIT_SIDE_CHAIN (GetUint64Bytes (Chainid params)) (ci_Address params) (\<lambda>ns.
     let chainidByte = GetUint64Bytes (Chainid params);
         ns = db_Delete (skey [QUIT_SIDE_CHAIN, chainidByte]) ns;
         ns = db_Delete (skey [SIDE_CHAIN, chainidByte]) ns
     in Inr (BYTE_TRUE, notify_node [NStr (str ''ApproveQuitSideChain''), NNum (uint (Chainid params))] ns)) ns))"

section \<open>Redeem scripts\<close>

definition notify_side :: "nval list \<Rightarrow> NativeService \<Rightarrow> NativeService" where
  "notify_side st ns = AddNotify \<lparr>ContractAddress = SideChainManagerContractAddress, States = st\<rparr> ns"

text \<open>\<open>for k, v := range verified { m[k] = v }\<close>\<close>

definition merge_into :: "('k \<times> 'v) list \<Rightarrow> ('k \<times> 'v) list \<Rightarrow> ('k \<times> 'v) list" where
  "merge_into new m = fold (\<lambda>(k, v). AList.update k v) new m"

definition RegisterRedeem :: "BtcEnv \<Rightarrow> handler" where
  "RegisterRedeem btc ns =
     ebind (parse_input RegisterRedeemParam_Deserialization ''RegisterRedeem, contract params deserialize error'' ns)
       (\<lambda>params.
     ebind (orelse_err (ExtractPkScriptAddrs btc (Redeem params)) ''RegisterRedeem, failed to extract addrs'')
       (\<lambda>(ty, addrs, m).
     if ty \<noteq> MultiSigTy then Inl ''RegisterRedeem, wrong type of redeem''
     else
     let rk = Hash160 btc (Redeem params) in
     ebind (GetContractBind ns (RedeemChainID params) (ContractChainID params) rk) (\<lambda>contract.
     if (case contract of None \<Rightarrow> False | Some b \<Rightarrow> Ver b + 1 \<noteq> CVersion params)
     then Inl ''RegisterRedeem, previous version''
     else
     ebind (verifyRedeemRegister btc params addrs) (\<lambda>verified.
     let key = rk @ GetUint64Bytes (RedeemChainID params) @ rr_ContractAddress params
                @ GetUint64Bytes (ContractChainID params) in
     ebind (getBindSignInfo ns key) (\<lambda>bindSignInfo.
     let bindSignInfo = merge_into verified bindSignInfo;
         ns = putBindSignInfo key bindSignInfo ns
     in if length bindSignInfo \<ge> m then
          let ns = putContractBind (RedeemChainID params) (ContractChainID params) rk (rr_ContractAddress params)
                     (CVersion params) ns in
          ebind (putBtcRedeemScript btc (hex_EncodeToString rk) (Redeem params) (RedeemChainID params) ns) (\<lambda>ns.
          Inr (BYTE_TRUE, notify_side [NStr (str ''RegisterRedeem''), NStr (hex_EncodeToString rk),
                 NStr (hex_EncodeToString (rr_ContractAddress params))] ns))
        else Inr (BYTE_TRUE, ns))))))"

definition SetBtcTxParam :: "BtcEnv \<Rightarrow> handler" where
  "SetBtcTxParam btc ns =
     ebind (parse_input BtcTxParam_Deserialization
         (if BtcTxParam_panics (NewZeroCopySource (input ns)) then panic_makeslice
          else ''SetBtcTxParam, deserialize BtcTxParam error'') ns) (\<lambda>params.
     if FeeRate (Detial params) = 0 then Inl ''SetBtcTxParam, fee rate can't be zero''
     else if MinChange (Detial params) < 2000 then Inl ''SetBtcTxParam, min-change can't less than 2000''
     else
     ebind (orelse_err (ExtractPkScriptAddrs btc (bt_Redeem params)) ''SetBtcTxParam, extract addrs from redeem'')
       (\<lambda>(cls, addrs, m).
     if cls \<noteq> MultiSigTy then Inl ''SetBtcTxParam, redeem script is not multisig script''
     else
     let rk = Hash160 btc (bt_Redeem params) in
     ebind (GetBtcTxParam ns rk (bt_RedeemChainId params)) (\<lambda>prev.
     if (case prev of None \<Rightarrow> False | Some p \<Rightarrow> PVersion (Detial params) \<noteq> PVersion p + 1)
     then Inl ''SetBtcTxParam, previous version''
     else
     let key = rk @ GetUint64Bytes (bt_RedeemChainId params) @ BtcTxParamDetial_Serialization (Detial params) in
     ebind (getBindSignInfo ns key) (\<lambda>info.
     if length info \<ge> m then Inl ''SetBtcTxParam, the signatures are already enough''
     else
     ebind (verifyBtcTxParam btc params addrs) (\<lambda>verified.
     let info = merge_into verified info;
         ns = putBindSignInfo key info ns
     in if length info \<ge> m then
          let ns = putBtcTxParam rk (bt_RedeemChainId params) (Detial params) ns
          in Inr (BYTE_TRUE, notify_side [NStr (str ''SetBtcTxParam''), NStr (hex_EncodeToString rk),
                 NNum (uint (bt_RedeemChainId params)), NNum (uint (FeeRate (Detial params))),
                 NNum (uint (MinChange (Detial params)))] ns)
        else Inr (BYTE_TRUE, ns))))))"

section \<open>Assets and fees\<close>

definition RegisterAsset :: "Env \<Rightarrow> handler" where
  "RegisterAsset env ns =
     ebind (parse_input RegisterAssetParam_Deserialization ''RegisterAssetMap, contract params deserialize error'' ns)
       (\<lambda>params.
     if \<not> ValidateOwner env ns (OperatorAddress params) then Inl ''RegisterAssetMap, checkWitness error''
     else
     ebind (GetRippleExtraInfo ns (ra_ChainId params)) (\<lambda>rippleExtraInfo.
     if Operator rippleExtraInfo \<noteq> OperatorAddress params then Inl ''RegisterAssetMap, caller is not operator''
     else
     ebind (GetAssetBind ns (ra_ChainId params)) (\<lambda>assetBind.
     let assetBind = \<lparr>AssetMap = merge_into (ra_AssetMap params) (AssetMap assetBind),
                      LockProxyMap = merge_into (ra_LockProxyMap params) (LockProxyMap assetBind)\<rparr>
     in Inr (BYTE_TRUE, PutAssetBind (ra_ChainId params) assetBind ns))))"

abbreviation UPDATE_FEE :: bytes where "UPDATE_FEE \<equiv> str ''updateFee''"
abbreviation UPDATE_FEE_TIMEOUT :: uint32 where "UPDATE_FEE_TIMEOUT \<equiv> 300"

text \<open>Five times the median of the reported fees.\<close>

definition new_fee :: "nat list \<Rightarrow> nat" where
  "new_fee fees =
     (let feeInfoList = sort_desc (\<lambda>v. v) fees; l = length feeInfoList
      in if l mod 2 = 0 then (feeInfoList ! (l div 2) + feeInfoList ! (l div 2 - 1)) * 5 div 2
         else feeInfoList ! ((l - 1) div 2) * 5)"

definition UpdateFee :: "Env \<Rightarrow> handler" where
  "UpdateFee env ns =
     ebind (parse_input UpdateFeeParam_Deserialization ''UpdateFee, contract params deserialize error'' ns) (\<lambda>params.
     if \<not> ValidateOwner env ns (uf_Address params) then Inl ''UpdateFee, checkWitness error''
     else
     ebind (GetFee ns (uf_ChainId params)) (\<lambda>fee.
     if fee_View fee \<noteq> uf_View params then Inl ''UpdateFee, poly view, params view not match''
     else
     ebind (GetFeeInfo ns (uf_ChainId params) (fee_View fee)) (\<lambda>feeInfo.
     let (fee, feeInfo, ns) =
           (if StartTime feeInfo = 0 then (fee, feeInfo\<lparr>StartTime := time ns\<rparr>, ns)
            else if time ns - StartTime feeInfo > UPDATE_FEE_TIMEOUT
            then (let fee = fee\<lparr>fee_View := fee_View fee + 1\<rparr>
                  in (fee, \<lparr>StartTime = time ns, fi_FeeInfo = []\<rparr>, PutFee (uf_ChainId params) fee ns))
            else (fee, feeInfo, ns));
         feeInfo = feeInfo\<lparr>fi_FeeInfo := AList.update (uf_Address params) (uf_Fee params) (fi_FeeInfo feeInfo)\<rparr>;
         ns = PutFeeInfo (uf_ChainId params) (fee_View fee) feeInfo ns;
         i = UPDATE_FEE @ GetUint64Bytes (uf_ChainId params) @ GetUint64Bytes (fee_View fee) in
     ebind (CheckVotes env i (uf_Address params) ns) (\<lambda>(ok, ns).
     if \<not> ok then Inr (BYTE_TRUE, ns)
     else
     let fee = \<lparr>fee_View = fee_View fee + 1, fee_Fee = new_fee (map snd (fi_FeeInfo feeInfo))\<rparr>
     in Inr (BYTE_TRUE, PutFee (uf_ChainId params) fee ns)))))"

definition RegisterSideChainManagerContract :: "Env \<Rightarrow> NodeConfig \<Rightarrow> BtcEnv \<Rightarrow> (bytes \<times> handler) list" where
  "RegisterSideChainManagerContract env cfg btc =
     [(REGISTER_SIDE_CHAIN, RegisterSideChain env cfg), (APPROVE_REGISTER_SIDE_CHAIN, ApproveRegisterSideChain env cfg),
      (UPDATE_SIDE_CHAIN, UpdateSideChain env cfg), (APPROVE_UPDATE_SIDE_CHAIN, ApproveUpdateSideChain env cfg),
      (QUIT_SIDE_CHAIN, QuitSideChain env), (APPROVE_QUIT_SIDE_CHAIN, ApproveQuitSideChain env),
      (str ''registerAsset'', RegisterAsset env), (UPDATE_FEE, UpdateFee env),
      (str ''registerRedeem'', RegisterRedeem btc), (str ''setBtcTxParam'', SetBtcTxParam btc)]"

end
