(* ===== verification/Side_Chain_Claims.thy ===== *)
theory Side_Chain_Claims
  imports Side_Chain_Manager Vote_Claims
begin

text \<open>
  The properties of the side chain manager contract.
\<close>

section \<open>Frames\<close>

lemma str_Apply_neq: "GetUint64Bytes c \<noteq> str ''Apply'' @ GetUint64Bytes d" "GetUint64Bytes c \<noteq> str ''Request'' @ GetUint64Bytes d"
proof -
  have "length (GetUint64Bytes c) \<noteq> length (str ''Apply'' @ GetUint64Bytes d)"
    "length (GetUint64Bytes c) \<noteq> length (str ''Request'' @ GetUint64Bytes d)" by (simp_all add: str_def)
  then show "GetUint64Bytes c \<noteq> str ''Apply'' @ GetUint64Bytes d" "GetUint64Bytes c \<noteq> str ''Request'' @ GetUint64Bytes d"
    by metis+
qed

lemma skey_chain:
  "skey [SIDE_CHAIN, GetUint64Bytes c] = skey [SIDE_CHAIN, GetUint64Bytes d] \<longleftrightarrow> c = d"
  "skey [SIDE_CHAIN, GetUint64Bytes c] \<noteq> skey [SIDE_CHAIN_APPLY, GetUint64Bytes d]"
  "skey [SIDE_CHAIN, GetUint64Bytes c] \<noteq> skey (UPDATE_SIDE_CHAIN_REQUEST # xs)"
  "skey [SIDE_CHAIN, GetUint64Bytes c] \<noteq> skey (QUIT_SIDE_CHAIN_REQUEST # xs)"
  "skey [SIDE_CHAIN, GetUint64Bytes c] \<noteq> skey (QUIT_SIDE_CHAIN # xs)"
  "skey [SIDE_CHAIN, GetUint64Bytes c] \<noteq> skey (REDEEM_BIND # xs)"
  "skey [SIDE_CHAIN, GetUint64Bytes c] \<noteq> skey (BIND_SIGN_INFO # xs)"
  "skey [SIDE_CHAIN, GetUint64Bytes c] \<noteq> skey (BTC_TX_PARAM # xs)"
  "skey [SIDE_CHAIN, GetUint64Bytes c] \<noteq> skey (REDEEM_SCRIPT # xs)"
  "skey [SIDE_CHAIN, GetUint64Bytes c] \<noteq> skey (ASSET_BIND # xs)"
  "skey [SIDE_CHAIN, GetUint64Bytes c] \<noteq> skey (FEE # xs)"
  "skey [SIDE_CHAIN, GetUint64Bytes c] \<noteq> skey (FEE_INFO # xs)"
  using str_Apply_neq(1) by (simp_all add: key_simps)

lemma skey_quit:
  "skey [QUIT_SIDE_CHAIN_REQUEST, GetUint64Bytes c] \<noteq> skey [QUIT_SIDE_CHAIN, GetUint64Bytes d]"
  "skey [QUIT_SIDE_CHAIN_REQUEST, GetUint64Bytes c] \<noteq> skey (SIDE_CHAIN # xs)"
  "skey [SIDE_CHAIN_APPLY, GetUint64Bytes c] \<noteq> skey [SIDE_CHAIN, GetUint64Bytes d]"
  "skey [SIDE_CHAIN_APPLY, GetUint64Bytes c] = skey [SIDE_CHAIN_APPLY, GetUint64Bytes d] \<longleftrightarrow> c = d"
  using str_Apply_neq [of d c] by (auto simp: key_simps)

lemma skey_not_sign: "\<not> signs_key (skey xs)"
  by (rule signs_key_other) simp

lemma skey_not_vote: "skey xs \<noteq> ckey ys"
  by (simp add: key_simps)

lemma CheckVotes_skey: "CheckVotes env i a ns = Inr (ok, ns') \<Longrightarrow> db_Get ns' (skey xs) = db_Get ns (skey xs)"
  by (erule CheckVotes_Inr) (simp_all add: putVoteInfo_def store_simps skey_not_vote)

lemmas side_puts = putSideChainApply_def PutSideChain_def putUpdateSideChain_def putQuitSideChain_def putContractBind_def
  putBindSignInfo_def putBtcTxParam_def PutAssetBind_def PutFee_def PutFeeInfo_def notify_chain_def notify_side_def
  notify_node_def

section \<open>Handlers that leave the side chains alone\<close>

definition same_chains :: "NativeService \<Rightarrow> NativeService \<Rightarrow> bool" where
  "same_chains ns ns' \<longleftrightarrow> (\<forall>c. db_Get ns' (skey [SIDE_CHAIN, GetUint64Bytes c]) = db_Get ns (skey [SIDE_CHAIN, GetUint64Bytes c]))"

lemma requests_same:
  "RegisterSideChain env cfg ns = Inr (r, ns') \<Longrightarrow> same_chains ns ns'"
  "UpdateSideChain env cfg ns = Inr (r, ns') \<Longrightarrow> same_chains ns ns'"
  "QuitSideChain env ns = Inr (r, ns') \<Longrightarrow> same_chains ns ns'"
  "RegisterAsset env ns = Inr (r, ns') \<Longrightarrow> same_chains ns ns'"
  by (auto simp: RegisterSideChain_def UpdateSideChain_def QuitSideChain_def RegisterAsset_def Let_def same_chains_def
      side_puts store_simps skey_chain split: if_splits)

lemma puts_same [simp]:
  "same_chains ns (putBindSignInfo k m ns') = same_chains ns ns'"
  "same_chains ns (putContractBind x y k a v ns') = same_chains ns ns'"
  "same_chains ns (putBtcTxParam k c d ns') = same_chains ns ns'" "same_chains ns (notify_side st ns') = same_chains ns ns'"
  "same_chains ns (PutFee c f ns') = same_chains ns ns'" "same_chains (PutFee c f ns) ns' = same_chains ns ns'"
  "same_chains (PutFeeInfo c w fi ns) ns' = same_chains ns ns'" "same_chains ns ns"
  by (simp_all add: same_chains_def side_puts store_simps skey_chain)

lemma CheckVotes_same: "CheckVotes env i a ns = Inr (ok, ns') \<Longrightarrow> same_chains ns ns'"
  by (simp add: same_chains_def CheckVotes_skey)

lemma putBtcRedeemScript_same: "putBtcRedeemScript btc k b c ns' = Inr ns'' \<Longrightarrow> same_chains ns ns' \<Longrightarrow> same_chains ns ns''"
  by (auto simp: putBtcRedeemScript_def same_chains_def store_simps skey_chain split: if_splits)

lemma votes_same:
  "UpdateFee env ns = Inr (r, ns') \<Longrightarrow> same_chains ns ns'"
  "RegisterRedeem btc ns = Inr (r, ns') \<Longrightarrow> same_chains ns ns'"
  "SetBtcTxParam btc ns = Inr (r, ns') \<Longrightarrow> same_chains ns ns'"
  subgoal by (auto simp: UpdateFee_def Let_def dest!: CheckVotes_same split: if_splits)
  subgoal by (auto simp: RegisterRedeem_def Let_def elim!: putBtcRedeemScript_same split: if_splits)
  subgoal by (auto simp: SetBtcTxParam_def Let_def split: if_splits)
  done

text \<open>The ten handlers: seven that never touch a side chain, and the three approvals.\<close>

definition quiet_handler :: "Env \<Rightarrow> NodeConfig \<Rightarrow> BtcEnv \<Rightarrow> handler \<Rightarrow> bool" where
  "quiet_handler env cfg btc h \<longleftrightarrow> h = RegisterSideChain env cfg \<or> h = UpdateSideChain env cfg \<or> h = QuitSideChain env \<or>
     h = RegisterAsset env \<or> h = UpdateFee env \<or> h = RegisterRedeem btc \<or> h = SetBtcTxParam btc"

lemma quiet_same: "quiet_handler env cfg btc h \<Longrightarrow> h ns = Inr (r, ns') \<Longrightarrow> same_chains ns ns'"
  unfolding quiet_handler_def by (elim disjE) (hypsubst, erule requests_same votes_same)+

lemma side_handlers:
  assumes "(m, h) \<in> set (RegisterSideChainManagerContract env cfg btc)"
  obtains "quiet_handler env cfg btc h"
  | "m = APPROVE_REGISTER_SIDE_CHAIN" "h = ApproveRegisterSideChain env cfg"
  | "m = APPROVE_UPDATE_SIDE_CHAIN" "h = ApproveUpdateSideChain env cfg"
  | "m = APPROVE_QUIT_SIDE_CHAIN" "h = ApproveQuitSideChain env"
  using assms by (auto simp: RegisterSideChainManagerContract_def quiet_handler_def)

section \<open>Approving handlers\<close>

lemma ApproveRegisterSideChain_Inr:
  assumes "ApproveRegisterSideChain env cfg ns = Inr (r, ns')"
  obtains (pending) "same_chains ns ns'"
  | (consent) params s ns1 where "parse_input ChainidParam_Deserialization [] ns = Inr params"
    "ValidateOwner env ns (ci_Address params)" "getSideChainApply ns (Chainid params) = Inr (Some s)"
    "CheckConsensusSigns env APPROVE_REGISTER_SIDE_CHAIN (GetUint64Bytes (Chainid params)) (ci_Address params) ns = Inr (True, ns1)"
    "\<And>c. db_Get ns' (skey [SIDE_CHAIN, GetUint64Bytes c])
      = (if c = sc_ChainId s then Inr (Some (GenRawStorageItem (SideChain_Serialization cfg s)))
         else db_Get ns (skey [SIDE_CHAIN, GetUint64Bytes c]))"
    "db_Get ns' (skey [SIDE_CHAIN_APPLY, GetUint64Bytes (Chainid params)]) = Inr None"
proof -
  let ?e = "''ApproveRegisterSideChain, contract params deserialize error''"
  from assms obtain params s where p: "parse_input ChainidParam_Deserialization ?e ns = Inr params"
    "ValidateOwner env ns (ci_Address params)"
    and s: "require ''ApproveRegisterSideChain, chainid is not requested'' (getSideChainApply ns (Chainid params)) = Inr s"
    by (auto simp: ApproveRegisterSideChain_def split: if_splits)
  from s have s': "getSideChainApply ns (Chainid params) = Inr (Some s)"
    by (auto simp: require_def orelse_err_def split: option.splits)
  from assms p s have "approved (CheckConsensusSigns env) APPROVE_REGISTER_SIDE_CHAIN (GetUint64Bytes (Chainid params))
      (ci_Address params) (\<lambda>ns. let ns = PutSideChain cfg s ns;
         ns = db_Delete (skey [SIDE_CHAIN_APPLY, GetUint64Bytes (Chainid params)]) ns
     in Inr (BYTE_TRUE, notify_node [NStr (str ''ApproveRegisterSideChain''), NNum (uint (Chainid params))] ns)) ns
     = Inr (r, ns')" by (simp add: ApproveRegisterSideChain_def)
  then show thesis
  proof (cases rule: signs.approvedE)
    case pending
    then show thesis by (intro that(1)) (simp add: same_chains_def skey_not_sign)
  next
    case (consent ns1)
    then show thesis
      by (intro that(2) [OF parse_any [OF p(1)] p(2) s'])
        (auto simp: Let_def side_puts store_simps skey_chain skey_quit skey_not_sign)
  qed
qed

lemma ApproveUpdateSideChain_Inr:
  assumes "ApproveUpdateSideChain env cfg ns = Inr (r, ns')"
  obtains (pending) "same_chains ns ns'"
  | (consent) params s ns1 where "parse_input ChainidParam_Deserialization [] ns = Inr params"
    "ValidateOwner env ns (ci_Address params)" "getUpdateSideChain ns (Chainid params) = Inr (Some s)"
    "CheckConsensusSigns env APPROVE_UPDATE_SIDE_CHAIN (GetUint64Bytes (Chainid params)) (ci_Address params) ns = Inr (True, ns1)"
    "\<And>c. db_Get ns' (skey [SIDE_CHAIN, GetUint64Bytes c])
      = (if c = sc_ChainId s then Inr (Some (GenRawStorageItem (SideChain_Serialization cfg s)))
         else db_Get ns (skey [SIDE_CHAIN, GetUint64Bytes c]))"
proof -
  let ?e = "''ApproveUpdateSideChain, contract params deserialize error''"
  from assms obtain params s where p: "parse_input ChainidParam_Deserialization ?e ns = Inr params"
    "ValidateOwner env ns (ci_Address params)"
    and s: "require ''ApproveUpdateSideChain, chainid is not requested update'' (getUpdateSideChain ns (Chainid params)) = Inr s"
    by (auto simp: ApproveUpdateSideChain_def split: if_splits)
  from s have s': "getUpdateSideChain ns (Chainid params) = Inr (Some s)"
    by (auto simp: require_def orelse_err_def split: option.splits)
  from assms p s have "approved (CheckConsensusSigns env) APPROVE_UPDATE_SIDE_CHAIN (GetUint64Bytes (Chainid params))
      (ci_Address params) (\<lambda>ns. let ns = PutSideChain cfg s ns;
         ns = db_Delete (skey [UPDATE_SIDE_CHAIN_REQUEST, GetUint64Bytes (Chainid params)]) ns
     in Inr (BYTE_TRUE, notify_node [NStr (str ''ApproveUpdateSideChain''), NNum (uint (Chainid params))] ns)) ns
     = Inr (r, ns')" by (simp add: ApproveUpdateSideChain_def)
  then show thesis
  proof (cases rule: signs.approvedE)
    case pending
    then show thesis by (intro that(1)) (simp add: same_chains_def skey_not_sign)
  next
    case (consent ns1)
    then show thesis
      by (intro that(2) [OF parse_any [OF p(1)] p(2) s'])
        (auto simp: Let_def side_puts store_simps skey_chain skey_not_sign)
  qed
qed

lemma ApproveQuitSideChain_Inr:
  assumes "ApproveQuitSideChain env ns = Inr (r, ns')"
  obtains (pending) "\<And>k. \<not> signs_key k \<Longrightarrow> db_Get ns' k = db_Get ns k"
  | (consent) params ns1 where "parse_input ChainidParam_Deserialization [] ns = Inr params"
    "ValidateOwner env ns (ci_Address params)" "getQuitSideChain ns (Chainid params) = Inr ()"
    "CheckConsensusSigns env QUIT_SIDE_CHAIN (GetUint64Bytes (Chainid params)) (ci_Address params) ns = Inr (True, ns1)"
    "\<And>k. \<not> signs_key k \<Longrightarrow> db_Get ns' k
      = (if k \<in> {skey [QUIT_SIDE_CHAIN, GetUint64Bytes (Chainid params)], skey [SIDE_CHAIN, GetUint64Bytes (Chainid params)]}
         then Inr None else db_Get ns k)"
proof -
  let ?e = "''ApproveQuitSideChain, contract params deserialize error''"
  from assms obtain params u where p: "parse_input ChainidParam_Deserialization ?e ns = Inr params"
    "ValidateOwner env ns (ci_Address params)" "getQuitSideChain ns (Chainid params) = Inr u"
    by (auto simp: ApproveQuitSideChain_def split: if_splits)
  from assms p have "approved (CheckConsensusSigns env) QUIT_SIDE_CHAIN (GetUint64Bytes (Chainid params))
      (ci_Address params) (\<lambda>ns. let chainidByte = GetUint64Bytes (Chainid params);
         ns = db_Delete (skey [QUIT_SIDE_CHAIN, chainidByte]) ns;
         ns = db_Delete (skey [SIDE_CHAIN, chainidByte]) ns
     in Inr (BYTE_TRUE, notify_node [NStr (str ''ApproveQuitSideChain''), NNum (uint (Chainid params))] ns)) ns
     = Inr (r, ns')" by (simp add: ApproveQuitSideChain_def)
  then show thesis
  proof (cases rule: signs.approvedE)
    case pending
    then show thesis by (intro that(1)) simp
  next
    case (consent ns1)
    then show thesis
      by (intro that(2) [OF parse_any [OF p(1)] p(2)]) (use p(3) in \<open>auto simp: Let_def side_puts store_simps\<close>)
  qed
qed

section \<open>Sample calls\<close>

definition sample_config :: NodeConfig where
  "sample_config = \<lparr>NetworkId = 1, EXTRA_INFO_HEIGHT_FORK_CHECK = False, CurrentBlockHeight = 10, EnableEventLog = True\<rparr>"

definition sample_chain :: SideChain where
  "sample_chain = \<lparr>sc_Address = solo, sc_ChainId = 7, Router = 2, Name = str ''eth'', BlocksToWait = 12,
     CCMCAddress = [1, 2], ExtraInfo = [3]\<rparr>"

definition chainid_input :: bytes where
  "chainid_input = ChainidParam_Serialization \<lparr>Chainid = 7, ci_Address = solo\<rparr>"

definition register_call :: NativeService where
  "register_call = solo_call 4 [([SIDE_CHAIN_APPLY, GetUint64Bytes 7], SideChain_Serialization sample_config sample_chain)]
     chainid_input"

definition quit_call :: NativeService where
  "quit_call = solo_call 4 [([QUIT_SIDE_CHAIN_REQUEST, GetUint64Bytes 7], GetUint64Bytes 7), ([SIDE_CHAIN, GetUint64Bytes 7],
     SideChain_Serialization sample_config sample_chain)] chainid_input"

lemma chainid_parse:
  "parse_input ChainidParam_Deserialization e (solo_call n recs chainid_input) = Inr \<lparr>Chainid = 7, ci_Address = solo\<rparr>"
  using rd_chainid.decode_encode [of "\<lparr>Chainid = 7, ci_Address = solo\<rparr>"]
  by (simp add: parse_input_def solo_call_fields chainid_input_def ChainidParam_Serialization_def
        enc_varbytes_def enc_varuint_def size_defs)

lemma sample_chain_ok: "SideChain_wf sample_chain" "length (SideChain_Serialization sample_config sample_chain) < 2 ^ 62"
  "stored_chain sample_config sample_chain = sample_chain"
  by (simp_all add: SideChain_wf_def sample_chain_def SideChain_Serialization_def stored_chain_def extra_info_on_def
      sample_config_def enc_varbytes_def enc_varuint_def enc_uint8_def size_defs)

lemma register_call_apply: "getSideChainApply register_call 7 = Inr (Some sample_chain)"
proof -
  from SideChain_read [OF sample_chain_ok(1), of sample_config] sample_chain_ok obtain src where
    "SideChain_Deserialization (NewZeroCopySource (SideChain_Serialization sample_config sample_chain)) = Some (sample_chain, src)"
    by auto
  with sample_chain_ok(2) show ?thesis
    by (simp add: getSideChainApply_def register_call_def solo_call_def load_item_def store_simps)
qed

lemma quit_call_request: "getQuitSideChain quit_call 7 = Inr ()"
  by (simp add: getQuitSideChain_def quit_call_def solo_call_def store_simps
      skey_chain skey_quit)

lemma quit_call_runs:
  obtains ns' where "ApproveQuitSideChain plain_env quit_call = Inr (BYTE_TRUE, ns')"
    "db_Get ns' (skey [SIDE_CHAIN, GetUint64Bytes 7]) \<noteq> db_Get quit_call (skey [SIDE_CHAIN, GetUint64Bytes 7])"
proof -
  obtain ns1 where c: "CheckConsensusSigns plain_env QUIT_SIDE_CHAIN (GetUint64Bytes 7) solo quit_call = Inr (True, ns1)"
    unfolding quit_call_def by (rule solo_consent [of 4]) simp_all
  have p: "parse_input ChainidParam_Deserialization e quit_call = Inr \<lparr>Chainid = 7, ci_Address = solo\<rparr>" for e
    unfolding quit_call_def by (rule chainid_parse)
  have o: "ValidateOwner plain_env quit_call solo" unfolding quit_call_def by (rule solo_owner)
  have g: "db_Get quit_call (skey [SIDE_CHAIN, GetUint64Bytes 7]) \<noteq> Inr None"
    by (simp add: quit_call_def solo_call_def store_simps)
  obtain ns' where "ApproveQuitSideChain plain_env quit_call = Inr (BYTE_TRUE, ns')"
    "db_Get ns' (skey [SIDE_CHAIN, GetUint64Bytes 7]) = Inr None"
    by (simp add: ApproveQuitSideChain_def p o approved_def c Let_def quit_call_request side_puts store_simps)
  with g that show thesis by simp
qed

section \<open>Properties\<close>

text \<open>
  C12 (safety): no handler of the side chain manager changes the record of a side chain unless the consensus
  peers have just approved a stored request: a registration or an update that names the chain, or its removal.
\<close>

theorem side_chain_change_needs_quorum:
  assumes "(m, h) \<in> set (RegisterSideChainManagerContract env cfg btc)" and "h ns = Inr (r, ns')"
    and "db_Get ns' (skey [SIDE_CHAIN, GetUint64Bytes c]) \<noteq> db_Get ns (skey [SIDE_CHAIN, GetUint64Bytes c])"
  shows "\<exists>i a ns1 meth. ValidateOwner env ns a \<and> CheckConsensusSigns env meth (GetUint64Bytes i) a ns = Inr (True, ns1) \<and>
    (m = APPROVE_REGISTER_SIDE_CHAIN \<and> meth = m \<and> (\<exists>s. getSideChainApply ns i = Inr (Some s) \<and> sc_ChainId s = c) \<or>
     m = APPROVE_UPDATE_SIDE_CHAIN \<and> meth = m \<and> (\<exists>s. getUpdateSideChain ns i = Inr (Some s) \<and> sc_ChainId s = c) \<or>
     m = APPROVE_QUIT_SIDE_CHAIN \<and> meth = QUIT_SIDE_CHAIN \<and> getQuitSideChain ns i = Inr () \<and> i = c)"
proof -
  have n: "\<not> same_chains ns ns'" using assms(3) by (auto simp: same_chains_def)
  have k: "\<not> signs_key (skey [SIDE_CHAIN, GetUint64Bytes c])" by (rule skey_not_sign)
  from assms(1) consider "quiet_handler env cfg btc h"
    | "m = APPROVE_REGISTER_SIDE_CHAIN" "h = ApproveRegisterSideChain env cfg"
    | "m = APPROVE_UPDATE_SIDE_CHAIN" "h = ApproveUpdateSideChain env cfg"
    | "m = APPROVE_QUIT_SIDE_CHAIN" "h = ApproveQuitSideChain env"
    by (rule side_handlers)
  then show ?thesis
  proof cases
    case 1
    from quiet_same [OF 1 assms(2)] n show ?thesis by simp
  next
    case 2
    from assms(2) [unfolded 2(2)] show ?thesis
    proof (cases rule: ApproveRegisterSideChain_Inr)
      case (consent params s ns1)
      from consent(5) assms(3) have "sc_ChainId s = c" by (simp split: if_splits)
      with consent(2,3,4) 2(1) show ?thesis by blast
    qed (use n in blast)
  next
    case 3
    from assms(2) [unfolded 3(2)] show ?thesis
    proof (cases rule: ApproveUpdateSideChain_Inr)
      case (consent params s ns1)
      from consent(5) assms(3) have "sc_ChainId s = c" by (simp split: if_splits)
      with consent(2,3,4) 3(1) show ?thesis by blast
    qed (use n in blast)
  next
    case 4
    from assms(2) [unfolded 4(2)] show ?thesis
    proof (cases rule: ApproveQuitSideChain_Inr)
      case pending
      from pending [OF k] assms(3) show ?thesis by simp
    next
      case (consent params ns1)
      from consent(5) [OF k] assms(3) have "Chainid params = c" by (auto simp: skey_chain split: if_splits)
      with consent(2,3,4) 4(1) show ?thesis by blast
    qed
  qed
qed

theorem side_chain_change_needs_quorum_witness:
  "\<exists>i a ns1. ValidateOwner plain_env quit_call a \<and> getQuitSideChain quit_call i = Inr () \<and> i = 7 \<and>
    CheckConsensusSigns plain_env QUIT_SIDE_CHAIN (GetUint64Bytes i) a quit_call = Inr (True, ns1)"
proof -
  obtain ns' where r: "ApproveQuitSideChain plain_env quit_call = Inr (BYTE_TRUE, ns')"
    "db_Get ns' (skey [SIDE_CHAIN, GetUint64Bytes 7]) \<noteq> db_Get quit_call (skey [SIDE_CHAIN, GetUint64Bytes 7])"
    by (rule quit_call_runs)
  have "(APPROVE_QUIT_SIDE_CHAIN, ApproveQuitSideChain plain_env)
      \<in> set (RegisterSideChainManagerContract plain_env sample_config btc)" for btc
    by (simp add: RegisterSideChainManagerContract_def)
  from side_chain_change_needs_quorum [OF this r] show ?thesis
    by (auto simp: key_simps)
qed

text \<open>
  C34 (error): the approval of a removal does not consume the request: after \<open>ApproveQuitSideChain\<close> the
  request to remove any chain reads as before, so it can be approved again after the chain is registered anew.
\<close>

theorem quit_request_survives:
  assumes "ApproveQuitSideChain env ns = Inr (r, ns')"
  shows "getQuitSideChain ns' c = getQuitSideChain ns c"
proof -
  have k: "\<not> signs_key (skey [QUIT_SIDE_CHAIN_REQUEST, GetUint64Bytes c])" by (rule skey_not_sign)
  from assms have "db_Get ns' (skey [QUIT_SIDE_CHAIN_REQUEST, GetUint64Bytes c]) = db_Get ns (skey [QUIT_SIDE_CHAIN_REQUEST, GetUint64Bytes c])"
  proof (cases rule: ApproveQuitSideChain_Inr)
    case pending
    from pending [OF k] show ?thesis .
  next
    case (consent params ns1)
    from consent(5) [OF k] show ?thesis by (auto simp: skey_quit)
  qed
  then show ?thesis by (simp add: getQuitSideChain_def)
qed

theorem quit_request_survives_witness:
  "\<exists>ns'. ApproveQuitSideChain plain_env quit_call = Inr (BYTE_TRUE, ns') \<and> getQuitSideChain ns' 7 = Inr ()"
proof -
  obtain ns' where r: "ApproveQuitSideChain plain_env quit_call = Inr (BYTE_TRUE, ns')" by (rule quit_call_runs)
  from quit_request_survives [OF r, of 7] r quit_call_request show ?thesis by auto
qed

text \<open>
  C13 (functional): with the quorum's consent a requested side chain is registered as it was requested (with
  the extra field only after the fork height) and the request is consumed.
\<close>

theorem approved_chain_is_stored:
  assumes "parse_input ChainidParam_Deserialization e ns = Inr params" "ValidateOwner env ns (ci_Address params)"
    and "getSideChainApply ns (Chainid params) = Inr (Some s)" "SideChain_wf s"
    and "length (SideChain_Serialization cfg s) < 2 ^ 62"
    and "CheckConsensusSigns env APPROVE_REGISTER_SIDE_CHAIN (GetUint64Bytes (Chainid params)) (ci_Address params) ns
      = Inr (True, ns1)"
  shows "\<exists>ns'. ApproveRegisterSideChain env cfg ns = Inr (BYTE_TRUE, ns') \<and>
    GetSideChain ns' (sc_ChainId s) = Inr (Some (stored_chain cfg s)) \<and> getSideChainApply ns' (Chainid params) = Inr None"
proof -
  from SideChain_read [OF assms(4)] assms(5) obtain src where
    r: "SideChain_Deserialization (NewZeroCopySource (SideChain_Serialization cfg s)) = Some (stored_chain cfg s, src)"
    by fastforce
  from assms show ?thesis
    by (simp add: ApproveRegisterSideChain_def parse_any [OF assms(1)] approved_def Let_def GetSideChain_def
        getSideChainApply_def side_puts store_simps skey_chain skey_quit)
      (simp add: load_item_def store_simps r)
qed

theorem approved_chain_is_stored_witness:
  "\<exists>ns'. ApproveRegisterSideChain plain_env sample_config register_call = Inr (BYTE_TRUE, ns') \<and>
    GetSideChain ns' 7 = Inr (Some sample_chain) \<and> getSideChainApply ns' 7 = Inr None"
proof -
  obtain ns1 where c: "CheckConsensusSigns plain_env APPROVE_REGISTER_SIDE_CHAIN (GetUint64Bytes 7) solo register_call
      = Inr (True, ns1)"
    unfolding register_call_def by (rule solo_consent [of 4]) simp_all
  have p: "parse_input ChainidParam_Deserialization [] register_call = Inr \<lparr>Chainid = 7, ci_Address = solo\<rparr>"
    unfolding register_call_def by (rule chainid_parse)
  have "ValidateOwner plain_env register_call solo" unfolding register_call_def by (rule solo_owner)
  with approved_chain_is_stored [OF p, of plain_env sample_chain sample_config ns1] register_call_apply c sample_chain_ok
  show ?thesis by (auto simp: sample_chain_def)
qed

section \<open>Fees\<close>

lemma sorted_desc_nth:
  assumes "sorted_wrt (\<ge>) (xs :: nat list)" and "k < length xs"
  shows "k < length (filter (\<lambda>x. lo \<le> x) xs) \<Longrightarrow> lo \<le> xs ! k"
    and "length xs < k + 1 + length (filter (\<lambda>x. x \<le> hi) xs) \<Longrightarrow> xs ! k \<le> hi"
proof -
  have m: "j \<le> i \<Longrightarrow> i < length xs \<Longrightarrow> xs ! i \<le> xs ! j" for i j
    using assms(1) by (cases "i = j") (auto simp: sorted_wrt_iff_nth_less)
  show "lo \<le> xs ! k" if "k < length (filter (\<lambda>x. lo \<le> x) xs)"
  proof (rule ccontr)
    assume "\<not> lo \<le> xs ! k"
    then have "i < k" if "i < length xs" "lo \<le> xs ! i" for i using m [of k i] that by (cases "k \<le> i") simp_all
    then have "{i. i < length xs \<and> lo \<le> xs ! i} \<subseteq> {..<k}" by blast
    then have "card {i. i < length xs \<and> lo \<le> xs ! i} \<le> k" using card_mono [of "{..<k}"] by simp
    with that show False by (simp add: length_filter_conv_card)
  qed
  show "xs ! k \<le> hi" if "length xs < k + 1 + length (filter (\<lambda>x. x \<le> hi) xs)"
  proof (rule ccontr)
    assume "\<not> xs ! k \<le> hi"
    then have "Suc k \<le> i" if "i < length xs" "xs ! i \<le> hi" for i
      using m [of i k] that assms(2) by (cases "i \<le> k") simp_all
    then have "{i. i < length xs \<and> xs ! i \<le> hi} \<subseteq> {Suc k..<length xs}" by auto
    then have "card {i. i < length xs \<and> xs ! i \<le> hi} \<le> length xs - Suc k" using card_mono [of "{Suc k..<length xs}"] by simp
    with that assms(2) show False by (simp add: length_filter_conv_card)
  qed
qed

lemma length_filter_sort: "length (filter P (SliceStable lt xs)) = length (filter P xs)"
  by (simp only: size_mset [symmetric] mset_filter mset_SliceStable)

lemma length_filter_weaken: "\<forall>x. P x \<longrightarrow> Q x \<Longrightarrow> length (filter P xs) \<le> length (filter Q xs)"
  by (induction xs) auto

lemma middle_fee:
  fixes fees :: "nat list"
  assumes "length fees < 2 * length (filter (\<lambda>v. lo \<le> v \<and> v \<le> hi) fees)"
    and "2 * k \<le> length fees" "length fees \<le> 2 * k + 2" "k < length fees"
  shows "lo \<le> sort_desc (\<lambda>v. v) fees ! k" "sort_desc (\<lambda>v. v) fees ! k \<le> hi"
proof -
  let ?s = "sort_desc (\<lambda>v. v) fees"
  have srt: "sorted_wrt (\<ge>) ?s" by (rule sorted_sort_desc)
  have k: "k < length ?s" using assms(4) by simp
  have "length fees < 2 * length (filter (\<lambda>v. lo \<le> v) fees)" "length fees < 2 * length (filter (\<lambda>v. v \<le> hi) fees)"
    using assms(1) length_filter_weaken [of "\<lambda>v. lo \<le> v \<and> v \<le> hi" "\<lambda>v. lo \<le> v" fees]
      length_filter_weaken [of "\<lambda>v. lo \<le> v \<and> v \<le> hi" "\<lambda>v. v \<le> hi" fees] by auto
  with assms(2,3) have "k < length (filter (\<lambda>v. lo \<le> v) ?s)" "length ?s < k + 1 + length (filter (\<lambda>v. v \<le> hi) ?s)"
    unfolding length_filter_sort length_SliceStable by linarith+
  then show "lo \<le> ?s ! k" "?s ! k \<le> hi" using sorted_desc_nth [OF srt k] by blast+
qed

lemma half_bounds:
  assumes "lo \<le> x" "x \<le> hi" "lo \<le> y" "y \<le> (hi :: nat)"
  shows "5 * lo \<le> (x + y) * 5 div 2 \<and> (x + y) * 5 div 2 \<le> 5 * hi"
proof
  have "5 * lo = (lo + lo) * 5 div 2" by simp
  also have "\<dots> \<le> (x + y) * 5 div 2" using assms by (intro div_le_mono mult_le_mono add_mono) simp_all
  finally show "5 * lo \<le> (x + y) * 5 div 2" .
  have "(x + y) * 5 div 2 \<le> (hi + hi) * 5 div 2" using assms by (intro div_le_mono mult_le_mono add_mono) simp_all
  also have "\<dots> = 5 * hi" by simp
  finally show "(x + y) * 5 div 2 \<le> 5 * hi" .
qed

lemma new_fee_even: "length fees = 2 * Suc j \<Longrightarrow>
    new_fee fees = (sort_desc (\<lambda>v. v) fees ! Suc j + sort_desc (\<lambda>v. v) fees ! j) * 5 div 2"
  and new_fee_odd: "length fees = 2 * j + 1 \<Longrightarrow> new_fee fees = sort_desc (\<lambda>v. v) fees ! j * 5"
  unfolding new_fee_def Let_def length_SliceStable by simp_all

text \<open>
  C14 (bounds): when more than half of the reported fees lie between two bounds, the new fee lies between five
  times these bounds, whatever the other reports are; and it does not depend on Go's iteration order.
\<close>

theorem fee_follows_majority:
  assumes "2 * length (filter (\<lambda>v. lo \<le> v \<and> v \<le> hi) fees) > length fees"
  shows "5 * lo \<le> new_fee fees \<and> new_fee fees \<le> 5 * hi \<and> (\<forall>fees'. mset fees' = mset fees \<longrightarrow> new_fee fees' = new_fee fees)"
proof -
  note b = middle_fee [OF assms]
  have "5 * lo \<le> new_fee fees \<and> new_fee fees \<le> 5 * hi"
  proof (cases "even (length fees)")
    case True
    then obtain i where i: "length fees = 2 * i" by (elim evenE)
    have "length fees > 0" using assms by (cases fees) auto
    with i obtain j where j: "length fees = 2 * Suc j" by (cases i) auto
    with b [of "Suc j"] b [of j] have "lo \<le> sort_desc (\<lambda>v. v) fees ! Suc j" "sort_desc (\<lambda>v. v) fees ! Suc j \<le> hi"
      "lo \<le> sort_desc (\<lambda>v. v) fees ! j" "sort_desc (\<lambda>v. v) fees ! j \<le> hi" by simp_all
    then show ?thesis unfolding new_fee_even [OF j] by (intro half_bounds)
  next
    case False
    then obtain j where j: "length fees = 2 * j + 1" by (elim oddE)
    with b [of j] have "lo \<le> sort_desc (\<lambda>v. v) fees ! j" "sort_desc (\<lambda>v. v) fees ! j \<le> hi" by simp_all
    then show ?thesis unfolding new_fee_odd [OF j] by simp
  qed
  moreover have "new_fee fees' = new_fee fees" if "mset fees' = mset fees" for fees'
  proof -
    have "sort_desc (\<lambda>v. v) fees' = sort_desc (\<lambda>v. v) fees" by (rule sort_desc_unique [OF that]) (rule inj_on_id2)
    then show ?thesis unfolding new_fee_def by (rule arg_cong)
  qed
  ultimately show ?thesis by blast
qed

theorem fee_follows_majority_witness:
  "5 * 10 \<le> new_fee [10, 1000, 12, 0, 11] \<and> new_fee [10, 1000, 12, 0, 11] \<le> 5 * 12"
proof -
  have "2 * length (filter (\<lambda>v. 10 \<le> v \<and> v \<le> 12) [10, 1000, 12, 0, 11 :: nat]) > length [10, 1000, 12, 0, 11 :: nat]"
    by simp
  from fee_follows_majority [OF this] show ?thesis by blast
qed

end
