(* ===== verification/Merkle_Root.thy ===== *)
theory Merkle_Root
  imports Merkle_Hash
begin

text \<open>
  The tree hash.  \<open>mth\<close> is the Merkle tree hash of RFC 6962 on leaf hashes, the reference that every way the
  code has of computing a root is compared with; \<open>hash_full\<close>, \<open>HashFullTreeWithLeafHash\<close> and \<open>HashFullTree\<close>
  are the recursive computation of \<open>merkle/merkle_hasher.go\<close>.
\<close>

section \<open>Bit counting on natural numbers\<close>

fun bitlen :: "nat \<Rightarrow> nat" where
  "bitlen n = (if n = 0 then 0 else Suc (bitlen (n div 2)))"

fun pop :: "nat \<Rightarrow> nat" where
  "pop n = (if n = 0 then 0 else n mod 2 + pop (n div 2))"

declare bitlen.simps [simp del] pop.simps [simp del]

lemma bitlen_0 [simp]: "bitlen 0 = 0" "bitlen (Suc 0) = 1"
  by (simp_all add: bitlen.simps)

lemma bitlen_bounds: "0 < n \<Longrightarrow> 2 ^ (bitlen n - 1) \<le> n \<and> n < 2 ^ bitlen n"
proof (induction n rule: bitlen.induct)
  case (1 n)
  show ?case
  proof (cases "n div 2 = 0")
    case True
    with 1 have "n = 1" by simp
    then show ?thesis by simp
  next
    case False
    then have b: "2 ^ (bitlen (n div 2) - 1) \<le> n div 2" "n div 2 < 2 ^ bitlen (n div 2)" using 1 by simp_all
    from False have "bitlen (n div 2) = Suc (bitlen (n div 2) - 1)" by (subst bitlen.simps, subst (2) bitlen.simps) simp
    then have "(2 :: nat) ^ bitlen (n div 2) = 2 * 2 ^ (bitlen (n div 2) - 1)" by (metis power_Suc)
    moreover have "n = 2 * (n div 2) + n mod 2" "n mod 2 < 2" by simp_all
    ultimately have "2 ^ bitlen (n div 2) \<le> n" "n < 2 ^ Suc (bitlen (n div 2))"
      using b unfolding power_Suc by linarith+
    then show ?thesis using 1(2) by (subst (1 2) bitlen.simps) simp
  qed
qed

lemma bitlen_eq: "2 ^ j \<le> n \<Longrightarrow> n < 2 ^ Suc j \<Longrightarrow> bitlen n = Suc j"
proof (induction j arbitrary: n)
  case 0
  then have "n = 1" by simp
  then show ?case by simp
next
  case (Suc j)
  from Suc.prems have "n \<noteq> 0" "2 ^ j \<le> n div 2" "n div 2 < 2 ^ Suc j" by (auto intro: ccontr)
  with Suc.IH [of "n div 2"] show ?case by (subst bitlen.simps) simp
qed

lemma highBit_bitlen: "highBit x = bitlen (unat x)"
proof -
  have "highBit_loop y c = c + bitlen (unat y)" for y :: uint32 and c
  proof (induction y c rule: highBit_loop.induct)
    case (1 num hiBit)
    have "unat (drop_bit 1 num) = unat num div 2" by (simp add: drop_bit_eq_div unat_div)
    with 1 show ?case
      by (subst highBit_loop.simps, subst bitlen.simps) (simp add: unat_eq_0)
  qed
  then show ?thesis by (simp add: highBit_def)
qed

lemma and_pred: "(n :: nat) \<noteq> 0 \<Longrightarrow> and n (n - 1) = (if odd n then n - 1 else 2 * and (n div 2) (n div 2 - 1))"
proof (cases "odd n")
  case True
  then obtain m where "n = 2 * m + 1" by (elim oddE)
  then show ?thesis using True by (simp add: and_nat_unfold [of "Suc (2 * m)"])
next
  case False
  moreover assume "n \<noteq> 0"
  ultimately obtain m where m: "n = 2 * m" "m \<noteq> 0" by (metis evenE mult_0_right)
  then have "(n - 1) mod 2 = 1" "(n - 1) div 2 = m - 1" by presburger+
  with m show ?thesis by (simp add: and_nat_unfold [of "2 * m"])
qed

lemma pop_and_pred: "n \<noteq> 0 \<Longrightarrow> pop n = Suc (pop (and n (n - 1)))"
proof (induction n rule: less_induct)
  case (less n)
  show ?case
  proof (cases "odd n")
    case True
    have e: "(n - 1) div 2 = n div 2" "(n - 1) mod 2 = 0" "n mod 2 = 1" using True by presburger+
    have "pop (n - 1) = pop (n div 2)" using e by (subst pop.simps) (auto simp: pop.simps [of 0])
    with and_pred [OF less.prems] True e less.prems show ?thesis by (simp add: pop.simps [of n])
  next
    case False
    have n2: "n div 2 \<noteq> 0" "n div 2 < n" using False less.prems by presburger+
    have dbl: "pop (2 * m) = pop m" for m by (subst pop.simps) (simp add: pop.simps [of 0])
    have "pop n = pop (n div 2)" using False dbl [of "n div 2"] by simp
    with less.IH [OF n2(2,1)] False and_pred [OF less.prems] show ?thesis by (simp add: dbl)
  qed
qed

lemma countBit_pop: "countBit x = pop (unat x)"
proof -
  have "countBit_loop y c = c + pop (unat y)" for y :: uint32 and c
  proof (induction y c rule: countBit_loop.induct)
    case (1 num c)
    show ?case
    proof (cases "num = 0")
      case True
      then show ?thesis by (simp add: countBit_loop.simps pop.simps)
    next
      case False
      then have "unat (and num (num - 1)) = and (unat num) (unat num - 1)"
        by (simp add: unsigned_and_eq unat_minus_one)
      with False 1 pop_and_pred [of "unat num"] show ?thesis
        by (subst countBit_loop.simps) (simp add: unat_eq_0)
    qed
  qed
  then show ?thesis by (simp add: countBit_def)
qed

section \<open>Where a tree is split\<close>

text \<open>The largest power of two below \<open>n\<close>.\<close>

definition top_split :: "nat \<Rightarrow> nat" where
  "top_split n = 2 ^ (bitlen (n - 1) - 1)"

lemma top_split_eq: "2 ^ j < n \<Longrightarrow> n \<le> 2 * 2 ^ j \<Longrightarrow> top_split n = 2 ^ j"
  using bitlen_eq [of j "n - 1"] by (simp add: top_split_def)

lemma top_split_bounds:
  assumes "2 \<le> n" obtains j where "top_split n = 2 ^ j" "2 ^ j < n" "n \<le> 2 * 2 ^ j"
proof -
  have b: "2 ^ (bitlen (n - 1) - 1) \<le> n - 1" "n - 1 < 2 ^ bitlen (n - 1)" using bitlen_bounds [of "n - 1"] assms by auto
  have "bitlen (n - 1) = Suc (bitlen (n - 1) - 1)" using assms by (subst bitlen.simps, subst (2) bitlen.simps) simp
  then have "(2 :: nat) ^ bitlen (n - 1) = 2 * 2 ^ (bitlen (n - 1) - 1)" by (metis power_Suc)
  with b assms have "2 ^ (bitlen (n - 1) - 1) < n" "n \<le> 2 * 2 ^ (bitlen (n - 1) - 1)" by linarith+
  with that [of "bitlen (n - 1) - 1"] show ?thesis by (simp add: top_split_def)
qed

text \<open>
  \<open>1 << (highBit(width-1) - 1)\<close>: the shift count is unsigned, so for \<open>width = 1\<close> it is huge and the result 0.
\<close>

definition split_width :: "uint32 \<Rightarrow> uint32" where
  "split_width width = (if highBit (width - 1) = 0 then 0 else push_bit (highBit (width - 1) - 1) 1)"

lemma split_width_top: "2 \<le> n \<Longrightarrow> n < 2 ^ 32 \<Longrightarrow> split_width (of_nat n) = of_nat (top_split n)"
proof -
  assume n: "2 \<le> n" "n < 2 ^ 32"
  have u: "unat (of_nat n - 1 :: uint32) = n - 1"
  proof -
    from n(1) obtain m where m: "n = Suc m" by (cases n) auto
    with n(2) show ?thesis by (simp add: unat_of_nat take_bit_nat_eq_self)
  qed
  have "bitlen (n - 1) \<noteq> 0" using n by (subst bitlen.simps) simp
  with u show ?thesis by (simp add: split_width_def highBit_bitlen top_split_def push_bit_eq_mult)
qed

section \<open>The reference tree hash\<close>

function mth :: "uint256 list \<Rightarrow> uint256" where
  "mth xs =
     (if xs = [] then hash_empty
      else if length xs = 1 then hd xs
      else hash_children (mth (take (top_split (length xs)) xs)) (mth (drop (top_split (length xs)) xs)))"
  by auto
termination
proof (relation "measure length")
  fix xs :: "uint256 list" assume "xs \<noteq> []" "length xs \<noteq> 1"
  then have "2 \<le> length xs" by (cases xs; cases "tl xs") auto
  then obtain j where "top_split (length xs) = 2 ^ j" "2 ^ j < length xs" by (rule top_split_bounds)
  moreover have "length xs - 2 ^ j < length xs" by (rule diff_less) (use \<open>xs \<noteq> []\<close> in auto)
  ultimately show "(take (top_split (length xs)) xs, xs) \<in> measure length"
    "(drop (top_split (length xs)) xs, xs) \<in> measure length" by auto
qed simp

declare mth.simps [simp del]

lemma mth_simps [simp]: "mth [] = hash_empty" "mth [x] = x"
  by (simp_all add: mth.simps)

lemma mth_append: "length l = 2 ^ j \<Longrightarrow> r \<noteq> [] \<Longrightarrow> length r \<le> 2 ^ j \<Longrightarrow> mth (l @ r) = hash_children (mth l) (mth r)"
proof -
  assume a: "length l = 2 ^ j" "r \<noteq> []" "length r \<le> 2 ^ j"
  then have "length (l @ r) \<noteq> 1" "0 < length r" using one_le_power [of "2 :: nat" j] by (cases r; simp)+
  moreover have "top_split (length (l @ r)) = 2 ^ j" using a \<open>0 < length r\<close> by (intro top_split_eq) simp_all
  ultimately show ?thesis using a by (subst mth.simps) (simp del: length_append)
qed

lemma tree_cases:
  obtains "xs = []" | x where "xs = [x]"
  | l r j where "xs = l @ r" "length l = 2 ^ j" "r \<noteq> []" "length r \<le> 2 ^ j" "top_split (length xs) = 2 ^ j"
proof (cases "2 \<le> length xs")
  case True
  then obtain j where j: "top_split (length xs) = 2 ^ j" "2 ^ j < length xs" "length xs \<le> 2 * 2 ^ j"
    by (rule top_split_bounds)
  then show ?thesis by (intro that(3) [of "take (2 ^ j) xs" "drop (2 ^ j) xs" j]) auto
next
  case False
  then show ?thesis using that(1,2) by (cases xs; cases "tl xs") auto
qed

lemma tree_induct [case_names Nil Leaf Node]:
  assumes "P []" "\<And>x. P [x]"
    and "\<And>l r j. length l = 2 ^ j \<Longrightarrow> r \<noteq> [] \<Longrightarrow> length r \<le> 2 ^ j \<Longrightarrow> top_split (length (l @ r)) = 2 ^ j \<Longrightarrow>
      P l \<Longrightarrow> P r \<Longrightarrow> P (l @ r)"
  shows "P xs"
proof (induction xs rule: length_induct)
  case (1 xs)
  show ?case
  proof (cases rule: tree_cases [of xs])
    case (3 l r j)
    then have "length l < length xs" "length r < length xs" by auto
    with 1 3 assms(3) show ?thesis by metis
  qed (use assms(1,2) in simp_all)
qed

lemma length_mth: "(\<And>x. x \<in> set xs \<Longrightarrow> length x = UINT256_SIZE) \<Longrightarrow> length (mth xs) = UINT256_SIZE"
proof (cases rule: tree_cases [of xs])
  case (3 l r j)
  then show ?thesis by (simp add: mth_append [OF 3(2-4)] hash_children_def size_defs)
qed (simp_all add: hash_empty_def size_defs)

section \<open>Peaks\<close>

text \<open>
  The maximal complete subtrees of \<open>s\<close> blocks of \<open>2 ^ h\<close> leaves, from left to right: one for each bit of \<open>s\<close>.
\<close>

function pks :: "nat \<Rightarrow> nat \<Rightarrow> uint256 list \<Rightarrow> uint256 list" where
  "pks h s xs =
     (if s = 0 then []
      else if odd s then pks (Suc h) (s div 2) (take ((s - 1) * 2 ^ h) xs) @ [mth (drop ((s - 1) * 2 ^ h) xs)]
      else pks (Suc h) (s div 2) xs)"
  by auto
termination by (relation "measure (\<lambda>(h, s, xs). s)") auto

declare pks.simps [simp del]

abbreviation peaks :: "uint256 list \<Rightarrow> uint256 list" where
  "peaks xs \<equiv> pks 0 (length xs) xs"

lemma pks_0 [simp]: "pks h 0 xs = []" by (simp add: pks.simps)

lemma pks_even: "even s \<Longrightarrow> pks h s xs = pks (Suc h) (s div 2) xs"
  by (cases "s = 0") (simp_all add: pks.simps [of h s])

lemma pks_odd:
  assumes "odd s" "length xs = (s - 1) * 2 ^ h"
  shows "pks h s (xs @ zs) = pks (Suc h) (s div 2) xs @ [mth zs]"
  using assms by (subst pks.simps) (auto elim: oddE)

lemma odd_blocks:
  assumes "odd s" "length xs = s * 2 ^ h"
  obtains ys zs where "xs = ys @ zs" "length ys = (s div 2) * 2 ^ Suc h" "length ys = (s - 1) * 2 ^ h" "length zs = 2 ^ h"
proof -
  from assms(1) obtain m where m: "s = 2 * m + 1" by (elim oddE)
  show ?thesis
    by (rule that [of "take ((s - 1) * 2 ^ h) xs" "drop ((s - 1) * 2 ^ h) xs"]) (use assms(2) m in \<open>auto simp: algebra_simps\<close>)
qed

lemma fold_pks:
  "length xs = s * 2 ^ h \<Longrightarrow> ys \<noteq> [] \<Longrightarrow> length ys \<le> 2 ^ h \<Longrightarrow> foldr hash_children (pks h s xs) (mth ys) = mth (xs @ ys)"
proof (induction h s xs arbitrary: ys rule: pks.induct)
  case (1 h s xs)
  consider "s = 0" | "s \<noteq> 0" "odd s" | "s \<noteq> 0" "even s" by blast
  then show ?case
  proof cases
    case 1
    then show ?thesis using 1 \<open>length xs = s * 2 ^ h\<close> by simp
  next
    case 2
    from 2(2) "1.prems"(1) obtain xs1 zs where x: "xs = xs1 @ zs" "length xs1 = (s div 2) * 2 ^ Suc h"
      "length xs1 = (s - 1) * 2 ^ h" "length zs = 2 ^ h" by (rule odd_blocks)
    have "take ((s - 1) * 2 ^ h) xs = xs1" using x by simp
    with "1.IH"(1) [OF 2, of "zs @ ys"] x "1.prems"(2,3)
    have "foldr hash_children (pks (Suc h) (s div 2) xs1) (mth (zs @ ys)) = mth (xs1 @ zs @ ys)" by simp
    with x 2 "1.prems" show ?thesis by (simp add: pks_odd mth_append)
  next
    case 3
    then have "length xs = (s div 2) * 2 ^ Suc h" using "1.prems"(1) by (auto elim: evenE)
    with "1.IH"(2) [OF 3(1), of ys] 3 "1.prems"(2,3) show ?thesis by (simp add: pks_even)
  qed
qed

lemma hash_fold_snoc: "hash_fold (hs @ [h]) = Some (foldr hash_children hs h)"
  by (simp add: hash_fold_def foldl_conv_foldr)

lemma hash_fold_pks: "length xs = s * 2 ^ h \<Longrightarrow> s \<noteq> 0 \<Longrightarrow> hash_fold (pks h s xs) = Some (mth xs)"
proof (induction h s xs rule: pks.induct)
  case (1 h s xs)
  show ?case
  proof (cases "odd s")
    case True
    from True "1.prems"(1) obtain xs1 zs where x: "xs = xs1 @ zs" "length xs1 = (s div 2) * 2 ^ Suc h"
      "length xs1 = (s - 1) * 2 ^ h" "length zs = 2 ^ h" by (rule odd_blocks)
    have "zs \<noteq> []" using x(4) by auto
    with fold_pks [OF x(2), of zs] x True show ?thesis by (simp add: pks_odd hash_fold_snoc)
  next
    case False
    then have "length xs = (s div 2) * 2 ^ Suc h" "s div 2 \<noteq> 0" using "1.prems" by (auto elim: evenE)
    with "1.IH"(2) False "1.prems"(2) show ?thesis by (simp add: pks_even)
  qed
qed

lemma hash_fold_peaks: "xs \<noteq> [] \<Longrightarrow> hash_fold (peaks xs) = Some (mth xs)"
  using hash_fold_pks [of xs "length xs" 0] by simp

lemma hash_fold_peaks_leaf: "hash_fold (peaks xs @ [x]) = Some (mth (xs @ [x]))"
  using fold_pks [of xs "length xs" 0 "[x]"] by (simp add: hash_fold_snoc)

lemma length_pks: "length (pks h s xs) = pop s"
proof (induction h s xs rule: pks.induct)
  case (1 h s xs)
  then show ?case by (subst pks.simps, subst pop.simps) (auto elim: oddE)
qed

lemma pks_Cons:
  "s < 2 ^ i \<Longrightarrow> length l = 2 ^ (h + i) \<Longrightarrow> length r = s * 2 ^ h \<Longrightarrow> pks h (2 ^ i + s) (l @ r) = mth l # pks h s r"
proof (induction i arbitrary: h s r)
  case 0
  then show ?case by (subst pks.simps) simp
next
  case (Suc i)
  show ?case
  proof (cases "odd s")
    case True
    from True Suc.prems(3) obtain r1 zs where r: "r = r1 @ zs" "length r1 = (s div 2) * 2 ^ Suc h"
      "length r1 = (s - 1) * 2 ^ h" "length zs = 2 ^ h" by (rule odd_blocks)
    have o: "odd (2 ^ Suc i + s)" "(2 ^ Suc i + s) div 2 = 2 ^ i + s div 2" using True by auto
    have "length (l @ r1) = (2 ^ Suc i + s - 1) * 2 ^ h"
      using Suc.prems(2) r(3) True by (auto simp: power_add algebra_simps elim: oddE)
    with pks_odd [OF o(1), of "l @ r1" h zs] o r Suc.IH [of "s div 2" "Suc h" r1] Suc.prems True
    show ?thesis by (simp add: pks_odd)
  next
    case False
    then have "length r = (s div 2) * 2 ^ Suc h" using Suc.prems(3) by (auto elim: evenE)
    with False Suc.IH [of "s div 2" "Suc h" r] Suc.prems show ?thesis by (simp add: pks_even)
  qed
qed

lemma pks_single: "length l = 2 ^ (h + i) \<Longrightarrow> pks h (2 ^ i) l = [mth l]"
  using pks_Cons [of 0 i l h "[]"] by simp

section \<open>The recursive computation\<close>

text \<open>
  \<open>_hash_full\<close> on the index range; \<open>Inl\<close> is a panic.  The recursion is on the width of the range.
\<close>

lemma split_width_less:
  assumes "width \<noteq> 0" "width \<noteq> 1"
  shows "unat (split_width width) < unat width" "unat (width - split_width width) < unat width"
proof -
  have "unat width \<noteq> 0" "unat width \<noteq> 1" using assms by (simp_all add: word_unat_eq_iff)
  then have n: "2 \<le> unat width" by simp
  then obtain j where j: "top_split (unat width) = 2 ^ j" "2 ^ j < unat width" by (rule top_split_bounds)
  have w: "unat width < 2 ^ 32" using unsigned_less [of width] by simp
  then have s: "split_width width = of_nat (2 ^ j)" using split_width_top [OF n] j(1) by simp
  have "(2 :: nat) ^ j < 2 ^ 32" using j(2) w by simp
  with s have u: "unat (split_width width) = 2 ^ j" by (simp only: unat_of_nat take_bit_nat_eq_self len_num1 len_bit0) (simp add: take_bit_nat_eq_self)
  with j show "unat (split_width width) < unat width" by simp
  then show "unat (width - split_width width) < unat width" using u by (subst unat_sub) (simp_all add: word_le_nat_alt)
qed

function hash_full :: "uint256 list \<Rightarrow> uint32 \<Rightarrow> uint32 \<Rightarrow> string + (uint256 \<times> uint256 list)" where
  "hash_full leaves l_idx r_idx =
     (let width = r_idx - l_idx in
      if width = 0 then Inr (hash_empty, [])
      else if width = 1 then
        (if unat l_idx < length leaves then Inr (leaves ! unat l_idx, [leaves ! unat l_idx])
         else Inl ''panic: index out of range'')
      else
        let split = split_width width in
        ebind (hash_full leaves l_idx (l_idx + split)) (\<lambda>(l_root, l_hashes).
        if length l_hashes \<noteq> 1 then Inl ''panic: left tree always full''
        else
        ebind (hash_full leaves (l_idx + split) r_idx) (\<lambda>(r_root, r_hashes).
        let root_hash = hash_children l_root r_root in
        Inr (root_hash, if split * 2 = width then [root_hash] else l_hashes @ r_hashes))))"
  by pat_completeness auto
termination
  by (relation "measure (\<lambda>(_, l, r). unat (r - l))") (auto simp: split_width_less diff_diff_eq [symmetric])

declare hash_full.simps [simp del]

definition HashFullTreeWithLeafHash :: "uint256 list \<Rightarrow> string + uint256" where
  "HashFullTreeWithLeafHash leaves =
     (let l = of_nat (length leaves) in
      ebind (hash_full leaves 0 l) (\<lambda>(root_hash, hashes).
      if length hashes \<noteq> countBit l then Inl ''panic: hashes length mismatch'' else Inr root_hash))"

definition HashFullTree :: "bytes list \<Rightarrow> string + uint256" where
  "HashFullTree leaves = HashFullTreeWithLeafHash (map hash_leaf leaves)"

section \<open>The recursive computation gives the tree hash\<close>

lemma hash_full_mth:
  assumes "length (pre @ xs @ post) < 2 ^ 32"
  shows "hash_full (pre @ xs @ post) (of_nat (length pre)) (of_nat (length pre + length xs)) = Inr (mth xs, peaks xs)"
  using assms
proof (induction xs arbitrary: pre post rule: tree_induct)
  case Nil
  then show ?case by (simp add: hash_full.simps)
next
  case (Leaf x)
  then have "unat (of_nat (length pre) :: uint32) = length pre" by (simp add: unat_of_nat take_bit_nat_eq_self)
  then show ?case by (simp add: hash_full.simps pks.simps)
next
  case (Node l r j)
  let ?n = "length (l @ r)"
  have n: "2 \<le> ?n" "?n < 2 ^ 32" using Node by (cases l; cases r; simp)+
  have w: "of_nat (length pre + ?n) - of_nat (length pre) = (of_nat ?n :: uint32)" by simp
  have ne: "(of_nat ?n :: uint32) \<noteq> 0" "(of_nat ?n :: uint32) \<noteq> 1"
    using n by (simp_all only: word_unat_eq_iff unat_of_nat) (auto simp: take_bit_nat_eq_self)
  have s: "split_width (of_nat ?n) = of_nat (length l)" using split_width_top [OF n] Node(1,4) by simp
  have il: "hash_full (pre @ (l @ r) @ post) (of_nat (length pre)) (of_nat (length pre) + of_nat (length l)) = Inr (mth l, [mth l])"
    using Node.IH(1) [of pre "r @ post"] Node(1) Node.prems by (simp add: pks_single [where h = 0])
  have ir: "hash_full (pre @ (l @ r) @ post) (of_nat (length pre) + of_nat (length l)) (of_nat (length pre + ?n)) = Inr (mth r, peaks r)"
    using Node.IH(2) [of "pre @ l" post] Node.prems by (simp add: add.assoc)
  have "(of_nat (length l) * 2 :: uint32) = of_nat ?n \<longleftrightarrow> length l = length r"
  proof -
    have "(of_nat (length l) * 2 :: uint32) = of_nat ?n \<longleftrightarrow> (of_nat (length l) :: uint32) = of_nat (length r)"
      by (simp add: mult_2_right)
    also have "\<dots> \<longleftrightarrow> length l = length r"
      using n by (simp only: word_unat_eq_iff unat_of_nat) (simp add: take_bit_nat_eq_self)
    finally show ?thesis .
  qed
  moreover have "length l = length r \<Longrightarrow> peaks (l @ r) = [mth (l @ r)]"
    using Node(1) pks_single [of "l @ r" 0 "Suc j"] by (simp add: mult_2)
  moreover have "length l \<noteq> length r \<Longrightarrow> peaks (l @ r) = mth l # peaks r"
    using Node(1,3) pks_Cons [of "length r" j l 0 r] by simp
  moreover have "mth (l @ r) = hash_children (mth l) (mth r)" by (rule mth_append [OF Node(1-3)])
  ultimately show ?case
    by (subst hash_full.simps) (simp only: w ne s il ir Let_def if_False ebind_Inr prod.case, auto)
qed

lemma HashFullTreeWithLeafHash_mth: "length xs < 2 ^ 32 \<Longrightarrow> HashFullTreeWithLeafHash xs = Inr (mth xs)"
  using hash_full_mth [of "[]" xs "[]"]
  by (simp add: HashFullTreeWithLeafHash_def countBit_pop length_pks unat_of_nat take_bit_nat_eq_self)

end
