(* ===== verification/Merkle_Tree.thy ===== *)
theory Merkle_Tree
  imports Merkle_Root
begin

text \<open>
  \<open>merkle/merkle_tree.go\<close> and \<open>merkle/file_hash_store.go\<close>: the compact tree, which keeps only the roots of the
  maximal complete subtrees and appends every finished node to a hash store.  The invariant \<open>tree_ok\<close> relates a
  tree to the leaf hashes appended to it; the node layout of the store is \<open>lay\<close>.
\<close>

section \<open>Hash stores\<close>

lemma unat_of_nat32: "n < 2 ^ 32 \<Longrightarrow> unat (of_nat n :: uint32) = n"
  by (simp add: unat_of_nat take_bit_nat_eq_self)

text \<open>
  The in-memory store is a slice of hashes; the file store is the content of the file with the position of
  the next write.  \<open>GetHash\<close> returns the hash and whether there was an error; \<open>None\<close> is a panic.  Reads and
  writes of an open file are taken to succeed.
\<close>

type_synonym memHashStore = "uint256 list"

record fileHashStore =
  fdata :: bytes
  fpos :: nat

datatype HashStore = MemStore memHashStore | FileStore fileHashStore

definition memHashStore_Append :: "uint256 list \<Rightarrow> memHashStore \<Rightarrow> memHashStore" where
  "memHashStore_Append hs s = s @ hs"

definition memHashStore_GetHash :: "memHashStore \<Rightarrow> uint32 \<Rightarrow> (uint256 \<times> bool) option" where
  "memHashStore_GetHash s pos = (if unat pos < length s then Some (s ! unat pos, False) else None)"

definition fileHashStore_Append :: "uint256 list \<Rightarrow> fileHashStore \<Rightarrow> fileHashStore" where
  "fileHashStore_Append hs s =
     (let buf = concat hs in s\<lparr>fdata := overwrite (fdata s) (fpos s) buf, fpos := fpos s + length buf\<rparr>)"

definition fileHashStore_GetHash :: "fileHashStore \<Rightarrow> uint32 \<Rightarrow> (uint256 \<times> bool) option" where
  "fileHashStore_GetHash s pos =
     (let off = unat pos * UINT256_SIZE in
      if off + UINT256_SIZE \<le> length (fdata s) then Some (slice (fdata s) off (off + UINT256_SIZE), False)
      else Some (EMPTY_HASH, True))"

fun store_Append :: "uint256 list \<Rightarrow> HashStore \<Rightarrow> HashStore" where
  "store_Append hs (MemStore s) = MemStore (memHashStore_Append hs s)"
| "store_Append hs (FileStore s) = FileStore (fileHashStore_Append hs s)"

fun GetHash :: "HashStore \<Rightarrow> uint32 \<Rightarrow> (uint256 \<times> bool) option" where
  "GetHash (MemStore s) pos = memHashStore_GetHash s pos"
| "GetHash (FileStore s) pos = fileHashStore_GetHash s pos"

section \<open>Positions of the nodes\<close>

text \<open>The loop of \<open>getSubTreeSize\<close> and \<open>getSubTreePos\<close>, which fills the slice from its end.\<close>

function subtree_loop :: "uint32 \<Rightarrow> uint64 \<Rightarrow> uint32 \<Rightarrow> uint32 list \<Rightarrow> uint32 list" where
  "subtree_loop n i idx sizes =
     (if n \<noteq> 0 then
        let idx = idx * 2 in
        if n mod 2 = 1 then subtree_loop (drop_bit 1 n) (i - 1) idx (sizes[unat i := idx - 1])
        else subtree_loop (drop_bit 1 n) i idx sizes
      else sizes)"
  by auto
termination
proof (relation "measure (\<lambda>(n, _). unat n)")
  fix n :: uint32 assume "n \<noteq> 0"
  then have "unat (drop_bit 1 n) < unat n" by (simp add: drop_bit_eq_div unat_div unat_gt_0)
  then show "((drop_bit 1 n, i, y, z), n, i', y', z') \<in> measure (\<lambda>(n, _). unat n)"
    "((drop_bit 1 n, i, y, z), n, i', y', z') \<in> measure (\<lambda>(n, _). unat n)" for i i' :: uint64 and y y' z z' by simp_all
qed simp

declare subtree_loop.simps [simp del]

definition getSubTreeSize :: "uint32 \<Rightarrow> uint32 list" where
  "getSubTreeSize n = subtree_loop n (of_nat (countBit n) - 1) 1 (replicate (countBit n) 0)"

text \<open>\<open>hashespos[i] += hashespos[i-1]\<close>\<close>

fun prefix_sums :: "uint32 \<Rightarrow> uint32 list \<Rightarrow> uint32 list" where
  "prefix_sums acc [] = []"
| "prefix_sums acc (x # xs) = (acc + x) # prefix_sums (acc + x) xs"

definition getSubTreePos :: "uint32 \<Rightarrow> uint32 list" where
  "getSubTreePos n =
     (let hashespos = subtree_loop n (of_nat (countBit n) - 1) 1 (replicate (countBit n) 0) in prefix_sums 0 hashespos)"

definition getStoredHashNum :: "uint32 \<Rightarrow> nat" where
  "getStoredHashNum tree_size = sum_list (map unat (getSubTreeSize tree_size))"

text \<open>Opening the store on an existing file: the file must hold the hashes of the tree, and is written from there on.\<close>

definition checkConsistence :: "fileHashStore \<Rightarrow> uint32 \<Rightarrow> bool" where
  "checkConsistence s tree_size \<longleftrightarrow> \<not> length (fdata s) < getStoredHashNum tree_size * UINT256_SIZE"

definition NewFileHashStore :: "bytes \<Rightarrow> uint32 \<Rightarrow> string + HashStore" where
  "NewFileHashStore content tree_size =
     (let store = \<lparr>fdata = content, fpos = 0\<rparr> in
      if \<not> checkConsistence store tree_size then Inl ''stored hashes are less than expected''
      else Inr (FileStore (store\<lparr>fpos := getStoredHashNum tree_size * UINT256_SIZE\<rparr>)))"

section \<open>The compact tree\<close>

record CompactMerkleTree =
  mintree_h :: nat
  hashes :: "uint256 list"
  hashStore :: "HashStore option"
  rootHash :: uint256
  treeSize :: uint32

definition tree_update :: "uint32 \<Rightarrow> uint256 list \<Rightarrow> CompactMerkleTree \<Rightarrow> string + CompactMerkleTree" where
  "tree_update tree_size hs t =
     (if length hs \<noteq> countBit tree_size then Inl ''panic: number of hashes != num bit in tree_size''
      else Inr (t\<lparr>treeSize := tree_size, hashes := hs, mintree_h := lowBit tree_size, rootHash := EMPTY_HASH\<rparr>))"

definition NewTree :: "uint32 \<Rightarrow> uint256 list \<Rightarrow> HashStore option \<Rightarrow> string + CompactMerkleTree" where
  "NewTree tree_size hs store =
     tree_update tree_size hs \<lparr>mintree_h = 0, hashes = [], hashStore = store, rootHash = EMPTY_HASH, treeSize = 0\<rparr>"

definition tree_Marshal :: "CompactMerkleTree \<Rightarrow> bytes" where
  "tree_Marshal t = put_be 4 (unat (treeSize t)) @ concat (hashes t)"

definition tree_UnMarshal :: "bytes \<Rightarrow> CompactMerkleTree \<Rightarrow> string + CompactMerkleTree" where
  "tree_UnMarshal buf t =
     (if length buf < 4 then Inl ''panic: slice bounds out of range''
      else
        let tree_size = of_nat (get_be (take 4 buf)); nhashes = countBit tree_size in
        if length buf < 4 + nhashes * UINT256_SIZE then Inl ''Too short input buf length''
        else tree_update tree_size
          (map (\<lambda>i. slice buf (4 + i * UINT256_SIZE) (4 + i * UINT256_SIZE + UINT256_SIZE)) [0..<nhashes]) t)"

definition Root :: "CompactMerkleTree \<Rightarrow> uint256 \<times> CompactMerkleTree" where
  "Root t =
     (let t = (if rootHash t = EMPTY_HASH
               then t\<lparr>rootHash := (case hash_fold (hashes t) of Some h \<Rightarrow> h | None \<Rightarrow> hash_empty)\<rparr> else t)
      in (rootHash t, t))"

definition GetRootWithNewLeaf :: "CompactMerkleTree \<Rightarrow> uint256 \<Rightarrow> uint256 option" where
  "GetRootWithNewLeaf t newLeaf = hash_fold (hashes t @ [hash_leaf newLeaf])"

definition cloneMem :: "CompactMerkleTree \<Rightarrow> CompactMerkleTree" where
  "cloneMem t = t\<lparr>hashStore := None\<rparr>"

text \<open>The loop of \<open>appendHash\<close>: \<open>hs\<close> is \<open>self.hashes[0:size]\<close>; indexing an empty slice would panic, \<open>None\<close>.\<close>

function append_loop :: "uint32 \<Rightarrow> uint256 list \<Rightarrow> uint256 \<Rightarrow> uint256 list \<Rightarrow> nat
    \<Rightarrow> (uint256 list \<times> uint256 \<times> uint256 list \<times> nat) option" where
  "append_loop s hs leaf storehashes h =
     (if s mod 2 = 1 then
        (if hs = [] then None
         else let leaf = hash_children (last hs) leaf
              in append_loop (drop_bit 1 s) (butlast hs) leaf (storehashes @ [leaf]) (h + 1))
      else Some (hs, leaf, storehashes, h))"
  by auto
termination
proof (relation "measure (\<lambda>(s, _). unat s)")
  fix s :: uint32 assume "s mod 2 = 1"
  then have "s \<noteq> 0" by auto
  then have "unat (drop_bit 1 s) < unat s" by (simp add: drop_bit_eq_div unat_div unat_gt_0)
  then show "((drop_bit 1 s, a), s, b) \<in> measure (\<lambda>(s, _). unat s)" for a b by simp
qed simp

declare append_loop.simps [simp del]

definition appendHash :: "uint256 \<Rightarrow> CompactMerkleTree \<Rightarrow> (uint256 list \<times> CompactMerkleTree) option" where
  "appendHash leaf t =
     do { let auditPath = rev (hashes t);
          (hs, leaf, storehashes, h) \<leftarrow> append_loop (treeSize t) (hashes t) leaf [leaf] 1;
          Some (auditPath, t\<lparr>mintree_h := h, hashStore := map_option (store_Append storehashes) (hashStore t),
                             treeSize := treeSize t + 1, hashes := hs @ [leaf], rootHash := EMPTY_HASH\<rparr>) }"

definition tree_Append :: "bytes \<Rightarrow> CompactMerkleTree \<Rightarrow> (uint256 list \<times> CompactMerkleTree) option" where
  "tree_Append leafv t = appendHash (hash_leaf leafv) t"

primrec append_all :: "bytes list \<Rightarrow> CompactMerkleTree \<Rightarrow> CompactMerkleTree option" where
  "append_all [] t = Some t"
| "append_all (l # ls) t = do { (_, t) \<leftarrow> tree_Append l t; append_all ls t }"

definition GetRootWithNewLeaves :: "CompactMerkleTree \<Rightarrow> uint256 list \<Rightarrow> uint256 option" where
  "GetRootWithNewLeaves t newLeaf =
     do { tree \<leftarrow> append_all newLeaf (cloneMem t); Some (fst (Root tree)) }"

lemma unat_of_nat_pred: "0 < n \<Longrightarrow> n < 2 ^ 32 \<Longrightarrow> unat (of_nat n - 1 :: uint32) = n - 1"
  using unat_of_nat32 [of "n - 1"] by (cases n) simp_all

section \<open>The contract of a hash store\<close>

abbreviation hash_size :: "uint256 list \<Rightarrow> bool" where
  "hash_size xs \<equiv> \<forall>x \<in> set xs. length x = UINT256_SIZE"

locale hash_store =
  fixes get :: "'s \<Rightarrow> uint32 \<Rightarrow> (uint256 \<times> bool) option"
    and app :: "uint256 list \<Rightarrow> 's \<Rightarrow> 's"
    and stored :: "'s \<Rightarrow> uint256 list"
    and ok :: "'s \<Rightarrow> bool"
  assumes get_stored: "ok s \<Longrightarrow> unat pos < length (stored s) \<Longrightarrow> get s pos = Some (stored s ! unat pos, False)"
    and app_ok: "ok s \<Longrightarrow> hash_size hs \<Longrightarrow> ok (app hs s)"
    and stored_app: "ok s \<Longrightarrow> hash_size hs \<Longrightarrow> stored (app hs s) = stored s @ hs"
begin

text \<open>A stored hash is never overwritten.\<close>

lemma get_app_old:
  assumes "ok s" "hash_size hs" "unat pos < length (stored s)"
  shows "get (app hs s) pos = get s pos"
proof -
  have "unat pos < length (stored (app hs s))" using assms by (simp add: stored_app)
  with get_stored [OF app_ok [OF assms(1,2)]] get_stored [OF assms(1,3)] assms show ?thesis
    by (simp add: stored_app nth_append)
qed

lemma get_of_nat:
  assumes "ok s" "q < length (stored s)" "length (stored s) \<le> 2 ^ 32"
  shows "get s (of_nat q) = Some (stored s ! q, False)"
proof -
  have "unat (of_nat q :: uint32) = q" using assms(2,3) by (simp add: unat_of_nat take_bit_nat_eq_self)
  with get_stored [OF assms(1), of "of_nat q"] assms(2) show ?thesis by simp
qed

end

interpretation mem_store: hash_store memHashStore_GetHash memHashStore_Append "\<lambda>s. s" "\<lambda>_. True"
  by unfold_locales (simp_all add: memHashStore_GetHash_def memHashStore_Append_def)

text \<open>The hashes in front of the write position of a file.\<close>

definition file_stored :: "fileHashStore \<Rightarrow> uint256 list" where
  "file_stored s = map (\<lambda>i. slice (fdata s) (i * UINT256_SIZE) (i * UINT256_SIZE + UINT256_SIZE)) [0..<fpos s div UINT256_SIZE]"

definition file_ok :: "fileHashStore \<Rightarrow> bool" where
  "file_ok s \<longleftrightarrow> UINT256_SIZE dvd fpos s \<and> fpos s \<le> length (fdata s)"

lemma concat_slice:
  "hash_size hs \<Longrightarrow> i < length hs \<Longrightarrow> slice (pre @ concat hs @ post) (length pre + i * UINT256_SIZE) (length pre + i * UINT256_SIZE + UINT256_SIZE) = hs ! i"
proof (induction hs arbitrary: pre i)
  case (Cons h hs)
  show ?case
  proof (cases i)
    case 0
    with Cons.prems show ?thesis by (simp add: slice_def)
  next
    case (Suc k)
    with Cons.IH [of k "pre @ h"] Cons.prems show ?thesis by (simp add: add.assoc)
  qed
qed simp

lemma length_concat_hashes: "hash_size hs \<Longrightarrow> length (concat hs) = length hs * UINT256_SIZE"
  by (induction hs) simp_all

lemma slice_prefix: "j \<le> k \<Longrightarrow> k \<le> length xs \<Longrightarrow> slice xs i j = slice (take k xs) i j"
  by (simp add: slice_def drop_take min_def)

interpretation file_store: hash_store fileHashStore_GetHash fileHashStore_Append file_stored file_ok
proof
  fix s and pos :: uint32 assume "file_ok s" "unat pos < length (file_stored s)"
  then have "unat pos < fpos s div UINT256_SIZE" "fpos s \<le> length (fdata s)" "UINT256_SIZE dvd fpos s"
    by (simp_all add: file_stored_def file_ok_def)
  moreover from this have "unat pos * UINT256_SIZE + UINT256_SIZE \<le> fpos s" by (auto simp: size_defs)
  ultimately show "fileHashStore_GetHash s pos = Some (file_stored s ! unat pos, False)"
    by (simp add: fileHashStore_GetHash_def file_stored_def Let_def)
next
  fix s and hs :: "uint256 list" assume a: "file_ok s" "hash_size hs"
  note l = length_concat_hashes [OF a(2)]
  from a(1) obtain k where k: "fpos s = k * UINT256_SIZE" "fpos s \<le> length (fdata s)" by (auto simp: file_ok_def dvd_def mult.commute)
  show "file_ok (fileHashStore_Append hs s)"
    using k by (simp add: file_ok_def fileHashStore_Append_def Let_def l overwrite_def)
  let ?d = "overwrite (fdata s) (fpos s) (concat hs)"
  have d: "?d = take (fpos s) (fdata s) @ concat hs @ drop (fpos s + length (concat hs)) (fdata s)"
    by (simp add: overwrite_def)
  have old: "slice ?d (i * UINT256_SIZE) (i * UINT256_SIZE + UINT256_SIZE) = slice (fdata s) (i * UINT256_SIZE) (i * UINT256_SIZE + UINT256_SIZE)"
    if "i < k" for i
  proof -
    have b: "i * UINT256_SIZE + UINT256_SIZE \<le> fpos s" using that k(1) by (simp add: size_defs)
    have "fpos s \<le> length ?d" "take (fpos s) ?d = take (fpos s) (fdata s)" using k(2) unfolding d by simp_all
    with slice_prefix [OF b, of ?d] slice_prefix [OF b k(2)] show ?thesis by metis
  qed
  have new: "slice ?d ((k + i) * UINT256_SIZE) ((k + i) * UINT256_SIZE + UINT256_SIZE) = hs ! i" if "i < length hs" for i
  proof -
    have "length (take (fpos s) (fdata s)) = k * UINT256_SIZE" using k by simp
    note concat_slice [OF a(2) that, of "take (fpos s) (fdata s)", unfolded this]
    then show ?thesis unfolding d by (simp only: distrib_right)
  qed
  have "(fpos s + length (concat hs)) div UINT256_SIZE = k + length hs" "fpos s div UINT256_SIZE = k"
    using k(1) l by (simp_all add: size_defs)
  then have "file_stored (fileHashStore_Append hs s)
      = map (\<lambda>i. slice ?d (i * UINT256_SIZE) (i * UINT256_SIZE + UINT256_SIZE)) [0..<k + length hs]"
    "file_stored s = map (\<lambda>i. slice (fdata s) (i * UINT256_SIZE) (i * UINT256_SIZE + UINT256_SIZE)) [0..<k]"
    by (simp_all add: file_stored_def fileHashStore_Append_def Let_def)
  moreover have "slice ?d (i * UINT256_SIZE) (i * UINT256_SIZE + UINT256_SIZE) = (file_stored s @ hs) ! i"
    if "i < k + length hs" for i
  proof (cases "i < k")
    case True
    then show ?thesis using calculation(2) old by (simp add: nth_append)
  next
    case False
    then show ?thesis using calculation(2) new [of "i - k"] that by (simp add: nth_append)
  qed
  ultimately show "file_stored (fileHashStore_Append hs s) = file_stored s @ hs"
    by (intro nth_equalityI) simp_all
qed

text \<open>The store behind the interface.\<close>

fun stored_hashes :: "HashStore \<Rightarrow> uint256 list" where
  "stored_hashes (MemStore s) = s"
| "stored_hashes (FileStore s) = file_stored s"

fun store_ok :: "HashStore \<Rightarrow> bool" where
  "store_ok (MemStore s) = True"
| "store_ok (FileStore s) = file_ok s"

interpretation store: hash_store GetHash store_Append stored_hashes store_ok
proof
  show "store_ok s \<Longrightarrow> unat pos < length (stored_hashes s) \<Longrightarrow> GetHash s pos = Some (stored_hashes s ! unat pos, False)" for s pos
    by (cases s) (simp_all add: mem_store.get_stored file_store.get_stored)
  show "store_ok s \<Longrightarrow> hash_size hs \<Longrightarrow> store_ok (store_Append hs s)" for s hs
    by (cases s) (simp_all add: file_store.app_ok)
  show "store_ok s \<Longrightarrow> hash_size hs \<Longrightarrow> stored_hashes (store_Append hs s) = stored_hashes s @ hs" for s hs
    by (cases s) (simp_all add: mem_store.stored_app file_store.stored_app)
qed

section \<open>The layout of the store\<close>

text \<open>
  The nodes of a complete tree of height \<open>h\<close> in the order in which they are finished, and the nodes of \<open>s\<close>
  blocks of \<open>2 ^ h\<close> leaves: the complete subtrees one after the other.
\<close>

primrec post :: "nat \<Rightarrow> uint256 list \<Rightarrow> uint256 list" where
  "post 0 xs = xs"
| "post (Suc h) xs = post h (take (2 ^ h) xs) @ post h (drop (2 ^ h) xs) @ [mth xs]"

function lay :: "nat \<Rightarrow> nat \<Rightarrow> uint256 list \<Rightarrow> uint256 list" where
  "lay h s xs =
     (if s = 0 then []
      else if odd s then lay (Suc h) (s div 2) (take ((s - 1) * 2 ^ h) xs) @ post h (drop ((s - 1) * 2 ^ h) xs)
      else lay (Suc h) (s div 2) xs)"
  by auto
termination by (relation "measure (\<lambda>(h, s, xs). s)") auto

declare lay.simps [simp del]

abbreviation layout :: "uint256 list \<Rightarrow> uint256 list" where
  "layout xs \<equiv> lay 0 (length xs) xs"

lemma lay_0 [simp]: "lay h 0 xs = []" by (simp add: lay.simps)

lemma lay_even: "even s \<Longrightarrow> lay h s xs = lay (Suc h) (s div 2) xs"
  by (cases "s = 0") (simp_all add: lay.simps [of h s])

lemma lay_odd:
  assumes "odd s" "length xs = (s - 1) * 2 ^ h"
  shows "lay h s (xs @ zs) = lay (Suc h) (s div 2) xs @ post h zs"
  using assms by (subst lay.simps) (auto elim: oddE)

lemma post_append: "length l = 2 ^ h \<Longrightarrow> post (Suc h) (l @ r) = post h l @ post h r @ [mth (l @ r)]"
  by simp

lemma length_post: "length xs = 2 ^ h \<Longrightarrow> length (post h xs) = 2 * 2 ^ h - 1"
proof (induction h arbitrary: xs)
  case (Suc h)
  have "1 \<le> (2 :: nat) ^ h" by simp
  with Suc.IH [of "take (2 ^ h) xs"] Suc.IH [of "drop (2 ^ h) xs"] Suc.prems show ?case by simp
qed simp

lemma last_post: "length xs = 2 ^ h \<Longrightarrow> post h xs ! (2 * 2 ^ h - 2) = mth xs"
proof (cases h)
  case 0
  moreover assume "length xs = 2 ^ h"
  ultimately obtain x where "xs = [x]" by (cases xs) auto
  with 0 show ?thesis by simp
next
  case (Suc k)
  moreover assume "length xs = 2 ^ h"
  ultimately have "length (post k (take (2 ^ k) xs) @ post k (drop (2 ^ k) xs)) = 2 * 2 ^ h - 2"
    by (simp add: length_post)
  with Suc show ?thesis by (metis append.assoc nth_append_length post.simps(2))
qed

lemma hash_size_mth: "hash_size xs \<Longrightarrow> length (mth xs) = UINT256_SIZE"
  by (rule length_mth) simp

lemma hash_size_post: "hash_size xs \<Longrightarrow> hash_size (post h xs)"
  by (induction h arbitrary: xs) (auto simp: hash_size_mth dest: in_set_takeD in_set_dropD)

section \<open>Appending\<close>

lemma append_loop_spec:
  assumes "length xs = s * 2 ^ h" "length ys = 2 ^ h" "unat w = s"
  obtains hs zs rest h' where "append_loop w (pks h s xs) (mth ys) st m = Some (hs, zs, st @ rest, h')"
    "hs @ [zs] = pks h (Suc s) (xs @ ys)" "lay h (Suc s) (xs @ ys) = lay h s xs @ post h ys @ rest"
  using assms
proof (induction s arbitrary: h xs ys w st m thesis rule: less_induct)
  case (less s)
  have w2: "w mod 2 = 1 \<longleftrightarrow> odd s" "unat (drop_bit 1 w) = s div 2"
    using less.prems(4) by (simp_all add: word_unat_eq_iff unat_mod unat_drop_bit_eq drop_bit_eq_div unat_div odd_iff_mod_2_eq_one)
  show ?case
  proof (cases "odd s")
    case False
    then have "pks h (Suc s) (xs @ ys) = pks h s xs @ [mth ys]" "lay h (Suc s) (xs @ ys) = lay h s xs @ post h ys"
      using pks_odd [of "Suc s" xs h ys] lay_odd [of "Suc s" xs h ys] less.prems(2)
      by (simp_all add: pks_even lay_even)
    with False w2 show ?thesis by (intro less.prems(1) [of "pks h s xs" "mth ys" "[]" m]) (simp_all add: append_loop.simps)
  next
    case True
    from True less.prems(2) obtain xs1 zs where x: "xs = xs1 @ zs" "length xs1 = (s div 2) * 2 ^ Suc h"
      "length xs1 = (s - 1) * 2 ^ h" "length zs = 2 ^ h" by (rule odd_blocks)
    have lt: "s div 2 < s" using True by presburger
    have len: "length (zs @ ys) = 2 ^ Suc h" using x less.prems(3) by simp
    obtain hs z rest h' where
      i: "append_loop (drop_bit 1 w) (pks (Suc h) (s div 2) xs1) (mth (zs @ ys)) (st @ [mth (zs @ ys)]) (m + 1)
          = Some (hs, z, (st @ [mth (zs @ ys)]) @ rest, h')"
        "hs @ [z] = pks (Suc h) (Suc (s div 2)) (xs1 @ zs @ ys)"
        "lay (Suc h) (Suc (s div 2)) (xs1 @ zs @ ys) = lay (Suc h) (s div 2) xs1 @ post (Suc h) (zs @ ys) @ rest"
      by (rule less.IH [OF lt _ x(2) len w2(2)])
    have "ys \<noteq> []" using less.prems(3) by auto
    then have m: "mth (zs @ ys) = hash_children (mth zs) (mth ys)"
      using x(4) less.prems(3) by (simp add: mth_append)
    have p: "pks h s xs = pks (Suc h) (s div 2) xs1 @ [mth zs]" "lay h s xs = lay (Suc h) (s div 2) xs1 @ post h zs"
      using x True by (simp_all add: pks_odd lay_odd)
    have e: "even (Suc s)" "Suc s div 2 = Suc (s div 2)" using True by (simp_all add: odd_Suc_div_two)
    show ?thesis
    proof (rule less.prems(1))
      show "append_loop w (pks h s xs) (mth ys) st m = Some (hs, z, st @ mth (zs @ ys) # rest, h')"
        using True w2(1) i(1) by (subst append_loop.simps) (simp add: p m)
      show "hs @ [z] = pks h (Suc s) (xs @ ys)" using i(2) e x(1) by (simp add: pks_even)
      show "lay h (Suc s) (xs @ ys) = lay h s xs @ post h ys @ mth (zs @ ys) # rest"
        using i(3) e x(4) unfolding p(2) unfolding x(1) by (simp add: lay_even)
    qed
  qed
qed

text \<open>
  The invariant: the tree holds the peaks of the leaf hashes \<open>xs\<close>, its cached root is empty or the tree hash, and
  the store, if there is one, holds every finished node.
\<close>

definition tree_ok :: "CompactMerkleTree \<Rightarrow> uint256 list \<Rightarrow> bool" where
  "tree_ok t xs \<longleftrightarrow> length xs < 2 ^ 32 \<and> hash_size xs \<and> treeSize t = of_nat (length xs) \<and> hashes t = peaks xs \<and>
     (rootHash t = EMPTY_HASH \<or> rootHash t = mth xs) \<and>
     (\<forall>s. hashStore t = Some s \<longrightarrow> store_ok s \<and> stored_hashes s = layout xs)"

lemma hash_size_lay: "hash_size xs \<Longrightarrow> hash_size (lay h s xs)"
proof (induction h s xs rule: lay.induct)
  case (1 h s xs)
  have "hash_size (take n xs)" "hash_size (post h (drop n xs))" for n
    using 1(3) by (auto intro!: hash_size_post dest: in_set_takeD in_set_dropD)
  with 1 show ?case by (subst lay.simps) auto
qed

lemma appendHash_ok:
  assumes "tree_ok t xs" "length x = UINT256_SIZE" "Suc (length xs) < 2 ^ 32"
  obtains t' where "appendHash x t = Some (rev (peaks xs), t')" "tree_ok t' (xs @ [x])"
proof -
  note t = assms(1) [unfolded tree_ok_def]
  have u: "unat (treeSize t) = length xs" using t by (simp add: unat_of_nat take_bit_nat_eq_self)
  have l: "length xs = length xs * 2 ^ 0" "length [x] = 2 ^ 0" by simp_all
  obtain hs z rest h' where "append_loop (treeSize t) (peaks xs) (mth [x]) [x] 1 = Some (hs, z, [x] @ rest, h')"
    "hs @ [z] = pks 0 (Suc (length xs)) (xs @ [x])" "lay 0 (Suc (length xs)) (xs @ [x]) = layout xs @ post 0 [x] @ rest"
    by (rule append_loop_spec [OF l u])
  then have a: "append_loop (treeSize t) (peaks xs) x [x] 1 = Some (hs, z, x # rest, h')"
    "hs @ [z] = peaks (xs @ [x])" "layout (xs @ [x]) = layout xs @ x # rest" by simp_all
  have "hash_size (layout (xs @ [x]))" using t assms(2) by (intro hash_size_lay) auto
  with a(3) have "hash_size (x # rest)" by simp
  with t a assms(2,3) store.app_ok store.stored_app
  show ?thesis by (intro that) (auto simp: appendHash_def tree_ok_def split: option.splits)
qed

lemma append_all_ok:
  assumes "tree_ok t xs" "length xs + length ls < 2 ^ 32"
  obtains t' where "append_all ls t = Some t'" "tree_ok t' (xs @ map hash_leaf ls)"
  using assms
proof (induction ls arbitrary: t xs thesis)
  case Nil
  then show ?case by simp
next
  case (Cons l ls)
  have "length (hash_leaf l) = UINT256_SIZE" by (simp add: hash_leaf_def size_defs)
  moreover have "Suc (length xs) < 2 ^ 32" using Cons.prems(3) by simp
  ultimately obtain t1 where t1: "appendHash (hash_leaf l) t = Some (rev (peaks xs), t1)" "tree_ok t1 (xs @ [hash_leaf l])"
    using appendHash_ok [OF Cons.prems(2)] by metis
  from Cons.IH [OF _ t1(2)] Cons.prems(3) obtain t' where
    "append_all ls t1 = Some t'" "tree_ok t' ((xs @ [hash_leaf l]) @ map hash_leaf ls)" by auto
  with t1(1) show ?case by (intro Cons.prems(1)) (simp_all add: tree_Append_def)
qed

lemma Root_ok:
  assumes "tree_ok t xs"
  shows "fst (Root t) = mth xs" "tree_ok (snd (Root t)) xs"
proof -
  have "hash_fold (hashes t) = (if xs = [] then None else Some (mth xs))"
    using assms hash_fold_peaks [of xs] by (auto simp: tree_ok_def hash_fold_def)
  with assms show "fst (Root t) = mth xs" "tree_ok (snd (Root t)) xs"
    by (auto simp: Root_def tree_ok_def Let_def)
qed

lemma cloneMem_ok: "tree_ok t xs \<Longrightarrow> tree_ok (cloneMem t) xs"
  by (simp add: cloneMem_def tree_ok_def)

lemma GetRootWithNewLeaf_ok: "tree_ok t xs \<Longrightarrow> GetRootWithNewLeaf t l = Some (mth (xs @ [hash_leaf l]))"
  by (simp add: GetRootWithNewLeaf_def tree_ok_def hash_fold_peaks_leaf)

lemma GetRootWithNewLeaves_ok:
  assumes "tree_ok t xs" "length xs + length ls < 2 ^ 32"
  shows "GetRootWithNewLeaves t ls = Some (mth (xs @ map hash_leaf ls))"
proof -
  obtain t' where "append_all ls (cloneMem t) = Some t'" "tree_ok t' (xs @ map hash_leaf ls)"
    by (rule append_all_ok [OF cloneMem_ok [OF assms(1)] assms(2)])
  then show ?thesis by (simp add: GetRootWithNewLeaves_def Root_ok)
qed

lemma tree_update_ok:
  assumes "length xs < 2 ^ 32" "hash_size xs" "\<And>s. hashStore t = Some s \<Longrightarrow> store_ok s \<and> stored_hashes s = layout xs"
  obtains t' where "tree_update (of_nat (length xs)) (peaks xs) t = Inr t'" "tree_ok t' xs" "hashStore t' = hashStore t"
proof -
  have "countBit (of_nat (length xs)) = length (peaks xs)"
    using assms(1) by (simp add: countBit_pop length_pks unat_of_nat take_bit_nat_eq_self)
  then obtain t' where t': "tree_update (of_nat (length xs)) (peaks xs) t = Inr t'" by (simp add: tree_update_def)
  moreover from this assms have "tree_ok t' xs" "hashStore t' = hashStore t"
    by (auto simp: tree_update_def tree_ok_def split: if_splits)
  ultimately show ?thesis by (rule that)
qed

section \<open>Positions\<close>

text \<open>The sizes of the complete subtrees, from left to right.\<close>

function sizes_of :: "nat \<Rightarrow> nat \<Rightarrow> nat list" where
  "sizes_of h s =
     (if s = 0 then [] else sizes_of (Suc h) (s div 2) @ (if odd s then [2 * 2 ^ h - 1] else []))"
  by auto
termination by (relation "measure (\<lambda>(h, s). s)") auto

declare sizes_of.simps [simp del]

lemma length_sizes_of: "length (sizes_of h s) = pop s"
  by (induction h s rule: sizes_of.induct) (subst sizes_of.simps, subst pop.simps, auto simp: odd_iff_mod_2_eq_one)

lemma subtree_loop_sizes:
  "unat n = s \<Longrightarrow> subtree_loop n (of_nat (pop s) - 1) (2 ^ h) (replicate (pop s) 0 @ done)
    = map of_nat (sizes_of h s) @ done"
proof (induction s arbitrary: n h "done" rule: less_induct)
  case (less s)
  show ?case
  proof (cases "s = 0")
    case True
    with less.prems show ?thesis by (simp add: subtree_loop.simps sizes_of.simps pop.simps unat_eq_0)
  next
    case False
    have n: "n \<noteq> 0" "n mod 2 = 1 \<longleftrightarrow> odd s" "unat (drop_bit 1 n) = s div 2" "s div 2 < s"
      using less.prems False
      by (auto simp: word_unat_eq_iff unat_mod unat_drop_bit_eq drop_bit_eq_div unat_div odd_iff_mod_2_eq_one)
    have p: "pop s = (if odd s then Suc (pop (s div 2)) else pop (s div 2))"
      using False by (subst pop.simps) (auto simp: odd_iff_mod_2_eq_one)
    have id2: "(2 ^ h * 2 :: uint32) = 2 ^ Suc h" by simp
    have pl: "pop (s div 2) < 2 ^ 64"
    proof -
      have "pop k \<le> k" for k by (induction k rule: pop.induct) (subst pop.simps, force)
      then have "pop (s div 2) \<le> s" by (meson div_le_dividend le_trans)
      with less.prems unat_word_less [of n] show ?thesis by simp
    qed
    show ?thesis
    proof (cases "odd s")
      case True
      have k: "(of_nat (pop s) - 1 :: uint64) = of_nat (pop (s div 2))" using p True by simp
      have i: "unat (of_nat (pop (s div 2)) :: uint64) = pop (s div 2)"
        using pl by (simp add: unat_of_nat take_bit_nat_eq_self)
      have "(2 * 2 ^ h - 1 :: nat) = 2 ^ Suc h - 1" by simp
      moreover have "(of_nat (2 ^ Suc h - 1) :: uint32) = 2 ^ Suc h - 1" by (simp add: of_nat_diff)
      ultimately have v: "(of_nat (2 * 2 ^ h - 1) :: uint32) = 2 ^ Suc h - 1" by metis
      have u: "(replicate (pop s) 0 @ done)[pop (s div 2) := 2 ^ Suc h - 1]
          = replicate (pop (s div 2)) 0 @ (2 ^ Suc h - 1 :: uint32) # done"
      proof -
        have "replicate (pop s) 0 = replicate (pop (s div 2)) (0 :: uint32) @ [0]"
          using p True by (simp add: replicate_append_same)
        then show ?thesis by (simp add: list_update_append)
      qed
      have "subtree_loop n (of_nat (pop s) - 1) (2 ^ h) (replicate (pop s) 0 @ done)
          = subtree_loop (drop_bit 1 n) (of_nat (pop (s div 2)) - 1) (2 ^ Suc h)
              (replicate (pop (s div 2)) 0 @ (2 ^ Suc h - 1) # done)"
        by (subst subtree_loop.simps) (simp only: n(1) n(2) True id2 Let_def not_False_eq_True if_True k i u)
      also have "\<dots> = map of_nat (sizes_of (Suc h) (s div 2)) @ (2 ^ Suc h - 1) # done"
        by (rule less.IH [OF n(4,3)])
      also have "\<dots> = map of_nat (sizes_of h s) @ done"
        using True False v by (subst (2) sizes_of.simps) simp
      finally show ?thesis .
    next
      case even: False
      have "subtree_loop n (of_nat (pop s) - 1) (2 ^ h) (replicate (pop s) 0 @ done)
          = subtree_loop (drop_bit 1 n) (of_nat (pop (s div 2)) - 1) (2 ^ Suc h) (replicate (pop (s div 2)) 0 @ done)"
        using n even p by (subst subtree_loop.simps) (simp add: id2 Let_def)
      also have "\<dots> = map of_nat (sizes_of (Suc h) (s div 2)) @ done"
        by (rule less.IH [OF n(4,3)])
      finally show ?thesis using even False by (subst sizes_of.simps) simp
    qed
  qed
qed

fun psum :: "nat \<Rightarrow> nat list \<Rightarrow> nat list" where
  "psum a [] = []"
| "psum a (x # xs) = (a + x) # psum (a + x) xs"

lemma psum_snoc: "psum a (xs @ [y]) = psum a xs @ [a + sum_list xs + y]"
  by (induction a xs rule: psum.induct) simp_all

lemma prefix_sums_of_nat: "prefix_sums (of_nat a) (map of_nat ns) = map of_nat (psum a ns)"
proof (induction a ns rule: psum.induct)
  case (2 a x xs)
  then show ?case by simp
qed simp

lemma subtree_sizes:
  assumes "n < 2 ^ 32"
  shows "getSubTreeSize (of_nat n) = map of_nat (sizes_of 0 n)"
    "getSubTreePos (of_nat n) = map of_nat (psum 0 (sizes_of 0 n))"
proof -
  have "unat (of_nat n :: uint32) = n" using assms by (simp add: unat_of_nat take_bit_nat_eq_self)
  note l = subtree_loop_sizes [OF this, of 0 "[]"]
  then show "getSubTreeSize (of_nat n) = map of_nat (sizes_of 0 n)"
    using assms by (simp add: getSubTreeSize_def countBit_pop unat_of_nat take_bit_nat_eq_self)
  from l show "getSubTreePos (of_nat n) = map of_nat (psum 0 (sizes_of 0 n))"
    using assms prefix_sums_of_nat [of 0]
    by (simp add: getSubTreePos_def countBit_pop unat_of_nat take_bit_nat_eq_self Let_def)
qed

lemma sizes_of_0 [simp]: "sizes_of h 0 = []"
  by (simp add: sizes_of.simps)

lemma sizes_of_even: "even s \<Longrightarrow> sizes_of h s = sizes_of (Suc h) (s div 2)"
  by (cases "s = 0") (simp_all add: sizes_of.simps [of h s])

lemma sizes_of_odd: "odd s \<Longrightarrow> sizes_of h s = sizes_of (Suc h) (s div 2) @ [2 * 2 ^ h - 1]"
  by (subst sizes_of.simps) (auto elim: oddE)

lemma sum_sizes: "length xs = s * 2 ^ h \<Longrightarrow> sum_list (sizes_of h s) = length (lay h s xs)"
proof (induction h s xs rule: lay.induct)
  case (1 h s xs)
  show ?case
  proof (cases "odd s")
    case True
    from True "1.prems" obtain xs1 zs where x: "xs = xs1 @ zs" "length xs1 = (s div 2) * 2 ^ Suc h"
      "length xs1 = (s - 1) * 2 ^ h" "length zs = 2 ^ h" by (rule odd_blocks)
    with True "1.IH"(1) show ?thesis by (auto simp: sizes_of_odd lay_odd length_post elim: oddE)
  next
    case False
    then have "length xs = (s div 2) * 2 ^ Suc h" using "1.prems" by (auto elim: evenE)
    with False "1.IH"(2) show ?thesis by (cases "s = 0") (simp_all add: sizes_of_even lay_even sizes_of.simps [of h 0])
  qed
qed

lemma sum_sizes_le: "sum_list (sizes_of h s) \<le> 2 * (s * 2 ^ h)"
proof (induction h s rule: sizes_of.induct)
  case (1 h s)
  consider "s = 0" | m where "s = 2 * m + 1" | m where "s = 2 * m" "s \<noteq> 0"
    by (cases "odd s"; cases "s = 0") (blast elim: oddE evenE)+
  then show ?case
  proof cases
    case (2 m)
    with 1 have "sum_list (sizes_of (Suc h) m) \<le> 2 * (m * 2 ^ Suc h)" by simp
    with 2 show ?thesis by (simp add: sizes_of_odd algebra_simps)
  next
    case (3 m)
    with 1 have "sum_list (sizes_of (Suc h) m) \<le> 2 * (m * 2 ^ Suc h)" by simp
    with 3 show ?thesis by (simp add: sizes_of_even algebra_simps)
  qed simp
qed

lemma length_layout_le: "length (layout xs) \<le> 2 * length xs"
  using sum_sizes [of xs "length xs" 0] sum_sizes_le [of 0 "length xs"] by simp

text \<open>The peaks are where \<open>getSubTreePos\<close> says (counting from one).\<close>

lemma peaks_at:
  "length xs = s * 2 ^ h \<Longrightarrow> map (\<lambda>p. lay h s xs ! (p - 1)) (psum 0 (sizes_of h s)) = pks h s xs \<and>
    (\<forall>p \<in> set (psum 0 (sizes_of h s)). 0 < p \<and> p \<le> length (lay h s xs))"
proof (induction h s xs rule: lay.induct)
  case (1 h s xs)
  consider "s = 0" | "odd s" "s \<noteq> 0" | "even s" "s \<noteq> 0" by auto
  then show ?case
  proof cases
    case 1
    then show ?thesis by (simp add: sizes_of.simps)
  next
    case 2
    from 2(1) "1.prems" obtain xs1 zs where x: "xs = xs1 @ zs" "length xs1 = (s div 2) * 2 ^ Suc h"
      "length xs1 = (s - 1) * 2 ^ h" "length zs = 2 ^ h" by (rule odd_blocks)
    let ?l = "lay (Suc h) (s div 2) xs1" and ?p = "psum 0 (sizes_of (Suc h) (s div 2))"
    have t: "take ((s - 1) * 2 ^ h) xs = xs1" using x(1,3) by simp
    from "1.IH"(1) [OF 2(2,1)] x(2) have ih: "map (\<lambda>p. ?l ! (p - 1)) ?p = pks (Suc h) (s div 2) xs1"
      "\<forall>p \<in> set ?p. 0 < p \<and> p \<le> length ?l" unfolding t by simp_all
    have ps: "psum 0 (sizes_of h s) = ?p @ [length ?l + (2 * 2 ^ h - 1)]"
      using 2 sum_sizes [OF x(2)] by (simp add: sizes_of_odd psum_snoc)
    have lay: "lay h s xs = ?l @ post h zs" "pks h s xs = pks (Suc h) (s div 2) xs1 @ [mth zs]"
      using 2 x by (simp_all add: lay_odd pks_odd)
    have "(?l @ post h zs) ! (p - 1) = ?l ! (p - 1)" if "p \<in> set ?p" for p
      using ih(2) that by (auto simp: nth_append)
    then have "map (\<lambda>p. (?l @ post h zs) ! (p - 1)) ?p = pks (Suc h) (s div 2) xs1"
      unfolding ih(1) [symmetric] by simp
    moreover have "1 \<le> (2 :: nat) ^ h" by simp
    then have e: "length ?l + (2 * 2 ^ h - 1) - 1 = length ?l + (2 * 2 ^ h - 2)" "0 < (2 :: nat) * 2 ^ h - 1" by linarith+
    have "(?l @ post h zs) ! (length ?l + (2 * 2 ^ h - 1) - 1) = mth zs"
      unfolding e(1) nth_append_length_plus by (rule last_post [OF x(4)])
    ultimately show ?thesis using ih(2) e(2) length_post [OF x(4)] unfolding ps lay by auto
  next
    case 3
    then have "length xs = (s div 2) * 2 ^ Suc h" using "1.prems" by (auto elim: evenE)
    with 3 "1.IH"(2) show ?thesis by (simp add: sizes_of_even lay_even pks_even)
  qed
qed

lemma lay_Cons:
  "s < 2 ^ i \<Longrightarrow> length l = 2 ^ (h + i) \<Longrightarrow> length r = s * 2 ^ h \<Longrightarrow> lay h (2 ^ i + s) (l @ r) = post (h + i) l @ lay h s r"
proof (induction i arbitrary: h s r)
  case 0
  then show ?case by (subst lay.simps) simp
next
  case (Suc i)
  show ?case
  proof (cases "odd s")
    case True
    from True Suc.prems(3) obtain r1 zs where r: "r = r1 @ zs" "length r1 = (s div 2) * 2 ^ Suc h"
      "length r1 = (s - 1) * 2 ^ h" "length zs = 2 ^ h" by (rule odd_blocks)
    have o: "odd (2 ^ Suc i + s)" "(2 ^ Suc i + s) div 2 = 2 ^ i + s div 2" using True by auto
    have "length (l @ r1) = (2 ^ Suc i + s - 1) * 2 ^ h"
      using Suc.prems(2) r(3) True by (auto simp: power_add algebra_simps elim: oddE)
    with lay_odd [OF o(1), of "l @ r1" h zs] o r Suc.IH [of "s div 2" "Suc h" r1] Suc.prems True
    show ?thesis by (simp add: lay_odd)
  next
    case False
    then have "length r = (s div 2) * 2 ^ Suc h" using Suc.prems(3) by (auto elim: evenE)
    with False Suc.IH [of "s div 2" "Suc h" r] Suc.prems show ?thesis by (simp add: lay_even)
  qed
qed

lemma layout_complete: "length l = 2 ^ j \<Longrightarrow> layout l = post j l"
  using lay_Cons [of 0 j l 0 "[]"] by simp

lemma layout_split:
  assumes "length l = 2 ^ j" "r \<noteq> []" "length r \<le> 2 ^ j"
  obtains rest where "layout (l @ r) = layout l @ layout r @ rest"
proof (cases "length r = 2 ^ j")
  case True
  then have "layout (l @ r) = post (Suc j) (l @ r)" using assms(1) by (intro layout_complete) simp
  with layout_complete [OF assms(1)] layout_complete [OF True] assms(1) show ?thesis
    by (intro that [of "[mth (l @ r)]"]) simp
next
  case False
  with assms lay_Cons [of "length r" j l 0 r] layout_complete [OF assms(1)] show ?thesis by (intro that [of "[]"]) simp
qed

lemma layout_prefix:
  assumes "length (xs @ ys) \<le> 2 ^ 32"
  obtains rest where "layout (xs @ ys) = layout xs @ rest"
  using assms
proof (induction ys arbitrary: thesis rule: rev_induct)
  case (snoc y ys)
  from snoc.IH snoc.prems(2) obtain r1 where r1: "layout (xs @ ys) = layout xs @ r1" by force
  have "length (xs @ ys) = length (xs @ ys) * 2 ^ 0" "length [y] = 2 ^ 0" by simp_all
  moreover have "unat (of_nat (length (xs @ ys)) :: uint32) = length (xs @ ys)"
    using snoc.prems(2) by (intro unat_of_nat32) simp
  ultimately obtain r2 where "lay 0 (Suc (length (xs @ ys))) ((xs @ ys) @ [y]) = layout (xs @ ys) @ post 0 [y] @ r2"
    by (rule append_loop_spec)
  with r1 show ?case by (intro snoc.prems(1) [of "r1 @ y # r2"]) simp
qed simp

section \<open>Properties\<close>

lemma NewTree_empty:
  assumes "\<forall>s. store = Some s \<longrightarrow> store_ok s \<and> stored_hashes s = []"
  obtains t0 where "NewTree 0 [] store = Inr t0" "tree_ok t0 []" "hashStore t0 = store"
  using tree_update_ok [of "[]" "\<lparr>mintree_h = 0, hashes = [], hashStore = store, rootHash = EMPTY_HASH, treeSize = 0\<rparr>"] assms
  by (auto simp: NewTree_def)

lemma HashFullTree_mth: "length ls < 2 ^ 32 \<Longrightarrow> HashFullTree ls = Inr (mth (map hash_leaf ls))"
  by (simp add: HashFullTree_def HashFullTreeWithLeafHash_mth)

text \<open>
  C19 (equivalence): the compact tree, which keeps one hash per set bit of its size, has the root that the
  recursive tree hash computes from all leaves: after any sequence of appended leaves, and for the roots predicted
  for one or several further leaves.  No append panics.
\<close>

theorem compact_tree_roots:
  assumes "NewTree 0 [] store = Inr t0" "\<forall>s. store = Some s \<longrightarrow> store_ok s \<and> stored_hashes s = []"
    and "length leaves + length later < 2 ^ 32" "Suc (length leaves) < 2 ^ 32"
  shows "\<exists>t r. append_all leaves t0 = Some t \<and> HashFullTree leaves = Inr (fst (Root t)) \<and>
    GetRootWithNewLeaves t later = Some r \<and> HashFullTree (leaves @ later) = Inr r \<and>
    (\<exists>r1. GetRootWithNewLeaf t l = Some r1 \<and> HashFullTree (leaves @ [l]) = Inr r1)"
proof -
  have t0: "tree_ok t0 []" using NewTree_empty [OF assms(2)] assms(1) by auto
  moreover have "length [] + length leaves < 2 ^ 32" using assms(3) by simp
  ultimately obtain t where t: "append_all leaves t0 = Some t" "tree_ok t ([] @ map hash_leaf leaves)" by (rule append_all_ok)
  moreover have "HashFullTree leaves = Inr (fst (Root t))" using t(2) assms(3) by (simp add: HashFullTree_mth Root_ok)
  moreover have "GetRootWithNewLeaves t later = Some (mth (map hash_leaf (leaves @ later)))"
    using GetRootWithNewLeaves_ok [OF t(2)] assms(3) by simp
  moreover have "GetRootWithNewLeaf t l = Some (mth (map hash_leaf (leaves @ [l])))"
    using GetRootWithNewLeaf_ok [OF t(2)] by simp
  ultimately show ?thesis using assms(3,4) by (simp add: HashFullTree_mth)
qed

theorem compact_tree_roots_witness:
  "\<exists>t0 t. NewTree 0 [] (Some (MemStore [])) = Inr t0 \<and> append_all [[1], [2], [3]] t0 = Some t \<and>
    HashFullTree [[1], [2], [3]] = Inr (fst (Root t))"
proof -
  have s: "\<forall>s. Some (MemStore []) = Some s \<longrightarrow> store_ok s \<and> stored_hashes s = []" by simp
  then obtain t0 where t0: "NewTree 0 [] (Some (MemStore [])) = Inr t0" by (rule NewTree_empty)
  from compact_tree_roots [OF this s, of "[[1], [2], [3]]" "[]" "[]"] t0 show ?thesis by auto
qed

lemma append_all_store: "append_all ls t = Some t' \<Longrightarrow> hashStore t = Some s \<Longrightarrow> \<exists>s'. hashStore t' = Some s'"
  by (induction ls arbitrary: t s) (auto simp: tree_Append_def appendHash_def bind_eq_Some_conv)

lemma append_all_file:
  "append_all ls t = Some t' \<Longrightarrow> hashStore t = Some (FileStore s) \<Longrightarrow> \<exists>s'. hashStore t' = Some (FileStore s')"
  by (induction ls arbitrary: t s) (auto simp: tree_Append_def appendHash_def bind_eq_Some_conv)

lemma stored_num: "length xs < 2 ^ 32 \<Longrightarrow> getStoredHashNum (of_nat (length xs)) = length (layout xs)"
proof -
  assume l: "length xs < 2 ^ 32"
  have "x < 2 ^ 32" if "x \<in> set (sizes_of h s)" "s * 2 ^ h < 2 ^ 32" for x h s
    using that
  proof (induction h s rule: sizes_of.induct)
    case (1 h s)
    consider "s = 0" | m where "s = 2 * m + 1" | m where "s = 2 * m" "s \<noteq> 0"
      by (cases "odd s"; cases "s = 0") (blast elim: oddE evenE)+
    then show ?case
    proof cases
      case (2 m)
      have "2 ^ h < (2 :: nat) ^ 32" using 1(3) 2 by (auto simp: algebra_simps intro: le_less_trans [OF _ 1(3)])
      then have "h < 32" by (rule power_less_imp_less_exp [rotated]) simp
      then have "2 * 2 ^ h \<le> (2 :: nat) ^ 32" using power_increasing [of "Suc h" 32 "2 :: nat"] by simp
      moreover have "1 \<le> (2 :: nat) ^ h" by simp
      ultimately have "2 * 2 ^ h - 1 < (2 :: nat) ^ 32" by linarith
      moreover have "m * 2 ^ Suc h < 2 ^ 32" using 1(3) 2 by (simp add: algebra_simps)
      ultimately show ?thesis using 1 2 by (auto simp: sizes_of_odd)
    next
      case (3 m)
      with 1 show ?thesis by (auto simp: sizes_of_even algebra_simps)
    qed (use 1 in simp)
  qed
  from this [of _ 0 "length xs"] l have "map (\<lambda>x. unat (of_nat x :: uint32)) (sizes_of 0 (length xs)) = sizes_of 0 (length xs)"
    by (intro map_idI unat_of_nat32) simp
  with sum_sizes [of xs "length xs" 0] l show ?thesis by (simp add: getStoredHashNum_def subtree_sizes comp_def)
qed

text \<open>
  C25 (functional): reopening the hash file after a crash.  The file may hold nodes of leaves appended after the
  state that was saved; opening it with the saved size and building the tree from the saved hashes gives the tree
  of the saved leaves back, with a store that holds exactly its nodes.
\<close>

theorem reopen_after_crash:
  assumes "NewTree 0 [] (Some (FileStore \<lparr>fdata = [], fpos = 0\<rparr>)) = Inr t0" "append_all leaves t0 = Some t"
    and "append_all later t = Some t2" "hashStore t2 = Some (FileStore s2)" "length leaves + length later < 2 ^ 32"
  shows "\<exists>s t'. NewFileHashStore (fdata s2) (treeSize t) = Inr s \<and> NewTree (treeSize t) (hashes t) (Some s) = Inr t' \<and>
    tree_ok t' (map hash_leaf leaves) \<and> hashStore t' = Some s \<and> fst (Root t') = fst (Root t)"
proof -
  have e: "\<forall>s. Some (FileStore \<lparr>fdata = [], fpos = 0\<rparr>) = Some s \<longrightarrow> store_ok s \<and> stored_hashes s = []"
    by (simp add: file_ok_def file_stored_def)
  have "tree_ok t0 []" using NewTree_empty [OF e] assms(1) by auto
  then have t: "tree_ok t (map hash_leaf leaves)" using append_all_ok [of t0 "[]" leaves] assms(2,5) by fastforce
  then have t2: "tree_ok t2 (map hash_leaf leaves @ map hash_leaf later)"
    using append_all_ok [OF t, of later] assms(3,5) by fastforce
  let ?xs = "map hash_leaf leaves"
  have n: "length ?xs < 2 ^ 32" using assms(5) by simp
  obtain rest where rest: "layout (?xs @ map hash_leaf later) = layout ?xs @ rest"
    by (rule layout_prefix [of ?xs "map hash_leaf later"]) (use assms(5) in simp)
  with t2 assms(4) have f: "file_ok s2" "file_stored s2 = layout ?xs @ rest" by (auto simp: tree_ok_def)
  define s where "s = s2\<lparr>fpos := length (layout ?xs) * UINT256_SIZE\<rparr>"
  have "length (file_stored s2) * UINT256_SIZE = fpos s2" using f(1) by (simp add: file_stored_def file_ok_def)
  then have le: "length (layout ?xs) * UINT256_SIZE \<le> fpos s2" unfolding f(2) by (simp add: algebra_simps)
  have len: "length (layout ?xs) \<le> fpos s2 div UINT256_SIZE" using le by (simp add: size_defs)
  have "file_stored s = take (length (layout ?xs)) (file_stored s2)"
    using len by (simp add: file_stored_def s_def take_map take_upt) (simp add: size_defs)
  then have st: "store_ok (FileStore s)" "stored_hashes (FileStore s) = layout ?xs"
    using f le by (simp_all add: s_def file_ok_def)
  have sz: "treeSize t = of_nat (length ?xs)" "hashes t = peaks ?xs" using t by (simp_all add: tree_ok_def)
  have "NewFileHashStore (fdata s2) (treeSize t) = Inr (FileStore s)"
    using le f(1) stored_num [OF n] unfolding sz(1)
    by (simp add: NewFileHashStore_def checkConsistence_def file_ok_def s_def Let_def)
  moreover obtain t' where "NewTree (treeSize t) (hashes t) (Some (FileStore s)) = Inr t'" "tree_ok t' ?xs" "hashStore t' = Some (FileStore s)"
    using tree_update_ok [OF n, of "\<lparr>mintree_h = 0, hashes = [], hashStore = Some (FileStore s), rootHash = EMPTY_HASH, treeSize = 0\<rparr>"]
      st t unfolding NewTree_def sz by (auto simp: tree_ok_def)
  ultimately show ?thesis using Root_ok(1) t by metis
qed

theorem reopen_after_crash_witness:
  "\<exists>t s2 s t'. NewFileHashStore (fdata (s2 :: fileHashStore)) (treeSize t) = Inr s \<and> NewTree (treeSize t) (hashes t) (Some s) = Inr t' \<and>
    tree_ok t' [hash_leaf [1], hash_leaf [2]] \<and> tree_ok t [hash_leaf [1], hash_leaf [2]]"
proof -
  let ?f = "FileStore \<lparr>fdata = [], fpos = 0\<rparr>"
  have e: "\<forall>s. Some ?f = Some s \<longrightarrow> store_ok s \<and> stored_hashes s = []" by (simp add: file_ok_def file_stored_def)
  obtain t0 where t0: "NewTree 0 [] (Some ?f) = Inr t0" "tree_ok t0 []" "hashStore t0 = Some ?f" by (rule NewTree_empty [OF e])
  have l: "length [] + length [[1], [2 :: byte]] < 2 ^ 32" by simp
  obtain t where t: "append_all [[1], [2]] t0 = Some t" "tree_ok t ([] @ map hash_leaf [[1], [2]])"
    by (rule append_all_ok [OF t0(2) l])
  have "length ([] @ map hash_leaf [[1], [2]]) + length [[3 :: byte]] < 2 ^ 32" by simp
  then obtain t2 where t2: "append_all [[3]] t = Some t2" by (rule append_all_ok [OF t(2)])
  obtain s2 where "hashStore t2 = Some (FileStore s2)" using append_all_file [OF t(1) t0(3)] append_all_file [OF t2] by blast
  from reopen_after_crash [OF t0(1) t(1) t2 this] t(2) show ?thesis by auto
qed

end
