(* ===== verification/Merkle_Proofs.thy ===== *)
theory Merkle_Proofs
  imports Merkle_Tree
begin

text \<open>
  Audit paths and consistency proofs: how \<open>merkle/merkle_tree.go\<close> builds them from the hash store, how
  \<open>MerkleVerifier\<close> checks them, and that the two fit together.
\<close>

section \<open>Building proofs from the store\<close>

text \<open>
  The hash of a range of leaves, folded from the stored roots of its complete subtrees.  \<open>pos[p] += shift\<close> is
  followed by a read at \<open>pos[p] - 1\<close>; the error of the read is dropped.
\<close>

definition range_root :: "HashStore \<Rightarrow> uint32 \<Rightarrow> uint32 \<Rightarrow> uint256 option" where
  "range_root store n shift =
     do { subhashes \<leftarrow> those (map (\<lambda>p. map_option fst (GetHash store (p + shift - 1))) (getSubTreePos n));
          hash_fold subhashes }"

definition merkleRoot :: "HashStore \<Rightarrow> uint32 \<Rightarrow> uint256 option" where
  "merkleRoot store n = range_root store n 0"

text \<open>
  The loop of \<open>InclusionProof\<close> and \<open>MerkleInclusionLeafPath\<close>: the siblings from the root down, each with the side
  it is on (1 is right).  \<open>None\<close> is a panic of the store.
\<close>

partial_function (option) inclusion_loop :: "HashStore \<Rightarrow> uint32 \<Rightarrow> uint32 \<Rightarrow> uint32 \<Rightarrow> (byte \<times> uint256) list
    \<Rightarrow> (byte \<times> uint256) list option" where
  "inclusion_loop store m n offset hs =
     (if n \<noteq> 1 then
        let k = split_width n in
        if m < k then
          do { rootk2n \<leftarrow> range_root store (n - k) (offset + k * 2 - 1);
               inclusion_loop store m k offset (hs @ [(1, rootk2n)]) }
        else
          do { let offset = offset + k * 2 - 1;
               (root02k, _) \<leftarrow> GetHash store (offset - 1);
               inclusion_loop store (m - k) (n - k) offset (hs @ [(0, root02k)]) }
      else Some hs)"

definition inclusion_path :: "CompactMerkleTree \<Rightarrow> uint32 \<Rightarrow> uint32 \<Rightarrow> string + (byte \<times> uint256) list" where
  "inclusion_path t m n =
     (if m \<ge> n then Inl ''wrong parameters''
      else if treeSize t < n then Inl ''not available yet''
      else case hashStore t of
        None \<Rightarrow> Inl ''hash store not available''
      | Some store \<Rightarrow>
          ebind (orelse_err (inclusion_loop store m n 0 []) ''panic: index out of range'') (\<lambda>hs. Inr (rev hs)))"

definition InclusionProof :: "CompactMerkleTree \<Rightarrow> uint32 \<Rightarrow> uint32 \<Rightarrow> string + uint256 list" where
  "InclusionProof t m n = ebind (inclusion_path t m n) (\<lambda>hs. Inr (map snd hs))"

definition MerkleInclusionLeafPath :: "CompactMerkleTree \<Rightarrow> bytes \<Rightarrow> uint32 \<Rightarrow> uint32 \<Rightarrow> string + bytes" where
  "MerkleInclusionLeafPath t data m n =
     ebind (inclusion_path t m n) (\<lambda>hs. Inr (enc_varbytes data @ concat (map (\<lambda>(p, h). p # h) hs)))"

partial_function (option) subproof_loop :: "HashStore \<Rightarrow> uint32 \<Rightarrow> uint32 \<Rightarrow> bool \<Rightarrow> uint32 \<Rightarrow> uint256 list
    \<Rightarrow> (uint32 \<times> bool \<times> uint32 \<times> uint256 list) option" where
  "subproof_loop store m n b offset hs =
     (if m < n then
        let k = split_width n in
        if m \<le> k then
          do { rootk2n \<leftarrow> range_root store (n - k) (offset + k * 2 - 1);
               subproof_loop store m k b offset (hs @ [rootk2n]) }
        else
          do { let offset = offset + k * 2 - 1;
               (root02k, _) \<leftarrow> GetHash store (offset - 1);
               subproof_loop store (m - k) (n - k) False offset (hs @ [root02k]) }
      else Some (n, b, offset, hs))"

text \<open>\<open>subproof\<close> panics when its assertion fails or the store does, \<open>None\<close>.\<close>

definition subproof :: "HashStore \<Rightarrow> uint32 \<Rightarrow> uint32 \<Rightarrow> bool \<Rightarrow> uint256 list option" where
  "subproof store m n b =
     do { (n, b, offset, hs) \<leftarrow> subproof_loop store m n b 0 [];
          hs \<leftarrow> (if b then Some hs
                else (case getSubTreePos n of
                        [p] \<Rightarrow> do { (root02n, _) \<leftarrow> GetHash store (p + offset - 1); Some (hs @ [root02n]) }
                      | _ \<Rightarrow> None));
          Some (rev hs) }"

text \<open>A nil proof is the empty list.\<close>

definition ConsistencyProof :: "CompactMerkleTree \<Rightarrow> uint32 \<Rightarrow> uint32 \<Rightarrow> uint256 list option" where
  "ConsistencyProof t m n =
     (case hashStore t of
        None \<Rightarrow> Some []
      | Some store \<Rightarrow> if m > n \<or> treeSize t < n then Some [] else subproof store m n True)"

section \<open>Checking proofs\<close>

function audit_loop :: "uint256 \<Rightarrow> nat \<Rightarrow> nat \<Rightarrow> uint256 list \<Rightarrow> string + uint256" where
  "audit_loop calculated_hash node_index last_node path =
     (if last_node > 0 then
        (case path of
           [] \<Rightarrow> Inl ''Proof too short''
         | p # ps \<Rightarrow>
             if node_index mod 2 = 1 then audit_loop (hash_children p calculated_hash) (node_index div 2) (last_node div 2) ps
             else if node_index < last_node
             then audit_loop (hash_children calculated_hash p) (node_index div 2) (last_node div 2) ps
             else audit_loop calculated_hash (node_index div 2) (last_node div 2) path)
      else if path \<noteq> [] then Inl ''Proof too long''
      else Inr calculated_hash)"
  by pat_completeness auto
termination by (relation "measure (\<lambda>(_, _, l, _). l)") auto

declare audit_loop.simps [simp del]

definition calculate_root_hash_from_audit_path :: "uint256 \<Rightarrow> uint32 \<Rightarrow> uint256 list \<Rightarrow> uint32 \<Rightarrow> string + uint256" where
  "calculate_root_hash_from_audit_path leaf_hash node_index audit_path tree_size =
     audit_loop leaf_hash (unat node_index) (unat (tree_size - 1)) audit_path"

fun audit_length_loop :: "nat \<Rightarrow> nat \<Rightarrow> nat" where
  "audit_length_loop index last_node =
     (if last_node > 0 then
        (if index mod 2 = 1 \<or> index < last_node then 1 else 0) + audit_length_loop (index div 2) (last_node div 2)
      else 0)"

declare audit_length_loop.simps [simp del]

definition audit_path_length :: "uint32 \<Rightarrow> uint32 \<Rightarrow> nat" where
  "audit_path_length index tree_size = audit_length_loop (unat index) (unat (tree_size - 1))"

definition VerifyLeafHashInclusion :: "uint256 \<Rightarrow> uint32 \<Rightarrow> uint256 list \<Rightarrow> uint256 \<Rightarrow> uint32 \<Rightarrow> string + unit" where
  "VerifyLeafHashInclusion leaf_hash leaf_index prf root_hash tree_size =
     (if tree_size \<le> leaf_index then Inl ''Wrong params: the tree size is smaller than the leaf index''
      else
        ebind (calculate_root_hash_from_audit_path leaf_hash leaf_index prf tree_size) (\<lambda>calculated_root_hash.
        if calculated_root_hash \<noteq> root_hash then Inl ''Constructed root hash differs from provided root hash''
        else Inr ()))"

definition VerifyLeafInclusion :: "bytes \<Rightarrow> uint32 \<Rightarrow> uint256 list \<Rightarrow> uint256 \<Rightarrow> uint32 \<Rightarrow> string + unit" where
  "VerifyLeafInclusion leaf leaf_index prf root_hash tree_size =
     VerifyLeafHashInclusion (hash_leaf leaf) leaf_index prf root_hash tree_size"

text \<open>The loops of \<open>VerifyConsistency\<close>: going up while in both trees, hashing both roots, finishing the new one.\<close>

function up_loop :: "nat \<Rightarrow> nat \<Rightarrow> nat \<times> nat" where
  "up_loop node last_node = (if node mod 2 = 1 then up_loop (node div 2) (last_node div 2) else (node, last_node))"
  by auto
termination by (relation "measure fst") (auto intro: odd_pos simp: odd_iff_mod_2_eq_one)

declare up_loop.simps [simp del]

fun both_loop :: "nat \<Rightarrow> nat \<Rightarrow> uint256 \<Rightarrow> uint256 \<Rightarrow> uint256 list \<Rightarrow> string + (nat \<times> uint256 \<times> uint256 \<times> uint256 list)" where
  "both_loop node last_node old_hash new_hash path =
     (if node \<noteq> 0 then
        (if node mod 2 = 1 then
           (case path of
              [] \<Rightarrow> Inl ''Wrong proof length''
            | p # ps \<Rightarrow> both_loop (node div 2) (last_node div 2) (hash_children p old_hash) (hash_children p new_hash) ps)
         else if node < last_node then
           (case path of
              [] \<Rightarrow> Inl ''Wrong proof length''
            | p # ps \<Rightarrow> both_loop (node div 2) (last_node div 2) old_hash (hash_children new_hash p) ps)
         else both_loop (node div 2) (last_node div 2) old_hash new_hash path)
      else Inr (last_node, old_hash, new_hash, path))"

fun new_loop :: "nat \<Rightarrow> uint256 \<Rightarrow> uint256 list \<Rightarrow> string + (uint256 \<times> uint256 list)" where
  "new_loop last_node new_hash path =
     (if last_node \<noteq> 0 then
        (case path of
           [] \<Rightarrow> Inl ''Wrong proof length''
         | p # ps \<Rightarrow> new_loop (last_node div 2) (hash_children new_hash p) ps)
      else Inr (new_hash, path))"

declare both_loop.simps [simp del] new_loop.simps [simp del]

definition VerifyConsistency :: "uint32 \<Rightarrow> uint32 \<Rightarrow> uint256 \<Rightarrow> uint256 \<Rightarrow> uint256 list \<Rightarrow> string + unit" where
  "VerifyConsistency old_size new_size old_root new_root prf =
     (if old_size > new_size then Inl ''Older tree has bigger size''
      else if old_root = new_root then Inr ()
      else if old_size = 0 then Inr ()
      else
        let (node, last_node) = up_loop (unat (old_size - 1)) (unat (new_size - 1)) in
        case prf of
          [] \<Rightarrow> Inl ''Wrong proof length''
        | p # ps \<Rightarrow>
            let (first, path) = (if node \<noteq> 0 then (p, ps) else (old_root, prf)) in
            ebind (both_loop node last_node first first path) (\<lambda>(last_node, old_hash, new_hash, path).
            ebind (new_loop last_node new_hash path) (\<lambda>(new_hash, path).
            if new_hash \<noteq> new_root then Inl ''Bad Merkle proof: second root hash does not match''
            else if old_hash \<noteq> old_root then Inl ''Inconsistency: first root hash does not match''
            else if path \<noteq> [] then Inl ''Proof too long''
            else Inr ())))"

section \<open>Reading subtrees\<close>

text \<open>The store holds the nodes of the leaves \<open>ys\<close> from position \<open>d\<close> on.\<close>

definition holds :: "HashStore \<Rightarrow> nat \<Rightarrow> uint256 list \<Rightarrow> bool" where
  "holds store d ys \<longleftrightarrow> (\<forall>q < length (layout ys). GetHash store (of_nat (d + q)) = Some (layout ys ! q, False))"

lemma holds_split:
  assumes "holds store d (l @ r)" "length l = 2 ^ j" "r \<noteq> []" "length r \<le> 2 ^ j"
  shows "holds store d l" "holds store (d + (2 * 2 ^ j - 1)) r"
proof -
  obtain rest where s: "layout (l @ r) = layout l @ layout r @ rest" using assms(2-4) by (rule layout_split)
  have n: "length (layout l) = 2 * 2 ^ j - 1" using assms(2) layout_complete [OF assms(2)] by (simp add: length_post)
  show "holds store d l"
    unfolding holds_def
  proof (intro allI impI)
    fix q assume q: "q < length (layout l)"
    then have "GetHash store (of_nat (d + q)) = Some (layout (l @ r) ! q, False)" using assms(1) s by (simp add: holds_def)
    then show "GetHash store (of_nat (d + q)) = Some (layout l ! q, False)" using q unfolding s by (simp add: nth_append)
  qed
  show "holds store (d + (2 * 2 ^ j - 1)) r"
    unfolding holds_def n [symmetric]
  proof (intro allI impI)
    fix q assume q: "q < length (layout r)"
    then have "length (layout l) + q < length (layout (l @ r))" unfolding s by simp
    from assms(1) [unfolded holds_def, rule_format, OF this] show "GetHash store (of_nat (d + length (layout l) + q)) = Some (layout r ! q, False)"
      using q unfolding s by (simp only: add.assoc nth_append_length_plus) (simp add: nth_append)
  qed
qed

lemma those_map_Some: "(\<And>x. x \<in> set xs \<Longrightarrow> f x = Some (g x)) \<Longrightarrow> those (map f xs) = Some (map g xs)"
  by (induction xs) simp_all

lemma range_root_holds:
  assumes "holds store d ys" "ys \<noteq> []" "length ys < 2 ^ 32"
  shows "range_root store (of_nat (length ys)) (of_nat d) = Some (mth ys)"
proof -
  note p = peaks_at [of ys "length ys" 0, simplified]
  let ?ps = "psum 0 (sizes_of 0 (length ys))"
  have "map_option fst (GetHash store (of_nat x + of_nat d - 1)) = Some (layout ys ! (x - 1))" if "x \<in> set ?ps" for x
  proof -
    have x: "0 < x" "x - 1 < length (layout ys)" using p that by auto
    then have "(of_nat x + of_nat d - 1 :: uint32) = of_nat (d + (x - 1))" by (cases x) simp_all
    with assms(1) [unfolded holds_def, rule_format, OF x(2)] show ?thesis by (simp only: option.map fst_conv)
  qed
  then have "those (map (\<lambda>p. map_option fst (GetHash store (p + of_nat d - 1))) (map of_nat ?ps)) = Some (peaks ys)"
    unfolding p [THEN conjunct1, symmetric] map_map comp_def by (intro those_map_Some) simp
  with assms(2,3) show ?thesis by (simp add: range_root_def subtree_sizes hash_fold_peaks)
qed

lemma complete_root_holds:
  assumes "holds store d l" "length l = 2 ^ j"
  shows "GetHash store (of_nat (d + (2 * 2 ^ j - 1)) - 1) = Some (mth l, False)"
proof -
  have j: "1 \<le> (2 :: nat) ^ j" by simp
  then have "(of_nat (d + (2 * 2 ^ j - 1)) - 1 :: uint32) = of_nat (d + (2 * 2 ^ j - 2))"
  proof -
    have "d + (2 * 2 ^ j - 1) = Suc (d + (2 * 2 ^ j - 2))" using j by linarith
    then show ?thesis by simp
  qed
  moreover have "2 * 2 ^ j - 2 < length (layout l)"
    unfolding layout_complete [OF assms(2)] length_post [OF assms(2)] using j by linarith
  note assms(1) [unfolded holds_def, rule_format, OF this]
  ultimately show ?thesis unfolding layout_complete [OF assms(2)] last_post [OF assms(2)] by (simp only:)
qed

lemma of_nat_less32: "a < 2 ^ 32 \<Longrightarrow> b < 2 ^ 32 \<Longrightarrow> (of_nat a :: uint32) < of_nat b \<longleftrightarrow> a < b"
  by (simp add: word_less_nat_alt unat_of_nat32)

lemma of_nat_le32: "a < 2 ^ 32 \<Longrightarrow> b < 2 ^ 32 \<Longrightarrow> (of_nat a :: uint32) \<le> of_nat b \<longleftrightarrow> a \<le> b"
  by (simp add: word_le_nat_alt unat_of_nat32)

lemma node_words:
  assumes "length l = 2 ^ j" "r \<noteq> []" "length r \<le> 2 ^ j" "length (l @ r) < 2 ^ 32"
  shows "split_width (of_nat (length (l @ r))) = of_nat (length l)" "(of_nat (length (l @ r)) :: uint32) \<noteq> 1"
    "(of_nat (length (l @ r)) - of_nat (length l) :: uint32) = of_nat (length r)"
    "(of_nat d + of_nat (length l) * 2 - 1 :: uint32) = of_nat (d + (2 * 2 ^ j - 1))"
proof -
  have n: "2 \<le> length (l @ r)" "2 ^ j < length (l @ r)" "length (l @ r) \<le> 2 * 2 ^ j"
    using assms by (cases l; cases r; simp)+
  show "split_width (of_nat (length (l @ r))) = of_nat (length l)"
    using split_width_top [OF n(1) assms(4)] top_split_eq [OF n(2,3)] assms(1) by simp
  show "(of_nat (length (l @ r)) :: uint32) \<noteq> 1"
    using unat_of_nat32 [OF assms(4)] n(1) by (metis Suc_1 not_less_eq_eq order_refl unsigned_1 One_nat_def)
  show "(of_nat (length (l @ r)) - of_nat (length l) :: uint32) = of_nat (length r)" by simp
  have "d + 2 * 2 ^ j = Suc (d + (2 * 2 ^ j - 1))" by simp
  then have "(of_nat (d + 2 * 2 ^ j) :: uint32) = of_nat (d + (2 * 2 ^ j - 1)) + 1" by (metis of_nat_Suc add.commute)
  then show "(of_nat d + of_nat (length l) * 2 - 1 :: uint32) = of_nat (d + (2 * 2 ^ j - 1))"
    using assms(1) by (simp add: algebra_simps)
qed

section \<open>The audit path\<close>

function rpath :: "nat \<Rightarrow> uint256 list \<Rightarrow> (byte \<times> uint256) list" where
  "rpath m ys =
     (if length ys \<le> 1 then []
      else let k = top_split (length ys) in
           if m < k then (1, mth (drop k ys)) # rpath m (take k ys) else (0, mth (take k ys)) # rpath (m - k) (drop k ys))"
  by auto
termination
proof (relation "measure (\<lambda>(_, ys). length ys)")
  fix ys :: "uint256 list" and k assume "\<not> length ys \<le> 1" and k: "k = top_split (length ys)"
  then have "2 \<le> length ys" by simp
  then obtain j where "top_split (length ys) = 2 ^ j" "2 ^ j < length ys" by (rule top_split_bounds)
  moreover have "length ys - 2 ^ j < length ys" by (rule diff_less) (use \<open>2 \<le> length ys\<close> in auto)
  ultimately show "((m, take k ys), m', ys) \<in> measure (\<lambda>(_, ys). length ys)"
    "((m - k, drop k ys), m', ys) \<in> measure (\<lambda>(_, ys). length ys)" for m m' :: nat
    by (auto simp: k)
qed simp

declare rpath.simps [simp del]

lemma rpath_leaf: "length ys \<le> 1 \<Longrightarrow> rpath m ys = []"
  by (simp add: rpath.simps)

lemma rpath_node:
  assumes "length l = 2 ^ j" "r \<noteq> []" "length r \<le> 2 ^ j"
  shows "rpath m (l @ r) = (if m < 2 ^ j then (1, mth r) # rpath m l else (0, mth l) # rpath (m - 2 ^ j) r)"
proof -
  have n: "2 \<le> length (l @ r)" "2 ^ j < length (l @ r)" "length (l @ r) \<le> 2 * 2 ^ j"
    using assms by (cases l; cases r; simp)+
  from n(1) top_split_eq [OF n(2,3)] assms(1) show ?thesis by (subst rpath.simps) (simp del: length_append)
qed

lemma inclusion_loop_spec:
  "holds store d ys \<Longrightarrow> m < length ys \<Longrightarrow> length ys < 2 ^ 32 \<Longrightarrow>
    inclusion_loop store (of_nat m) (of_nat (length ys)) (of_nat d) hs = Some (hs @ rpath m ys)"
proof (induction ys arbitrary: m d hs rule: tree_induct)
  case (Leaf x)
  then show ?case by (subst inclusion_loop.simps) (simp add: rpath_leaf)
next
  case (Node l r j)
  note w = node_words [OF Node(1-3) Node.prems(3)] and h = holds_split [OF Node.prems(1) Node(1-3)]
  have len: "length l < 2 ^ 32" "length r < 2 ^ 32" "m < 2 ^ 32" using Node.prems by simp_all
  note lt = of_nat_less32 [OF len(3,1)]
  show ?case
  proof (cases "m < length l")
    case True
    have rr: "range_root store (of_nat (length r)) (of_nat (d + (2 * 2 ^ j - 1))) = Some (mth r)"
      by (rule range_root_holds [OF h(2) Node(2) len(2)])
    have "inclusion_loop store (of_nat m) (of_nat (length (l @ r))) (of_nat d) hs
        = inclusion_loop store (of_nat m) (of_nat (length l)) (of_nat d) (hs @ [(1, mth r)])"
      using True by (subst inclusion_loop.simps) (simp only: w lt Let_def if_True not_False_eq_True rr bind.bind_lunit)
    also have "\<dots> = Some ((hs @ [(1, mth r)]) @ rpath m l)" by (rule Node.IH(1) [OF h(1) True len(1)])
    finally show ?thesis using True Node(1) by (simp add: rpath_node [OF Node(1-3)])
  next
    case False
    have g: "GetHash store (of_nat (d + (2 * 2 ^ j - 1)) - 1) = Some (mth l, False)"
      by (rule complete_root_holds [OF h(1) Node(1)])
    have s: "(of_nat m - of_nat (length l) :: uint32) = of_nat (m - length l)" using False by (simp add: of_nat_diff)
    have "inclusion_loop store (of_nat m) (of_nat (length (l @ r))) (of_nat d) hs
        = inclusion_loop store (of_nat (m - length l)) (of_nat (length r)) (of_nat (d + (2 * 2 ^ j - 1))) (hs @ [(0, mth l)])"
      using False by (subst inclusion_loop.simps)
        (simp only: w lt Let_def if_True if_False not_False_eq_True g bind.bind_lunit prod.case s)
    also have "\<dots> = Some ((hs @ [(0, mth l)]) @ rpath (m - length l) r)"
      by (rule Node.IH(2) [OF h(2) _ len(2)]) (use False Node.prems(2) in simp)
    finally show ?thesis using False Node(1) by (simp add: rpath_node [OF Node(1-3)])
  qed
qed simp

lemma tree_holds:
  assumes "tree_ok t xs" "hashStore t = Some store" "n \<le> length xs" "length xs \<le> 2 ^ 31"
  shows "holds store 0 (take n xs)"
proof -
  have s: "store_ok store" "stored_hashes store = layout xs" using assms(1,2) by (simp_all add: tree_ok_def)
  obtain rest where r: "layout (take n xs @ drop n xs) = layout (take n xs) @ rest"
    by (rule layout_prefix [of "take n xs" "drop n xs"]) (use assms(4) in simp)
  have "length (layout xs) \<le> 2 ^ 32" using length_layout_le [of xs] assms(4) by simp
  then have "GetHash store (of_nat q) = Some (layout xs ! q, False)" if "q < length (layout xs)" for q
    using store.get_of_nat [OF s(1), of q] s(2) that by simp
  with r show ?thesis unfolding holds_def append_take_drop_id by (simp add: nth_append)
qed

lemma inclusion_path_ok:
  assumes "tree_ok t xs" "hashStore t = Some store" "m < n" "n \<le> length xs" "length xs \<le> 2 ^ 31"
  shows "inclusion_path t (of_nat m) (of_nat n) = Inr (rev (rpath m (take n xs)))"
proof -
  have b: "m < 2 ^ 32" "n < 2 ^ 32" "length xs < 2 ^ 32" using assms(3-5) by simp_all
  have sz: "treeSize t = of_nat (length xs)" using assms(1) by (simp add: tree_ok_def)
  have "inclusion_loop store (of_nat m) (of_nat n) 0 [] = Some (rpath m (take n xs))"
    using inclusion_loop_spec [OF tree_holds [OF assms(1,2,4,5)], of m "[]"] assms(3,4) b by simp
  with assms(2-4) show ?thesis
    by (simp add: inclusion_path_def sz of_nat_le32 [OF b(2,1)] of_nat_less32 [OF b(3,2)])
qed

section \<open>Climbing to the root\<close>

text \<open>One step of a verifier combines the hash it has with a sibling on the left (0) or on the right.\<close>

definition step_input :: "uint256 \<Rightarrow> byte \<times> uint256 \<Rightarrow> bytes" where
  "step_input h s = 1 # (if fst s = 0 then snd s @ h else h @ snd s)"

primrec climb :: "uint256 \<Rightarrow> (byte \<times> uint256) list \<Rightarrow> uint256" where
  "climb h [] = h"
| "climb h (s # ss) = climb (sha256 (step_input h s)) ss"

text \<open>What is hashed on the way, and what is hashed to build a tree.\<close>

primrec climb_inputs :: "uint256 \<Rightarrow> (byte \<times> uint256) list \<Rightarrow> bytes list" where
  "climb_inputs h [] = []"
| "climb_inputs h (s # ss) = step_input h s # climb_inputs (sha256 (step_input h s)) ss"

function tree_inputs :: "uint256 list \<Rightarrow> bytes list" where
  "tree_inputs xs =
     (if xs = [] then [[]]
      else if length xs = 1 then []
      else let l = take (top_split (length xs)) xs; r = drop (top_split (length xs)) xs
           in (1 # mth l @ mth r) # tree_inputs l @ tree_inputs r)"
  by auto
termination
proof (relation "measure length")
  fix xs l r :: "uint256 list"
  assume "xs \<noteq> []" "length xs \<noteq> 1" and lr: "l = take (top_split (length xs)) xs" "r = drop (top_split (length xs)) xs"
  then have "2 \<le> length xs" by (cases xs; cases "tl xs") auto
  then obtain j where "top_split (length xs) = 2 ^ j" "2 ^ j < length xs" by (rule top_split_bounds)
  moreover have "length xs - 2 ^ j < length xs" by (rule diff_less) (use \<open>2 \<le> length xs\<close> in auto)
  ultimately show "(l, xs) \<in> measure length" "(r, xs) \<in> measure length" by (auto simp: lr)
qed simp

declare tree_inputs.simps [simp del]

definition collision :: "bytes list \<Rightarrow> bytes list \<Rightarrow> bool" where
  "collision as bs \<longleftrightarrow> (\<exists>a \<in> set as. \<exists>b \<in> set bs. a \<noteq> b \<and> sha256 a = sha256 b)"

lemma collision_mono: "collision as bs \<Longrightarrow> set as \<subseteq> set as' \<Longrightarrow> set bs \<subseteq> set bs' \<Longrightarrow> collision as' bs'"
  unfolding collision_def by blast

lemma climb_snoc: "climb h (ss @ [s]) = sha256 (step_input (climb h ss) s)"
  by (induction ss arbitrary: h) simp_all

lemma climb_inputs_snoc: "climb_inputs h (ss @ [s]) = climb_inputs h ss @ [step_input (climb h ss) s]"
  by (induction ss arbitrary: h) simp_all

lemma length_climb: "length h = UINT256_SIZE \<Longrightarrow> length (climb h ss) = UINT256_SIZE"
  by (induction ss arbitrary: h) (simp_all add: size_defs)

lemma tree_inputs_node:
  assumes "length l = 2 ^ j" "r \<noteq> []" "length r \<le> 2 ^ j"
  shows "tree_inputs (l @ r) = (1 # mth l @ mth r) # tree_inputs l @ tree_inputs r"
proof -
  have n: "2 \<le> length (l @ r)" "2 ^ j < length (l @ r)" "length (l @ r) \<le> 2 * 2 ^ j"
    using assms by (cases l; cases r; simp)+
  from n(1) top_split_eq [OF n(2,3)] assms(1,2) show ?thesis by (subst tree_inputs.simps) (simp del: length_append)
qed

lemma climb_rpath: "m < length ys \<Longrightarrow> climb (ys ! m) (rev (rpath m ys)) = mth ys"
proof (induction ys arbitrary: m rule: tree_induct)
  case (Node l r j)
  from Node.prems Node(1) Node.IH(1) [of m] Node.IH(2) [of "m - 2 ^ j"] show ?case
    by (auto simp: rpath_node [OF Node(1-3)] mth_append [OF Node(1-3)] climb_snoc step_input_def hash_children_def nth_append)
qed (simp_all add: rpath_leaf)

section \<open>Checking an audit path\<close>

text \<open>The sides on which the verifier expects the siblings of node \<open>m\<close>, from the leaf up.\<close>

fun sides :: "nat \<Rightarrow> nat \<Rightarrow> byte list" where
  "sides m last_node =
     (if last_node = 0 then []
      else if m mod 2 = 1 then 0 # sides (m div 2) (last_node div 2)
      else if m < last_node then 1 # sides (m div 2) (last_node div 2)
      else sides (m div 2) (last_node div 2))"

declare sides.simps [simp del]

lemma sides_0 [simp]: "sides m 0 = []" by (simp add: sides.simps)

lemma sides_left: "m < 2 ^ j \<Longrightarrow> last_node div 2 ^ j = 1 \<Longrightarrow> sides m last_node = sides m (2 ^ j - 1) @ [1]"
proof (induction j arbitrary: m last_node)
  case 0
  then show ?case by (simp add: sides.simps [of 0 "Suc 0"])
next
  case (Suc j)
  have "1 \<le> (2 :: nat) ^ j" by simp
  then have e: "2 ^ Suc j - 1 = Suc (2 * (2 ^ j - 1 :: nat))" unfolding power_Suc by linarith
  then have j: "(2 ^ Suc j - 1) div 2 = (2 ^ j - 1 :: nat)" "(2 ^ Suc j - 1 :: nat) \<noteq> 0" by simp_all
  have m: "m div 2 < 2 ^ j" "(last_node div 2) div 2 ^ j = 1" using Suc.prems(1,2) by (auto simp: div_mult2_eq)
  have "2 ^ Suc j \<le> last_node" using Suc.prems(2) by (metis div_less linorder_not_le zero_neq_one)
  then have l: "last_node \<noteq> 0" "m < last_node" using Suc.prems(1) by auto
  have "m mod 2 \<noteq> 1 \<Longrightarrow> m < 2 ^ Suc j - 1" using Suc.prems(1) e by presburger
  with j l show ?case
    by (subst sides.simps, subst (2) sides.simps) (simp add: Suc.IH [OF m])
qed

lemma sides_right:
  "last_node < 2 ^ j \<Longrightarrow> m \<le> last_node \<Longrightarrow> sides (2 ^ j + m) (2 ^ j + last_node) = sides m last_node @ [0]"
proof (induction j arbitrary: m last_node)
  case 0
  then show ?case by (simp add: sides.simps [of "Suc 0" "Suc 0"])
next
  case (Suc j)
  have d: "(2 ^ Suc j + m) div 2 = 2 ^ j + m div 2" "(2 ^ Suc j + last_node) div 2 = 2 ^ j + last_node div 2"
    "(2 ^ Suc j + m) mod 2 = m mod 2" by auto
  have "last_node div 2 < 2 ^ j" "m div 2 \<le> last_node div 2" using Suc.prems(1,2) by (auto intro: div_le_mono)
  note IH = Suc.IH [OF this]
  show ?case
  proof (cases "last_node = 0")
    case True
    with Suc.prems(2) IH show ?thesis by (subst sides.simps) simp
  next
    case False
    then show ?thesis by (subst sides.simps, subst (2) sides.simps) (simp add: d IH)
  qed
qed

lemma node_sides:
  assumes "length l = 2 ^ j" "r \<noteq> []" "length r \<le> 2 ^ j" "m < length (l @ r)"
  shows "sides m (length (l @ r) - 1)
    = (if m < 2 ^ j then sides m (length l - 1) @ [1] else sides (m - 2 ^ j) (length r - 1) @ [0])"
proof -
  have r0: "0 < length r" using assms(2) by simp
  have e: "length (l @ r) - 1 = 2 ^ j + (length r - 1)" "length r - 1 < 2 ^ j"
    using assms(1,3) r0 unfolding length_append by linarith+
  then have "(length (l @ r) - 1) div 2 ^ j = 1" by (intro div_nat_eqI) (linarith, unfold mult_Suc_right, linarith)
  with sides_left [of m j] sides_right [OF e(2), of "m - 2 ^ j"] e(1) assms(1,4) r0 show ?thesis by auto
qed

lemma rpath_sides: "m < length ys \<Longrightarrow> map fst (rev (rpath m ys)) = sides m (length ys - 1)"
proof (induction ys arbitrary: m rule: tree_induct)
  case (Node l r j)
  from Node.prems Node(1) Node.IH(1) [of m] Node.IH(2) [of "m - 2 ^ j"] show ?case
    unfolding rpath_node [OF Node(1-3)] node_sides [OF Node(1-3) Node.prems] by auto
qed (simp_all add: rpath_leaf)

lemma sides_some: "0 < last_node \<Longrightarrow> m \<le> last_node \<Longrightarrow> sides m last_node \<noteq> []"
proof (induction m last_node rule: sides.induct)
  case (1 m last_node)
  show ?case
  proof (cases "m mod 2 = 1 \<or> m < last_node")
    case True
    with 1(4) show ?thesis by (subst sides.simps) auto
  next
    case False
    with "1.prems" have "m = last_node" "0 < last_node div 2" by presburger+
    with False 1 show ?thesis by (subst sides.simps) simp
  qed
qed

text \<open>The verifier accepts exactly the paths of the expected length, and returns where they lead.\<close>

lemma audit_loop_climb:
  "m \<le> last_node \<Longrightarrow> audit_loop h m last_node path = Inr root \<longleftrightarrow>
    length path = length (sides m last_node) \<and> root = climb h (zip (sides m last_node) path)"
proof (induction h m last_node path rule: audit_loop.induct)
  case (1 h m last_node path)
  have d: "m div 2 \<le> last_node div 2" using "1.prems" by (rule div_le_mono)
  show ?case
  proof (cases "last_node = 0")
    case True
    then show ?thesis by (auto simp: audit_loop.simps [of h m 0])
  next
    case False
    note s = sides.simps [of m last_node] and a = audit_loop.simps [of h m last_node]
    show ?thesis
    proof (cases path)
      case Nil
      with False sides_some [of last_node m] "1.prems" show ?thesis by (simp add: audit_loop.simps [of h m last_node "[]"])
    next
      case (Cons p ps)
      consider "m mod 2 = 1" | "m mod 2 \<noteq> 1" "m < last_node" | "m mod 2 \<noteq> 1" "\<not> m < last_node" by blast
      then show ?thesis
      proof cases
        case 1
        with "1.IH"(1) [OF _ Cons 1 d] False show ?thesis
          by (simp add: a s Cons step_input_def hash_children_def)
      next
        case 2
        with "1.IH"(2) [OF _ Cons 2 d] False show ?thesis
          by (simp add: a s Cons step_input_def hash_children_def)
      next
        case 3
        with "1.IH"(3) [OF _ Cons 3 d] False show ?thesis by (simp add: a s Cons)
      qed
    qed
  qed
qed

lemma audit_length: "audit_length_loop m last_node = length (sides m last_node)"
  by (induction m last_node rule: audit_length_loop.induct) (subst audit_length_loop.simps, subst sides.simps, auto)

lemma VerifyLeafHashInclusion_iff:
  assumes "tree_size = of_nat n" "0 < n" "n < 2 ^ 32"
  shows "VerifyLeafHashInclusion h i path root tree_size = Inr () \<longleftrightarrow> unat i < n \<and>
    length path = audit_path_length i tree_size \<and> root = climb h (zip (sides (unat i) (n - 1)) path)"
proof -
  have u: "unat tree_size = n" "unat (tree_size - 1) = n - 1"
  proof -
    from assms(2) obtain k where "n = Suc k" by (cases n) auto
    with assms(1,3) unat_of_nat32 [of k] show "unat (tree_size - 1) = n - 1" by simp
    show "unat tree_size = n" using assms(1,3) by (simp add: unat_of_nat32)
  qed
  show ?thesis
    using audit_loop_climb [of "unat i" "n - 1" h path]
    by (auto simp: VerifyLeafHashInclusion_def calculate_root_hash_from_audit_path_def audit_path_length_def audit_length
        word_le_nat_alt u ebind_eq_Inr)
qed

section \<open>Inclusion\<close>

lemma climb_at:
  "m < length ys \<Longrightarrow> map fst ss = sides m (length ys - 1) \<Longrightarrow> climb h ss = mth ys \<Longrightarrow> length h = UINT256_SIZE \<Longrightarrow>
    hash_size (map snd ss) \<Longrightarrow> hash_size ys \<Longrightarrow> h = ys ! m \<or> collision (climb_inputs h ss) (tree_inputs ys)"
proof (induction ys arbitrary: m ss rule: tree_induct)
  case (Node l r j)
  note sd = node_sides [OF Node(1-3) Node.prems(1)]
  from Node.prems(2) sd obtain ss' f v where ss: "ss = ss' @ [(f, v)]"
    "map fst ss' = (if m < 2 ^ j then sides m (length l - 1) else sides (m - 2 ^ j) (length r - 1))"
    "f = (if m < 2 ^ j then 1 else 0)"
    by (cases ss rule: rev_cases) (auto split: if_splits)
  let ?a = "step_input (climb h ss') (f, v)" and ?b = "1 # mth l @ mth r"
  have hs: "hash_size l" "hash_size r" "hash_size (map snd ss')" "length v = UINT256_SIZE" using Node.prems(5,6) ss(1) by auto
  have len: "length (climb h ss') = UINT256_SIZE" "length (mth l) = UINT256_SIZE" "length (mth r) = UINT256_SIZE"
    using Node.prems(4) hs by (simp_all add: length_climb hash_size_mth)
  have eq: "sha256 ?a = sha256 ?b"
    using Node.prems(3) by (simp add: ss(1) climb_snoc mth_append [OF Node(1-3)] hash_children_def)
  have inp: "?a \<in> set (climb_inputs h ss)" "?b \<in> set (tree_inputs (l @ r))" "set (climb_inputs h ss') \<subseteq> set (climb_inputs h ss)"
    "set (tree_inputs l) \<subseteq> set (tree_inputs (l @ r))" "set (tree_inputs r) \<subseteq> set (tree_inputs (l @ r))"
    by (auto simp: ss(1) climb_inputs_snoc tree_inputs_node [OF Node(1-3)])
  show ?case
  proof (cases "?a = ?b")
    case False
    with eq inp(1,2) show ?thesis unfolding collision_def by blast
  next
    case True
    show ?thesis
    proof (cases "m < 2 ^ j")
      case m: True
      with True len hs(4) ss(3) have "climb h ss' = mth l" by (simp add: step_input_def)
      with Node.IH(1) [of m ss'] m ss(2) Node(1) Node.prems(4) hs have "h = l ! m \<or> collision (climb_inputs h ss') (tree_inputs l)"
        by simp
      with m Node(1) collision_mono [OF _ inp(3,4)] show ?thesis by (auto simp: nth_append)
    next
      case m: False
      with True len hs(4) ss(3) have "climb h ss' = mth r" by (simp add: step_input_def)
      moreover have "m - 2 ^ j < length r" using m Node.prems(1) Node(1) by simp
      ultimately have "h = r ! (m - 2 ^ j) \<or> collision (climb_inputs h ss') (tree_inputs r)"
        using Node.IH(2) [of "m - 2 ^ j" ss'] m ss(2) Node.prems(4) hs by simp
      with m Node(1) collision_mono [OF _ inp(3,5)] show ?thesis by (auto simp: nth_append)
    qed
  qed
qed simp_all

text \<open>What is hashed to build the tree of the given leaves.\<close>

definition leaf_tree_inputs :: "bytes list \<Rightarrow> bytes list" where
  "leaf_tree_inputs leaves = map ((#) 0) leaves @ tree_inputs (map hash_leaf leaves)"

lemma hash_leaf_size: "length (hash_leaf l) = UINT256_SIZE" "hash_size (map hash_leaf ls)"
  by (simp_all add: hash_leaf_def size_defs)

text \<open>
  C21 (functional): an audit path that a tree gives out for one of its leaves is accepted, against the root the
  tree had at any size the leaf was in, up to the \<open>2 ^ 31\<close> leaves for which the store positions fit in 32 bits.
\<close>

theorem inclusion_proof_accepted:
  assumes "NewTree 0 [] (Some s0) = Inr t0" "store_ok s0" "stored_hashes s0 = []" "append_all leaves t0 = Some t"
    and "m < n" "n \<le> length leaves" "length leaves \<le> 2 ^ 31"
  shows "\<exists>prf root. InclusionProof t (of_nat m) (of_nat n) = Inr prf \<and> HashFullTree (take n leaves) = Inr root \<and>
    VerifyLeafInclusion (leaves ! m) (of_nat m) prf root (of_nat n) = Inr ()"
proof -
  let ?xs = "map hash_leaf leaves"
  have e: "\<forall>s. Some s0 = Some s \<longrightarrow> store_ok s \<and> stored_hashes s = []" using assms(2,3) by simp
  have t0: "tree_ok t0 []" "hashStore t0 = Some s0" using NewTree_empty [OF e] assms(1) by auto
  obtain store where t: "tree_ok t ?xs" "hashStore t = Some store"
    using append_all_ok [OF t0(1), of leaves] append_all_store [OF assms(4)] assms(4,7) t0(2) by fastforce
  have b: "m < 2 ^ 32" "n < 2 ^ 32" "0 < n" using assms(5-7) by simp_all
  let ?p = "rev (rpath m (take n ?xs))"
  have m: "m < length (take n ?xs)" "length (take n ?xs) = n" using assms(5,6) by simp_all
  have i: "InclusionProof t (of_nat m) (of_nat n) = Inr (map snd ?p)"
    using inclusion_path_ok [OF t assms(5)] assms(6,7) by (simp add: InclusionProof_def)
  have s: "map fst ?p = sides m (n - 1)" using rpath_sides [OF m(1)] m(2) by simp
  then have l: "length (map snd ?p) = length (sides m (n - 1))" by (metis length_map)
  have "climb (take n ?xs ! m) (zip (sides m (n - 1)) (map snd ?p)) = mth (take n ?xs)"
    unfolding s [symmetric] zip_map_fst_snd by (rule climb_rpath [OF m(1)])
  then have "VerifyLeafHashInclusion (take n ?xs ! m) (of_nat m) (map snd ?p) (mth (take n ?xs)) (of_nat n) = Inr ()"
    using l assms(5) b unfolding VerifyLeafHashInclusion_iff [OF refl b(3,2)]
    by (simp add: unat_of_nat32 audit_path_length_def audit_length unat_of_nat_pred)
  then have "VerifyLeafInclusion (leaves ! m) (of_nat m) (map snd ?p) (mth (take n ?xs)) (of_nat n) = Inr ()"
    using assms(5,6) by (simp add: VerifyLeafInclusion_def)
  moreover have "HashFullTree (take n leaves) = Inr (mth (take n ?xs))"
    using b(2) by (simp add: HashFullTree_mth take_map)
  ultimately show ?thesis using i by blast
qed

theorem inclusion_proof_accepted_witness:
  "\<exists>t prf root. InclusionProof t 1 3 = Inr prf \<and> HashFullTree [[1], [2], [3]] = Inr root \<and>
    VerifyLeafInclusion [2] 1 prf root 3 = Inr ()"
proof -
  have e: "\<forall>s. Some (MemStore []) = Some s \<longrightarrow> store_ok s \<and> stored_hashes s = []" by simp
  obtain t0 where t0: "NewTree 0 [] (Some (MemStore [])) = Inr t0" "tree_ok t0 []" by (rule NewTree_empty [OF e])
  have "length [] + length [[1], [2], [3 :: byte]] < 2 ^ 32" by simp
  then obtain t where "append_all [[1], [2], [3]] t0 = Some t" by (rule append_all_ok [OF t0(2)])
  from inclusion_proof_accepted [OF t0(1) _ _ this, of 1 3] show ?thesis by auto
qed

text \<open>
  C20 (safety): an audit path that is accepted for a leaf and an index against the root of some leaves shows that
  this leaf is at that index, unless two different strings among those hashed by the verifier and those hashed to
  build the tree have the same SHA-256 hash.
\<close>

theorem inclusion_proof_sound:
  assumes "HashFullTree leaves = Inr root" "length leaves < 2 ^ 32" "hash_size prf"
    and "VerifyLeafInclusion leaf i prf root (of_nat (length leaves)) = Inr ()"
  shows "unat i < length leaves \<and> (leaf = leaves ! unat i \<or>
    collision ((0 # leaf) # climb_inputs (hash_leaf leaf) (zip (sides (unat i) (length leaves - 1)) prf)) (leaf_tree_inputs leaves))"
proof -
  let ?xs = "map hash_leaf leaves" and ?sd = "sides (unat i) (length leaves - 1)"
  have r: "root = mth ?xs" using assms(1,2) by (simp add: HashFullTree_mth)
  have ne: "0 < length leaves"
    using assms(4) by (cases leaves) (simp_all add: VerifyLeafInclusion_def VerifyLeafHashInclusion_def)
  from assms(4) have v: "unat i < length leaves" "length prf = length ?sd" "mth ?xs = climb (hash_leaf leaf) (zip ?sd prf)"
    unfolding VerifyLeafInclusion_def VerifyLeafHashInclusion_iff [OF refl ne assms(2)] r
    using ne assms(2) by (simp_all add: audit_path_length_def audit_length unat_of_nat_pred)
  have "hash_leaf leaf = ?xs ! unat i \<or> collision (climb_inputs (hash_leaf leaf) (zip ?sd prf)) (tree_inputs ?xs)"
    by (rule climb_at) (use v assms(3) hash_leaf_size in simp_all)
  moreover have "leaf = leaves ! unat i \<or> collision ((0 # leaf) # as) (leaf_tree_inputs leaves)"
    if "hash_leaf leaf = ?xs ! unat i" for as
    using that v(1) unfolding collision_def by (auto simp: leaf_tree_inputs_def hash_leaf_def)
  ultimately show ?thesis
    using v(1) collision_mono [of _ "tree_inputs ?xs" _ "leaf_tree_inputs leaves"]
    by (auto simp: leaf_tree_inputs_def intro: collision_mono)
qed

theorem inclusion_proof_sound_witness:
  "VerifyLeafInclusion [1] 0 [hash_leaf [2]] (hash_children (hash_leaf [1]) (hash_leaf [2])) 2 = Inr () \<and>
    (unat (0 :: uint32) < length [[1], [2 :: byte]] \<and> ([1] = [[1], [2 :: byte]] ! unat (0 :: uint32) \<or>
     collision ((0 # [1]) # climb_inputs (hash_leaf [1]) (zip (sides (unat (0 :: uint32)) (length [[1], [2 :: byte]] - 1)) [hash_leaf [2]]))
       (leaf_tree_inputs [[1], [2]])))"
proof -
  have "mth [hash_leaf [1], hash_leaf [2]] = hash_children (hash_leaf [1]) (hash_leaf [2])"
    using mth_append [of "[hash_leaf [1]]" 0 "[hash_leaf [2]]"] by simp
  then have r: "HashFullTree [[1], [2]] = Inr (hash_children (hash_leaf [1]) (hash_leaf [2]))" by (simp add: HashFullTree_mth)
  have v: "VerifyLeafInclusion [1] 0 [hash_leaf [2]] (hash_children (hash_leaf [1]) (hash_leaf [2])) 2 = Inr ()"
    by (simp add: VerifyLeafInclusion_def VerifyLeafHashInclusion_def calculate_root_hash_from_audit_path_def audit_loop.simps)
  have "VerifyLeafInclusion [1] 0 [hash_leaf [2]] (hash_children (hash_leaf [1]) (hash_leaf [2]))
      (of_nat (length [[1], [2 :: byte]])) = Inr ()" using v by simp
  from inclusion_proof_sound [OF r _ _ this] v show ?thesis by (simp add: hash_leaf_size)
qed

section \<open>Consistency\<close>

text \<open>The two hashes of \<open>VerifyConsistency\<close>: the old one takes only the siblings on the left.\<close>

abbreviation left_steps :: "(byte \<times> uint256) list \<Rightarrow> (byte \<times> uint256) list" where
  "left_steps ss \<equiv> filter (\<lambda>s. fst s = 0) ss"

lemma sides_node_0: "0 < last_node \<Longrightarrow> sides 0 last_node = 1 # sides 0 (last_node div 2)"
  by (subst sides.simps) simp

lemma new_loop_climb:
  "length path = length (sides 0 last_node) \<Longrightarrow> new_loop last_node h path = Inr (climb h (zip (sides 0 last_node) path), [])"
proof (induction last_node h path rule: new_loop.induct)
  case (1 last_node h path)
  show ?case
  proof (cases "last_node = 0")
    case True
    with 1 show ?thesis by (simp add: new_loop.simps)
  next
    case False
    with 1(2) obtain p ps where p: "path = p # ps" by (cases path) (simp_all add: sides_node_0)
    with 1 False show ?thesis
      by (subst new_loop.simps) (simp add: sides_node_0 step_input_def hash_children_def)
  qed
qed

lemma left_sides_0: "left_steps (zip (sides 0 last_node) path) = []"
proof (induction last_node arbitrary: path rule: less_induct)
  case (less last_node)
  show ?case
  proof (cases "last_node = 0")
    case False
    then have "last_node div 2 < last_node" by simp
    with less [of "last_node div 2"] False show ?thesis by (cases path) (simp_all add: sides_node_0)
  qed simp
qed

lemma both_loop_climb:
  assumes "node \<le> last_node" "length path = length (sides node last_node)"
  obtains l n p where "both_loop node last_node old new path
      = Inr (l, climb old (left_steps (zip (sides node last_node) path)), n, p)"
    "new_loop l n p = Inr (climb new (zip (sides node last_node) path), [])"
  using assms
proof (induction node last_node old new path arbitrary: thesis rule: both_loop.induct)
  case (1 node last_node old new path)
  have d: "node div 2 \<le> last_node div 2" using "1.prems"(2) by (rule div_le_mono)
  note b = both_loop.simps [of node last_node old new] and s = sides.simps [of node last_node]
  consider "node = 0" | "node \<noteq> 0" "node mod 2 = 1" | "node \<noteq> 0" "node mod 2 \<noteq> 1" "node < last_node"
    | "node \<noteq> 0" "node mod 2 \<noteq> 1" "\<not> node < last_node" by blast
  then show ?case
  proof cases
    case 1
    with "1.prems"(3) new_loop_climb [of path last_node new] show ?thesis
      by (intro "1.prems"(1)) (simp_all add: both_loop.simps left_sides_0)
  next
    case 2
    with "1.prems" obtain p ps where p: "path = p # ps" "length ps = length (sides (node div 2) (last_node div 2))"
      by (cases path) (simp_all add: s)
    obtain l n q where i: "both_loop (node div 2) (last_node div 2) (hash_children p old) (hash_children p new) ps
        = Inr (l, climb (hash_children p old) (left_steps (zip (sides (node div 2) (last_node div 2)) ps)), n, q)"
      "new_loop l n q = Inr (climb (hash_children p new) (zip (sides (node div 2) (last_node div 2)) ps), [])"
      by (rule "1.IH"(1) [OF 2 p(1) _ d p(2)])
    from i 2 p "1.prems"(2) show ?thesis
      by (intro "1.prems"(1) [of l n q]) (simp_all add: b s step_input_def hash_children_def)
  next
    case 3
    with "1.prems" obtain p ps where p: "path = p # ps" "length ps = length (sides (node div 2) (last_node div 2))"
      by (cases path) (simp_all add: s)
    obtain l n q where i: "both_loop (node div 2) (last_node div 2) old (hash_children new p) ps
        = Inr (l, climb old (left_steps (zip (sides (node div 2) (last_node div 2)) ps)), n, q)"
      "new_loop l n q = Inr (climb (hash_children new p) (zip (sides (node div 2) (last_node div 2)) ps), [])"
      by (rule "1.IH"(2) [OF 3 p(1) _ d p(2)])
    from i 3 p "1.prems"(2) show ?thesis
      by (intro "1.prems"(1) [of l n q]) (simp_all add: b s step_input_def hash_children_def)
  next
    case 4
    with "1.prems"(2,3) have p: "length path = length (sides (node div 2) (last_node div 2))" unfolding s by simp
    obtain l n q where i: "both_loop (node div 2) (last_node div 2) old new path
        = Inr (l, climb old (left_steps (zip (sides (node div 2) (last_node div 2)) path)), n, q)"
      "new_loop l n q = Inr (climb new (zip (sides (node div 2) (last_node div 2)) path), [])"
      by (rule "1.IH"(3) [OF 4 _ d p])
    have "both_loop node last_node old new path = both_loop (node div 2) (last_node div 2) old new path"
      "sides node last_node = sides (node div 2) (last_node div 2)"
      using 4 "1.prems"(2) unfolding b [of path] s by simp_all
    with i show ?thesis by (intro "1.prems"(1) [of l n q]) (simp_all only:)
  qed
qed

text \<open>Going up while in both trees.\<close>

lemma up_loop_odd: "odd q \<Longrightarrow> up_loop (2 ^ t * q - 1) n = (q - 1, n div 2 ^ t)"
proof (induction t arbitrary: n)
  case 0
  then show ?case by (subst up_loop.simps) (auto elim: oddE)
next
  case (Suc t)
  have "0 < 2 ^ t * q" using Suc.prems by (auto intro: odd_pos)
  then have "(2 ^ Suc t * q - 1) mod 2 = 1" "(2 ^ Suc t * q - 1) div 2 = 2 ^ t * q - 1"
    unfolding power_Suc mult.assoc by presburger+
  with Suc show ?case by (subst up_loop.simps) (simp add: div_mult2_eq)
qed

lemma odd_part: "0 < (m :: nat) \<Longrightarrow> \<exists>t q. m = 2 ^ t * q \<and> odd q"
proof (induction m rule: less_induct)
  case (less m)
  show ?case
  proof (cases "odd m")
    case True
    then show ?thesis by (intro exI [of _ 0] exI [of _ m]) simp
  next
    case False
    then have "even m" by simp
    then obtain k where k: "m = 2 * k" by (elim evenE)
    moreover from this less.prems have "k < m" "0 < k" by simp_all
    ultimately obtain t q where "k = 2 ^ t * q" "odd q" using less.IH by blast
    with k show ?thesis by (intro exI [of _ "Suc t"] exI [of _ q]) simp
  qed
qed

text \<open>The path of \<open>subproof\<close>, from the root down.\<close>

function spath :: "nat \<Rightarrow> uint256 list \<Rightarrow> bool \<Rightarrow> uint256 list" where
  "spath m ys b =
     (if m < length ys \<and> 2 \<le> length ys then
        let k = top_split (length ys) in
        if m \<le> k then mth (drop k ys) # spath m (take k ys) b else mth (take k ys) # spath (m - k) (drop k ys) False
      else if b then [] else [mth ys])"
  by auto
termination
proof (relation "measure (\<lambda>(_, ys, _). length ys)")
  fix m :: nat and ys :: "uint256 list" and k assume "m < length ys \<and> 2 \<le> length ys" and k: "k = top_split (length ys)"
  then have "2 \<le> length ys" by simp
  then obtain j where "top_split (length ys) = 2 ^ j" "2 ^ j < length ys" by (rule top_split_bounds)
  moreover have "length ys - 2 ^ j < length ys" by (rule diff_less) (use \<open>2 \<le> length ys\<close> in auto)
  ultimately show "((m, take k ys, b), m', ys, b') \<in> measure (\<lambda>(_, ys, _). length ys)"
    "((m - k, drop k ys, False), m', ys, b') \<in> measure (\<lambda>(_, ys, _). length ys)" for b b' m'
    by (auto simp: k)
qed simp

declare spath.simps [simp del]

lemma spath_node:
  assumes "length l = 2 ^ j" "r \<noteq> []" "length r \<le> 2 ^ j" "m < length (l @ r)"
  shows "spath m (l @ r) b = (if m \<le> 2 ^ j then mth r # spath m l b else mth l # spath (m - 2 ^ j) r False)"
proof -
  have n: "2 \<le> length (l @ r)" "2 ^ j < length (l @ r)" "length (l @ r) \<le> 2 * 2 ^ j"
    using assms by (cases l; cases r; simp)+
  from n(1) top_split_eq [OF n(2,3)] assms(1,4) show ?thesis by (subst spath.simps) (simp del: length_append)
qed

lemma spath_end: "length ys \<le> m \<Longrightarrow> spath m ys b = (if b then [] else [mth ys])"
  by (subst spath.simps) auto

text \<open>
  What a consistency path is: the subtree that ends at leaf \<open>m\<close> (left out if it is the whole old tree) and then
  the siblings on the way up, which lead to both roots.
\<close>

lemma mth_take_node:
  assumes "length l = 2 ^ j" "r \<noteq> []" "length r \<le> 2 ^ j" "2 ^ j < m" "m \<le> length (l @ r)"
  shows "mth (take m (l @ r)) = hash_children (mth l) (mth (take (m - 2 ^ j) r))"
  using assms mth_append [of l j "take (m - 2 ^ j) r"] by auto

definition first_node :: "nat \<Rightarrow> nat \<Rightarrow> uint256 list \<Rightarrow> uint256" where
  "first_node t q ys = mth (take (2 ^ t) (drop (2 ^ t * (q - 1)) ys))"

definition leads :: "nat \<Rightarrow> nat \<Rightarrow> nat \<Rightarrow> uint256 list \<Rightarrow> bool \<Rightarrow> bool" where
  "leads m t q ys b \<longleftrightarrow> (\<exists>P. let h = first_node t q ys; sd = sides (q - 1) ((length ys - 1) div 2 ^ t) in
     rev (spath m ys b) = (if b \<and> q = 1 then P else h # P) \<and> length P = length sd \<and>
     climb h (zip sd P) = mth ys \<and> climb h (left_steps (zip sd P)) = mth (take m ys))"

lemma leads_up:
  assumes "leads m' t q' zs b'" "rev (spath m ys b) = rev (spath m' zs b') @ [s]" "(b \<and> q = 1) = (b' \<and> q' = 1)"
    and "first_node t q ys = first_node t q' zs"
    and "sides (q - 1) ((length ys - 1) div 2 ^ t) = sides (q' - 1) ((length zs - 1) div 2 ^ t) @ [f]"
    and "sha256 (step_input (mth zs) (f, s)) = mth ys"
    and "mth (take m ys) = (if f = 0 then sha256 (step_input (mth (take m' zs)) (f, s)) else mth (take m' zs))"
  shows "leads m t q ys b"
proof -
  let ?h = "first_node t q' zs" and ?sd = "sides (q' - 1) ((length zs - 1) div 2 ^ t)"
  from assms(1) obtain P where P: "rev (spath m' zs b') = (if b' \<and> q' = 1 then P else ?h # P)" "length P = length ?sd"
    "climb ?h (zip ?sd P) = mth zs" "climb ?h (left_steps (zip ?sd P)) = mth (take m' zs)"
    by (auto simp: leads_def Let_def)
  have "rev (spath m ys b) = (if b \<and> q = 1 then P @ [s] else ?h # P @ [s])"
    unfolding assms(2,3) P(1) by simp
  moreover have "climb ?h (zip (?sd @ [f]) (P @ [s])) = mth ys" using P(2,3) assms(6) by (simp add: climb_snoc)
  moreover have "climb ?h (left_steps (zip (?sd @ [f]) (P @ [s]))) = mth (take m ys)"
    using P(2,4) assms(7) by (simp add: climb_snoc)
  ultimately show ?thesis
    unfolding leads_def Let_def assms(4,5) using P(2) by (intro exI [of _ "P @ [s]"] conjI) simp_all
qed

lemma pow_split: "t \<le> j \<Longrightarrow> (2 :: nat) ^ j = 2 ^ t * 2 ^ (j - t)"
  by (simp flip: power_add)

lemma node_length:
  assumes "length l = 2 ^ j" "r \<noteq> []" "length r \<le> 2 ^ j"
  shows "length (l @ r) - 1 = 2 ^ j + (length r - 1)" "length r - 1 < 2 ^ j"
proof -
  have "0 < length r" using assms(2) by simp
  then show "length (l @ r) - 1 = 2 ^ j + (length r - 1)" "length r - 1 < 2 ^ j"
    using assms(1,3) unfolding length_append by linarith+
qed

lemma left_bounds:
  fixes m :: nat
  assumes "m = 2 ^ t * q" "odd q" "m \<le> 2 ^ j"
  shows "t \<le> j" "q \<le> 2 ^ (j - t)" "m = 2 ^ j \<Longrightarrow> q = 1"
proof -
  have "2 ^ t \<le> m" using assms(1,2) by (auto elim: oddE)
  then have "(2 :: nat) ^ t \<le> 2 ^ j" using assms(3) by linarith
  then show t: "t \<le> j" by (rule power_le_imp_le_exp [rotated]) simp
  have "2 ^ t * q \<le> 2 ^ t * 2 ^ (j - t)" using assms(1,3) pow_split [OF t] by simp
  then show "q \<le> 2 ^ (j - t)" by simp
  assume "m = 2 ^ j"
  then have "2 ^ t * q = 2 ^ t * 2 ^ (j - t)" using assms(1) pow_split [OF t] by simp
  then have "q = 2 ^ (j - t)" by simp
  with assms(2) show "q = 1" by (cases "j - t") auto
qed

lemma leads_left:
  assumes node: "length l = 2 ^ j" "r \<noteq> []" "length r \<le> 2 ^ j"
    and m: "m = 2 ^ t * q" "odd q" "m \<le> 2 ^ j" "m < length (l @ r)" and lead: "leads m t q l b"
  shows "leads m t q (l @ r) b"
proof (rule leads_up [OF lead, where s = "mth r" and f = 1])
  note b = left_bounds [OF m(1-3)] and e = node_length [OF node]
  note pw = pow_split [OF b(1)]
  have q0: "0 < q" using m(2) by (rule odd_pos)
  show "rev (spath m (l @ r) b) = rev (spath m l b) @ [mth r]" using m(3) by (simp add: spath_node [OF node m(4)])
  have "2 ^ t * (q - 1) + 2 ^ t = m" using m(1) q0 by (cases q) (simp_all add: algebra_simps)
  then show "first_node t q (l @ r) = first_node t q l" using m(3) node(1) by (simp add: first_node_def)
  have "((length (l @ r) - 1) div 2 ^ t) div 2 ^ (j - t) = 1"
    unfolding div_mult2_eq [symmetric] pw [symmetric] e(1) using e(2)
    by (intro div_nat_eqI) (linarith, unfold mult_Suc_right, linarith)
  moreover have "(length l - 1) div 2 ^ t = 2 ^ (j - t) - 1"
  proof -
    have "length l - 1 = 2 ^ t * (2 ^ (j - t) - 1) + (2 ^ t - 1)"
      unfolding node(1) pw by (simp add: algebra_simps flip: power_add)
    moreover have "1 \<le> (2 :: nat) ^ t" by simp
    ultimately show ?thesis by (intro div_nat_eqI) (linarith, unfold mult_Suc_right, linarith)
  qed
  ultimately show "sides (q - 1) ((length (l @ r) - 1) div 2 ^ t) = sides (q - 1) ((length l - 1) div 2 ^ t) @ [1]"
    using sides_left [of "q - 1" "j - t"] b(2) q0 by simp
  show "sha256 (step_input (mth l) (1, mth r)) = mth (l @ r)"
    by (simp add: mth_append [OF node] step_input_def hash_children_def)
  show "mth (take m (l @ r)) = (if (1 :: byte) = 0 then sha256 (step_input (mth (take m l)) (1, mth r)) else mth (take m l))"
    using m(3) node(1) by simp
qed simp

lemma right_bounds:
  fixes m :: nat
  assumes "m = 2 ^ t * q" "odd q" "2 ^ j < m" "m < 2 * 2 ^ j"
  shows "t < j" "2 ^ (j - t) < q" "odd (q - 2 ^ (j - t))" "m - 2 ^ j = 2 ^ t * (q - 2 ^ (j - t))"
proof -
  show t: "t < j"
  proof (rule ccontr)
    assume "\<not> t < j"
    then have "2 ^ j dvd m" using assms(1) by (simp add: le_imp_power_dvd dvd_mult2)
    then obtain c where c: "m = 2 ^ j * c" by (rule dvdE)
    have "2 ^ j * 1 < 2 ^ j * c" "2 ^ j * c < 2 ^ j * 2" using assms(3,4) c by simp_all
    then have "1 < c" "c < 2" by simp_all
    then show False by simp
  qed
  then have pw: "(2 :: nat) ^ j = 2 ^ t * 2 ^ (j - t)" by (intro pow_split) simp
  show q: "2 ^ (j - t) < q" using assms(1,3) pw by simp
  have "even ((2 :: nat) ^ (j - t))" using t by simp
  with q assms(2) show "odd (q - 2 ^ (j - t))" by simp
  show "m - 2 ^ j = 2 ^ t * (q - 2 ^ (j - t))" unfolding assms(1) pw by (simp add: diff_mult_distrib2)
qed

lemma leads_right:
  assumes node: "length l = 2 ^ j" "r \<noteq> []" "length r \<le> 2 ^ j"
    and m: "m = 2 ^ t * q" "odd q" "2 ^ j < m" "m < length (l @ r)"
    and lead: "leads (m - 2 ^ j) t (q - 2 ^ (j - t)) r False"
  shows "leads m t q (l @ r) b"
proof (rule leads_up [OF lead, where s = "mth l" and f = 0])
  have m2: "m < 2 * 2 ^ j" using m(4) node by simp
  note b = right_bounds [OF m(1-3) m2] and e = node_length [OF node]
  have pw: "(2 :: nat) ^ j = 2 ^ t * 2 ^ (j - t)" using b(1) by (intro pow_split) simp
  let ?q = "q - 2 ^ (j - t)"
  have q0: "0 < ?q" "q - 1 = 2 ^ (j - t) + (?q - 1)" using b(2) by simp_all
  show "rev (spath m (l @ r) b) = rev (spath (m - 2 ^ j) r False) @ [mth l]"
    using m(3) by (simp add: spath_node [OF node m(4)])
  show "(b \<and> q = 1) = (False \<and> ?q = 1)" using b(2) by auto
  show "first_node t q (l @ r) = first_node t ?q r"
    unfolding first_node_def q0(2) using node(1) pw by (simp add: distrib_left)
  have y: "(length (l @ r) - 1) div 2 ^ t = 2 ^ (j - t) + (length r - 1) div 2 ^ t" unfolding e(1) pw by simp
  have yb: "(length r - 1) div 2 ^ t < 2 ^ (j - t)" using e(2) unfolding pw by (simp add: less_mult_imp_div_less mult.commute)
  have "2 ^ t * (?q - 1) \<le> length r - 1"
    using m(3,4) node(1) b(4) q0(1) by (cases ?q) (auto simp: algebra_simps)
  then have "2 ^ t * (?q - 1) div 2 ^ t \<le> (length r - 1) div 2 ^ t" by (rule div_le_mono)
  then have qb: "?q - 1 \<le> (length r - 1) div 2 ^ t" by simp
  show "sides (q - 1) ((length (l @ r) - 1) div 2 ^ t) = sides (?q - 1) ((length r - 1) div 2 ^ t) @ [0]"
    unfolding y q0(2) by (rule sides_right [OF yb qb])
  show "sha256 (step_input (mth r) (0, mth l)) = mth (l @ r)"
    by (simp add: mth_append [OF node] step_input_def hash_children_def)
  show "mth (take m (l @ r)) = (if (0 :: byte) = 0 then sha256 (step_input (mth (take (m - 2 ^ j) r)) (0, mth l))
      else mth (take (m - 2 ^ j) r))"
    using mth_take_node [OF node m(3)] m(4) by (simp add: step_input_def hash_children_def)
qed

lemma spath_leads:
  "m = 2 ^ t * q \<Longrightarrow> odd q \<Longrightarrow> m \<le> length ys \<Longrightarrow> (m = length ys \<Longrightarrow> q = 1) \<Longrightarrow> leads m t q ys b"
proof (induction ys arbitrary: m q b rule: tree_induct)
  case Nil
  then show ?case by (auto intro: odd_pos)
next
  case (Leaf x)
  have "0 < m" using Leaf.prems(1,2) by (auto intro: odd_pos)
  with Leaf.prems(3) have m: "m = 1" by simp
  with Leaf.prems(1) have "t = 0" "q = 1" by simp_all
  with m show ?case by (simp add: leads_def spath_end first_node_def)
next
  case (Node l r j m q b)
  consider (all) "m = length (l @ r)" | (left) "m \<le> 2 ^ j" "m < length (l @ r)" | (right) "2 ^ j < m" "m < length (l @ r)"
    using Node.prems(3) by linarith
  then show ?case
  proof cases
    case all
    with Node.prems have q: "q = 1" "length (l @ r) = 2 ^ t" by auto
    then have "(length (l @ r) - 1) div 2 ^ t = 0" by simp
    with q all show ?thesis
      by (simp add: leads_def first_node_def spath_end take_all [of "l @ r"] del: length_append take_append)
  next
    case left
    have "leads m t q l b"
      by (rule Node.IH(1) [OF Node.prems(1,2)]) (use left Node(1) left_bounds(3) [OF Node.prems(1,2) left(1)] in simp_all)
    then show ?thesis by (rule leads_left [OF Node(1-3) Node.prems(1,2) left])
  next
    case right
    have m2: "m < 2 * 2 ^ j" using right(2) Node(1,3) by simp
    note bb = right_bounds [OF Node.prems(1,2) right(1) m2]
    have "leads (m - 2 ^ j) t (q - 2 ^ (j - t)) r False"
      by (rule Node.IH(2) [OF bb(4,3)]) (use right Node(1) in simp_all)
    then show ?thesis by (rule leads_right [OF Node(1-3) Node.prems(1,2) right])
  qed
qed

lemma subproof_loop_spec:
  "holds store d ys \<Longrightarrow> 0 < m \<Longrightarrow> m \<le> length ys \<Longrightarrow> length ys < 2 ^ 32 \<Longrightarrow> (b \<or> m < length ys \<or> (\<exists>i. m = 2 ^ i)) \<Longrightarrow>
    \<exists>n b' d' hs'. subproof_loop store (of_nat m) (of_nat (length ys)) b (of_nat d) hs = Some (of_nat n, b', of_nat d', hs @ hs') \<and>
      (if b' then spath m ys b = hs'
       else \<exists>zs i. n = length zs \<and> length zs = 2 ^ i \<and> length zs < 2 ^ 32 \<and> holds store d' zs \<and> spath m ys b = hs' @ [mth zs])"
proof (induction ys arbitrary: m d b hs rule: tree_induct)
  case Nil
  then show ?case by simp
next
  case (Leaf x m d b hs)
  then have m: "m = 1" by simp
  have "subproof_loop store (of_nat m) (of_nat (length [x])) b (of_nat d) hs = Some (of_nat 1, b, of_nat d, hs @ [])"
    by (subst subproof_loop.simps) (simp add: m)
  moreover have "spath m [x] b = (if b then [] else [] @ [mth [x]])" by (simp add: spath_end m)
  moreover have "length [x] = 2 ^ 0" "length [x] < 2 ^ 32" by simp_all
  ultimately show ?case using Leaf.prems(1)
    by (intro exI [of _ "1 :: nat"] exI [of _ b] exI [of _ d] exI [of _ "[]"]) (auto intro!: exI [of _ "[x]"] exI [of _ "0 :: nat"])
next
  case (Node l r j m d b hs)
  note w = node_words [OF Node(1-3) Node.prems(4)] and h = holds_split [OF Node.prems(1) Node(1-3)]
  have len: "length l < 2 ^ 32" "length r < 2 ^ 32" "m < 2 ^ 32" "length (l @ r) < 2 ^ 32" using Node.prems by simp_all
  note lt = of_nat_less32 [OF len(3,4)] and le = of_nat_le32 [OF len(3,1)]
  consider (all) "m = length (l @ r)" | (left) "m \<le> length l" "m < length (l @ r)" | (right) "length l < m" "m < length (l @ r)"
    using Node.prems(3) by linarith
  then show ?case
  proof cases
    case all
    have "subproof_loop store (of_nat m) (of_nat (length (l @ r))) b (of_nat d) hs = Some (of_nat (length (l @ r)), b, of_nat d, hs @ [])"
      by (subst subproof_loop.simps) (simp add: all del: length_append of_nat_add)
    moreover have "spath m (l @ r) b = (if b then [] else [] @ [mth (l @ r)])" by (simp add: spath_end all)
    ultimately show ?thesis using Node.prems(1,5) len(4) all
      by (intro exI [of _ "length (l @ r)"] exI [of _ b] exI [of _ d] exI [of _ "[]"]) (auto intro!: exI [of _ "l @ r"] simp del: length_append)
  next
    case left
    have rr: "range_root store (of_nat (length r)) (of_nat (d + (2 * 2 ^ j - 1))) = Some (mth r)"
      by (rule range_root_holds [OF h(2) Node(2) len(2)])
    have "subproof_loop store (of_nat m) (of_nat (length (l @ r))) b (of_nat d) hs
        = subproof_loop store (of_nat m) (of_nat (length l)) b (of_nat d) (hs @ [mth r])"
      using left by (subst subproof_loop.simps) (simp only: w lt le Let_def if_True rr bind.bind_lunit)
    moreover have "b \<or> m < length l \<or> (\<exists>i. m = 2 ^ i)" using left(1) Node(1) by (auto simp: le_less)
    note Node.IH(1) [OF h(1) Node.prems(2) left(1) len(1) this, of "hs @ [mth r]"]
    moreover have "spath m (l @ r) b = mth r # spath m l b" using left Node(1) by (simp add: spath_node [OF Node(1-3)])
    ultimately show ?thesis by (metis (no_types, opaque_lifting) append.assoc append_Cons append_Nil)
  next
    case right
    have g: "GetHash store (of_nat (d + (2 * 2 ^ j - 1)) - 1) = Some (mth l, False)"
      by (rule complete_root_holds [OF h(1) Node(1)])
    have s: "(of_nat m - of_nat (length l) :: uint32) = of_nat (m - length l)" using right by (simp add: of_nat_diff)
    have nl: "(of_nat m \<le> (of_nat (length l) :: uint32)) = False" using right le by simp
    have "subproof_loop store (of_nat m) (of_nat (length (l @ r))) b (of_nat d) hs
        = subproof_loop store (of_nat (m - length l)) (of_nat (length r)) False (of_nat (d + (2 * 2 ^ j - 1))) (hs @ [mth l])"
      using right by (subst subproof_loop.simps)
        (simp only: w lt nl Let_def if_True if_False g bind.bind_lunit prod.case s)
    moreover have "0 < m - length l" "m - length l \<le> length r" "False \<or> m - length l < length r \<or> (\<exists>i. m - length l = 2 ^ i)"
      using right by auto
    note Node.IH(2) [OF h(2) this(1,2) len(2) this(3), of "hs @ [mth l]"]
    moreover have "spath m (l @ r) b = mth l # spath (m - length l) r False" using right Node(1) by (simp add: spath_node [OF Node(1-3)])
    ultimately show ?thesis by (metis (no_types, opaque_lifting) append.assoc append_Cons append_Nil)
  qed
qed

lemma sizes_of_power: "sizes_of h (2 ^ i) = [2 * 2 ^ (h + i) - 1]"
proof (induction i arbitrary: h)
  case 0
  then show ?case by (simp add: sizes_of_odd [of "Suc 0"])
next
  case (Suc i)
  then show ?case by (subst sizes_of_even) simp_all
qed

lemma subproof_spath:
  assumes "holds store 0 ys" "0 < m" "m \<le> length ys" "length ys < 2 ^ 32"
  shows "subproof store (of_nat m) (of_nat (length ys)) True = Some (rev (spath m ys True))"
proof -
  obtain n b d hs where l: "subproof_loop store (of_nat m) (of_nat (length ys)) True (of_nat 0) [] = Some (of_nat n, b, of_nat d, [] @ hs)"
    "if b then spath m ys True = hs else \<exists>zs i. n = length zs \<and> length zs = 2 ^ i \<and> length zs < 2 ^ 32 \<and>
      holds store d zs \<and> spath m ys True = hs @ [mth zs]"
    using subproof_loop_spec [OF assms, of True "[]"] by blast
  show ?thesis
  proof (cases b)
    case True
    with l show ?thesis by (simp add: subproof_def)
  next
    case False
    with l(2) obtain zs i where z: "n = length zs" "length zs = 2 ^ i" "length zs < 2 ^ 32" "holds store d zs"
      "spath m ys True = hs @ [mth zs]" by auto
    have p: "getSubTreePos (of_nat n) = [of_nat (2 * 2 ^ i - 1)]"
      using subtree_sizes(2) [OF z(3)] sizes_of_power [of 0 i] z(1,2) by simp
    have "GetHash store (of_nat (2 * 2 ^ i - 1) + of_nat d - 1) = Some (mth zs, False)"
      using complete_root_holds [OF z(4,2)] by (simp only: of_nat_add add.commute)
    with l(1) False p z(5) show ?thesis by (simp add: subproof_def)
  qed
qed

lemma VerifyConsistency_spath:
  assumes "0 < m" "m < length ys" "length ys < 2 ^ 32"
  shows "VerifyConsistency (of_nat m) (of_nat (length ys)) (mth (take m ys)) (mth ys) (rev (spath m ys True)) = Inr ()"
proof -
  let ?n = "length ys"
  obtain t q where m: "m = 2 ^ t * q" "odd q" using odd_part [OF assms(1)] by blast
  have q0: "0 < q" using m(2) by (rule odd_pos)
  define h where "h = first_node t q ys"
  define sd where "sd = sides (q - 1) ((?n - 1) div 2 ^ t)"
  have "leads m t q ys True" by (rule spath_leads [OF m]) (use assms(2) in simp_all)
  then obtain P where P: "rev (spath m ys True) = (if q = 1 then P else h # P)" "length P = length sd"
    "climb h (zip sd P) = mth ys" "climb h (left_steps (zip sd P)) = mth (take m ys)"
    by (auto simp: leads_def Let_def h_def sd_def)
  have le: "q - 1 \<le> (?n - 1) div 2 ^ t"
  proof -
    have "2 ^ t * (q - 1) \<le> ?n - 1" using m(1) q0 assms(2) by (cases q) (auto simp: algebra_simps)
    then have "2 ^ t * (q - 1) div 2 ^ t \<le> (?n - 1) div 2 ^ t" by (rule div_le_mono)
    then show ?thesis by simp
  qed
  have ne: "q = 1 \<Longrightarrow> P \<noteq> []"
  proof -
    assume "q = 1"
    then have "2 ^ t \<le> ?n - 1" using m(1) assms(2) by simp
    then have "0 < (?n - 1) div 2 ^ t" by (simp add: div_greater_zero_iff)
    with sides_some [OF this le] P(2) show "P \<noteq> []" by (auto simp: sd_def)
  qed
  have up: "up_loop (m - 1) (?n - 1) = (q - 1, (?n - 1) div 2 ^ t)" unfolding m(1) by (rule up_loop_odd [OF m(2)])
  have "0 < ?n" using assms(1,2) by linarith
  then have w: "unat (of_nat m - 1 :: uint32) = m - 1" "unat (of_nat ?n - 1 :: uint32) = ?n - 1"
    "\<not> (of_nat ?n :: uint32) < of_nat m" "(of_nat m :: uint32) \<noteq> 0"
    using assms unat_of_nat32 [of m] unat_of_nat_pred [of m] unat_of_nat_pred [of ?n] of_nat_less32 [of ?n m] by auto
  obtain l n p where loops: "both_loop (q - 1) ((?n - 1) div 2 ^ t) h h P = Inr (l, mth (take m ys), n, p)"
    "new_loop l n p = Inr (mth ys, [])"
    using both_loop_climb [OF le, of P h h] P(2-4) unfolding sd_def [symmetric] by metis
  have h1: "q = 1 \<Longrightarrow> h = mth (take m ys)" using m(1) by (simp add: h_def first_node_def)
  show ?thesis
  proof (cases "q = 1")
    case True
    with ne obtain p' ps where "P = p' # ps" by (cases P) auto
    with True P(1) loops h1 up show ?thesis by (simp add: VerifyConsistency_def w)
  next
    case False
    then have "q - 1 \<noteq> 0" using q0 by simp
    with False P(1) loops up show ?thesis by (simp add: VerifyConsistency_def w)
  qed
qed

text \<open>
  C22 (functional): the consistency proof a tree gives out between two of its sizes is accepted with the roots the
  tree had at these sizes, so an auditor who follows a growing tree never rejects an honest one.
\<close>

theorem consistency_proof_accepted:
  assumes "NewTree 0 [] (Some s0) = Inr t0" "store_ok s0" "stored_hashes s0 = []" "append_all leaves t0 = Some t"
    and "0 < m" "m \<le> n" "n \<le> length leaves" "length leaves \<le> 2 ^ 31"
  shows "\<exists>prf old_root new_root. ConsistencyProof t (of_nat m) (of_nat n) = Some prf \<and>
    HashFullTree (take m leaves) = Inr old_root \<and> HashFullTree (take n leaves) = Inr new_root \<and>
    VerifyConsistency (of_nat m) (of_nat n) old_root new_root prf = Inr ()"
proof -
  let ?xs = "map hash_leaf leaves"
  let ?ys = "take n ?xs"
  have e: "\<forall>s. Some s0 = Some s \<longrightarrow> store_ok s \<and> stored_hashes s = []" using assms(2,3) by simp
  have t0: "tree_ok t0 []" "hashStore t0 = Some s0" using NewTree_empty [OF e] assms(1) by auto
  obtain store where t: "tree_ok t ?xs" "hashStore t = Some store"
    using append_all_ok [OF t0(1), of leaves] append_all_store [OF assms(4)] assms(4,8) t0(2) by fastforce
  have b: "m < 2 ^ 32" "n < 2 ^ 32" "length leaves < 2 ^ 32" "length ?ys = n" using assms(6-8) by simp_all
  have "holds store 0 ?ys" using tree_holds [OF t] assms(7,8) by simp
  then have "subproof store (of_nat m) (of_nat n) True = Some (rev (spath m ?ys True))"
    using subproof_spath [of store ?ys m] assms(5,6) b by simp
  moreover have "treeSize t = of_nat (length leaves)" using t(1) by (simp add: tree_ok_def)
  ultimately have c: "ConsistencyProof t (of_nat m) (of_nat n) = Some (rev (spath m ?ys True))"
    using t(2) assms(6,7) by (simp add: ConsistencyProof_def of_nat_less32 [OF b(2,1)] of_nat_less32 [OF b(3,2)])
  have "VerifyConsistency (of_nat m) (of_nat n) (mth (take m ?xs)) (mth ?ys) (rev (spath m ?ys True)) = Inr ()"
  proof (cases "m = n")
    case True
    then show ?thesis by (simp add: VerifyConsistency_def)
  next
    case False
    with assms(6) VerifyConsistency_spath [OF assms(5), of ?ys] b show ?thesis by (simp add: min_def)
  qed
  with c b show ?thesis by (simp add: HashFullTree_mth take_map)
qed

theorem consistency_proof_accepted_witness:
  "\<exists>t prf old_root new_root. ConsistencyProof t 3 5 = Some prf \<and> HashFullTree [[1], [2], [3]] = Inr old_root \<and>
    HashFullTree [[1], [2], [3], [4], [5]] = Inr new_root \<and> VerifyConsistency 3 5 old_root new_root prf = Inr ()"
proof -
  have e: "\<forall>s. Some (MemStore []) = Some s \<longrightarrow> store_ok s \<and> stored_hashes s = []" by simp
  obtain t0 where t0: "NewTree 0 [] (Some (MemStore [])) = Inr t0" "tree_ok t0 []" by (rule NewTree_empty [OF e])
  have "length [] + length [[1], [2], [3], [4], [5 :: byte]] < 2 ^ 32" by simp
  then obtain t where "append_all [[1], [2], [3], [4], [5]] t0 = Some t" by (rule append_all_ok [OF t0(2)])
  from consistency_proof_accepted [OF t0(1) _ _ this, of 3 5] show ?thesis by auto
qed

end
