(* ===== verification/Merkle_Path.thy ===== *)
theory Merkle_Path
  imports Merkle_Proofs
begin

text \<open>
  Serialized leaf paths: \<open>MerkleLeafPath\<close> and \<open>MerkleProve\<close> of \<open>merkle/merkle_hasher.go\<close>, with which another chain
  checks that a cross-chain state was in the states root of a block.
\<close>

section \<open>Building a path level by level\<close>

abbreviation MAX_SIZE :: nat where "MAX_SIZE \<equiv> 1024 * 1024"

abbreviation LEFT :: byte where "LEFT \<equiv> 0"
abbreviation RIGHT :: byte where "RIGHT \<equiv> 1"

text \<open>
  \<open>int(math.Ceil(math.Log2(float64(n))))\<close>, which is exact for the number of hashes that \<open>MAX_SIZE\<close> admits.
\<close>

definition depth :: "nat \<Rightarrow> nat" where
  "depth n = (if n \<le> 1 then 0 else bitlen (n - 1))"

text \<open>The index of the leaf, or \<open>None\<close> for the code's -1.\<close>

fun getIndex :: "uint256 \<Rightarrow> uint256 list \<Rightarrow> nat option" where
  "getIndex leaf [] = None"
| "getIndex leaf (v # vs) = (if v = leaf then Some 0 else map_option Suc (getIndex leaf vs))"

text \<open>One level from the one below: pairs are hashed, a last single hash moves up.\<close>

fun next_level :: "uint256 list \<Rightarrow> uint256 list" where
  "next_level (left # right # level) = HashChildren left right # next_level level"
| "next_level level = level"

primrec MerkleHashes :: "uint256 list \<Rightarrow> nat \<Rightarrow> uint256 list list" where
  "MerkleHashes preLeaves 0 = [preLeaves]"
| "MerkleHashes preLeaves (Suc d) = MerkleHashes (next_level preLeaves) d @ [preLeaves]"

text \<open>\<open>xs[i]\<close>, which panics out of range.\<close>

definition at :: "'a list \<Rightarrow> nat \<Rightarrow> 'a option" where
  "at xs i = (if i < length xs then Some (xs ! i) else None)"

primrec path_loop :: "uint256 list list \<Rightarrow> nat \<Rightarrow> nat \<Rightarrow> (byte \<times> uint256) list option" where
  "path_loop merkleTree 0 index = Some []"
| "path_loop merkleTree (Suc i) index =
     do { subTree \<leftarrow> at merkleTree (Suc i);
          let nIndex = index div 2;
          if index + 1 = length subTree \<and> length subTree mod 2 \<noteq> 0 then path_loop merkleTree i nIndex
          else if index mod 2 \<noteq> 0
          then do { h \<leftarrow> at subTree (index - 1); rest \<leftarrow> path_loop merkleTree i nIndex; Some ((LEFT, h) # rest) }
          else do { h \<leftarrow> at subTree (index + 1); rest \<leftarrow> path_loop merkleTree i nIndex; Some ((RIGHT, h) # rest) } }"

definition step_bytes :: "byte \<times> uint256 \<Rightarrow> bytes" where
  "step_bytes s = fst s # snd s"

definition MerkleLeafPath :: "bytes \<Rightarrow> uint256 list \<Rightarrow> string + bytes" where
  "MerkleLeafPath data leafHashes =
     (if length leafHashes * (UINT256_SIZE + 1) + length data + 8 > MAX_SIZE then Inl ''data length over max value''
      else case getIndex (HashLeaf data) leafHashes of
        None \<Rightarrow> Inl ''values doesn't exist!''
      | Some index \<Rightarrow>
          let d = depth (length leafHashes); merkleTree = MerkleHashes leafHashes d in
          ebind (orelse_err (path_loop merkleTree d index) ''panic: index out of range'') (\<lambda>steps.
          Inr (enc_varbytes data @ concat (map step_bytes steps))))"

section \<open>Checking a path\<close>

primrec prove_loop :: "nat \<Rightarrow> uint256 \<Rightarrow> ZeroCopySource \<Rightarrow> string + uint256" where
  "prove_loop 0 hash source = Inr hash"
| "prove_loop (Suc n) hash source =
     ebind (orelse_err (ok_read NextByte source) ''read byte error'') (\<lambda>(f, source).
     ebind (orelse_err (ok_read NextHash source) ''read hash error'') (\<lambda>(v, source).
     prove_loop n (if f = LEFT then HashChildren v hash else HashChildren hash v) source))"

definition MerkleProve :: "bytes \<Rightarrow> bytes \<Rightarrow> string + bytes" where
  "MerkleProve path root =
     ebind (orelse_err (ok_read NextVarBytes (NewZeroCopySource path)) ''read bytes error'') (\<lambda>(value, source).
     let size = unat ((Source_Size source - Source_Pos source) div (of_nat UINT256_SIZE + 1)) in
     ebind (prove_loop size (HashLeaf value) source) (\<lambda>hash.
     if hash \<noteq> root then Inl ''expect root is not equal actual root'' else Inr value))"

section \<open>Levels and the tree hash\<close>

lemma next_level_append: "even (length xs) \<Longrightarrow> next_level (xs @ ys) = next_level xs @ next_level ys"
  by (induction xs rule: next_level.induct) auto

lemma length_next_level: "length (next_level xs) = (length xs + 1) div 2"
  by (induction xs rule: next_level.induct) auto

lemma mth_next_level: "mth (next_level xs) = mth xs"
proof (induction xs rule: tree_induct)
  case (Node l r j)
  have m: "mth (l @ r) = hash_children (mth l) (mth r)" by (rule mth_append [OF Node(1-3)])
  show ?case
  proof (cases j)
    case 0
    with Node(1) obtain a where a: "l = [a]" by (cases l) auto
    from 0 Node(2,3) obtain b where "r = [b]" by (cases r) auto
    with a m show ?thesis by (simp add: HashChildren_def hash_children_def)
  next
    case (Suc i)
    then have "length (next_level l) = 2 ^ i" "length (next_level r) \<le> 2 ^ i"
      using Node(1,3) by (simp_all add: length_next_level)
    moreover have "next_level r \<noteq> []" using Node(2) by (cases r rule: next_level.cases) simp_all
    ultimately have "mth (next_level l @ next_level r) = hash_children (mth (next_level l)) (mth (next_level r))"
      by (intro mth_append)
    with Node.IH m Node(1) Suc show ?thesis by (simp add: next_level_append)
  qed
qed simp_all

lemma next_level_nth:
  "i < length xs \<Longrightarrow> next_level xs ! (i div 2) =
    (if i + 1 = length xs \<and> length xs mod 2 \<noteq> 0 then xs ! i
     else if i mod 2 \<noteq> 0 then HashChildren (xs ! (i - 1)) (xs ! i) else HashChildren (xs ! i) (xs ! (i + 1)))"
proof (induction xs arbitrary: i rule: next_level.induct)
  case (1 a b xs)
  show ?case
  proof (cases "i < 2")
    case True
    then have "i = 0 \<or> i = 1" by auto
    with 1(2) show ?thesis by auto
  next
    case False
    then obtain k where k: "i = Suc (Suc k)" by (metis add_2_eq_Suc le_add_diff_inverse not_less)
    with 1(2) have "k < length xs" by simp
    note ih = 1(1) [OF this]
    have e: "i div 2 = Suc (k div 2)" "i mod 2 = k mod 2" "i + 1 = length (a # b # xs) \<longleftrightarrow> k + 1 = length xs"
      "length (a # b # xs) mod 2 = length xs mod 2" by (simp_all add: k)
    have f: "k mod 2 \<noteq> 0 \<Longrightarrow> (a # b # xs) ! (i - 1) = xs ! (k - 1)" "(a # b # xs) ! i = xs ! k"
      "(a # b # xs) ! (i + 1) = xs ! (k + 1)" by (cases k; simp add: k)+
    show ?thesis unfolding e next_level.simps nth_Cons_Suc ih 
      by (intro if_cong refl arg_cong2 [where f = HashChildren]) (assumption | rule f [symmetric])+
  qed
qed auto

lemma length_MerkleHashes: "length (MerkleHashes xs d) = Suc d"
  by (induction d arbitrary: xs) simp_all

lemma path_loop_butlast: "i < length ls \<Longrightarrow> path_loop (ls @ ms) i index = path_loop ls i index"
  by (induction i arbitrary: index) (simp_all add: at_def nth_append Let_def)

lemma hash_size_next_level: "hash_size xs \<Longrightarrow> hash_size (next_level xs)"
  by (induction xs rule: next_level.induct) (simp_all add: HashChildren_def size_defs)

lemma path_loop_climb:
  assumes "index < length xs" "length xs \<le> 2 ^ d" "hash_size xs"
  obtains steps where "path_loop (MerkleHashes xs d) d index = Some steps" "climb (xs ! index) steps = mth xs"
    "hash_size (map snd steps)" "length steps \<le> d"
  using assms
proof (induction d arbitrary: xs index thesis)
  case 0
  then have "length xs = 1" by (cases xs) simp_all
  then obtain x where "xs = [x]" by (cases xs) auto
  with 0 show ?case by simp
next
  case (Suc d)
  have "index div 2 < length (next_level xs)" "length (next_level xs) \<le> 2 ^ d" "hash_size (next_level xs)"
    using Suc.prems(2-4) by (auto simp: length_next_level hash_size_next_level)
  then obtain steps where s: "path_loop (MerkleHashes (next_level xs) d) d (index div 2) = Some steps"
    "climb (next_level xs ! (index div 2)) steps = mth xs" "hash_size (map snd steps)" "length steps \<le> d"
    using Suc.IH by (metis mth_next_level)
  have l: "path_loop (MerkleHashes xs (Suc d)) d (index div 2) = Some steps" "at (MerkleHashes xs (Suc d)) (Suc d) = Some xs"
    using s(1) by (simp_all add: path_loop_butlast length_MerkleHashes at_def nth_append)
  note n = next_level_nth [OF Suc.prems(2)]
  consider (single) "index + 1 = length xs \<and> length xs mod 2 \<noteq> 0"
    | (right) "\<not> (index + 1 = length xs \<and> length xs mod 2 \<noteq> 0)" "index mod 2 \<noteq> 0"
    | (left) "\<not> (index + 1 = length xs \<and> length xs mod 2 \<noteq> 0)" "index mod 2 = 0" by blast
  then show ?case
  proof cases
    case single
    then have "path_loop (MerkleHashes xs (Suc d)) (Suc d) index = Some steps"
      using l by (simp add: Let_def del: MerkleHashes.simps)
    moreover have "climb (xs ! index) steps = mth xs" using s(2) unfolding n if_P [OF single] .
    ultimately show ?thesis using s(3,4) by (intro Suc.prems(1) [of steps]) simp_all
  next
    case right
    have a: "at xs (index - 1) = Some (xs ! (index - 1))" "length (xs ! (index - 1)) = UINT256_SIZE"
      using Suc.prems(2,4) by (simp_all add: at_def)
    have "path_loop (MerkleHashes xs (Suc d)) (Suc d) index = Some ((LEFT, xs ! (index - 1)) # steps)"
      using l right a by (simp add: Let_def del: MerkleHashes.simps)
    moreover have "climb (HashChildren (xs ! (index - 1)) (xs ! index)) steps = mth xs"
      using s(2) unfolding n if_not_P [OF right(1)] if_P [OF right(2)] .
    ultimately show ?thesis using s(3,4) a(2)
      by (intro Suc.prems(1) [of "(LEFT, xs ! (index - 1)) # steps"]) (simp_all add: step_input_def HashChildren_def)
  next
    case left
    have i: "index + 1 < length xs" using left Suc.prems(2) by presburger
    then have a: "at xs (index + 1) = Some (xs ! (index + 1))" "length (xs ! (index + 1)) = UINT256_SIZE"
      using Suc.prems(4) by (simp_all add: at_def)
    have "path_loop (MerkleHashes xs (Suc d)) (Suc d) index = Some ((RIGHT, xs ! (index + 1)) # steps)"
      using l left a i by (simp add: Let_def del: MerkleHashes.simps)
    moreover have "climb (HashChildren (xs ! index) (xs ! (index + 1))) steps = mth xs"
      using s(2) left(2) unfolding n if_not_P [OF left(1)] by simp
    ultimately show ?thesis using s(3,4) a(2)
      by (intro Suc.prems(1) [of "(RIGHT, xs ! (index + 1)) # steps"]) (simp_all add: step_input_def HashChildren_def)
  qed
qed

section \<open>Reading a path\<close>

definition read_step :: "ZeroCopySource \<Rightarrow> ((byte \<times> uint256) \<times> ZeroCopySource) option" where
  "read_step src =
     do { (f, src) \<leftarrow> ok_read NextByte src;
          (v, src) \<leftarrow> ok_read NextHash src;
          Some ((f, v), src) }"

interpretation rd_step: codec step_bytes read_step "\<lambda>s. length (snd s) = UINT256_SIZE"
proof
  show "rd_local read_step" unfolding read_step_def [abs_def] by (intro rd_rules rd_hash.local_read)
  show "length (snd x) = UINT256_SIZE \<Longrightarrow> fits (pre @ step_bytes x @ rest) \<Longrightarrow>
      read_step (src_at pre (step_bytes x @ rest)) = Some (x, src_at (pre @ step_bytes x) rest)" for x pre rest
    using rd_hash.roundtrip [of "snd x" "pre @ [fst x]" rest] by (simp add: read_step_def step_bytes_def codec_simps)
qed

text \<open>The value and the siblings that a serialized path holds.\<close>

definition path_steps :: "bytes \<Rightarrow> (bytes \<times> (byte \<times> uint256) list) option" where
  "path_steps path =
     do { (value, src) \<leftarrow> ok_read NextVarBytes (NewZeroCopySource path);
          (steps, _) \<leftarrow> read_list read_step (unat ((Source_Size src - Source_Pos src) div (of_nat UINT256_SIZE + 1))) src;
          Some (value, steps) }"

lemma prove_loop_iff:
  "prove_loop n h src = Inr r \<longleftrightarrow> (\<exists>steps s. read_list read_step n src = Some (steps, s) \<and> r = climb h steps)"
proof (induction n arbitrary: h src)
  case (Suc n)
  show ?case
  proof (cases "read_step src")
    case None
    then show ?thesis by (auto simp: read_step_def ebind_eq_Inr bind_eq_Some_conv)
  next
    case (Some x)
    obtain f v src' where x: "x = ((f, v), src')" by (metis prod.exhaust)
    with Some have "prove_loop (Suc n) h src = prove_loop n (sha256 (step_input h (f, v))) src'"
      by (auto simp: read_step_def bind_eq_Some_conv step_input_def HashChildren_def)
    with Suc Some x show ?thesis by (auto simp: bind_eq_Some_conv)
  qed
qed auto

lemma MerkleProve_iff:
  "MerkleProve path root = Inr value \<longleftrightarrow> (\<exists>steps. path_steps path = Some (value, steps) \<and> root = climb (HashLeaf value) steps)"
  by (auto simp: MerkleProve_def path_steps_def Let_def ebind_eq_Inr prove_loop_iff bind_eq_Some_conv split: if_splits)

lemma path_steps_bytes:
  assumes "hash_size (map snd steps)" "fits (enc_varbytes data @ concat (map step_bytes steps))" "fits data"
  shows "path_steps (enc_varbytes data @ concat (map step_bytes steps)) = Some (data, steps)"
proof -
  let ?s = "concat (map step_bytes steps)"
  have l: "length ?s = length steps * 33"
    using assms(1) by (induction steps) (simp_all add: step_bytes_def size_defs)
  have v: "ok_read NextVarBytes (NewZeroCopySource (enc_varbytes data @ ?s)) = Some (data, src_at (enc_varbytes data) ?s)"
    using rd_varbytes.roundtrip [of data "[]" ?s] assms(2,3) by (simp add: NewZeroCopySource_at)
  have "Source_Size (src_at (enc_varbytes data) ?s) - Source_Pos (src_at (enc_varbytes data) ?s) = of_nat (length steps * 33)"
    by (simp add: Source_Size_def Source_Pos_def src_at_def l)
  moreover have "length steps * 33 < 2 ^ 63" using assms(2) l by simp
  then have "unat (of_nat (length steps * 33) div 33 :: uint64) = length steps"
    by (simp only: unat_div unat_of_nat) (simp add: take_bit_nat_eq_self)
  ultimately have n: "unat ((Source_Size (src_at (enc_varbytes data) ?s) - Source_Pos (src_at (enc_varbytes data) ?s))
      div (of_nat UINT256_SIZE + 1)) = length steps" by (simp only: size_defs) simp
  have "read_list read_step (length steps) (src_at (enc_varbytes data) (?s @ []))
      = Some (steps, src_at (enc_varbytes data @ ?s) [])"
    by (rule rd_step.list_roundtrip) (use assms in auto)
  with v n show ?thesis by (simp add: path_steps_def)
qed

lemma NextHash_reads:
  assumes "fits (pre @ rest)" "ok_read NextHash (src_at pre rest) = Some (v, s)"
  shows "length v = UINT256_SIZE"
proof -
  have r: "ok_read (NextBytes 32) (src_at pre rest) = Some (v, s)" using assms(2) by (simp add: ok_read_array_eq)
  then have n: "32 \<le> length rest"
    using NextBytes_short [OF assms(1), of 32] by (fastforce simp: ok_read_def not_less [symmetric])
  have "ok_read (NextBytes 32) (src_at pre (take 32 rest @ drop 32 rest)) = Some (take 32 rest, src_at (pre @ take 32 rest) (drop 32 rest))"
    using NextBytes_ok [of pre "take 32 rest" "drop 32 rest" 32] assms(1) n by (simp add: ok_read_def)
  with r n show ?thesis by (simp add: size_defs)
qed

lemma read_steps_size:
  "fits (pre @ rest) \<Longrightarrow> read_list read_step n (src_at pre rest) = Some (steps, s) \<Longrightarrow> hash_size (map snd steps)"
proof (induction n arbitrary: pre rest steps)
  case (Suc n)
  from Suc.prems(2) obtain x s1 xs where x: "read_step (src_at pre rest) = Some (x, s1)"
    "read_list read_step n s1 = Some (xs, s)" "steps = x # xs" by (auto simp: bind_eq_Some_conv)
  obtain f v s0 where f: "ok_read NextByte (src_at pre rest) = Some (f, s0)" "ok_read NextHash s0 = Some (v, s1)" "x = (f, v)"
    using x(1) by (auto simp: read_step_def bind_eq_Some_conv)
  obtain ys zs where y: "rest = ys @ zs" "s0 = src_at (pre @ ys) zs"
    using rd_local_NextByte [unfolded rd_local_def] Suc.prems(1) f(1) by blast
  then have "length v = UINT256_SIZE" using NextHash_reads [of "pre @ ys" zs v s1] Suc.prems(1) f(2) by simp
  moreover obtain ys' zs' where "rest = ys' @ zs'" "s1 = src_at (pre @ ys') zs'"
    using rd_step.local_read [unfolded rd_local_def] Suc.prems(1) x(1) by blast
  then have "hash_size (map snd xs)" using Suc.IH [of "pre @ ys'" zs' xs] Suc.prems(1) x(2) by simp
  ultimately show ?case by (simp add: x(3) f(3))
qed simp

lemma path_steps_size:
  assumes "fits path" "path_steps path = Some (value, steps)"
  shows "hash_size (map snd steps)"
proof -
  from assms(2) obtain src n s where r: "ok_read NextVarBytes (src_at [] path) = Some (value, src)"
    "read_list read_step n src = Some (steps, s)"
    by (auto simp: path_steps_def bind_eq_Some_conv NewZeroCopySource_at)
  obtain ys zs where "path = ys @ zs" "src = src_at ([] @ ys) zs"
    using rd_varbytes.local_read [unfolded rd_local_def, rule_format, of "[]" path "value" src] assms(1) r(1) by auto
  with read_steps_size [of ys zs n steps s] assms(1) r(2) show ?thesis by simp
qed

section \<open>Where a path can lead\<close>

lemma leaf_inputs_mono:
  assumes "length l = 2 ^ j" "r \<noteq> []" "length r \<le> 2 ^ j"
  shows "set (leaf_tree_inputs l) \<subseteq> set (leaf_tree_inputs (l @ r))" "set (leaf_tree_inputs r) \<subseteq> set (leaf_tree_inputs (l @ r))"
    "1 # mth (map hash_leaf l) @ mth (map hash_leaf r) \<in> set (leaf_tree_inputs (l @ r))"
  using tree_inputs_node [of "map hash_leaf l" j "map hash_leaf r"] assms by (auto simp: leaf_tree_inputs_def)

lemma collision_or: "a \<in> set as \<Longrightarrow> b \<in> set bs \<Longrightarrow> sha256 a = sha256 b \<Longrightarrow> a = b \<or> collision as bs"
  by (auto simp: collision_def)

lemma mth_root_input:
  obtains b where "b \<in> set (leaf_tree_inputs ls)" "mth (map hash_leaf ls) = sha256 b"
    "b = [] \<or> (\<exists>x. ls = [x] \<and> b = 0 # x) \<or>
     (\<exists>l r j. ls = l @ r \<and> length l = 2 ^ j \<and> r \<noteq> [] \<and> length r \<le> 2 ^ j \<and> b = 1 # mth (map hash_leaf l) @ mth (map hash_leaf r))"
proof (cases rule: tree_cases [of ls])
  case 1
  then show ?thesis by (intro that [of "[]"]) (simp_all add: leaf_tree_inputs_def tree_inputs.simps hash_empty_def)
next
  case (2 x)
  then show ?thesis by (intro that [of "0 # x"]) (simp_all add: leaf_tree_inputs_def hash_leaf_def)
next
  case (3 l r j)
  have "mth (map hash_leaf l @ map hash_leaf r) = hash_children (mth (map hash_leaf l)) (mth (map hash_leaf r))"
    by (rule mth_append [of _ j]) (use 3 in simp_all)
  with 3 leaf_inputs_mono(3) [OF 3(2-4)] show ?thesis
    by (intro that [of "1 # mth (map hash_leaf l) @ mth (map hash_leaf r)"]) (auto simp: hash_children_def)
qed

lemma climb_leaf:
  "climb (HashLeaf value) ss = mth (map hash_leaf ls) \<Longrightarrow> hash_size (map snd ss) \<Longrightarrow>
    value \<in> set ls \<or> collision ((0 # value) # climb_inputs (HashLeaf value) ss) (leaf_tree_inputs ls)"
proof (induction ss arbitrary: ls rule: rev_induct)
  case Nil
  obtain b where b: "b \<in> set (leaf_tree_inputs ls)" "mth (map hash_leaf ls) = sha256 b"
    "b = [] \<or> (\<exists>x. ls = [x] \<and> b = 0 # x) \<or>
     (\<exists>l r j. ls = l @ r \<and> length l = 2 ^ j \<and> r \<noteq> [] \<and> length r \<le> 2 ^ j \<and> b = 1 # mth (map hash_leaf l) @ mth (map hash_leaf r))"
    by (rule mth_root_input)
  have "0 # value = b \<or> collision [0 # value] (leaf_tree_inputs ls)"
    by (rule collision_or [OF _ b(1)]) (use Nil.prems(1) b(2) in \<open>simp_all add: HashLeaf_def\<close>)
  with b(3) show ?case by auto
next
  case (snoc s ss)
  let ?h = "climb (HashLeaf value) ss" and ?as = "(0 # value) # climb_inputs (HashLeaf value) (ss @ [s])"
  obtain b where b: "b \<in> set (leaf_tree_inputs ls)" "mth (map hash_leaf ls) = sha256 b"
    "b = [] \<or> (\<exists>x. ls = [x] \<and> b = 0 # x) \<or>
     (\<exists>l r j. ls = l @ r \<and> length l = 2 ^ j \<and> r \<noteq> [] \<and> length r \<le> 2 ^ j \<and> b = 1 # mth (map hash_leaf l) @ mth (map hash_leaf r))"
    by (rule mth_root_input)
  have sub: "set ((0 # value) # climb_inputs (HashLeaf value) ss) \<subseteq> set ?as" by (auto simp: climb_inputs_snoc)
  have "step_input ?h s = b \<or> collision ?as (leaf_tree_inputs ls)"
    by (rule collision_or [OF _ b(1)]) (use snoc.prems(1) b(2) in \<open>simp_all add: climb_inputs_snoc climb_snoc\<close>)
  then consider "collision ?as (leaf_tree_inputs ls)"
    | l r j where "ls = l @ r" "length l = 2 ^ j" "r \<noteq> []" "length r \<le> 2 ^ j"
      "step_input ?h s = 1 # mth (map hash_leaf l) @ mth (map hash_leaf r)"
    using b(3) by (auto simp: step_input_def)
  then show ?case
  proof cases
    case (2 l r j)
    note mono = leaf_inputs_mono [OF 2(2-4)]
    have len: "length ?h = UINT256_SIZE" "length (mth (map hash_leaf l)) = UINT256_SIZE" "length (snd s) = UINT256_SIZE"
      using snoc.prems(2) length_climb [of "HashLeaf value" ss]
      by (simp_all add: HashLeaf_def hash_size_mth hash_leaf_size) (simp add: size_defs)
    have hs: "hash_size (map snd ss)" using snoc.prems(2) by simp
    have "?h = mth (map hash_leaf r) \<or> ?h = mth (map hash_leaf l)"
      using 2(5) len by (auto simp: step_input_def split: if_splits)
    then show ?thesis
      using snoc.IH [OF _ hs, of r] snoc.IH [OF _ hs, of l] 2(1) collision_mono [OF _ sub mono(1)] collision_mono [OF _ sub mono(2)]
      by auto
  qed blast
qed

section \<open>Properties\<close>

lemma getIndex_Some: "leaf \<in> set hs \<Longrightarrow> \<exists>i. getIndex leaf hs = Some i \<and> i < length hs \<and> hs ! i = leaf"
  by (induction hs) auto

lemma depth_bound: "n \<le> 2 ^ depth n"
  using bitlen_bounds [of "n - 1"] by (cases "n \<le> 1") (auto simp: depth_def)

lemma length_enc_varbytes_le: "length (enc_varbytes data) \<le> length data + 9"
  by (simp add: enc_varbytes_def enc_varuint_def enc_uint8_def)

text \<open>
  C24 (roundtrip): for every set of cross-chain hashes within the size limit, the path built for one of the hashed
  values proves that value against the root of the hashes, which the recursive tree hash computes.
\<close>

theorem leaf_path_proves:
  assumes "hash_size hs" "HashLeaf data \<in> set hs" "length hs * (UINT256_SIZE + 1) + length data + 8 \<le> MAX_SIZE"
  shows "\<exists>path root. MerkleLeafPath data hs = Inr path \<and> HashFullTreeWithLeafHash hs = Inr root \<and>
    MerkleProve path root = Inr data"
proof -
  obtain i where i: "getIndex (HashLeaf data) hs = Some i" "i < length hs" "hs ! i = HashLeaf data"
    using getIndex_Some [OF assms(2)] by blast
  obtain steps where s: "path_loop (MerkleHashes hs (depth (length hs))) (depth (length hs)) i = Some steps"
    "climb (hs ! i) steps = mth hs" "hash_size (map snd steps)" "length steps \<le> depth (length hs)"
    by (rule path_loop_climb [OF i(2) depth_bound assms(1)])
  let ?p = "enc_varbytes data @ concat (map step_bytes steps)"
  have p: "MerkleLeafPath data hs = Inr ?p" using i(1) s(1) assms(3) by (simp add: MerkleLeafPath_def Let_def)
  have b: "length hs \<le> 2 ^ 20" "length data \<le> 2 ^ 20" using assms(3) by (simp_all add: size_defs)
  have "depth n \<le> n" for n
  proof (cases "n \<le> 1")
    case False
    have "n - 1 < 2 ^ (n - 1)" by (rule less_exp)
    moreover have "2 ^ (bitlen (n - 1) - 1) \<le> n - 1" using bitlen_bounds [of "n - 1"] False by simp
    ultimately have "(2 :: nat) ^ (bitlen (n - 1) - 1) < 2 ^ (n - 1)" by linarith
    then have "bitlen (n - 1) - 1 < n - 1" by (rule power_less_imp_less_exp [rotated]) simp
    then have "bitlen (n - 1) \<le> n" by linarith
    with False show ?thesis by (simp add: depth_def)
  qed (simp add: depth_def)
  from this [of "length hs"] s(4) b(1) have "length steps \<le> 2 ^ 20" by linarith
  moreover have "length (concat (map step_bytes steps)) = length steps * 33"
    using s(3) by (induction steps) (simp_all add: step_bytes_def size_defs)
  ultimately have "fits ?p" "fits data" using length_enc_varbytes_le [of data] b(2) by simp_all
  from path_steps_bytes [OF s(3) this] have "MerkleProve ?p (mth hs) = Inr data"
    unfolding MerkleProve_iff using s(2) i(3) by auto
  moreover have "HashFullTreeWithLeafHash hs = Inr (mth hs)" using b(1) by (simp add: HashFullTreeWithLeafHash_mth)
  ultimately show ?thesis using p by blast
qed

theorem leaf_path_proves_witness:
  "\<exists>path root. MerkleLeafPath [7] [HashLeaf [5], HashLeaf [7], HashLeaf [9]] = Inr path \<and>
    HashFullTreeWithLeafHash [HashLeaf [5], HashLeaf [7], HashLeaf [9]] = Inr root \<and> MerkleProve path root = Inr [7]"
  by (rule leaf_path_proves) (simp_all add: HashLeaf_def size_defs)

text \<open>
  C23 (safety): a value that a path proves against the root of some leaves is one of the leaves, unless two
  different strings among those hashed by the check and those hashed to build the tree have the same SHA-256 hash.
  The length of the path and the sides in it are not checked against the tree, and need not be.
\<close>

theorem merkle_prove_sound:
  assumes "HashFullTree leaves = Inr root" "length leaves < 2 ^ 32" "MerkleProve path root = Inr data" "fits path"
  shows "\<exists>steps. path_steps path = Some (data, steps) \<and>
    (data \<in> set leaves \<or> collision ((0 # data) # climb_inputs (HashLeaf data) steps) (leaf_tree_inputs leaves))"
proof -
  from assms(3) obtain steps where s: "path_steps path = Some (data, steps)" "root = climb (HashLeaf data) steps"
    unfolding MerkleProve_iff by blast
  have "climb (HashLeaf data) steps = mth (map hash_leaf leaves)" using assms(1,2) s(2) by (simp add: HashFullTree_mth)
  from climb_leaf [OF this path_steps_size [OF assms(4) s(1)]] s(1) show ?thesis by blast
qed

theorem merkle_prove_sound_witness:
  "\<exists>path root steps. MerkleProve path root = Inr [7] \<and> path_steps path = Some ([7], steps) \<and>
    ([7] \<in> set [[7 :: byte]] \<or> collision ((0 # [7]) # climb_inputs (HashLeaf [7]) steps) (leaf_tree_inputs [[7]]))"
proof -
  have r: "HashFullTree [[7]] = Inr (hash_leaf [7])" by (simp add: HashFullTree_mth)
  have "path_steps (enc_varbytes [7]) = Some ([7], [])"
    using path_steps_bytes [of "[]" "[7]"] by (simp add: enc_varbytes_def enc_varuint_def enc_uint8_def)
  then have p: "MerkleProve (enc_varbytes [7]) (hash_leaf [7]) = Inr [7]"
    unfolding MerkleProve_iff by (simp add: HashLeaf_def hash_leaf_def)
  have "fits (enc_varbytes [7])" by (simp add: enc_varbytes_def enc_varuint_def enc_uint8_def)
  from merkle_prove_sound [OF r _ p this] obtain steps where "path_steps (enc_varbytes [7]) = Some ([7], steps)"
    "[7] \<in> set [[7 :: byte]] \<or> collision ((0 # [7]) # climb_inputs (HashLeaf [7]) steps) (leaf_tree_inputs [[7]])"
    by auto
  with p show ?thesis by blast
qed

text \<open>The path taken from the store of the compact tree proves a leaf in the same way.\<close>

lemma rpath_size: "hash_size ys \<Longrightarrow> hash_size (map snd (rpath m ys)) \<and> length (rpath m ys) \<le> length ys"
proof (induction ys arbitrary: m rule: tree_induct)
  case (Node l r j)
  have hs: "hash_size l" "hash_size r" using Node.prems by auto
  obtain a where "length r = Suc a" using Node(2) by (cases r) auto
  moreover obtain b where "length l = Suc b" using Node(1) by (cases l) auto
  ultimately show ?case using Node.IH(1) [OF hs(1), of m] Node.IH(2) [OF hs(2), of "m - 2 ^ j"] hs
    by (auto simp: rpath_node [OF Node(1-3)] hash_size_mth)
qed (simp_all add: rpath_leaf)

lemma inclusion_leaf_path_proves:
  assumes "tree_ok t xs" "hashStore t = Some store" "m < n" "n \<le> length xs" "length xs \<le> 2 ^ 31"
    and "xs ! m = HashLeaf data" "length data < 2 ^ 62"
  shows "\<exists>path. MerkleInclusionLeafPath t data (of_nat m) (of_nat n) = Inr path \<and> MerkleProve path (mth (take n xs)) = Inr data"
proof -
  let ?s = "rev (rpath m (take n xs))"
  let ?p = "enc_varbytes data @ concat (map step_bytes ?s)"
  have "(\<lambda>(p, h). p # h) = step_bytes" by (simp add: fun_eq_iff step_bytes_def)
  then have i: "MerkleInclusionLeafPath t data (of_nat m) (of_nat n) = Inr ?p"
    unfolding MerkleInclusionLeafPath_def inclusion_path_ok [OF assms(1-5)] ebind_Inr by (simp only:)
  have "hash_size (take n xs)" using assms(1) by (auto simp: tree_ok_def dest: in_set_takeD)
  note hs = rpath_size [OF this, of m]
  then have h: "hash_size (map snd ?s)" "length ?s \<le> 2 ^ 31" using assms(4,5) by simp_all
  have "length (concat (map step_bytes ss)) = length ss * 33" if "hash_size (map snd ss)" for ss
    using that by (induction ss) (simp_all add: step_bytes_def size_defs)
  from this [OF h(1)] h(2) have "length (concat (map step_bytes ?s)) \<le> 2 ^ 31 * 33" by linarith
  with length_enc_varbytes_le [of data] assms(7) have "length ?p < 2 ^ 62 + 9 + 2 ^ 31 * 33" unfolding length_append by linarith
  then have "fits ?p" "fits data" using assms(7) by simp_all
  note steps = path_steps_bytes [OF h(1) this]
  have "climb (HashLeaf data) ?s = mth (take n xs)"
    using climb_rpath [of m "take n xs"] assms(3,4,6) by simp
  with steps have "MerkleProve ?p (mth (take n xs)) = Inr data" unfolding MerkleProve_iff by (intro exI [of _ ?s] conjI) simp_all
  with i show ?thesis by (intro exI [of _ ?p] conjI)
qed

end
