(* ===== verification/Header_Sync.thy ===== *)
theory Header_Sync
  imports Side_Chain_Manager
begin

text \<open>
  The header synchronisation contract (\<open>native/service/header_sync/entrance.go\<close> and
  \<open>native/service/header_sync/common\<close>): its parameters with their wire formats, the events, and the three
  entry points, which hand a call to the handler of the side chain's router.
\<close>

section \<open>Parameters\<close>

record SyncGenesisHeaderParam =
  sg_ChainID :: uint64
  GenesisHeader :: bytes

definition SyncGenesisHeaderParam_Serialization :: "SyncGenesisHeaderParam \<Rightarrow> bytes" where
  "SyncGenesisHeaderParam_Serialization p = enc_uint64 (sg_ChainID p) @ enc_varbytes (GenesisHeader p)"

definition SyncGenesisHeaderParam_Deserialization :: "ZeroCopySource \<Rightarrow> (SyncGenesisHeaderParam \<times> ZeroCopySource) option" where
  "SyncGenesisHeaderParam_Deserialization src =
     do { (chain, src) \<leftarrow> ok_read NextUint64 src;
          (genesisHeader, src) \<leftarrow> ok_read NextVarBytes src;
          Some (\<lparr>sg_ChainID = chain, GenesisHeader = genesisHeader\<rparr>, src) }"

interpretation rd_genesis: codec SyncGenesisHeaderParam_Serialization SyncGenesisHeaderParam_Deserialization
  "\<lambda>p. fits (GenesisHeader p)"
  unfolding SyncGenesisHeaderParam_Deserialization_def [abs_def] SyncGenesisHeaderParam_Serialization_def
  by unfold_locales (simp add: codec_simps, intro rd_rules)

text \<open>\<open>SyncBlockHeaderParam\<close> and \<open>SyncCrossChainMsgParam\<close>: a chain, the caller and a list of byte strings.\<close>

record SyncBlockHeaderParam =
  sb_ChainID :: uint64
  sb_Address :: address
  Headers :: "bytes list"

definition SyncBlockHeaderParam_Serialization :: "SyncBlockHeaderParam \<Rightarrow> bytes" where
  "SyncBlockHeaderParam_Serialization p =
     enc_uint64 (sb_ChainID p) @ sb_Address p @ enc_uint64 (of_nat (length (Headers p)))
     @ concat (map enc_varbytes (Headers p))"

definition SyncBlockHeaderParam_Deserialization :: "ZeroCopySource \<Rightarrow> (SyncBlockHeaderParam \<times> ZeroCopySource) option" where
  "SyncBlockHeaderParam_Deserialization src =
     do { (chain, src) \<leftarrow> ok_read NextUint64 src;
          (address, src) \<leftarrow> ok_read NextAddress src;
          (n, src) \<leftarrow> ok_read NextUint64 src;
          (headers, src) \<leftarrow> read_list (ok_read NextVarBytes) (unat n) src;
          Some (\<lparr>sb_ChainID = chain, sb_Address = address, Headers = headers\<rparr>, src) }"

definition SyncBlockHeaderParam_wf :: "SyncBlockHeaderParam \<Rightarrow> bool" where
  "SyncBlockHeaderParam_wf p \<longleftrightarrow> length (sb_Address p) = ADDR_LEN \<and> list_all fits (Headers p) \<and> length (Headers p) < 2 ^ 62"

interpretation rd_headers: codec SyncBlockHeaderParam_Serialization SyncBlockHeaderParam_Deserialization
  SyncBlockHeaderParam_wf
proof
  fix x pre rest
  assume wf: "SyncBlockHeaderParam_wf x" and fit: "fits (pre @ SyncBlockHeaderParam_Serialization x @ rest)"
  have d: "\<forall>b \<in> set (Headers x). fits b" and l: "unat (of_nat (length (Headers x)) :: uint64) = length (Headers x)"
    using wf by (simp_all add: SyncBlockHeaderParam_wf_def list_all_iff unat_of_nat)
  show "SyncBlockHeaderParam_Deserialization (src_at pre (SyncBlockHeaderParam_Serialization x @ rest))
      = Some (x, src_at (pre @ SyncBlockHeaderParam_Serialization x) rest)"
    using fit wf rd_varbytes.list_roundtrip [OF d]
    by (simp add: SyncBlockHeaderParam_Deserialization_def SyncBlockHeaderParam_Serialization_def
        SyncBlockHeaderParam_wf_def codec_simps l)
next
  show "rd_local SyncBlockHeaderParam_Deserialization"
    unfolding SyncBlockHeaderParam_Deserialization_def [abs_def] by (intro rd_rules)
qed

record SyncCrossChainMsgParam =
  sm_ChainID :: uint64
  sm_Address :: address
  CrossChainMsgs :: "bytes list"

definition SyncCrossChainMsgParam_Serialization :: "SyncCrossChainMsgParam \<Rightarrow> bytes" where
  "SyncCrossChainMsgParam_Serialization p =
     enc_uint64 (sm_ChainID p) @ sm_Address p @ enc_uint64 (of_nat (length (CrossChainMsgs p)))
     @ concat (map enc_varbytes (CrossChainMsgs p))"

definition SyncCrossChainMsgParam_Deserialization :: "ZeroCopySource \<Rightarrow> (SyncCrossChainMsgParam \<times> ZeroCopySource) option" where
  "SyncCrossChainMsgParam_Deserialization src =
     do { (chain, src) \<leftarrow> ok_read NextUint64 src;
          (address, src) \<leftarrow> ok_read NextAddress src;
          (n, src) \<leftarrow> ok_read NextUint64 src;
          (crossChainMsgs, src) \<leftarrow> read_list (ok_read NextVarBytes) (unat n) src;
          Some (\<lparr>sm_ChainID = chain, sm_Address = address, CrossChainMsgs = crossChainMsgs\<rparr>, src) }"

section \<open>Events\<close>

definition NotifyPutHeader :: "NodeConfig \<Rightarrow> uint64 \<Rightarrow> uint64 \<Rightarrow> bytes \<Rightarrow> NativeService \<Rightarrow> NativeService" where
  "NotifyPutHeader cfg chain hgt hash ns =
     (if \<not> EnableEventLog cfg then ns
      else AddNotify \<lparr>ContractAddress = HeaderSyncContractAddress,
             States = [NStr (str ''syncHeader''), NNum (uint chain), NNum (uint hgt), NStr hash,
                       NNum (uint (height ns))]\<rparr> ns)"

definition NotifyPutCrossChainMsg :: "NodeConfig \<Rightarrow> uint64 \<Rightarrow> uint32 \<Rightarrow> NativeService \<Rightarrow> NativeService" where
  "NotifyPutCrossChainMsg cfg chain hgt ns =
     (if \<not> EnableEventLog cfg then ns
      else AddNotify \<lparr>ContractAddress = HeaderSyncContractAddress,
             States = [NStr (str ''syncCrossChainMsg''), NNum (uint chain), NNum (uint hgt),
                       NNum (uint (height ns))]\<rparr> ns)"

lemma notify_sync [store_simps]:
  "db_Get (NotifyPutHeader cfg c h b ns) k = db_Get ns k" "db_Get (NotifyPutCrossChainMsg cfg c g ns) k = db_Get ns k"
  by (simp_all add: NotifyPutHeader_def NotifyPutCrossChainMsg_def store_simps)

section \<open>The entry points\<close>

text \<open>\<open>HeaderSyncHandler\<close>: what each chain's light client provides.\<close>

type_synonym sync = "NativeService \<Rightarrow> err + NativeService"

record HeaderSyncHandler =
  hs_SyncGenesisHeader :: sync
  hs_SyncBlockHeader :: sync
  hs_SyncCrossChainMsg :: sync

text \<open>
  The routers \<open>GetChainHandler\<close> knows.  The argument \<open>handlers\<close> gives the light client of each of them.
\<close>

definition sync_routers :: "uint64 list" where
  "sync_routers =
     [BTC_ROUTER, ETH_ROUTER, ONT_ROUTER, NEO_ROUTER, NEO3_ROUTER, NEO3_LEGACY_ROUTER, COSMOS_ROUTER, QUORUM_ROUTER,
      BSC_ROUTER, HECO_ROUTER, ZILLIQA_LEGACY_ROUTER, ZILLIQA_ROUTER, MSC_ROUTER, OKEX_ROUTER, POLYGON_HEIMDALL_ROUTER,
      POLYGON_BOR_ROUTER, PIXIECHAIN_ROUTER, STARCOIN_ROUTER, HSC_ROUTER, HARMONY_ROUTER, BYTOM_ROUTER]"

definition sync_GetChainHandler :: "(uint64 \<Rightarrow> HeaderSyncHandler) \<Rightarrow> uint64 \<Rightarrow> err + HeaderSyncHandler" where
  "sync_GetChainHandler handlers router =
     (if router \<in> set sync_routers then Inr (handlers router) else Inl ''not a supported router'')"

text \<open>The part the three entry points share once the parameter has named the chain.\<close>

definition sync_call :: "(uint64 \<Rightarrow> HeaderSyncHandler) \<Rightarrow> NodeConfig \<Rightarrow> err \<Rightarrow> err \<Rightarrow> (HeaderSyncHandler \<Rightarrow> sync) \<Rightarrow> uint64 \<Rightarrow> handler" where
  "sync_call handlers cfg eget enone select chain ns =
     (case GetSideChain ns chain of
        Inl _ \<Rightarrow> Inl eget
      | Inr None \<Rightarrow> Inl enone
      | Inr (Some sideChain) \<Rightarrow>
          ebind (sync_GetChainHandler handlers (Router sideChain)) (\<lambda>hdl.
          ebind (CheckRouterStartBlock (NetworkId cfg) (Router sideChain) (height ns)) (\<lambda>_.
          ebind (select hdl ns) (\<lambda>ns. Inr (BYTE_TRUE, ns)))))"

definition SyncGenesisHeader :: "(uint64 \<Rightarrow> HeaderSyncHandler) \<Rightarrow> NodeConfig \<Rightarrow> handler" where
  "SyncGenesisHeader handlers cfg ns =
     ebind (parse_input SyncGenesisHeaderParam_Deserialization
         ''SyncGenesisHeader, contract params deserialize error'' ns) (\<lambda>params.
     sync_call handlers cfg ''SyncGenesisHeader, side_chain_manager.GetSideChain error''
       ''SyncGenesisHeader, side chain is not registered'' hs_SyncGenesisHeader (sg_ChainID params) ns)"

definition SyncBlockHeader :: "(uint64 \<Rightarrow> HeaderSyncHandler) \<Rightarrow> NodeConfig \<Rightarrow> handler" where
  "SyncBlockHeader handlers cfg ns =
     ebind (parse_input SyncBlockHeaderParam_Deserialization
         ''SyncBlockHeader, contract params deserialize error'' ns) (\<lambda>params.
     sync_call handlers cfg ''SyncBlockHeader, side_chain_manager.GetSideChain error''
       ''SyncBlockHeader, side chain is not registered'' hs_SyncBlockHeader (sb_ChainID params) ns)"

definition SyncCrossChainMsg :: "(uint64 \<Rightarrow> HeaderSyncHandler) \<Rightarrow> NodeConfig \<Rightarrow> handler" where
  "SyncCrossChainMsg handlers cfg ns =
     ebind (parse_input SyncCrossChainMsgParam_Deserialization
         ''SyncCrossChainMsg, contract params deserialize error'' ns) (\<lambda>params.
     sync_call handlers cfg ''SyncCrossChainMsg, side_chain_manager.GetSideChain error''
       ''SyncCrossChainMsg, side chain is not registered'' hs_SyncCrossChainMsg (sm_ChainID params) ns)"

definition RegisterHeaderSyncContract :: "(uint64 \<Rightarrow> HeaderSyncHandler) \<Rightarrow> NodeConfig \<Rightarrow> (bytes \<times> handler) list" where
  "RegisterHeaderSyncContract handlers cfg =
     [(str ''syncGenesisHeader'', SyncGenesisHeader handlers cfg), (str ''syncBlockHeader'', SyncBlockHeader handlers cfg),
      (str ''syncCrossChainMsg'', SyncCrossChainMsg handlers cfg)]"

end
