(* ===== verification/Ont_Sync.thy ===== *)
theory Ont_Sync
  imports Header_Sync
begin

text \<open>
  The light client of the ontology chain (\<open>native/service/header_sync/ont\<close>): stored headers, cross-chain
  messages, the consensus peers at each key height and the list of the key heights.  The ontology library
  (headers, messages, their wire formats and hashes, multi-signatures) and the JSON text of a header's payload
  are the fields of \<open>OntEnv\<close>.  The invariant \<open>ont_typed\<close> says that what is stored decodes, that the key
  heights are sorted downwards, and that each of them has its peers.
\<close>

section \<open>The ontology library\<close>

record CrossChainMsg =
  cm_Height :: uint32
  StatesRoot :: uint256
  SigData :: "bytes list"

record OntHeader =
  oh_Height :: uint32
  ConsensusPayload :: bytes
  Bookkeepers :: "pubkey list"
  oh_SigData :: "bytes list"

text \<open>\<open>consensus/vbft/config\<close>: the payload of a header.  The pointers may be nil.\<close>

record PeerConfig =
  pc_Index :: uint32
  pc_ID :: bytes

record ChainConfig =
  cc_Version :: uint32
  cc_View :: uint32
  cc_N :: uint32
  cc_C :: uint32
  cc_BlockMsgDelay :: int
  cc_HashMsgDelay :: int
  cc_PeerHandshakeTimeout :: int
  cc_Peers :: "PeerConfig option list"
  cc_PosTable :: "uint32 list"
  cc_MaxBlockChangeView :: uint32

record VbftBlockInfo =
  bi_Proposer :: uint32
  bi_VrfValue :: bytes
  bi_VrfProof :: bytes
  bi_LastConfigBlockNum :: uint32
  NewChainConfig :: "ChainConfig option"

record OntEnv =
  o_msg_Deserialization :: "bytes \<Rightarrow> (CrossChainMsg \<times> bytes) option"
  o_msg_Serialization :: "CrossChainMsg \<Rightarrow> bytes"
  o_msg_Hash :: "CrossChainMsg \<Rightarrow> bytes"
  o_NextVarUint :: "bytes \<Rightarrow> (uint64 \<times> bytes) option"
  o_NextVarBytes :: "bytes \<Rightarrow> (bytes \<times> bytes) option"
  o_HeaderFromRawBytes :: "bytes \<Rightarrow> OntHeader option"
  o_header_Deserialization :: "bytes \<Rightarrow> OntHeader option"
  o_header_Serialization :: "OntHeader \<Rightarrow> bytes"
  o_header_Hash :: "OntHeader \<Rightarrow> bytes"
  o_HashToHexString :: "bytes \<Rightarrow> bytes"
  o_VerifyMultiSignature :: "bytes \<Rightarrow> pubkey list \<Rightarrow> nat \<Rightarrow> bytes list \<Rightarrow> bool"
  json_BlockInfo :: "bytes \<Rightarrow> VbftBlockInfo option"

section \<open>Records\<close>

record Peer =
  p_Index :: uint32
  p_PeerPubkey :: bytes

definition Peer_Serialization :: "Peer \<Rightarrow> bytes" where
  "Peer_Serialization p = enc_uint32 (p_Index p) @ enc_varbytes (p_PeerPubkey p)"

definition Peer_Deserialization :: "ZeroCopySource \<Rightarrow> (Peer \<times> ZeroCopySource) option" where
  "Peer_Deserialization src =
     do { (index, src) \<leftarrow> ok_read NextUint32 src;
          (peerPubkey, src) \<leftarrow> ok_read NextString src;
          Some (\<lparr>p_Index = index, p_PeerPubkey = peerPubkey\<rparr>, src) }"

interpretation rd_ont_peer: codec Peer_Serialization Peer_Deserialization "\<lambda>p. fits (p_PeerPubkey p)"
  unfolding Peer_Deserialization_def [abs_def] Peer_Serialization_def
  by unfold_locales (simp add: codec_simps, intro rd_rules)

type_synonym KeyHeights = "uint32 list"

definition KeyHeights_Serialization :: "KeyHeights \<Rightarrow> bytes" where
  "KeyHeights_Serialization heightList =
     (let heightList = sort_desc (\<lambda>v. v) heightList
      in enc_varuint (of_nat (length heightList)) @ concat (map enc_uint32 heightList))"

definition KeyHeights_Deserialization :: "ZeroCopySource \<Rightarrow> (KeyHeights \<times> ZeroCopySource) option" where
  "KeyHeights_Deserialization src =
     do { (n, src) \<leftarrow> ok_read NextVarUint src;
          (heightList, src) \<leftarrow> read_list (ok_read NextUint32) (unat n) src;
          Some (heightList, src) }"

record ConsensusPeers =
  cp_ChainID :: uint64
  cp_Height :: uint32
  PeerMap :: "(bytes \<times> Peer) list"

definition ConsensusPeers_Serialization :: "ConsensusPeers \<Rightarrow> bytes" where
  "ConsensusPeers_Serialization p =
     enc_uint64 (cp_ChainID p) @ enc_uint32 (cp_Height p) @ keyed_ser enc_varuint Peer_Serialization p_PeerPubkey (PeerMap p)"

definition ConsensusPeers_Deserialization :: "ZeroCopySource \<Rightarrow> (ConsensusPeers \<times> ZeroCopySource) option" where
  "ConsensusPeers_Deserialization src =
     do { (chain, src) \<leftarrow> ok_read NextUint64 src;
          (hgt, src) \<leftarrow> ok_read NextUint32 src;
          (peerMap, src) \<leftarrow> keyed_deser (ok_read NextVarUint) Peer_Deserialization p_PeerPubkey src;
          Some (\<lparr>cp_ChainID = chain, cp_Height = hgt, PeerMap = peerMap\<rparr>, src) }"

interpretation rd_ont_peers: keyed_codec Peer_Serialization Peer_Deserialization "\<lambda>p. fits (p_PeerPubkey p)"
  enc_varuint "ok_read NextVarUint" p_PeerPubkey
  by unfold_locales

abbreviation peers_ok :: "(bytes \<times> Peer) list \<Rightarrow> bool" where
  "peers_ok \<equiv> keyed_ok (\<lambda>p. fits (p_PeerPubkey p)) p_PeerPubkey"

lemma KeyHeights_read:
  assumes "length hl < 2 ^ 62" and "fits (KeyHeights_Serialization hl)"
  shows "KeyHeights_Deserialization (NewZeroCopySource (KeyHeights_Serialization hl))
    = Some (sort_desc (\<lambda>v. v) hl, src_at (KeyHeights_Serialization hl) [])"
proof -
  let ?s = "sort_desc (\<lambda>v. v) hl" and ?n = "of_nat (length hl) :: uint64"
  have n: "unat ?n = length hl" using assms(1) by (simp add: unat_of_nat)
  have b: "KeyHeights_Serialization hl = enc_varuint ?n @ concat (map enc_uint32 ?s)"
    by (simp add: KeyHeights_Serialization_def)
  have "read_list (ok_read NextUint32) (length ?s) (src_at (enc_varuint ?n) (concat (map enc_uint32 ?s) @ []))
      = Some (?s, src_at (enc_varuint ?n @ concat (map enc_uint32 ?s)) [])"
    using assms(2) unfolding b by (intro rd_uint32.list_roundtrip) simp_all
  moreover have "ok_read NextVarUint (src_at [] (enc_varuint ?n @ concat (map enc_uint32 ?s)))
      = Some (?n, src_at ([] @ enc_varuint ?n) (concat (map enc_uint32 ?s)))"
    using assms(2) unfolding b by (intro rd_varuint.roundtrip) simp_all
  ultimately show ?thesis by (simp add: KeyHeights_Deserialization_def NewZeroCopySource_at b n)
qed

lemma ConsensusPeers_read:
  assumes "peers_ok (PeerMap p)" and "fits (ConsensusPeers_Serialization p)"
  shows "ConsensusPeers_Deserialization (NewZeroCopySource (ConsensusPeers_Serialization p))
    = Some (p\<lparr>PeerMap := keyed_canon p_PeerPubkey (PeerMap p)\<rparr>, src_at (ConsensusPeers_Serialization p) [])"
  using rd_ont_peers.read_keyed [OF assms(1), of "enc_uint64 (cp_ChainID p) @ enc_uint32 (cp_Height p)" "[]"] assms(2)
  by (simp add: ConsensusPeers_Deserialization_def ConsensusPeers_Serialization_def NewZeroCopySource_at codec_simps
      rd_uint64.roundtrip [where pre = "[]", simplified])

section \<open>Storage\<close>

abbreviation hkey :: "bytes list \<Rightarrow> bytes" where
  "hkey args \<equiv> ConcatKey HeaderSyncContractAddress args"

abbreviation CROSS_CHAIN_MSG :: bytes where "CROSS_CHAIN_MSG \<equiv> str ''crossChainMsg''"
abbreviation CURRENT_MSG_HEIGHT :: bytes where "CURRENT_MSG_HEIGHT \<equiv> str ''currentMsgHeight''"
abbreviation BLOCK_HEADER :: bytes where "BLOCK_HEADER \<equiv> str ''blockHeader''"
abbreviation CURRENT_HEADER_HEIGHT :: bytes where "CURRENT_HEADER_HEIGHT \<equiv> str ''currentHeaderHeight''"
abbreviation HEADER_INDEX :: bytes where "HEADER_INDEX \<equiv> str ''headerIndex''"
abbreviation CONSENSUS_PEER :: bytes where "CONSENSUS_PEER \<equiv> str ''consensusPeer''"
abbreviation CONSENSUS_PEER_BLOCK_HEIGHT :: bytes where "CONSENSUS_PEER_BLOCK_HEIGHT \<equiv> str ''consensusPeerBlockHeight''"
abbreviation KEY_HEIGHTS :: bytes where "KEY_HEIGHTS \<equiv> str ''keyHeights''"

text \<open>A value read as a whole by a library function.\<close>

definition whole_value :: "(bytes \<Rightarrow> 'a option) \<Rightarrow> ZeroCopySource \<Rightarrow> ('a \<times> ZeroCopySource) option" where
  "whole_value rd src = map_option (\<lambda>x. (x, src)) (rd (sbuf src))"

definition PutCrossChainMsg :: "OntEnv \<Rightarrow> NodeConfig \<Rightarrow> uint64 \<Rightarrow> CrossChainMsg \<Rightarrow> NativeService \<Rightarrow> NativeService" where
  "PutCrossChainMsg oe cfg chain crossChainMsg ns =
     (let ns = db_Put (hkey [CROSS_CHAIN_MSG, GetUint64Bytes chain, GetUint32Bytes (cm_Height crossChainMsg)])
                 (GenRawStorageItem (o_msg_Serialization oe crossChainMsg)) ns;
          ns = db_Put (hkey [CURRENT_MSG_HEIGHT, GetUint64Bytes chain])
                 (GenRawStorageItem (GetUint32Bytes (cm_Height crossChainMsg))) ns
      in NotifyPutCrossChainMsg cfg chain (cm_Height crossChainMsg) ns)"

definition GetCrossChainMsg :: "OntEnv \<Rightarrow> NativeService \<Rightarrow> uint64 \<Rightarrow> uint32 \<Rightarrow> err + CrossChainMsg" where
  "GetCrossChainMsg oe ns chain hgt =
     require ''GetCrossChainMsg, can not find any header records''
       (load_item ''GetCrossChainMsg, get headerStore error''
         ''GetCrossChainMsg, deserialize headerBytes from raw storage item err''
         ''GetCrossChainMsg, deserialize header error''
         (whole_value (\<lambda>b. map_option fst (o_msg_Deserialization oe b))) ns
         (hkey [CROSS_CHAIN_MSG, GetUint64Bytes chain, GetUint32Bytes hgt]))"

definition PutBlockHeader :: "OntEnv \<Rightarrow> NodeConfig \<Rightarrow> uint64 \<Rightarrow> OntHeader \<Rightarrow> NativeService \<Rightarrow> NativeService" where
  "PutBlockHeader oe cfg chain blockHeader ns =
     (let blockHash = o_header_Hash oe blockHeader;
          heightBytes = GetUint32Bytes (oh_Height blockHeader);
          ns = db_Put (hkey [BLOCK_HEADER, GetUint64Bytes chain, blockHash])
                 (GenRawStorageItem (o_header_Serialization oe blockHeader)) ns;
          ns = db_Put (hkey [HEADER_INDEX, GetUint64Bytes chain, heightBytes]) (GenRawStorageItem blockHash) ns;
          ns = db_Put (hkey [CURRENT_HEADER_HEIGHT, GetUint64Bytes chain]) (GenRawStorageItem heightBytes) ns
      in NotifyPutHeader cfg chain (ucast (oh_Height blockHeader)) (o_HashToHexString oe blockHash) ns)"

definition GetHeaderByHash :: "OntEnv \<Rightarrow> NativeService \<Rightarrow> uint64 \<Rightarrow> bytes \<Rightarrow> err + OntHeader" where
  "GetHeaderByHash oe ns chain hash =
     require ''GetHeaderByHash, can not find any records''
       (load_item ''GetHeaderByHash, get headerStore error''
         ''GetHeaderByHash, deserialize from raw storage item err'' ''GetHeaderByHash, deserialize header error''
         (whole_value (o_header_Deserialization oe)) ns (hkey [BLOCK_HEADER, GetUint64Bytes chain, hash]))"

definition GetHeaderByHeight :: "OntEnv \<Rightarrow> NativeService \<Rightarrow> uint64 \<Rightarrow> uint32 \<Rightarrow> err + OntHeader" where
  "GetHeaderByHeight oe ns chain hgt =
     ebind (require ''GetHeaderByHeight, can not find any index records''
         (load_item ''GetHeaderByHeight, get blockHashStore error''
           ''GetHeaderByHeight, deserialize blockHashBytes from raw storage item err'' ''''
           (whole_value Some) ns (hkey [HEADER_INDEX, GetUint64Bytes chain, GetUint32Bytes hgt]))) (\<lambda>blockHashBytes.
     require ''GetHeaderByHeight, can not find any header records''
       (load_item ''GetHeaderByHeight, get headerStore error''
         ''GetHeaderByHeight, deserialize headerBytes from raw storage item err''
         ''GetHeaderByHeight, deserialize header error''
         (whole_value (o_header_Deserialization oe)) ns (hkey [BLOCK_HEADER, GetUint64Bytes chain, blockHashBytes])))"

definition GetKeyHeights :: "NativeService \<Rightarrow> uint64 \<Rightarrow> err + KeyHeights" where
  "GetKeyHeights ns chain =
     ebind (load_item ''GetKeyHeights, get keyHeights value error'' ''GetKeyHeights, deserialize from raw storage item err''
         ''GetKeyHeights, deserialize keyHeights err'' KeyHeights_Deserialization ns
         (hkey [KEY_HEIGHTS, GetUint64Bytes chain]))
       (\<lambda>keyHeights. Inr (case keyHeights of None \<Rightarrow> [] | Some hl \<Rightarrow> hl))"

definition PutKeyHeights :: "uint64 \<Rightarrow> KeyHeights \<Rightarrow> NativeService \<Rightarrow> NativeService" where
  "PutKeyHeights chain keyHeights ns =
     db_Put (hkey [KEY_HEIGHTS, GetUint64Bytes chain]) (GenRawStorageItem (KeyHeights_Serialization keyHeights)) ns"

definition getConsensusPeersByHeight :: "NativeService \<Rightarrow> uint64 \<Rightarrow> uint32 \<Rightarrow> err + ConsensusPeers" where
  "getConsensusPeersByHeight ns chain hgt =
     require ''getConsensusPeerByHeight, can not find any record''
       (load_item ''getConsensusPeerByHeight, get consensusPeerStore error''
         ''getConsensusPeerByHeight, deserialize from raw storage item err''
         ''getConsensusPeerByHeight, deserialize consensusPeer error'' ConsensusPeers_Deserialization ns
         (hkey [CONSENSUS_PEER, GetUint64Bytes chain, GetUint32Bytes hgt]))"

definition putConsensusPeers :: "ConsensusPeers \<Rightarrow> NativeService \<Rightarrow> err + NativeService" where
  "putConsensusPeers consensusPeers ns =
     (let chainIDBytes = GetUint64Bytes (cp_ChainID consensusPeers);
          heightBytes = GetUint32Bytes (cp_Height consensusPeers);
          blockHeightBytes = GetUint32Bytes (height ns);
          ns = db_Put (hkey [CONSENSUS_PEER, chainIDBytes, heightBytes])
                 (GenRawStorageItem (ConsensusPeers_Serialization consensusPeers)) ns;
          ns = db_Put (hkey [CONSENSUS_PEER_BLOCK_HEIGHT, chainIDBytes, heightBytes])
                 (GenRawStorageItem blockHeightBytes) ns
      in ebind (GetKeyHeights ns (cp_ChainID consensusPeers)) (\<lambda>heightList.
         Inr (PutKeyHeights (cp_ChainID consensusPeers) (heightList @ [cp_Height consensusPeers]) ns)))"

text \<open>A nil entry of the peers is dereferenced.\<close>

definition UpdateConsensusPeer :: "OntEnv \<Rightarrow> uint64 \<Rightarrow> OntHeader \<Rightarrow> NativeService \<Rightarrow> err + NativeService" where
  "UpdateConsensusPeer oe chain header ns =
     ebind (orelse_err (json_BlockInfo oe (ConsensusPayload header))
         ''updateConsensusPeer, unmarshal blockInfo error'') (\<lambda>blkInfo.
     case NewChainConfig blkInfo of
       None \<Rightarrow> Inr ns
     | Some cc \<Rightarrow>
         if None \<in> set (cc_Peers cc) then Inl ''panic: nil pointer dereference''
         else putConsensusPeers
           \<lparr>cp_ChainID = chain, cp_Height = oh_Height header,
            PeerMap = map_by p_PeerPubkey
              (map (\<lambda>p. \<lparr>p_Index = pc_Index (the p), p_PeerPubkey = pc_ID (the p)\<rparr>) (cc_Peers cc))\<rparr> ns)"

definition FindKeyHeight :: "NativeService \<Rightarrow> uint32 \<Rightarrow> uint64 \<Rightarrow> err + uint32" where
  "FindKeyHeight ns hgt chain =
     ebind (GetKeyHeights ns chain) (\<lambda>heightList.
     orelse_err (find (\<lambda>v. hgt > v) heightList) ''findKeyHeight, can not find key height with height'')"

section \<open>Verification\<close>

definition VerifyCrossChainMsg :: "Env \<Rightarrow> OntEnv \<Rightarrow> NativeService \<Rightarrow> uint64 \<Rightarrow> CrossChainMsg \<Rightarrow> pubkey list \<Rightarrow> err + unit" where
  "VerifyCrossChainMsg env oe ns chain crossChainMsg bookkeepers =
     ebind (FindKeyHeight ns (cm_Height crossChainMsg) chain) (\<lambda>keyHeight.
     ebind (getConsensusPeersByHeight ns chain keyHeight) (\<lambda>consensusPeer.
     if length bookkeepers * 3 < length (PeerMap consensusPeer)
     then Inl ''verifyCrossChainMsg, header Bookkeepers num must more than 2/3 consensus node num''
     else if \<exists>bookkeeper \<in> set bookkeepers. map_of (PeerMap consensusPeer) (PubkeyID env bookkeeper) = None
     then Inl ''verifyCrossChainMsg, invalid pubkey error''
     else if \<not> o_VerifyMultiSignature oe (o_msg_Hash oe crossChainMsg) bookkeepers (length bookkeepers) (SigData crossChainMsg)
     then Inl ''verifyCrossChainMsg, VerifyMultiSignature error''
     else Inr ()))"

text \<open>The loop of \<open>verifyHeader\<close>: every bookkeeper is a consensus peer and none occurs twice.\<close>

primrec check_bookkeepers :: "Env \<Rightarrow> (bytes \<times> Peer) list \<Rightarrow> pubkey list \<Rightarrow> bytes list \<Rightarrow> bool" where
  "check_bookkeepers env peers [] usedPubKey \<longleftrightarrow> True"
| "check_bookkeepers env peers (bookkeeper # bs) usedPubKey \<longleftrightarrow>
     (let pubkey = PubkeyID env bookkeeper in
      map_of peers pubkey \<noteq> None \<and> pubkey \<notin> set usedPubKey \<and> check_bookkeepers env peers bs (pubkey # usedPubKey))"

definition verifyHeader :: "Env \<Rightarrow> OntEnv \<Rightarrow> NativeService \<Rightarrow> uint64 \<Rightarrow> OntHeader \<Rightarrow> err + unit" where
  "verifyHeader env oe ns chain header =
     ebind (FindKeyHeight ns (oh_Height header) chain) (\<lambda>keyHeight.
     ebind (getConsensusPeersByHeight ns chain keyHeight) (\<lambda>consensusPeer.
     if length (Bookkeepers header) * 3 < length (PeerMap consensusPeer)
     then Inl ''verifyHeader, header Bookkeepers num must more than 2/3 consensus node num''
     else if \<not> check_bookkeepers env (PeerMap consensusPeer) (Bookkeepers header) []
     then Inl ''verifyHeader, invalid pubkey error''
     else if \<not> o_VerifyMultiSignature oe (o_header_Hash oe header) (Bookkeepers header) (length (Bookkeepers header)) (oh_SigData header)
     then Inl ''verifyHeader, VerifyMultiSignature error''
     else Inr ()))"

section \<open>The handler\<close>

definition ont_SyncGenesisHeader :: "Env \<Rightarrow> OntEnv \<Rightarrow> NodeConfig \<Rightarrow> sync" where
  "ont_SyncGenesisHeader env oe cfg ns =
     ebind (parse_input SyncGenesisHeaderParam_Deserialization
         ''ONTHandler SyncGenesisHeader, contract params deserialize error'' ns) (\<lambda>params.
     ebind (GetCurConOperator env ns) (\<lambda>operatorAddress.
     if \<not> ValidateOwner env ns operatorAddress then Inl ''ONTHandler SyncGenesisHeader, checkWitness error''
     else
     ebind (orelse_err (o_HeaderFromRawBytes oe (GenesisHeader params))
         ''ONTHandler SyncGenesisHeader, deserialize header err'') (\<lambda>header.
     UpdateConsensusPeer oe (sg_ChainID params) header (PutBlockHeader oe cfg (sg_ChainID params) header ns))))"

primrec sync_headers :: "Env \<Rightarrow> OntEnv \<Rightarrow> NodeConfig \<Rightarrow> uint64 \<Rightarrow> bytes list \<Rightarrow> sync" where
  "sync_headers env oe cfg chain [] ns = Inr ns"
| "sync_headers env oe cfg chain (v # vs) ns =
     ebind (orelse_err (o_HeaderFromRawBytes oe v) ''SyncBlockHeader, otypes.HeaderFromRawBytes error'') (\<lambda>header.
     case GetHeaderByHeight oe ns chain (oh_Height header) of
       Inr _ \<Rightarrow> sync_headers env oe cfg chain vs ns
     | Inl _ \<Rightarrow>
         ebind (verifyHeader env oe ns chain header) (\<lambda>_.
         ebind (UpdateConsensusPeer oe chain header (PutBlockHeader oe cfg chain header ns)) (\<lambda>ns.
         sync_headers env oe cfg chain vs ns)))"

definition ont_SyncBlockHeader :: "Env \<Rightarrow> OntEnv \<Rightarrow> NodeConfig \<Rightarrow> sync" where
  "ont_SyncBlockHeader env oe cfg ns =
     ebind (parse_input SyncBlockHeaderParam_Deserialization
         ''SyncBlockHeader, contract params deserialize error'' ns) (\<lambda>params.
     sync_headers env oe cfg (sb_ChainID params) (Headers params) ns)"

text \<open>A message followed by the bookkeepers that signed it; \<open>e\<close> is the name of the caller in the errors.\<close>

primrec read_bookkeepers :: "Env \<Rightarrow> OntEnv \<Rightarrow> err \<Rightarrow> nat \<Rightarrow> bytes \<Rightarrow> err + pubkey list" where
  "read_bookkeepers env oe e 0 src = Inr []"
| "read_bookkeepers env oe e (Suc n) src =
     ebind (orelse_err (o_NextVarBytes oe src) (e @ '', deserialization bookkeeper error'')) (\<lambda>(v, src).
     ebind (orelse_err (DeserializePublicKey env v) (e @ '', keypair.DeserializePublicKey error'')) (\<lambda>bookkeeper.
     ebind (read_bookkeepers env oe e n src) (\<lambda>bookkeepers. Inr (bookkeeper # bookkeepers))))"

definition read_signed_msg :: "Env \<Rightarrow> OntEnv \<Rightarrow> err \<Rightarrow> bytes \<Rightarrow> err + (CrossChainMsg \<times> pubkey list)" where
  "read_signed_msg env oe e src =
     ebind (orelse_err (o_msg_Deserialization oe src) (e @ '', deserialize crossChainMsg error'')) (\<lambda>(crossChainMsg, src).
     ebind (orelse_err (o_NextVarUint oe src) (e @ '', deserialization bookkeeper length error'')) (\<lambda>(n, src).
     ebind (read_bookkeepers env oe e (unat n) src) (\<lambda>bookkeepers. Inr (crossChainMsg, bookkeepers))))"

primrec sync_msgs :: "Env \<Rightarrow> OntEnv \<Rightarrow> NodeConfig \<Rightarrow> uint64 \<Rightarrow> bytes list \<Rightarrow> sync" where
  "sync_msgs env oe cfg chain [] ns = Inr ns"
| "sync_msgs env oe cfg chain (v # vs) ns =
     ebind (read_signed_msg env oe ''SyncCrossChainMsg'' v) (\<lambda>(crossChainMsg, bookkeepers).
     case GetCrossChainMsg oe ns chain (cm_Height crossChainMsg) of
       Inr _ \<Rightarrow> sync_msgs env oe cfg chain vs ns
     | Inl _ \<Rightarrow>
         ebind (VerifyCrossChainMsg env oe ns chain crossChainMsg bookkeepers) (\<lambda>_.
         sync_msgs env oe cfg chain vs (PutCrossChainMsg oe cfg chain crossChainMsg ns)))"

definition ont_SyncCrossChainMsg :: "Env \<Rightarrow> OntEnv \<Rightarrow> NodeConfig \<Rightarrow> sync" where
  "ont_SyncCrossChainMsg env oe cfg ns =
     ebind (parse_input SyncCrossChainMsgParam_Deserialization
         ''SyncCrossChainMsg, contract params deserialize error'' ns) (\<lambda>params.
     sync_msgs env oe cfg (sm_ChainID params) (CrossChainMsgs params) ns)"

definition ONTHandler :: "Env \<Rightarrow> OntEnv \<Rightarrow> NodeConfig \<Rightarrow> HeaderSyncHandler" where
  "ONTHandler env oe cfg =
     \<lparr>hs_SyncGenesisHeader = ont_SyncGenesisHeader env oe cfg, hs_SyncBlockHeader = ont_SyncBlockHeader env oe cfg,
      hs_SyncCrossChainMsg = ont_SyncCrossChainMsg env oe cfg\<rparr>"

end
