(* ===== verification/Deposit_Handlers.thy ===== *)
theory Deposit_Handlers
  imports Consensus_Vote Ont_Sync Merkle_Path
begin

text \<open>
  The handlers that accept deposits of the source chains (\<open>native/service/cross_chain_manager\<close>): ontology with its
  Merkle proofs, ripple with the votes of the peers, and the chains whose verifier only reads the store
  (\<open>eth\<close> and the handlers with the same body), where the verifier rests on the chain's own libraries and is an
  argument.  Each of them is shown to keep the promise \<open>deposit_handler\<close>.
\<close>

section \<open>Chains with a proof\<close>

text \<open>
  \<open>MakeDepositProposal\<close> of eth, bsc, heco, msc, polygon, pixiechain, hsc, bytom, zilliqa and starcoin, and of neo,
  neo3 and harmony: parse, verify, check that the transaction is new, mark it.
\<close>

definition proof_MakeDepositProposal :: "(EntranceParam \<Rightarrow> NativeService \<Rightarrow> err + MakeTxParam) \<Rightarrow> ChainHandler" where
  "proof_MakeDepositProposal vf ns =
     ebind (parse_input EntranceParam_Deserialization ''MakeDepositProposal, contract params deserialize error'' ns) (\<lambda>params.
     ebind (vf params ns) (\<lambda>value.
     ebind (CheckDoneTx (CrossChainID value) (SourceChainID params) ns) (\<lambda>_.
     Inr (Some value, PutDoneTx (CrossChainID value) (SourceChainID params) ns))))"

text \<open>The verifiers that are given the record of the side chain, which may be nil.\<close>

definition with_side_chain :: "(EntranceParam \<Rightarrow> SideChain option \<Rightarrow> NativeService \<Rightarrow> err + MakeTxParam)
    \<Rightarrow> EntranceParam \<Rightarrow> NativeService \<Rightarrow> err + MakeTxParam" where
  "with_side_chain vf params ns =
     ebind (GetSideChain ns (SourceChainID params)) (\<lambda>sideChain. vf params sideChain ns)"

interpretation proofs: deposit_handler "proof_MakeDepositProposal vf" for vf
proof
  fix ns p ns'
  assume "proof_MakeDepositProposal vf ns = Inr (Some p, ns')"
  then obtain e params where "parse_input EntranceParam_Deserialization e ns = Inr params"
    "\<not> done_tx ns (SourceChainID params) (CrossChainID p)" "ns' = PutDoneTx (CrossChainID p) (SourceChainID params) ns"
    by (auto simp: proof_MakeDepositProposal_def CheckDoneTx_Inr)
  then show "\<exists>c. source_chain ns = Some c \<and> \<not> done_tx ns c (CrossChainID p) \<and> done_tx ns' c (CrossChainID p)"
    by (auto simp: done_Put dest: source_chain_parse)
next
  fix ns r ns' c x
  assume "proof_MakeDepositProposal vf ns = Inr (r, ns')" "done_tx ns c x"
  then show "done_tx ns' c x" by (auto simp: proof_MakeDepositProposal_def done_Put)
qed

section \<open>Ontology\<close>

text \<open>A missing side chain is a nil pointer.\<close>

definition VerifyFromOntTx :: "bytes \<Rightarrow> CrossChainMsg \<Rightarrow> SideChain option \<Rightarrow> err + MakeTxParam" where
  "VerifyFromOntTx prf crossChainMsg sideChain =
     (case MerkleProve prf (StatesRoot crossChainMsg) of
        Inl _ \<Rightarrow> Inl ''VerifyFromOntTx, merkle.MerkleProve vf merkle proof error''
      | Inr v \<Rightarrow>
          (case sideChain of
             None \<Rightarrow> Inl ''panic: nil pointer dereference''
           | Some sc \<Rightarrow>
               if CCMCAddress sc = [] then
                 ebind (orelse_err (MakeTxParam_Deserialization (NewZeroCopySource v))
                   ''VerifyFromOntTx, deserialize MakeTxParam error'') (\<lambda>(txParam, _). Inr txParam)
               else
                 ebind (orelse_err (MakeTxParamWithSender_Deserialization v)
                   ''VerifyFromOntTx, deserialize MakeTxParamWithSender error'') (\<lambda>(sender, txParam).
                 if sender \<noteq> CCMCAddress sc then Inl ''VerifyFromOntTx, invalid sender'' else Inr txParam)))"

text \<open>The stored message of the height, or the one in the call, which is verified and stored.\<close>

definition ont_message :: "Env \<Rightarrow> OntEnv \<Rightarrow> NodeConfig \<Rightarrow> EntranceParam \<Rightarrow> NativeService \<Rightarrow> err + (CrossChainMsg \<times> NativeService)" where
  "ont_message env oe cfg params ns =
     (case GetCrossChainMsg oe ns (SourceChainID params) (ep_Height params) of
        Inr crossChainMsg \<Rightarrow> Inr (crossChainMsg, ns)
      | Inl _ \<Rightarrow>
          ebind (read_signed_msg env oe ''ont MakeDepositProposal'' (HeaderOrCrossChainMsg params))
            (\<lambda>(crossChainMsg, bookkeepers).
          ebind (VerifyCrossChainMsg env oe ns (SourceChainID params) crossChainMsg bookkeepers) (\<lambda>_.
          Inr (crossChainMsg, PutCrossChainMsg oe cfg (SourceChainID params) crossChainMsg ns))))"

definition ont_MakeDepositProposal :: "Env \<Rightarrow> OntEnv \<Rightarrow> NodeConfig \<Rightarrow> ChainHandler" where
  "ont_MakeDepositProposal env oe cfg ns =
     ebind (parse_input EntranceParam_Deserialization ''ont MakeDepositProposal, contract params deserialize error'' ns) (\<lambda>params.
     ebind (ont_message env oe cfg params ns) (\<lambda>(crossChainMsg, ns).
     ebind (GetSideChain ns (SourceChainID params)) (\<lambda>sideChain.
     ebind (VerifyFromOntTx (Proof params) crossChainMsg sideChain) (\<lambda>value.
     ebind (CheckDoneTx (CrossChainID value) (SourceChainID params) ns) (\<lambda>_.
     Inr (Some value, PutDoneTx (CrossChainID value) (SourceChainID params) ns))))))"

lemma done_other_contract: "n \<noteq> 3 \<Longrightarrow> done_tx (db_Put (ConcatKey (contract_address n) k) v ns) c x \<longleftrightarrow> done_tx ns c x"
  using ConcatKey_contract [of 3 n] by (simp add: done_tx_def store_simps)

lemma done_PutCrossChainMsg: "done_tx (PutCrossChainMsg oe cfg d m ns) c x \<longleftrightarrow> done_tx ns c x"
  using done_other_contract [of 2]
  by (simp add: PutCrossChainMsg_def Let_def NotifyPutCrossChainMsg_def) (simp add: done_tx_def store_simps)

lemma ont_message_done: "ont_message env oe cfg params ns = Inr (m, ns') \<Longrightarrow> done_tx ns' c x \<longleftrightarrow> done_tx ns c x"
  by (auto simp: ont_message_def done_PutCrossChainMsg split: sum.splits)

lemma ont_MakeDepositProposal_Inr:
  assumes "ont_MakeDepositProposal env oe cfg ns = Inr (r, ns')"
  obtains params m ns1 p where "source_chain ns = Some (SourceChainID params)"
    "ont_message env oe cfg params ns = Inr (m, ns1)" "r = Some p"
    "\<not> done_tx ns1 (SourceChainID params) (CrossChainID p)"
    "ns' = PutDoneTx (CrossChainID p) (SourceChainID params) ns1"
  using assms by (auto simp: ont_MakeDepositProposal_def CheckDoneTx_Inr dest: source_chain_parse)

interpretation ont: deposit_handler "ont_MakeDepositProposal env oe cfg" for env oe cfg
proof
  fix ns p ns'
  assume "ont_MakeDepositProposal env oe cfg ns = Inr (Some p, ns')"
  then show "\<exists>c. source_chain ns = Some c \<and> \<not> done_tx ns c (CrossChainID p) \<and> done_tx ns' c (CrossChainID p)"
    by (rule ont_MakeDepositProposal_Inr) (auto simp: done_Put ont_message_done)
next
  fix ns r ns' c x
  assume "ont_MakeDepositProposal env oe cfg ns = Inr (r, ns')" "done_tx ns c x"
  then show "done_tx ns' c x"
    by (auto elim!: ont_MakeDepositProposal_Inr simp: done_Put ont_message_done)
qed

section \<open>Ripple\<close>

text \<open>The call's arguments are replaced by the registered asset, the receiver and the amount in 32 bytes.\<close>

definition ripple_fill :: "AssetBind \<Rightarrow> MakeTxParam \<Rightarrow> err + MakeTxParam" where
  "ripple_fill assetBind txParam =
     ebind (orelse_err (map_of (LockProxyMap assetBind) (ToChainID txParam))
         ''vote MakeDepositProposal, assetBind.LockProxyMap not exist'') (\<lambda>toContractAddress.
     ebind (orelse_err (ok_read NextVarBytes (NewZeroCopySource (mt_Args txParam)))
         ''vote MakeDepositProposal, deserilize dst address error'') (\<lambda>(dstAddress, src).
     ebind (orelse_err (ok_read NextUint64 src) ''vote MakeDepositProposal, deserilize amount error'') (\<lambda>(amount, _).
     ebind (orelse_err (map_of (AssetMap assetBind) (ToChainID txParam))
         ''vote MakeDepositProposal, assetBind.AssetMap not exist'') (\<lambda>assetAddress.
     Inr (txParam\<lparr>ToContractAddress := toContractAddress,
                  mt_Args := enc_varbytes assetAddress @ enc_varbytes dstAddress @ enc_uint64 amount @ replicate 24 0\<rparr>)))))"

definition ripple_MakeDepositProposal :: "Env \<Rightarrow> ChainHandler" where
  "ripple_MakeDepositProposal env ns =
     ebind (parse_input EntranceParam_Deserialization
         ''vote MakeDepositProposal, contract params deserialize error'' ns) (\<lambda>params.
     ebind (orelse_err (AddressParseFromBytes (RelayerAddress params))
         ''vote MakeDepositProposal, common.AddressParseFromBytes error'') (\<lambda>address.
     if \<not> ValidateOwner env ns address then Inl ''vote MakeDepositProposal, checkWitness error''
     else
     let unique = \<lparr>SourceChainID = SourceChainID params, ep_Height = ep_Height params, Proof = [], RelayerAddress = [],
                   Extra = Extra params, HeaderOrCrossChainMsg = []\<rparr>;
         i = sha256 (EntranceParam_Serialization unique) in
     ebind (CheckVotes env i address ns) (\<lambda>(ok, ns).
     if ok then
       ebind (orelse_err (MakeTxParam_Deserialization (NewZeroCopySource (Extra params)))
         ''vote MakeDepositProposal, deserialize MakeTxParam error'') (\<lambda>(txParam, _).
       ebind (CheckDoneTx (CrossChainID txParam) (SourceChainID params) ns) (\<lambda>_.
       let ns = PutDoneTx (CrossChainID txParam) (SourceChainID params) ns in
       ebind (GetAssetBind ns (SourceChainID params)) (\<lambda>assetBind.
       ebind (ripple_fill assetBind txParam) (\<lambda>txParam.
       Inr (Some txParam, ns)))))
     else Inr (None, ns))))"

lemma ripple_fill_id: "ripple_fill a p = Inr q \<Longrightarrow> CrossChainID q = CrossChainID p"
  by (auto simp: ripple_fill_def)

lemma ripple_MakeDepositProposal_Inr:
  assumes "ripple_MakeDepositProposal env ns = Inr (r, ns')"
  obtains (pending) c i address where "source_chain ns = Some c" "CheckVotes env i address ns = Inr (False, ns')" "r = None"
  | (marked) c i address ns1 txParam where "source_chain ns = Some c"
    "CheckVotes env i address ns = Inr (True, ns1)" "r = Some txParam" "\<not> done_tx ns1 c (CrossChainID txParam)"
    "ns' = PutDoneTx (CrossChainID txParam) c ns1"
proof -
  let ?e = "''vote MakeDepositProposal, contract params deserialize error''"
  obtain params where p: "parse_input EntranceParam_Deserialization ?e ns = Inr params"
    using assms by (cases "parse_input EntranceParam_Deserialization ?e ns") (simp_all add: ripple_MakeDepositProposal_def)
  obtain address where a: "AddressParseFromBytes (RelayerAddress params) = Some address"
    using assms p by (cases "AddressParseFromBytes (RelayerAddress params)") (simp_all add: ripple_MakeDepositProposal_def)
  have v: "ValidateOwner env ns address"
    by (rule ccontr) (use assms p a in \<open>simp add: ripple_MakeDepositProposal_def\<close>)
  define i where "i = sha256 (EntranceParam_Serialization \<lparr>SourceChainID = SourceChainID params, ep_Height = ep_Height params,
      Proof = [], RelayerAddress = [], Extra = Extra params, HeaderOrCrossChainMsg = []\<rparr>)"
  note run = assms [unfolded ripple_MakeDepositProposal_def Let_def p a ebind_Inr orelse_err_simps, folded i_def]
  obtain ok ns1 where c: "CheckVotes env i address ns = Inr (ok, ns1)"
    using run v by (cases "CheckVotes env i address ns") auto
  note s = source_chain_parse [OF p]
  show thesis
  proof (cases ok)
    case False
    with run v c show thesis by (intro pending [OF s, of i address]) simp_all
  next
    case True
    obtain txParam0 rest where t: "MakeTxParam_Deserialization (NewZeroCopySource (Extra params)) = Some (txParam0, rest)"
      using run v c True by (cases "MakeTxParam_Deserialization (NewZeroCopySource (Extra params))") auto
    from run v c t True obtain q a where "\<not> done_tx ns1 (SourceChainID params) (CrossChainID txParam0)"
      "ns' = PutDoneTx (CrossChainID txParam0) (SourceChainID params) ns1" "ripple_fill a txParam0 = Inr q" "r = Some q"
      by (auto simp: CheckDoneTx_Inr)
    with marked [OF s, of i address ns1 q] c True ripple_fill_id show thesis by metis
  qed
qed

interpretation ripple: deposit_handler "ripple_MakeDepositProposal env" for env
proof
  fix ns p ns'
  assume "ripple_MakeDepositProposal env ns = Inr (Some p, ns')"
  then show "\<exists>c. source_chain ns = Some c \<and> \<not> done_tx ns c (CrossChainID p) \<and> done_tx ns' c (CrossChainID p)"
  proof (cases rule: ripple_MakeDepositProposal_Inr)
    case (marked c i address ns1 txParam)
    then show ?thesis using CheckVotes_done [OF marked(2)] by (simp add: done_Put)
  qed simp
next
  fix ns r ns' c x
  assume "ripple_MakeDepositProposal env ns = Inr (r, ns')" and n: "done_tx ns c x"
  then show "done_tx ns' c x"
  proof (cases rule: ripple_MakeDepositProposal_Inr)
    case (pending c' i address)
    then show ?thesis using CheckVotes_done [OF pending(2)] n by simp
  next
    case (marked c' i address ns1 txParam)
    then show ?thesis using CheckVotes_done [OF marked(2)] n by (simp add: done_Put)
  qed
qed

end
