(* ===== verification/Cross_Chain_Manager.thy ===== *)
theory Cross_Chain_Manager
  imports Deposit_Handlers
begin

text \<open>
  The cross-chain manager contract (\<open>native/service/cross_chain_manager/entrance.go\<close>): a transfer is imported
  through the handler of its source chain and becomes a request for its target chain, whose hash goes into the
  block's cross-chain tree.  The parts of the chains' packages that rest on third-party chain libraries are the
  fields of \<open>ChainLib\<close>.
\<close>

section \<open>The chains\<close>

text \<open>
  \<open>cl_verify\<close> and \<open>cl_verify_msg\<close>: the verifiers of the chains with a proof; \<open>cl_handler\<close>: the whole handlers of
  bitcoin, cosmos, quorum and okex; then the transactions for the bitcoin and ripple chains and their signing.
\<close>

record ChainLib =
  cl_verify :: "uint64 \<Rightarrow> EntranceParam \<Rightarrow> SideChain option \<Rightarrow> NativeService \<Rightarrow> err + MakeTxParam"
  cl_verify_msg :: "uint64 \<Rightarrow> EntranceParam \<Rightarrow> NativeService \<Rightarrow> err + MakeTxParam"
  cl_handler :: "uint64 \<Rightarrow> ChainHandler"
  btc_MakeTransaction :: "MakeTxParam \<Rightarrow> uint64 \<Rightarrow> sync"
  ripple_MakeTransaction :: "MakeTxParam \<Rightarrow> uint64 \<Rightarrow> sync"
  btc_MultiSign :: sync
  ripple_MultiSign :: sync
  ripple_ReconstructTx :: sync

definition GetChainHandler :: "Env \<Rightarrow> OntEnv \<Rightarrow> NodeConfig \<Rightarrow> ChainLib \<Rightarrow> uint64 \<Rightarrow> err + ChainHandler" where
  "GetChainHandler env oe cfg lib router =
     (if router = VOTE_ROUTER then Inr (vote_MakeDepositProposal env cfg)
      else if router = ONT_ROUTER then Inr (ont_MakeDepositProposal env oe cfg)
      else if router = RIPPLE_ROUTER then Inr (ripple_MakeDepositProposal env)
      else if router \<in> set [ETH_ROUTER, BSC_ROUTER, HECO_ROUTER, ZILLIQA_LEGACY_ROUTER, ZILLIQA_ROUTER, MSC_ROUTER,
                             POLYGON_BOR_ROUTER, PIXIECHAIN_ROUTER, STARCOIN_ROUTER, HSC_ROUTER, BYTOM_ROUTER]
      then Inr (proof_MakeDepositProposal (with_side_chain (cl_verify lib router)))
      else if router \<in> set [NEO_ROUTER, NEO3_ROUTER, HARMONY_ROUTER]
      then Inr (proof_MakeDepositProposal (cl_verify_msg lib router))
      else if router \<in> set [BTC_ROUTER, COSMOS_ROUTER, QUORUM_ROUTER, OKEX_ROUTER]
      then Inr (cl_handler lib router)
      else Inl ''not a supported router'')"

section \<open>Requests\<close>

definition PutRequest :: "bytes \<Rightarrow> uint64 \<Rightarrow> bytes \<Rightarrow> NativeService \<Rightarrow> NativeService" where
  "PutRequest txHash chain request ns = PutBytes (ckey [REQUEST, GetUint64Bytes chain, txHash]) request ns"

definition MakeTransaction :: "NodeConfig \<Rightarrow> MakeTxParam \<Rightarrow> uint64 \<Rightarrow> sync" where
  "MakeTransaction cfg params fromChainID service =
     (let txHash = tx_hash (tx service);
          merkleValue = ToMerkleValue_Serialization \<lparr>mv_TxHash = txHash, FromChainID = fromChainID, mv_MakeTxParam = params\<rparr>;
          service = PutRequest txHash (ToChainID params) merkleValue service;
          service = PutMerkleVal merkleValue service;
          key = hex_EncodeToString (ckey [REQUEST, GetUint64Bytes (ToChainID params), txHash])
      in Inr (NotifyMakeProof cfg fromChainID (ToChainID params) (hex_EncodeToString (mt_TxHash params)) key service))"

section \<open>The entry points\<close>

text \<open>The second half of \<open>ImportExTransfer\<close>: the transaction for the target chain.\<close>

definition make_target :: "NodeConfig \<Rightarrow> ChainLib \<Rightarrow> uint64 \<Rightarrow> MakeTxParam \<Rightarrow> handler" where
  "make_target cfg lib chain txParam ns =
     ebind (CheckIfChainBlacked ns (ToChainID txParam)) (\<lambda>blacked.
     if blacked then Inl ''ImportExTransfer, target chain is blacked''
     else
     ebind (require ''ImportExTransfer, side chain is not registered'' (GetSideChain ns (ToChainID txParam))) (\<lambda>sideChain.
     ebind (if Router sideChain = BTC_ROUTER then btc_MakeTransaction lib txParam chain ns
            else if Router sideChain = RIPPLE_ROUTER then ripple_MakeTransaction lib txParam chain ns
            else MakeTransaction cfg txParam chain ns) (\<lambda>ns.
     Inr (BYTE_TRUE, ns))))"

text \<open>A nil proposal of a chain without votes is dereferenced.\<close>

definition ImportExTransfer :: "Env \<Rightarrow> OntEnv \<Rightarrow> NodeConfig \<Rightarrow> ChainLib \<Rightarrow> handler" where
  "ImportExTransfer env oe cfg lib ns =
     ebind (parse_input EntranceParam_Deserialization ''ImportExTransfer, contract params deserialize error'' ns) (\<lambda>params.
     let chain = SourceChainID params in
     ebind (CheckIfChainBlacked ns chain) (\<lambda>blacked.
     if blacked then Inl ''ImportExTransfer, source chain is blacked''
     else
     ebind (require ''ImportExTransfer, side chain is not registered'' (GetSideChain ns chain)) (\<lambda>sideChain.
     ebind (GetChainHandler env oe cfg lib (Router sideChain)) (\<lambda>hdl.
     ebind (CheckRouterStartBlock (NetworkId cfg) (Router sideChain) (height ns)) (\<lambda>_.
     ebind (hdl ns) (\<lambda>(txParam, ns).
     case txParam of
       None \<Rightarrow> if Router sideChain = VOTE_ROUTER \<or> Router sideChain = RIPPLE_ROUTER then Inr (BYTE_TRUE, ns)
               else Inl ''panic: nil pointer dereference''
     | Some txParam \<Rightarrow> make_target cfg lib chain txParam ns))))))"

definition call_sign :: "sync \<Rightarrow> handler" where
  "call_sign sign ns = ebind (sign ns) (\<lambda>ns. Inr (BYTE_TRUE, ns))"

definition BlackChain :: "Env \<Rightarrow> handler" where
  "BlackChain env ns =
     ebind (parse_input BlackChainParam_Deserialization ''BlackChain, contract params deserialize error'' ns) (\<lambda>chain.
     ebind (GetCurConOperator env ns) (\<lambda>operatorAddress.
     if \<not> ValidateOwner env ns operatorAddress then Inl ''BlackChain, checkWitness error''
     else Inr (BYTE_TRUE, PutBlackChain chain ns)))"

definition WhiteChain :: "Env \<Rightarrow> handler" where
  "WhiteChain env ns =
     ebind (parse_input BlackChainParam_Deserialization ''WhiteChain, contract params deserialize error'' ns) (\<lambda>chain.
     ebind (GetCurConOperator env ns) (\<lambda>operatorAddress.
     if \<not> ValidateOwner env ns operatorAddress then Inl ''BlackChain, checkWitness error''
     else Inr (BYTE_TRUE, RemoveBlackChain chain ns)))"

definition RegisterCrossChainManagerContract :: "Env \<Rightarrow> OntEnv \<Rightarrow> NodeConfig \<Rightarrow> ChainLib \<Rightarrow> (bytes \<times> handler) list" where
  "RegisterCrossChainManagerContract env oe cfg lib =
     [(str ''ImportOuterTransfer'', ImportExTransfer env oe cfg lib), (str ''MultiSign'', call_sign (btc_MultiSign lib)),
      (str ''MultiSignRipple'', call_sign (ripple_MultiSign lib)),
      (str ''ReconstructRippleTx'', call_sign (ripple_ReconstructTx lib)),
      (str ''BlackChain'', BlackChain env), (str ''WhiteChain'', WhiteChain env)]"

section \<open>Marks of processed transactions\<close>

text \<open>What is assumed of the chains' packages: the handlers that are arguments keep the promise, and no mark is removed.\<close>

definition lib_keeps :: "ChainLib \<Rightarrow> bool" where
  "lib_keeps lib \<longleftrightarrow> (\<forall>r. deposit_handler (cl_handler lib r)) \<and>
     (\<forall>p d ns ns' c x. (btc_MakeTransaction lib p d ns = Inr ns' \<or> ripple_MakeTransaction lib p d ns = Inr ns' \<or>
        btc_MultiSign lib ns = Inr ns' \<or> ripple_MultiSign lib ns = Inr ns' \<or> ripple_ReconstructTx lib ns = Inr ns') \<longrightarrow>
        done_tx ns c x \<longrightarrow> done_tx ns' c x)"

lemma handlers_keep:
  assumes "lib_keeps lib" "GetChainHandler env oe (cfg\<lparr>NetworkId := NETWORK_ID_MAIN_NET\<rparr>) lib r = Inr hdl"
  shows "deposit_handler hdl"
  using assms vote.deposit_handler_axioms ont.deposit_handler_axioms ripple.deposit_handler_axioms
    proofs.deposit_handler_axioms
  unfolding lib_keeps_def GetChainHandler_def by (auto split: if_splits)

lemma done_MakeTransaction: "MakeTransaction cfg p d ns = Inr ns' \<Longrightarrow> done_tx ns' c x \<longleftrightarrow> done_tx ns c x"
  using ckey_not_done(3) [of c x "GetUint64Bytes (ToChainID p)" "tx_hash (tx ns)"]
  by (auto simp: MakeTransaction_def Let_def PutRequest_def PutBytes_def NotifyMakeProof_def PutMerkleVal_def done_tx_def
      db_Get_def db_Put_def layer_upd AddNotify_def split: if_splits)

lemma make_target_keeps:
  assumes "lib_keeps lib" "make_target cfg lib d p ns = Inr (r, ns')" "done_tx ns c x"
  shows "done_tx ns' c x"
proof -
  have "btc_MakeTransaction lib p d ns = Inr ns' \<or> ripple_MakeTransaction lib p d ns = Inr ns' \<or>
      MakeTransaction cfg p d ns = Inr ns'"
    using assms(2) by (auto simp: make_target_def split: if_splits)
  with assms(1,3) show ?thesis
    unfolding lib_keeps_def by (metis done_MakeTransaction)
qed

lemma black_keeps:
  "BlackChain env ns = Inr (r, ns') \<Longrightarrow> done_tx ns' c x \<longleftrightarrow> done_tx ns c x"
  "WhiteChain env ns = Inr (r, ns') \<Longrightarrow> done_tx ns' c x \<longleftrightarrow> done_tx ns c x"
  using ckey_not_done(2) [of c x]
  by (auto simp: BlackChain_def WhiteChain_def PutBlackChain_def RemoveBlackChain_def done_tx_def store_simps split: if_splits)

section \<open>Imports\<close>

text \<open>The deposit a call of \<open>ImportExTransfer\<close> accepts: its source chain and the identifier on that chain.\<close>

definition accepted_deposit :: "Env \<Rightarrow> OntEnv \<Rightarrow> NodeConfig \<Rightarrow> ChainLib \<Rightarrow> NativeService \<Rightarrow> (uint64 \<times> bytes) list" where
  "accepted_deposit env oe cfg lib ns =
     (case source_chain ns of
        None \<Rightarrow> []
      | Some c \<Rightarrow>
          (case GetSideChain ns c of
             Inr (Some sideChain) \<Rightarrow>
               (case ebind (GetChainHandler env oe cfg lib (Router sideChain)) (\<lambda>hdl. hdl ns) of
                  Inr (Some p, _) \<Rightarrow> [(c, CrossChainID p)]
                | _ \<Rightarrow> [])
           | _ \<Rightarrow> []))"

lemma ImportExTransfer_Inr:
  assumes "ImportExTransfer env oe cfg lib ns = Inr (r, ns')"
  obtains (waits) c sc hdl where "source_chain ns = Some c" "GetSideChain ns c = Inr (Some sc)"
    "GetChainHandler env oe cfg lib (Router sc) = Inr hdl" "hdl ns = Inr (None, ns')"
  | (accepts) c sc hdl p ns1 where "source_chain ns = Some c" "GetSideChain ns c = Inr (Some sc)"
    "GetChainHandler env oe cfg lib (Router sc) = Inr hdl" "hdl ns = Inr (Some p, ns1)"
    "make_target cfg lib c p ns1 = Inr (r, ns')"
proof -
  from assms obtain e params sc hdl txParam ns1 where
    p: "parse_input EntranceParam_Deserialization e ns = Inr params"
    and h: "require ''ImportExTransfer, side chain is not registered'' (GetSideChain ns (SourceChainID params)) = Inr sc"
    "GetChainHandler env oe cfg lib (Router sc) = Inr hdl" "hdl ns = Inr (txParam, ns1)"
    and rest: "(case txParam of
       None \<Rightarrow> if Router sc = VOTE_ROUTER \<or> Router sc = RIPPLE_ROUTER then Inr (BYTE_TRUE, ns1)
               else Inl ''panic: nil pointer dereference''
     | Some txParam \<Rightarrow> make_target cfg lib (SourceChainID params) txParam ns1) = Inr (r, ns')"
    unfolding ImportExTransfer_def Let_def by (auto split: if_splits)
  have g: "GetSideChain ns (SourceChainID params) = Inr (Some sc)"
    using h(1) by (auto simp: require_def orelse_err_eq_Inr)
  note s = source_chain_parse [OF p]
  show thesis
  proof (cases txParam)
    case None
    with rest h(3) waits [OF s g h(2)] show thesis by (simp split: if_splits)
  next
    case (Some q)
    with rest h(3) accepts [OF s g h(2)] show thesis by simp
  qed
qed

lemma import_marks:
  fixes cfg defines "main \<equiv> cfg\<lparr>NetworkId := NETWORK_ID_MAIN_NET\<rparr>"
  assumes "lib_keeps lib" "ImportExTransfer env oe main lib ns = Inr (r, ns')"
  shows "done_tx ns c x \<Longrightarrow> done_tx ns' c x"
    "(c, x) \<in> set (accepted_deposit env oe main lib ns) \<Longrightarrow> \<not> done_tx ns c x \<and> done_tx ns' c x"
    "length (accepted_deposit env oe main lib ns) \<le> 1"
proof -
  note hk = handlers_keep [OF assms(2), of env oe cfg, folded main_def]
  from assms(3) show "done_tx ns c x \<Longrightarrow> done_tx ns' c x"
  proof (cases rule: ImportExTransfer_Inr)
    case (waits c' sc hdl)
    then show "done_tx ns c x \<Longrightarrow> done_tx ns' c x" using deposit_handler.keeps_done [OF hk] by blast
  next
    case (accepts c' sc hdl p ns1)
    assume "done_tx ns c x"
    with deposit_handler.keeps_done [OF hk [OF accepts(3)] accepts(4)] have "done_tx ns1 c x" by blast
    with make_target_keeps [OF assms(2) accepts(5)] show "done_tx ns' c x" by blast
  qed
  from assms(3) show "\<not> done_tx ns c x \<and> done_tx ns' c x" if "(c, x) \<in> set (accepted_deposit env oe main lib ns)"
  proof (cases rule: ImportExTransfer_Inr)
    case (waits c' sc hdl)
    with that show ?thesis by (simp add: accepted_deposit_def)
  next
    case (accepts c' sc hdl p ns1)
    with that have e: "c = c'" "x = CrossChainID p" by (simp_all add: accepted_deposit_def)
    from deposit_handler.accepts_new [OF hk [OF accepts(3)] accepts(4)] accepts(1)
    have "\<not> done_tx ns c x" "done_tx ns1 c x" by (auto simp: e)
    with make_target_keeps [OF assms(2) accepts(5)] show ?thesis by blast
  qed
  show "length (accepted_deposit env oe main lib ns) \<le> 1"
    by (simp add: accepted_deposit_def split: option.splits sum.splits prod.splits)
qed

text \<open>
  Calls of the contract in any order, with anything between them that removes no mark; the accepted deposits are
  logged.
\<close>

inductive import_run :: "Env \<Rightarrow> OntEnv \<Rightarrow> NodeConfig \<Rightarrow> ChainLib \<Rightarrow> NativeService \<Rightarrow> (uint64 \<times> bytes) list \<Rightarrow> NativeService \<Rightarrow> bool"
  for env oe cfg lib ns0 where
  start: "import_run env oe cfg lib ns0 [] ns0"
| import: "import_run env oe cfg lib ns0 log ns \<Longrightarrow> ImportExTransfer env oe cfg lib ns = Inr (r, ns') \<Longrightarrow>
    import_run env oe cfg lib ns0 (log @ accepted_deposit env oe cfg lib ns) ns'"
| black: "import_run env oe cfg lib ns0 log ns \<Longrightarrow> BlackChain env ns = Inr (r, ns') \<Longrightarrow> import_run env oe cfg lib ns0 log ns'"
| white: "import_run env oe cfg lib ns0 log ns \<Longrightarrow> WhiteChain env ns = Inr (r, ns') \<Longrightarrow> import_run env oe cfg lib ns0 log ns'"
| sign: "import_run env oe cfg lib ns0 log ns \<Longrightarrow>
    btc_MultiSign lib ns = Inr ns' \<or> ripple_MultiSign lib ns = Inr ns' \<or> ripple_ReconstructTx lib ns = Inr ns' \<Longrightarrow>
    import_run env oe cfg lib ns0 log ns'"
| other: "import_run env oe cfg lib ns0 log ns \<Longrightarrow> \<forall>c x. done_tx ns c x \<longrightarrow> done_tx ns' c x \<Longrightarrow>
    import_run env oe cfg lib ns0 log ns'"

end
