(* ===== verification/Ont_Claims.thy ===== *)
theory Ont_Claims
  imports Ont_Sync Sample_States
begin

text \<open>
  The properties of the ontology light client: what it stores stays readable, a header is checked against the
  peers of the last key height below it, and one peer is enough for a cross-chain message.
\<close>

section \<open>The invariant of the store\<close>

text \<open>
  The records of a chain decode: at most \<open>n\<close> key heights, sorted downwards, each with the consensus peers stored
  for it.
\<close>

definition ont_typed :: "nat \<Rightarrow> NativeService \<Rightarrow> uint64 \<Rightarrow> bool" where
  "ont_typed n ns c \<longleftrightarrow> (\<exists>hl. GetKeyHeights ns c = Inr hl \<and> sorted_wrt (\<ge>) hl \<and> length hl \<le> n \<and>
     (\<forall>v \<in> set hl. \<exists>p. getConsensusPeersByHeight ns c v = Inr p \<and> cp_ChainID p = c \<and> cp_Height p = v \<and>
        peers_ok (PeerMap p)))"

lemma ont_typed_mono: "ont_typed m ns c \<Longrightarrow> m \<le> n \<Longrightarrow> ont_typed n ns c"
  unfolding ont_typed_def by (meson order_trans)

text \<open>The keys the invariant depends on.\<close>

definition ont_key :: "uint64 \<Rightarrow> bytes \<Rightarrow> bool" where
  "ont_key c k \<longleftrightarrow> k = hkey [KEY_HEIGHTS, GetUint64Bytes c] \<or>
     (\<exists>v. k = hkey [CONSENSUS_PEER, GetUint64Bytes c, GetUint32Bytes v])"

lemma ont_typed_frame:
  assumes "\<And>k. ont_key c k \<Longrightarrow> db_Get ns' k = db_Get ns k"
  shows "ont_typed n ns' c \<longleftrightarrow> ont_typed n ns c"
proof -
  have "GetKeyHeights ns' c = GetKeyHeights ns c"
    unfolding GetKeyHeights_def using assms by (subst load_item_cong [of ns' _ ns]) (auto simp: ont_key_def)
  moreover have "getConsensusPeersByHeight ns' c v = getConsensusPeersByHeight ns c v" for v
    unfolding getConsensusPeersByHeight_def using assms by (subst load_item_cong [of ns' _ ns]) (auto simp: ont_key_def)
  ultimately show ?thesis by (simp add: ont_typed_def)
qed

lemma peer_key_block:
  "hkey [CONSENSUS_PEER, GetUint64Bytes c, GetUint32Bytes v] \<noteq> hkey [CONSENSUS_PEER_BLOCK_HEIGHT, GetUint64Bytes d, GetUint32Bytes w]"
proof
  assume "hkey [CONSENSUS_PEER, GetUint64Bytes c, GetUint32Bytes v]
    = hkey [CONSENSUS_PEER_BLOCK_HEIGHT, GetUint64Bytes d, GetUint32Bytes w]"
  then have "length (concat [CONSENSUS_PEER, GetUint64Bytes c, GetUint32Bytes v])
      = length (concat [CONSENSUS_PEER_BLOCK_HEIGHT, GetUint64Bytes d, GetUint32Bytes w])"
    unfolding ConcatKey_eq by (rule arg_cong)
  then show False by (simp add: str_def)
qed

lemma ont_key_other:
  "\<not> ont_key c (hkey [BLOCK_HEADER, d, x])" "\<not> ont_key c (hkey [HEADER_INDEX, d, x])"
  "\<not> ont_key c (hkey [CURRENT_HEADER_HEIGHT, d])" "\<not> ont_key c (hkey [CROSS_CHAIN_MSG, d, x])"
  "\<not> ont_key c (hkey [CURRENT_MSG_HEIGHT, d])"
  "\<not> ont_key c (hkey [CONSENSUS_PEER_BLOCK_HEIGHT, GetUint64Bytes e, GetUint32Bytes w])"
  using peer_key_block by (simp_all add: ont_key_def key_simps) (auto simp: key_simps eq_commute)

lemma PutBlockHeader_typed: "ont_typed n (PutBlockHeader oe cfg d blk ns) c \<longleftrightarrow> ont_typed n ns c"
  by (rule ont_typed_frame) (auto simp: PutBlockHeader_def Let_def store_simps ont_key_other)

lemma PutCrossChainMsg_typed: "ont_typed n (PutCrossChainMsg oe cfg d m ns) c \<longleftrightarrow> ont_typed n ns c"
  by (rule ont_typed_frame) (auto simp: PutCrossChainMsg_def Let_def store_simps ont_key_other)

subsection \<open>New consensus peers\<close>

lemma hkey_inject:
  "hkey [KEY_HEIGHTS, GetUint64Bytes c] = hkey [KEY_HEIGHTS, GetUint64Bytes d] \<longleftrightarrow> c = d"
  "hkey [CONSENSUS_PEER, GetUint64Bytes c, GetUint32Bytes v] = hkey [CONSENSUS_PEER, GetUint64Bytes d, GetUint32Bytes w]
    \<longleftrightarrow> c = d \<and> v = w"
  "hkey [KEY_HEIGHTS, GetUint64Bytes c] \<noteq> hkey [CONSENSUS_PEER, x, y]"
  "hkey [CONSENSUS_PEER, x, y] \<noteq> hkey [KEY_HEIGHTS, GetUint64Bytes c]"
  "hkey [KEY_HEIGHTS, GetUint64Bytes c] \<noteq> hkey [CONSENSUS_PEER_BLOCK_HEIGHT, x, y]"
  by (auto simp: key_simps append_eq_append_conv)

lemma length_enc_varuint_le: "length (enc_varuint n) \<le> 9"
  by (simp add: enc_varuint_def)

lemma length_KeyHeights: "length (KeyHeights_Serialization hl) \<le> 9 + 4 * length hl"
proof -
  have "length (concat (map enc_uint32 hs)) = 4 * length hs" for hs
    by (induction hs) (simp_all add: enc_uint32_def)
  then show ?thesis using length_enc_varuint_le [of "of_nat (length hl)"] by (simp add: KeyHeights_Serialization_def Let_def)
qed

lemma GetKeyHeights_Put:
  assumes "length hl < 2 ^ 58"
  shows "GetKeyHeights (PutKeyHeights c hl ns) d = (if d = c then Inr (sort_desc (\<lambda>v. v) hl) else GetKeyHeights ns d)"
proof -
  have "length (KeyHeights_Serialization hl) < 2 ^ 62" using length_KeyHeights [of hl] assms by simp
  with KeyHeights_read [of hl] assms show ?thesis
    by (cases "d = c") (simp_all add: GetKeyHeights_def PutKeyHeights_def load_item_def store_simps hkey_inject)
qed

lemma putConsensusPeers_heights:
  assumes "putConsensusPeers p ns = Inr ns'" "GetKeyHeights ns (cp_ChainID p) = Inr hl" "Suc (length hl) < 2 ^ 58"
  shows "GetKeyHeights ns' c = (if c = cp_ChainID p then Inr (sort_desc (\<lambda>v. v) (hl @ [cp_Height p])) else GetKeyHeights ns c)"
proof -
  let ?ns1 = "db_Put (hkey [CONSENSUS_PEER_BLOCK_HEIGHT, GetUint64Bytes (cp_ChainID p), GetUint32Bytes (cp_Height p)])
      (GenRawStorageItem (GetUint32Bytes (height ns)))
      (db_Put (hkey [CONSENSUS_PEER, GetUint64Bytes (cp_ChainID p), GetUint32Bytes (cp_Height p)])
        (GenRawStorageItem (ConsensusPeers_Serialization p)) ns)"
  have k: "GetKeyHeights ?ns1 e = GetKeyHeights ns e" for e
    by (simp add: GetKeyHeights_def store_simps hkey_inject)
  then have "ns' = PutKeyHeights (cp_ChainID p) (hl @ [cp_Height p]) ?ns1"
    using assms(1,2) by (simp add: putConsensusPeers_def Let_def)
  with k assms(3) show ?thesis by (simp add: GetKeyHeights_Put)
qed

lemma putConsensusPeers_peers:
  assumes "putConsensusPeers p ns = Inr ns'" "peers_ok (PeerMap p)" "length (ConsensusPeers_Serialization p) < 2 ^ 62"
  shows "getConsensusPeersByHeight ns' c v = (if c = cp_ChainID p \<and> v = cp_Height p
    then Inr (p\<lparr>PeerMap := keyed_canon p_PeerPubkey (PeerMap p)\<rparr>) else getConsensusPeersByHeight ns c v)"
proof -
  obtain hl where "ns' = PutKeyHeights (cp_ChainID p) hl
      (db_Put (hkey [CONSENSUS_PEER_BLOCK_HEIGHT, GetUint64Bytes (cp_ChainID p), GetUint32Bytes (cp_Height p)])
        (GenRawStorageItem (GetUint32Bytes (height ns)))
        (db_Put (hkey [CONSENSUS_PEER, GetUint64Bytes (cp_ChainID p), GetUint32Bytes (cp_Height p)])
          (GenRawStorageItem (ConsensusPeers_Serialization p)) ns))"
    using assms(1) by (auto simp: putConsensusPeers_def Let_def)
  then show ?thesis
    using ConsensusPeers_read [OF assms(2)] assms(3)
    by (simp add: getConsensusPeersByHeight_def PutKeyHeights_def load_item_def store_simps hkey_inject peer_key_block)
qed

lemma putConsensusPeers_typed:
  assumes "ont_typed n ns c" "putConsensusPeers p ns = Inr ns'" "peers_ok (PeerMap p)"
    and "length (ConsensusPeers_Serialization p) < 2 ^ 62" "Suc n < 2 ^ 58"
  shows "ont_typed (Suc n) ns' c"
proof -
  obtain hl where hl: "GetKeyHeights ns c = Inr hl" "sorted_wrt (\<ge>) hl" "length hl \<le> n"
    and old: "\<And>v. v \<in> set hl \<Longrightarrow> \<exists>p. getConsensusPeersByHeight ns c v = Inr p \<and> cp_ChainID p = c \<and> cp_Height p = v \<and>
        peers_ok (PeerMap p)"
    using assms(1) by (auto simp: ont_typed_def)
  note peers = putConsensusPeers_peers [OF assms(2-4)]
  show ?thesis
  proof (cases "c = cp_ChainID p")
    case False
    then have "GetKeyHeights ns' c = Inr hl"
      using hl(1) assms(2) by (auto simp: putConsensusPeers_def Let_def PutKeyHeights_def GetKeyHeights_def store_simps hkey_inject)
    with hl old False show ?thesis unfolding ont_typed_def peers by auto
  next
    case True
    let ?hl = "sort_desc (\<lambda>v. v) (hl @ [cp_Height p])"
    have g: "GetKeyHeights ns' c = Inr ?hl"
      using putConsensusPeers_heights [OF assms(2)] hl(1,3) assms(5) True by simp
    have "\<forall>v \<in> set ?hl. \<exists>q. getConsensusPeersByHeight ns' c v = Inr q \<and> cp_ChainID q = c \<and> cp_Height q = v \<and>
        peers_ok (PeerMap q)"
      using old True keyed_ok_canon [OF assms(3)] by (auto simp: peers)
    moreover have "sorted_wrt (\<ge>) ?hl" by (rule sorted_sort_desc)
    ultimately show ?thesis using g hl(3) unfolding ont_typed_def by auto
  qed
qed

text \<open>What is assumed of the JSON reader: the peers it returns fit in memory.\<close>

definition lib_ok :: "OntEnv \<Rightarrow> bool" where
  "lib_ok oe \<longleftrightarrow> (\<forall>b info cc. json_BlockInfo oe b = Some info \<and> NewChainConfig info = Some cc \<longrightarrow>
     length (cc_Peers cc) < 2 ^ 56 \<and> (\<Sum>p \<leftarrow> cc_Peers cc. length (pc_ID (the p))) < 2 ^ 56)"

lemma sum_update: "(\<Sum>e \<leftarrow> AList.update k v m. f (snd e)) \<le> (\<Sum>e \<leftarrow> m. f (snd e)) + (f v :: nat)"
  by (induction m) auto

lemma sum_map_by: "(\<Sum>e \<leftarrow> map_by key vs. f (snd e)) \<le> (\<Sum>v \<leftarrow> vs. f v :: nat)"
proof (induction vs rule: rev_induct)
  case (snoc v vs)
  have u: "map_by key (vs @ [v]) = AList.update (key v) v (map_by key vs)" by (simp add: map_by_def)
  from sum_update [of f "key v" v "map_by key vs"] snoc show ?case unfolding u by simp
qed (simp add: map_by_def)

lemma length_ConsensusPeers:
  "length (ConsensusPeers_Serialization p) \<le> 21 + (\<Sum>e \<leftarrow> PeerMap p. 13 + length (p_PeerPubkey (snd e)))"
proof -
  have 1: "length (Peer_Serialization q) \<le> 13 + length (p_PeerPubkey q)" for q
    using length_enc_varuint_le [of "of_nat (length (p_PeerPubkey q))"] by (simp add: Peer_Serialization_def enc_varbytes_def enc_uint32_def)
  have "length (concat (map Peer_Serialization qs)) \<le> (\<Sum>q \<leftarrow> qs. 13 + length (p_PeerPubkey q))" for qs
    using 1 by (induction qs) (simp_all add: add_mono)
  from this [of "sort_desc p_PeerPubkey (map snd (PeerMap p))"]
  have "length (concat (map Peer_Serialization (sort_desc p_PeerPubkey (map snd (PeerMap p)))))
      \<le> (\<Sum>q \<leftarrow> map snd (PeerMap p). 13 + length (p_PeerPubkey q))"
    by (simp only: sum_mset_sum_list [symmetric] mset_map mset_SliceStable)
  moreover have "length (enc_varuint (of_nat (length (PeerMap p)))) \<le> 9" by (rule length_enc_varuint_le)
  ultimately show ?thesis
    by (simp add: ConsensusPeers_Serialization_def keyed_ser_def enc_uint64_def enc_uint32_def comp_def)
qed

lemma UpdateConsensusPeer_typed:
  assumes "ont_typed n ns c" "UpdateConsensusPeer oe d blk ns = Inr ns'" "lib_ok oe" "Suc n < 2 ^ 58"
  shows "ont_typed (Suc n) ns' c"
proof -
  obtain info where i: "json_BlockInfo oe (ConsensusPayload blk) = Some info"
    using assms(2) by (cases "json_BlockInfo oe (ConsensusPayload blk)") (auto simp: UpdateConsensusPeer_def)
  show ?thesis
  proof (cases "NewChainConfig info")
    case None
    with i assms(1,2) show ?thesis by (simp add: UpdateConsensusPeer_def ont_typed_mono)
  next
    case (Some cc)
    let ?vs = "map (\<lambda>p. \<lparr>p_Index = pc_Index (the p), p_PeerPubkey = pc_ID (the p)\<rparr>) (cc_Peers cc)"
    let ?p = "\<lparr>cp_ChainID = d, cp_Height = oh_Height blk, PeerMap = map_by p_PeerPubkey ?vs\<rparr>"
    have put: "putConsensusPeers ?p ns = Inr ns'"
      using i Some assms(2) by (simp add: UpdateConsensusPeer_def split: if_splits)
    have l: "length (cc_Peers cc) < 2 ^ 56" "(\<Sum>p \<leftarrow> cc_Peers cc. length (pc_ID (the p))) < 2 ^ 56"
      using assms(3) i Some by (auto simp: lib_ok_def)
    have m: "length (pc_ID (the q)) < 2 ^ 63" if "q \<in> set (cc_Peers cc)" for q
    proof -
      have "length (pc_ID (the q)) \<le> (\<Sum>p \<leftarrow> cc_Peers cc. length (pc_ID (the p)))"
        using that by (intro member_le_sum_list) simp_all
      with l(2) show ?thesis by simp
    qed
    have ok: "peers_ok (map_by p_PeerPubkey ?vs)"
      by (rule keyed_ok_map_by) (use l(1) m in simp_all)
    have "(\<Sum>v \<leftarrow> ?vs. 13 + length (p_PeerPubkey v)) = 13 * length (cc_Peers cc) + (\<Sum>p \<leftarrow> cc_Peers cc. length (pc_ID (the p)))"
      by (simp add: comp_def sum_list_addf sum_list_triv)
    then have "(\<Sum>e \<leftarrow> map_by p_PeerPubkey ?vs. 13 + length (p_PeerPubkey (snd e))) < 14 * 2 ^ 56"
      using sum_map_by [of "\<lambda>v. 13 + length (p_PeerPubkey v)" p_PeerPubkey ?vs] l by linarith
    then have "length (ConsensusPeers_Serialization ?p) < 2 ^ 62"
      using length_ConsensusPeers [of ?p] by simp
    with putConsensusPeers_typed [OF assms(1) put _ _ assms(4)] ok show ?thesis by simp
  qed
qed

section \<open>Runs\<close>

lemma ont_SyncGenesisHeader_typed:
  assumes "ont_typed n ns c" "ont_SyncGenesisHeader env oe cfg ns = Inr ns'" "lib_ok oe" "Suc n < 2 ^ 58"
  shows "ont_typed (Suc n) ns' c"
proof -
  obtain d blk where "UpdateConsensusPeer oe d blk (PutBlockHeader oe cfg d blk ns) = Inr ns'"
    using assms(2) by (auto simp: ont_SyncGenesisHeader_def split: if_splits)
  from UpdateConsensusPeer_typed [OF _ this assms(3,4)] assms(1) show ?thesis by (simp add: PutBlockHeader_typed)
qed

lemma sync_headers_typed:
  assumes "ont_typed n ns c" "sync_headers env oe cfg d vs ns = Inr ns'" "lib_ok oe" "n + length vs < 2 ^ 58"
  shows "ont_typed (n + length vs) ns' c"
  using assms
proof (induction vs arbitrary: n ns)
  case (Cons v vs)
  obtain blk where b: "o_HeaderFromRawBytes oe v = Some blk"
    using Cons.prems(2) by (cases "o_HeaderFromRawBytes oe v") auto
  show ?case
  proof (cases "GetHeaderByHeight oe ns d (oh_Height blk)")
    case (Inr x)
    have "ont_typed (Suc n) ns c" using Cons.prems(1) by (rule ont_typed_mono) simp
    from Cons.IH [OF this] Cons.prems b Inr show ?thesis by simp
  next
    case (Inl e)
    then obtain ns1 where u: "UpdateConsensusPeer oe d blk (PutBlockHeader oe cfg d blk ns) = Inr ns1"
      and r: "sync_headers env oe cfg d vs ns1 = Inr ns'"
      using Cons.prems(2) b by auto
    have "ont_typed (Suc n) ns1 c"
      using u by (rule UpdateConsensusPeer_typed [rotated]) (use Cons.prems in \<open>simp_all add: PutBlockHeader_typed\<close>)
    from Cons.IH [OF this r] Cons.prems show ?thesis by simp
  qed
qed simp

lemma sync_msgs_typed:
  assumes "ont_typed n ns c" "sync_msgs env oe cfg d vs ns = Inr ns'"
  shows "ont_typed n ns' c"
  using assms
proof (induction vs arbitrary: ns)
  case (Cons v vs)
  obtain m bs where b: "read_signed_msg env oe ''SyncCrossChainMsg'' v = Inr (m, bs)"
    using Cons.prems(2) by (cases "read_signed_msg env oe ''SyncCrossChainMsg'' v") auto
  show ?case
  proof (cases "GetCrossChainMsg oe ns d (cm_Height m)")
    case (Inr x)
    from Cons.IH Cons.prems b Inr show ?thesis by simp
  next
    case (Inl e)
    then have "sync_msgs env oe cfg d vs (PutCrossChainMsg oe cfg d m ns) = Inr ns'" using Cons.prems(2) b by auto
    with Cons.IH [of "PutCrossChainMsg oe cfg d m ns"] Cons.prems(1) show ?thesis by (simp add: PutCrossChainMsg_typed)
  qed
qed simp

text \<open>
  Successful calls of the handler in any order, with anything between them that leaves the contract's records
  alone (a failed call among it, whose writes are discarded).  The number counts the headers sent.
\<close>

inductive ont_run :: "Env \<Rightarrow> OntEnv \<Rightarrow> NodeConfig \<Rightarrow> NativeService \<Rightarrow> nat \<Rightarrow> NativeService \<Rightarrow> bool"
  for env oe cfg ns0 where
  start: "ont_run env oe cfg ns0 0 ns0"
| genesis: "ont_run env oe cfg ns0 n ns \<Longrightarrow> ont_SyncGenesisHeader env oe cfg ns = Inr ns' \<Longrightarrow>
    ont_run env oe cfg ns0 (Suc n) ns'"
| headers: "ont_run env oe cfg ns0 n ns \<Longrightarrow> parse_input SyncBlockHeaderParam_Deserialization e ns = Inr params \<Longrightarrow>
    ont_SyncBlockHeader env oe cfg ns = Inr ns' \<Longrightarrow> ont_run env oe cfg ns0 (n + length (Headers params)) ns'"
| msgs: "ont_run env oe cfg ns0 n ns \<Longrightarrow> ont_SyncCrossChainMsg env oe cfg ns = Inr ns' \<Longrightarrow> ont_run env oe cfg ns0 n ns'"
| other: "ont_run env oe cfg ns0 n ns \<Longrightarrow> \<forall>k. db_Get ns' (hkey k) = db_Get ns (hkey k) \<Longrightarrow> ont_run env oe cfg ns0 n ns'"

lemma ont_run_typed:
  assumes "ont_run env oe cfg ns0 n ns" "lib_ok oe" "GetKeyHeights ns0 c = Inr []" "n < 2 ^ 58"
  shows "ont_typed n ns c"
  using assms(1,4)
proof induction
  case start
  show ?case using assms(3) by (simp add: ont_typed_def)
next
  case (genesis n ns ns')
  from genesis.IH genesis.prems have "ont_typed n ns c" by simp
  from ont_SyncGenesisHeader_typed [OF this genesis.hyps(2) assms(2) genesis.prems] show ?case .
next
  case (headers n ns e params ns')
  have "sync_headers env oe cfg (sb_ChainID params) (Headers params) ns = Inr ns'"
    using headers.hyps(3) parse_any [OF headers.hyps(2)] by (simp add: ont_SyncBlockHeader_def)
  from sync_headers_typed [OF _ this assms(2) headers.prems] headers.IH headers.prems show ?case by simp
next
  case (msgs n ns ns')
  from msgs.hyps(2) obtain d vs where "sync_msgs env oe cfg d vs ns = Inr ns'"
    by (auto simp: ont_SyncCrossChainMsg_def)
  from sync_msgs_typed [OF msgs.IH [OF msgs.prems] this] show ?case .
next
  case (other n ns ns')
  then have "db_Get ns' k = db_Get ns k" if "ont_key c k" for k using that by (auto simp: ont_key_def)
  from ont_typed_frame [of c ns' ns n, OF this] other.IH [OF other.prems] show ?case by simp
qed

section \<open>What verification checks\<close>

lemma find_desc:
  assumes "sorted_wrt (\<ge>) hl"
  shows "find (\<lambda>v. h > v) hl = Some v \<longleftrightarrow> v \<in> set hl \<and> v < h \<and> (\<forall>w \<in> set hl. w < h \<longrightarrow> w \<le> (v :: 'a :: linorder))"
  using assms by (induction hl) (auto intro: order.antisym)

lemma check_bookkeepers_iff:
  "check_bookkeepers env peers bs used \<longleftrightarrow> (\<forall>b \<in> set bs. PubkeyID env b \<in> fst ` set peers) \<and>
     distinct (map (PubkeyID env) bs) \<and> set (map (PubkeyID env) bs) \<inter> set used = {}"
  by (induction bs arbitrary: used) (auto simp: Let_def map_of_eq_None_iff)

section \<open>A sample chain\<close>

text \<open>A library whose headers are as high as their bytes are many and name four peers.\<close>

definition plain_ont :: OntEnv where
  "plain_ont = \<lparr>o_msg_Deserialization = (\<lambda>b. None), o_msg_Serialization = (\<lambda>m. StatesRoot m), o_msg_Hash = (\<lambda>m. StatesRoot m),
     o_NextVarUint = (\<lambda>b. None), o_NextVarBytes = (\<lambda>b. None),
     o_HeaderFromRawBytes = (\<lambda>b. Some \<lparr>oh_Height = of_nat (length b), ConsensusPayload = b, Bookkeepers = [], oh_SigData = []\<rparr>),
     o_header_Deserialization = (\<lambda>b. None), o_header_Serialization = ConsensusPayload, o_header_Hash = ConsensusPayload,
     o_HashToHexString = (\<lambda>b. b),
     o_VerifyMultiSignature = (\<lambda>data keys m sigs. m \<le> length keys \<and> m \<le> length sigs \<and> list_all (\<lambda>s. s = data) (take m sigs)),
     json_BlockInfo = (\<lambda>b. Some \<lparr>bi_Proposer = 0, bi_VrfValue = [], bi_VrfProof = [], bi_LastConfigBlockNum = 0,
       NewChainConfig = Some \<lparr>cc_Version = 1, cc_View = 1, cc_N = 4, cc_C = 1, cc_BlockMsgDelay = 0, cc_HashMsgDelay = 0,
         cc_PeerHandshakeTimeout = 0, cc_Peers = map (\<lambda>s. Some \<lparr>pc_Index = 1, pc_ID = str s\<rparr>) [''aa'', ''bb'', ''cc'', ''dd''],
         cc_PosTable = [], cc_MaxBlockChangeView = 0\<rparr>\<rparr>)\<rparr>"

definition quiet_cfg :: NodeConfig where
  "quiet_cfg = \<lparr>NetworkId = 1, EXTRA_INFO_HEIGHT_FORK_CHECK = False, CurrentBlockHeight = 0, EnableEventLog = False\<rparr>"

definition genesis_call :: NativeService where
  "genesis_call = solo_call 2 [] (SyncGenesisHeaderParam_Serialization \<lparr>sg_ChainID = 7, GenesisHeader = [1, 2, 3]\<rparr>)"

lemma lib_ok_plain: "lib_ok plain_ont"
  by (simp add: lib_ok_def plain_ont_def str_def)

lemma genesis_call_parse:
  "parse_input SyncGenesisHeaderParam_Deserialization e genesis_call = Inr \<lparr>sg_ChainID = 7, GenesisHeader = [1, 2, 3]\<rparr>"
  using rd_genesis.decode_encode [of "\<lparr>sg_ChainID = 7, GenesisHeader = [1, 2, 3]\<rparr>"]
  by (simp add: parse_input_def genesis_call_def solo_call_fields SyncGenesisHeaderParam_Serialization_def
      enc_uint64_def enc_varbytes_def enc_varuint_def)

lemma genesis_call_operator:
  "GetCurConOperator plain_env genesis_call = Inr solo" "ValidateOwner env genesis_call solo"
  by (simp_all add: genesis_call_def solo_owner GetCurConOperator_def GetView_def solo_call_gets)
    (simp add: sample_view_def solo_call_gets pool1_def sample_peer_def str_aa plain_env_def AddressFromBookkeepers_def
      AddressFromPubKey_def AddressFromVmCode_def solo_def)

lemma genesis_call_empty: "GetKeyHeights genesis_call c = Inr []"
  by (simp add: GetKeyHeights_def load_item_def genesis_call_def solo_call_def solo_call_base)

definition sample_peers :: ConsensusPeers where
  "sample_peers = \<lparr>cp_ChainID = 7, cp_Height = 3,
     PeerMap = map (\<lambda>s. (str s, \<lparr>p_Index = 1, p_PeerPubkey = str s\<rparr>)) [''aa'', ''bb'', ''cc'', ''dd'']\<rparr>"

lemma sample_peers_ok: "peers_ok (PeerMap sample_peers)" "length (ConsensusPeers_Serialization sample_peers) < 2 ^ 62"
  using length_ConsensusPeers [of sample_peers] by (simp_all add: sample_peers_def keyed_ok_def str_def)

lemma genesis_done:
  obtains ns p where "ont_SyncGenesisHeader plain_env plain_ont quiet_cfg genesis_call = Inr ns"
    "GetKeyHeights ns 7 = Inr [3]" "getConsensusPeersByHeight ns 7 3 = Inr p" "peers_ok (PeerMap p)"
    "length (PeerMap p) = 4" "set (PeerMap p) = set (PeerMap sample_peers)"
proof -
  let ?blk = "\<lparr>oh_Height = 3, ConsensusPayload = [1, 2, 3], Bookkeepers = [], oh_SigData = []\<rparr> :: OntHeader"
  let ?ns = "PutBlockHeader plain_ont quiet_cfg 7 ?blk genesis_call"
  have k: "GetKeyHeights ?ns 7 = Inr []"
    using genesis_call_empty [of 7]
    by (simp add: PutBlockHeader_def Let_def GetKeyHeights_def quiet_cfg_def NotifyPutHeader_def store_simps key_simps)
  have "map_by p_PeerPubkey (map snd (PeerMap sample_peers)) = PeerMap sample_peers"
    by (simp add: map_by_distinct sample_peers_def str_def)
  then have u: "UpdateConsensusPeer plain_ont 7 ?blk ?ns = putConsensusPeers sample_peers ?ns"
    by (simp add: UpdateConsensusPeer_def plain_ont_def sample_peers_def)
  obtain ns where put: "putConsensusPeers sample_peers ?ns = Inr ns"
    using k by (simp add: putConsensusPeers_def Let_def sample_peers_def GetKeyHeights_def store_simps hkey_inject)
  have g: "GetKeyHeights ns 7 = Inr [3]"
    using putConsensusPeers_heights [OF put, of "[]" 7] k by (simp add: sample_peers_def SliceStable_def)
  have p: "getConsensusPeersByHeight ns 7 3 = Inr (sample_peers\<lparr>PeerMap := keyed_canon p_PeerPubkey (PeerMap sample_peers)\<rparr>)"
    using putConsensusPeers_peers [OF put sample_peers_ok, of 7 3] by (simp add: sample_peers_def)
  have s: "ont_SyncGenesisHeader plain_env plain_ont quiet_cfg genesis_call = Inr ns"
    using u put by (simp add: ont_SyncGenesisHeader_def genesis_call_parse genesis_call_operator) (simp add: plain_ont_def)
  have "set (keyed_canon p_PeerPubkey (PeerMap sample_peers)) = set (PeerMap sample_peers)"
    using mset_keyed_canon [OF sample_peers_ok(1)] by (metis set_mset_mset)
  with that [OF s g p] keyed_ok_canon [OF sample_peers_ok(1)] show ?thesis
    by (simp add: keyed_canon_def) (simp add: sample_peers_def)
qed

section \<open>Properties\<close>

text \<open>
  C17 (type): along every run of the light client what it has stored for a chain decodes to the types the code
  expects: the key heights are a list sorted downwards, and under every one of them there is a record of consensus
  peers with that chain and height whose map has every peer under its own key.
\<close>

theorem ont_store_typed:
  assumes "ont_run env oe cfg ns0 n ns" "n < 2 ^ 58" "lib_ok oe" "GetKeyHeights ns0 c = Inr []"
  shows "\<exists>hl. GetKeyHeights ns c = Inr hl \<and> sorted_wrt (\<ge>) hl \<and> length hl \<le> n \<and>
    (\<forall>v \<in> set hl. \<exists>p. getConsensusPeersByHeight ns c v = Inr p \<and> cp_ChainID p = c \<and> cp_Height p = v \<and>
       distinct (map fst (PeerMap p)) \<and> (\<forall>(k, q) \<in> set (PeerMap p). k = p_PeerPubkey q))"
  using ont_run_typed [OF assms(1,3,4,2)] unfolding ont_typed_def keyed_ok_def by fast

theorem ont_store_typed_witness:
  "\<exists>ns hl. ont_run plain_env plain_ont quiet_cfg genesis_call 1 ns \<and> GetKeyHeights ns 7 = Inr hl \<and> 3 \<in> set hl \<and>
    sorted_wrt (\<ge>) hl"
proof -
  obtain ns p where g: "ont_SyncGenesisHeader plain_env plain_ont quiet_cfg genesis_call = Inr ns" "GetKeyHeights ns 7 = Inr [3]"
    by (rule genesis_done) blast
  have r: "ont_run plain_env plain_ont quiet_cfg genesis_call (Suc 0) ns" by (rule ont_run.genesis [OF ont_run.start g(1)])
  from ont_store_typed [OF r _ lib_ok_plain genesis_call_empty, of 7] g(2) r show ?thesis by auto
qed

text \<open>
  C18 (functional): on every state the light client reaches, a header is accepted exactly when the key heights
  below it are not empty and its bookkeepers are different peers of the largest of them, at least a third of that
  height's peers, whose signatures the library accepts.
\<close>

theorem header_accepted_iff:
  assumes "ont_run env oe cfg ns0 n ns" "n < 2 ^ 58" "lib_ok oe" "GetKeyHeights ns0 c = Inr []"
  shows "verifyHeader env oe ns c blk = Inr () \<longleftrightarrow>
    (\<exists>hl v p. GetKeyHeights ns c = Inr hl \<and> v \<in> set hl \<and> v < oh_Height blk \<and>
       (\<forall>w \<in> set hl. w < oh_Height blk \<longrightarrow> w \<le> v) \<and> getConsensusPeersByHeight ns c v = Inr p \<and>
       length (PeerMap p) \<le> 3 * length (Bookkeepers blk) \<and>
       distinct (map (PubkeyID env) (Bookkeepers blk)) \<and>
       PubkeyID env ` set (Bookkeepers blk) \<subseteq> fst ` set (PeerMap p) \<and>
       o_VerifyMultiSignature oe (o_header_Hash oe blk) (Bookkeepers blk) (length (Bookkeepers blk)) (oh_SigData blk))"
proof -
  obtain hl where hl: "GetKeyHeights ns c = Inr hl" "sorted_wrt (\<ge>) hl"
    using ont_run_typed [OF assms(1,3,4,2)] by (auto simp: ont_typed_def)
  have f: "FindKeyHeight ns (oh_Height blk) c = Inr v \<longleftrightarrow>
      v \<in> set hl \<and> v < oh_Height blk \<and> (\<forall>w \<in> set hl. w < oh_Height blk \<longrightarrow> w \<le> v)" for v
    unfolding find_desc [OF hl(2), symmetric] by (simp add: FindKeyHeight_def hl(1) orelse_err_eq_Inr)
  show ?thesis
    unfolding verifyHeader_def ebind_eq_Inr f hl(1)
    by (auto simp: check_bookkeepers_iff mult.commute not_less image_subset_iff)
qed

theorem header_accepted_iff_witness:
  "\<exists>ns. ont_run plain_env plain_ont quiet_cfg genesis_call 1 ns \<and> verifyHeader plain_env plain_ont ns 7
    \<lparr>oh_Height = 5, ConsensusPayload = [9], Bookkeepers = [[0xAA], [0xBB]], oh_SigData = [[9], [9]]\<rparr> = Inr ()"
proof -
  obtain ns p where g: "ont_SyncGenesisHeader plain_env plain_ont quiet_cfg genesis_call = Inr ns" "GetKeyHeights ns 7 = Inr [3]"
    and p: "getConsensusPeersByHeight ns 7 3 = Inr p" "length (PeerMap p) = 4" "set (PeerMap p) = set (PeerMap sample_peers)"
    by (rule genesis_done) blast
  have r: "ont_run plain_env plain_ont quiet_cfg genesis_call (Suc 0) ns" by (rule ont_run.genesis [OF ont_run.start g(1)])
  have n: "Suc 0 < 2 ^ 58" by simp
  have a: "PubkeyID plain_env [0xAA] = str ''aa''" "PubkeyID plain_env [0xBB] = str ''bb''" by code_simp+
  have b: "str ''aa'' \<noteq> str ''bb''" by (simp add: key_simps)
  have "verifyHeader plain_env plain_ont ns 7
      \<lparr>oh_Height = 5, ConsensusPayload = [9], Bookkeepers = [[0xAA], [0xBB]], oh_SigData = [[9], [9]]\<rparr> = Inr ()"
    unfolding header_accepted_iff [OF r n lib_ok_plain genesis_call_empty]
    by (rule exI [of _ "[3]"], rule exI [of _ 3], rule exI [of _ p]) (use g p a b in \<open>simp add: sample_peers_def plain_ont_def\<close>)
  with r show ?thesis by auto
qed

text \<open>
  C35 (error): for a cross-chain message it is not checked that the bookkeepers are different.  One consensus peer
  that is named often enough is accepted as signers of a third of the peers, whatever their number; a header with
  the same bookkeepers is refused.
\<close>

theorem one_peer_signs_for_all:
  assumes "FindKeyHeight ns (cm_Height msg) c = Inr v" "getConsensusPeersByHeight ns c v = Inr p"
    and "map_of (PeerMap p) (PubkeyID env pk) \<noteq> None" "length (PeerMap p) \<le> 3 * k"
    and "k \<le> length (SigData msg)" "\<forall>i < k. verifies pk (o_msg_Hash oe msg) (SigData msg ! i)"
    and "\<And>data keys m sigs. m \<le> length keys \<Longrightarrow> m \<le> length sigs \<Longrightarrow> \<forall>i < m. verifies (keys ! i) data (sigs ! i) \<Longrightarrow>
      o_VerifyMultiSignature oe data keys m sigs"
  shows "VerifyCrossChainMsg env oe ns c msg (replicate k pk) = Inr () \<and>
    (2 \<le> k \<longrightarrow> Bookkeepers blk = replicate k pk \<longrightarrow> verifyHeader env oe ns c blk \<noteq> Inr ())"
proof
  have "o_VerifyMultiSignature oe (o_msg_Hash oe msg) (replicate k pk) k (SigData msg)"
    by (rule assms(7)) (use assms(5,6) in simp_all)
  with assms(1-4) show "VerifyCrossChainMsg env oe ns c msg (replicate k pk) = Inr ()"
    by (simp add: VerifyCrossChainMsg_def)
  show "2 \<le> k \<longrightarrow> Bookkeepers blk = replicate k pk \<longrightarrow> verifyHeader env oe ns c blk \<noteq> Inr ()"
  proof (intro impI notI)
    assume k: "2 \<le> k" and b: "Bookkeepers blk = replicate k pk" and v: "verifyHeader env oe ns c blk = Inr ()"
    then have "distinct (map (PubkeyID env) (replicate k pk))"
      by (auto simp: verifyHeader_def check_bookkeepers_iff split: if_splits)
    moreover from k obtain j where "k = Suc (Suc j)" by (metis add_2_eq_Suc le_Suc_ex)
    ultimately show False by simp
  qed
qed

theorem one_peer_signs_for_all_witness:
  "\<exists>ns p. ont_run plain_env plain_ont quiet_cfg genesis_call 1 ns \<and> getConsensusPeersByHeight ns 7 3 = Inr p \<and>
    length (PeerMap p) = 4 \<and>
    VerifyCrossChainMsg plain_env plain_ont ns 7 \<lparr>cm_Height = 5, StatesRoot = [1], SigData = [[1], [1]]\<rparr> [[0xAA], [0xAA]] = Inr ()"
proof -
  obtain ns p where g: "ont_SyncGenesisHeader plain_env plain_ont quiet_cfg genesis_call = Inr ns" "GetKeyHeights ns 7 = Inr [3]"
    and p: "getConsensusPeersByHeight ns 7 3 = Inr p" "length (PeerMap p) = 4" "set (PeerMap p) = set (PeerMap sample_peers)"
    by (rule genesis_done) blast
  let ?m = "\<lparr>cm_Height = 5, StatesRoot = [1], SigData = [[1], [1]]\<rparr> :: CrossChainMsg"
  have f: "FindKeyHeight ns (cm_Height ?m) 7 = Inr 3" by (simp add: FindKeyHeight_def g(2))
  have a: "PubkeyID plain_env [0xAA] = str ''aa''" by code_simp
  have "VerifyCrossChainMsg plain_env plain_ont ns 7 ?m (replicate 2 [0xAA]) = Inr ()"
    by (rule one_peer_signs_for_all [where verifies = "\<lambda>pk data s. s = data" and blk = undefined, OF f p(1), THEN conjunct1])
      (use p a in \<open>auto simp: plain_ont_def list_all_iff in_set_conv_nth less_2_cases_iff map_of_eq_None_iff sample_peers_def\<close>)
  moreover have "replicate 2 [0xAA :: byte] = [[0xAA], [0xAA]]" by (simp add: numeral_2_eq_2)
  ultimately show ?thesis
    using p ont_run.genesis [OF ont_run.start g(1)] by (auto simp: eval_nat_numeral)
qed

end
