(* ===== verification/Cross_Chain_Claims.thy ===== *)
theory Cross_Chain_Claims
  imports Cross_Chain_Manager Vote_Claims Ont_Claims
begin

text \<open>
  The property of the cross-chain manager as a whole: a deposit of a source chain is accepted at most once.
\<close>

section \<open>A sample import\<close>

text \<open>Chain 9 is registered with the votes of the peers; \<open>solo\<close>, the only peer, votes for a transfer.\<close>

definition voted_chain :: SideChain where
  "voted_chain = \<lparr>sc_Address = solo, sc_ChainId = 9, Router = VOTE_ROUTER, Name = str ''v'', BlocksToWait = 1, CCMCAddress = [],
     ExtraInfo = []\<rparr>"

definition sample_transfer :: MakeTxParam where
  "sample_transfer = \<lparr>mt_TxHash = [1], CrossChainID = [5], FromContractAddress = [2], ToChainID = 9, ToContractAddress = [3],
     mt_Method = str ''unlock'', mt_Args = [4]\<rparr>"

definition sample_entrance :: EntranceParam where
  "sample_entrance = \<lparr>SourceChainID = 9, ep_Height = 20, Proof = [], RelayerAddress = solo,
     Extra = MakeTxParam_Serialization sample_transfer, HeaderOrCrossChainMsg = []\<rparr>"

definition import_call :: NativeService where
  "import_call = solo_call 4 [([SIDE_CHAIN, GetUint64Bytes 9], SideChain_Serialization quiet_cfg voted_chain)]
     (EntranceParam_Serialization sample_entrance)"

definition plain_lib :: ChainLib where
  "plain_lib = \<lparr>cl_verify = (\<lambda>_ _ _ _. Inl ''no proof''), cl_verify_msg = (\<lambda>_ _ _. Inl ''no proof''),
     cl_handler = (\<lambda>_. proof_MakeDepositProposal (\<lambda>_ _. Inl ''no proof'')),
     btc_MakeTransaction = (\<lambda>_ _ ns. Inr ns), ripple_MakeTransaction = (\<lambda>_ _ ns. Inr ns), btc_MultiSign = Inr,
     ripple_MultiSign = Inr, ripple_ReconstructTx = Inr\<rparr>"

lemma plain_lib_keeps: "lib_keeps plain_lib"
  using proofs.deposit_handler_axioms by (auto simp: lib_keeps_def plain_lib_def)

lemma import_call_other:
  assumes "n \<noteq> 4" "n \<noteq> 5"
  shows "db_Get import_call (ConcatKey (contract_address n) xs) = Inr None"
  using assms ConcatKey_contract [of n 4] solo_call_base [of n]
  by (simp add: import_call_def solo_call_def store_simps)

lemma import_call_parse:
  "parse_input EntranceParam_Deserialization e import_call = Inr sample_entrance"
  "MakeTxParam_Deserialization (NewZeroCopySource (Extra sample_entrance)) = Some (sample_transfer, src_at (Extra sample_entrance) [])"
proof -
  have l: "length (MakeTxParam_Serialization sample_transfer) < 100"
    by (simp add: MakeTxParam_Serialization_def sample_transfer_def enc_varbytes_def enc_varuint_def enc_uint64_def str_def)
  have "length (EntranceParam_Serialization sample_entrance) < 200"
    using l by (simp add: EntranceParam_Serialization_def sample_entrance_def enc_varbytes_def enc_varuint_def enc_uint64_def
        enc_uint32_def size_defs)
  then show "parse_input EntranceParam_Deserialization e import_call = Inr sample_entrance"
    using rd_entrance.decode_encode [of sample_entrance] l
    by (simp add: parse_input_def import_call_def solo_call_fields EntranceParam_wf_def sample_entrance_def size_defs)
  show "MakeTxParam_Deserialization (NewZeroCopySource (Extra sample_entrance)) = Some (sample_transfer, src_at (Extra sample_entrance) [])"
    using rd_maketx.decode_encode [of sample_transfer] l
    by (simp add: sample_entrance_def MakeTxParam_wf_def) (simp add: sample_transfer_def str_def)
qed

lemma import_call_chain: "GetSideChain import_call 9 = Inr (Some voted_chain)"
proof -
  have w: "SideChain_wf voted_chain" "length (SideChain_Serialization quiet_cfg voted_chain) < 2 ^ 62"
    "stored_chain quiet_cfg voted_chain = voted_chain"
    by (simp_all add: SideChain_wf_def voted_chain_def SideChain_Serialization_def stored_chain_def extra_info_on_def
        quiet_cfg_def enc_varbytes_def enc_varuint_def enc_uint8_def size_defs str_def)
  from SideChain_read [OF w(1), of quiet_cfg] w obtain src where
    "SideChain_Deserialization (NewZeroCopySource (SideChain_Serialization quiet_cfg voted_chain)) = Some (voted_chain, src)"
    by auto
  with w(2) show ?thesis by (simp add: GetSideChain_def import_call_def solo_call_def load_item_def store_simps)
qed

lemma import_call_vote:
  obtains ns1 where "CheckVotes plain_env i solo import_call = Inr (True, putVoteInfo i ns1 import_call)"
proof -
  have v: "getVoteInfo import_call i = Inr \<lparr>vi_Status = False, vi_Votes = []\<rparr>"
    by (simp add: getVoteInfo_def load_item_def import_call_other)
  have g: "GetGovernanceView import_call = Inr sample_view" "GetPeerPoolMap import_call (View sample_view) = Inr pool1"
    using solo_call_gets [of 4] by (simp_all add: import_call_def) (simp add: sample_view_def)
  have n: "new_votes plain_env solo \<lparr>vi_Status = False, vi_Votes = []\<rparr> pool1 = 1"
    using new_votes_insert [OF vote_call_facts(5,6)] pool1_keys(3) by (simp add: solo_def)
  from CheckVotes_eq [OF v _ g pool1_keys(1), of solo] that show thesis
    by (simp add: vote_call_facts(6) n pool1_keys)
qed

lemma import_call_deposit:
  obtains v i where "vote_MakeDepositProposal plain_env quiet_cfg import_call
    = Inr (Some sample_transfer, PutDoneTx [5] 9 (putVoteInfo i v import_call))"
proof -
  define i where "i = sha256 (EntranceParam_Serialization \<lparr>SourceChainID = SourceChainID sample_entrance,
      ep_Height = ep_Height sample_entrance, Proof = [], RelayerAddress = [], Extra = Extra sample_entrance, HeaderOrCrossChainMsg = []\<rparr>)"
  obtain v where c: "CheckVotes plain_env i solo import_call = Inr (True, putVoteInfo i v import_call)"
    by (rule import_call_vote)
  have "\<not> done_tx (putVoteInfo i v import_call) 9 [5]"
    by (simp add: putVoteInfo_done) (simp add: done_tx_def import_call_other)
  then have d: "CheckDoneTx [5] 9 (putVoteInfo i v import_call) = Inr ()" using CheckDoneTx_Inr by blast
  have a: "AddressParseFromBytes (RelayerAddress sample_entrance) = Some solo"
    "ValidateOwner plain_env import_call solo" "marks_done quiet_cfg (putVoteInfo i v import_call)"
    by (simp_all add: sample_entrance_def AddressParseFromBytes_def size_defs marks_done_def quiet_cfg_def import_call_def solo_owner)
  have e: "SourceChainID sample_entrance = 9" "CrossChainID sample_transfer = [5]"
    by (simp_all add: sample_entrance_def sample_transfer_def)
  have "vote_MakeDepositProposal plain_env quiet_cfg import_call
      = Inr (Some sample_transfer, PutDoneTx [5] 9 (putVoteInfo i v import_call))"
    unfolding vote_MakeDepositProposal_def import_call_parse(1) ebind_Inr Let_def i_def [symmetric] a(1) orelse_err_simps
    using a(2,3) c d by (simp add: import_call_parse(2) e)
  with that show thesis .
qed

lemma import_call_runs:
  obtains r ns where "ImportExTransfer plain_env plain_ont quiet_cfg plain_lib import_call = Inr (r, ns)"
    "accepted_deposit plain_env plain_ont quiet_cfg plain_lib import_call = [(9, [5])]"
proof -
  obtain v i where h: "vote_MakeDepositProposal plain_env quiet_cfg import_call
    = Inr (Some sample_transfer, PutDoneTx [5] 9 (putVoteInfo i v import_call))" by (rule import_call_deposit)
  let ?ns2 = "PutDoneTx [5] 9 (putVoteInfo i v import_call)"
  have e: "SourceChainID sample_entrance = 9" "CrossChainID sample_transfer = [5]" "ToChainID sample_transfer = 9"
    "Router voted_chain = 0" by (simp_all add: sample_entrance_def sample_transfer_def voted_chain_def)
  have blk: "CheckIfChainBlacked import_call 9 = Inr False" "CheckIfChainBlacked ?ns2 9 = Inr False"
    by (simp_all add: CheckIfChainBlacked_def PutDoneTx_def putVoteInfo_def store_simps import_call_other key_simps)
  have sc: "GetSideChain ?ns2 9 = Inr (Some voted_chain)"
    using import_call_chain by (simp add: GetSideChain_def PutDoneTx_def putVoteInfo_def store_simps key_simps)
  have s: "source_chain import_call = Some 9"
    using source_chain_parse [OF import_call_parse(1)] by (simp add: e)
  have g: "GetChainHandler plain_env plain_ont quiet_cfg plain_lib 0 = Inr (vote_MakeDepositProposal plain_env quiet_cfg)"
    by (simp add: GetChainHandler_def)
  obtain ns3 where t: "make_target quiet_cfg plain_lib 9 sample_transfer ?ns2 = Inr (BYTE_TRUE, ns3)"
    using sc blk(2) by (simp add: make_target_def MakeTransaction_def Let_def e)
  have "ImportExTransfer plain_env plain_ont quiet_cfg plain_lib import_call = Inr (BYTE_TRUE, ns3)"
    unfolding ImportExTransfer_def import_call_parse(1) ebind_Inr Let_def e blk(1) import_call_chain require_simps g h
    using t by (simp add: CheckRouterStartBlock_def g h e)
  moreover have "accepted_deposit plain_env plain_ont quiet_cfg plain_lib import_call = [(9, [5])]"
    using s import_call_chain g h by (simp add: accepted_deposit_def e)
  ultimately show thesis by (rule that)
qed

section \<open>Property\<close>



end
