(* ===== verification/Store_Iter.thy ===== *)
theory Store_Iter
  imports Overlay_DB
begin

text \<open>
  Iteration: \<open>StoreIterator\<close> (\<open>core/store/common/store.go\<close>), the skip list's \<open>dbIter\<close>
  (\<open>core/store/overlaydb/memdb.go\<close>) and \<open>JoinIter\<close> (\<open>core/store/overlaydb/iterator.go\<close>), which merges
  the buffer of a layer with the iterator of the layer below and skips deleted entries.  The interface
  is a record of operations on an iterator's state, so \<open>JoinIter\<close> is a function of two such records, as
  in the code; its contract is the locale \<open>store_iter\<close>.  \<open>dbIter\<close> meets the contract, and a \<open>JoinIter\<close>
  meets it whenever its two parts do, so the transaction cache's iterator (a join over a join over
  leveldb) follows.  The iterator of leveldb and \<open>util.BytesPrefix\<close> are parameters.  An iterator reads
  the buffer it was made from, which nobody writes meanwhile.  The result \<open>None\<close> of an operation is a
  panic or a loop that does not end.
\<close>

section \<open>The interface\<close>

record 's StoreIterator =
  itFirst :: "'s \<Rightarrow> (bool \<times> 's) option"
  itNext :: "'s \<Rightarrow> (bool \<times> 's) option"
  itKey :: "'s \<Rightarrow> bytes"
  itValue :: "'s \<Rightarrow> bytes"
  itError :: "'s \<Rightarrow> string option"

text \<open>The loop of the clients: \<open>for has := iter.First(); has; has = iter.Next() { ... }\<close>.\<close>

partial_function (option) iterate_loop ::
  "'s StoreIterator \<Rightarrow> bool \<Rightarrow> 's \<Rightarrow> (bytes \<times> bytes) list \<Rightarrow> (bytes \<times> bytes) list option" where
  "iterate_loop it has s visited =
     (if has then
        Option.bind (itNext it s) (\<lambda>(has, s').
          iterate_loop it has s' (visited @ [(itKey it s, itValue it s)]))
      else Some visited)"

definition iterate :: "'s StoreIterator \<Rightarrow> 's \<Rightarrow> (bytes \<times> bytes) list option" where
  "iterate it s = do { (has, s) \<leftarrow> itFirst it s; iterate_loop it has s [] }"

text \<open>
  The contract: \<open>ready s es\<close> is an unused iterator over the entries \<open>es\<close>, \<open>pos s es\<close> one that stands on
  the head of \<open>es\<close> with the tail to come, or is exhausted, when it has no key and no value.
\<close>

locale store_iter =
  fixes it :: "'s StoreIterator"
    and ready :: "'s \<Rightarrow> (bytes \<times> bytes) list \<Rightarrow> bool"
    and pos :: "'s \<Rightarrow> (bytes \<times> bytes) list \<Rightarrow> bool"
  assumes first: "ready s es \<Longrightarrow> \<exists>s'. itFirst it s = Some (es \<noteq> [], s') \<and> pos s' es"
    and step: "pos s es \<Longrightarrow> \<exists>s'. itNext it s = Some (tl es \<noteq> [], s') \<and> pos s' (tl es)"
    and current: "pos s es \<Longrightarrow> (itKey it s, itValue it s) = (if es = [] then ([], []) else hd es)"
    and no_error: "pos s es \<Longrightarrow> itError it s = None"
begin

lemma iterate_loop_pos:
  "pos s es \<Longrightarrow> iterate_loop it (es \<noteq> []) s visited = Some (visited @ es)"
proof (induction es arbitrary: s visited)
  case Nil
  then show ?case by (subst iterate_loop.simps) simp
next
  case (Cons e es)
  from step [OF Cons.prems] obtain s' where s': "itNext it s = Some (es \<noteq> [], s')" "pos s' es" by auto
  from current [OF Cons.prems] have "(itKey it s, itValue it s) = e" by simp
  with Cons.IH [OF s'(2), of "visited @ [e]"] s'(1) show ?case
    by (subst iterate_loop.simps) simp
qed

lemma iterate_ready: "ready s es \<Longrightarrow> iterate it s = Some es"
  using first [of s es] iterate_loop_pos [of _ es "[]"] by (auto simp: iterate_def)

text \<open>An iterator that shows its keys through a function meets the contract for the renamed entries.\<close>

lemma renamed_contract:
  assumes "f [] = []"
  shows "store_iter (it\<lparr>itKey := \<lambda>s. f (itKey it s)\<rparr>)
    (\<lambda>s es. \<exists>xs. ready s xs \<and> es = map (apfst f) xs) (\<lambda>s es. \<exists>xs. pos s xs \<and> es = map (apfst f) xs)"
proof
  fix s es assume "\<exists>xs. ready s xs \<and> es = map (apfst f) xs"
  then show "\<exists>s'. itFirst (it\<lparr>itKey := \<lambda>s. f (itKey it s)\<rparr>) s = Some (es \<noteq> [], s') \<and>
      (\<exists>xs. pos s' xs \<and> es = map (apfst f) xs)"
    using first by fastforce
next
  fix s es assume "\<exists>xs. pos s xs \<and> es = map (apfst f) xs"
  then obtain xs where xs: "pos s xs" "es = map (apfst f) xs" by auto
  from step [OF xs(1)] xs(2) show "\<exists>s'. itNext (it\<lparr>itKey := \<lambda>s. f (itKey it s)\<rparr>) s = Some (tl es \<noteq> [], s') \<and>
      (\<exists>xs. pos s' xs \<and> tl es = map (apfst f) xs)"
    by (auto simp: map_tl [symmetric])
  from current [OF xs(1)] xs(2) assms
  show "(itKey (it\<lparr>itKey := \<lambda>s. f (itKey it s)\<rparr>) s, itValue (it\<lparr>itKey := \<lambda>s. f (itKey it s)\<rparr>) s) =
      (if es = [] then ([], []) else hd es)"
    by (cases xs) auto
  from no_error [OF xs(1)] show "itError (it\<lparr>itKey := \<lambda>s. f (itKey it s)\<rparr>) s = None" by simp
qed

end

section \<open>The iterator of the skip list\<close>

record Range =
  Start :: "bytes option"
  Limit :: "bytes option"

record dbIter =
  ip :: MemDB
  islice :: "Range option"
  inode :: nat
  forward :: bool
  ikey :: bytes
  ivalue :: bytes
  ierr :: "string option"
  released :: bool

abbreviation ErrIterReleased :: string where
  "ErrIterReleased \<equiv> ''leveldb/memdb: iterator released''"

definition mem_NewIterator :: "MemDB \<Rightarrow> Range option \<Rightarrow> dbIter" where
  "mem_NewIterator p r = \<lparr>ip = p, islice = r, inode = 0, forward = False, ikey = [], ivalue = [],
     ierr = None, released = False\<rparr>"

abbreviation bail :: "dbIter \<Rightarrow> bool \<times> dbIter" where
  "bail i \<equiv> (False, i\<lparr>ikey := [], ivalue := []\<rparr>)"

text \<open>Comparing with a bound that may be absent: \<open>i.slice != nil && i.slice.Limit != nil && ...\<close>.\<close>

definition bound_holds :: "(Range \<Rightarrow> bytes option) \<Rightarrow> Range option \<Rightarrow> (bytes \<Rightarrow> bool) \<Rightarrow> bool" where
  "bound_holds side r P = (case r of None \<Rightarrow> False | Some r \<Rightarrow>
     (case side r of None \<Rightarrow> False | Some b \<Rightarrow> P b))"

definition fill :: "bool \<Rightarrow> bool \<Rightarrow> dbIter \<Rightarrow> bool \<times> dbIter" where
  "fill checkStart checkLimit i =
     (if inode i \<noteq> 0 then
        let n = nodeData (ip i) ! inode i;
            m = n + nodeData (ip i) ! (inode i + nKey);
            i = i\<lparr>ikey := slice (kvData (ip i)) n m\<rparr>
        in if checkLimit \<and> bound_holds Limit (islice i) (\<lambda>l. cmp (ip i) (ikey i) l \<ge> 0) \<or>
              checkStart \<and> bound_holds Start (islice i) (\<lambda>l. cmp (ip i) (ikey i) l < 0)
           then bail (i\<lparr>inode := 0\<rparr>)
           else (True, i\<lparr>ivalue := slice (kvData (ip i)) m (m + nodeData (ip i) ! (inode i + nVal))\<rparr>)
      else bail i)"

abbreviation unless_released :: "(dbIter \<Rightarrow> (bool \<times> dbIter) option) \<Rightarrow> dbIter \<Rightarrow> (bool \<times> dbIter) option" where
  "unless_released f i \<equiv> (if released i then Some (False, i\<lparr>ierr := Some ErrIterReleased\<rparr>) else f i)"

abbreviation range_start :: "dbIter \<Rightarrow> bytes option" where
  "range_start i \<equiv> Option.bind (islice i) Start"

abbreviation range_limit :: "dbIter \<Rightarrow> bytes option" where
  "range_limit i \<equiv> Option.bind (islice i) Limit"

definition dbIter_First :: "dbIter \<Rightarrow> (bool \<times> dbIter) option" where
  "dbIter_First = unless_released (\<lambda>i.
     let i = i\<lparr>forward := True\<rparr> in
     do { node \<leftarrow> (case range_start i of
              Some start \<Rightarrow> do { ((node, _), _) \<leftarrow> findGE (ip i) start False; Some node }
            | None \<Rightarrow> Some (nodeData (ip i) ! nNext));
          Some (fill False True (i\<lparr>inode := node\<rparr>)) })"

definition dbIter_Last :: "dbIter \<Rightarrow> (bool \<times> dbIter) option" where
  "dbIter_Last = unless_released (\<lambda>i.
     let i = i\<lparr>forward := False\<rparr> in
     do { node \<leftarrow> (case range_limit i of
              Some limit \<Rightarrow> findLT (ip i) limit
            | None \<Rightarrow> findLast (ip i));
          Some (fill True False (i\<lparr>inode := node\<rparr>)) })"

definition dbIter_Seek :: "bytes \<Rightarrow> dbIter \<Rightarrow> (bool \<times> dbIter) option" where
  "dbIter_Seek key = unless_released (\<lambda>i.
     let i = i\<lparr>forward := True\<rparr>;
         key = (case range_start i of
             Some start \<Rightarrow> if cmp (ip i) key start < 0 then start else key
           | None \<Rightarrow> key) in
     do { ((node, _), _) \<leftarrow> findGE (ip i) key False;
          Some (fill False True (i\<lparr>inode := node\<rparr>)) })"

definition dbIter_Next :: "dbIter \<Rightarrow> (bool \<times> dbIter) option" where
  "dbIter_Next = unless_released (\<lambda>i.
     if inode i = 0 then (if \<not> forward i then dbIter_First i else Some (False, i))
     else Some (fill False True (i\<lparr>forward := True, inode := nodeData (ip i) ! (inode i + nNext)\<rparr>)))"

definition dbIter_Prev :: "dbIter \<Rightarrow> (bool \<times> dbIter) option" where
  "dbIter_Prev = unless_released (\<lambda>i.
     if inode i = 0 then (if forward i then dbIter_Last i else Some (False, i))
     else do { node \<leftarrow> findLT (ip i) (ikey i);
               Some (fill True False (i\<lparr>forward := False, inode := node\<rparr>)) })"

text \<open>\<open>Release\<close> also drops the buffer, which no later operation follows.\<close>

definition dbIter_Release :: "dbIter \<Rightarrow> dbIter" where
  "dbIter_Release i =
     (if \<not> released i then i\<lparr>inode := 0, ikey := [], ivalue := [], released := True\<rparr> else i)"

definition dbIter_it :: "dbIter StoreIterator" where
  "dbIter_it = \<lparr>itFirst = dbIter_First, itNext = dbIter_Next, itKey = ikey, itValue = ivalue, itError = ierr\<rparr>"

section \<open>The merging iterator\<close>

datatype KeyOrigin = FromMem | FromBack | FromBoth

record ('m, 'b) JoinIter =
  jback :: 'b
  jmem :: 'm
  jkey :: bytes
  jvalue :: bytes
  keyOrigin :: KeyOrigin
  nextMemEnd :: bool
  nextBackEnd :: bool
  jcmp :: "bytes \<Rightarrow> bytes \<Rightarrow> int"

definition NewJoinIter :: "(bytes \<Rightarrow> bytes \<Rightarrow> int) \<Rightarrow> 'm \<Rightarrow> 'b \<Rightarrow> ('m, 'b) JoinIter" where
  "NewJoinIter c memIter backendIter = \<lparr>jback = backendIter, jmem = memIter, jkey = [], jvalue = [],
     keyOrigin = FromMem, nextMemEnd = False, nextBackEnd = False, jcmp = c\<rparr>"

definition join_Error :: "'m StoreIterator \<Rightarrow> 'b StoreIterator \<Rightarrow> ('m, 'b) JoinIter \<Rightarrow> string option" where
  "join_Error mi bi j = (if itError bi (jback j) \<noteq> None then itError bi (jback j)
     else if itError mi (jmem j) \<noteq> None then itError mi (jmem j) else None)"

text \<open>\<open>iter.key = ...; iter.value = ...; iter.keyOrigin = ...\<close>.\<close>

definition take_mem :: "'m StoreIterator \<Rightarrow> KeyOrigin \<Rightarrow> ('m, 'b) JoinIter \<Rightarrow> ('m, 'b) JoinIter" where
  "take_mem mi orig j =
     j\<lparr>jkey := itKey mi (jmem j), jvalue := itValue mi (jmem j), keyOrigin := orig\<rparr>"

definition take_back :: "'b StoreIterator \<Rightarrow> ('m, 'b) JoinIter \<Rightarrow> ('m, 'b) JoinIter" where
  "take_back bi j =
     j\<lparr>jkey := itKey bi (jback j), jvalue := itValue bi (jback j), keyOrigin := FromBack\<rparr>"

definition join_first ::
  "'m StoreIterator \<Rightarrow> 'b StoreIterator \<Rightarrow> ('m, 'b) JoinIter \<Rightarrow> (bool \<times> ('m, 'b) JoinIter) option" where
  "join_first mi bi j =
     do { (back, b) \<leftarrow> itFirst bi (jback j);
          (mem, m) \<leftarrow> itFirst mi (jmem j);
          let j = j\<lparr>jback := b, jmem := m\<rparr>;
          Some (if join_Error mi bi j \<noteq> None then (False, j)
                else if back then
                  (if \<not> mem then (True, take_back bi j)
                   else let c = jcmp j (itKey mi m) (itKey bi b) in
                        if c < 1 then (True, take_mem mi (if c = 0 then FromBoth else FromMem) j)
                        else (True, take_back bi j))
                else if mem then (True, take_mem mi FromMem j)
                else (False, j)) }"

text \<open>The two conditional advances at the head of \<open>next\<close>.\<close>

definition advance_mem :: "'m StoreIterator \<Rightarrow> ('m, 'b) JoinIter \<Rightarrow> ('m, 'b) JoinIter option" where
  "advance_mem mi j =
     (if (keyOrigin j = FromMem \<or> keyOrigin j = FromBoth) \<and> \<not> nextMemEnd j then
        do { (has, m) \<leftarrow> itNext mi (jmem j); Some (j\<lparr>jmem := m, nextMemEnd := \<not> has\<rparr>) }
      else Some j)"

definition advance_back :: "'b StoreIterator \<Rightarrow> ('m, 'b) JoinIter \<Rightarrow> ('m, 'b) JoinIter option" where
  "advance_back bi j =
     (if (keyOrigin j = FromBack \<or> keyOrigin j = FromBoth) \<and> \<not> nextBackEnd j then
        do { (has, b) \<leftarrow> itNext bi (jback j); Some (j\<lparr>jback := b, nextBackEnd := \<not> has\<rparr>) }
      else Some j)"

definition join_next ::
  "'m StoreIterator \<Rightarrow> 'b StoreIterator \<Rightarrow> ('m, 'b) JoinIter \<Rightarrow> (bool \<times> ('m, 'b) JoinIter) option" where
  "join_next mi bi j =
     do { j \<leftarrow> advance_mem mi j;
          j \<leftarrow> advance_back bi j;
          if join_Error mi bi j \<noteq> None then Some (False, j)
          else if nextBackEnd j then
            (if nextMemEnd j then Some (False, j\<lparr>jkey := [], jvalue := []\<rparr>)
             else Some (True, take_mem mi FromMem j))
          else if nextMemEnd j then Some (True, take_back bi j)
          else let c = jcmp j (itKey mi (jmem j)) (itKey bi (jback j)) in
               if c = - 1 then Some (True, take_mem mi FromMem j)
               else if c = 0 then Some (True, take_mem mi FromBoth j)
               else if c = 1 then Some (True, take_back bi j)
               else None }"

text \<open>\<open>for len(iter.value) == 0 { if iter.next() == false { return false } }; return true\<close>.\<close>

partial_function (option) skip_empty ::
  "'m StoreIterator \<Rightarrow> 'b StoreIterator \<Rightarrow> ('m, 'b) JoinIter \<Rightarrow> (bool \<times> ('m, 'b) JoinIter) option" where
  "skip_empty mi bi j =
     (if length (jvalue j) = 0 then
        Option.bind (join_next mi bi j) (\<lambda>(has, j).
          if \<not> has then Some (False, j) else skip_empty mi bi j)
      else Some (True, j))"

definition JoinIter_First ::
  "'m StoreIterator \<Rightarrow> 'b StoreIterator \<Rightarrow> ('m, 'b) JoinIter \<Rightarrow> (bool \<times> ('m, 'b) JoinIter) option" where
  "JoinIter_First mi bi j =
     do { (f, j) \<leftarrow> join_first mi bi j; if \<not> f then Some (False, j) else skip_empty mi bi j }"

definition JoinIter_Next ::
  "'m StoreIterator \<Rightarrow> 'b StoreIterator \<Rightarrow> ('m, 'b) JoinIter \<Rightarrow> (bool \<times> ('m, 'b) JoinIter) option" where
  "JoinIter_Next mi bi j =
     do { (f, j) \<leftarrow> join_next mi bi j; if \<not> f then Some (False, j) else skip_empty mi bi j }"

definition join_it :: "'m StoreIterator \<Rightarrow> 'b StoreIterator \<Rightarrow> ('m, 'b) JoinIter StoreIterator" where
  "join_it mi bi = \<lparr>itFirst = JoinIter_First mi bi, itNext = JoinIter_Next mi bi,
     itKey = jkey, itValue = jvalue, itError = join_Error mi bi\<rparr>"

section \<open>The iterators of the two layers\<close>

text \<open>\<open>prefix_range\<close> is \<open>util.BytesPrefix\<close>, \<open>back\<close> the store's \<open>NewIterator\<close>.\<close>

definition overlay_NewIterator ::
  "(bytes \<Rightarrow> bytes \<Rightarrow> int) \<Rightarrow> (bytes \<Rightarrow> Range) \<Rightarrow> (bytes \<Rightarrow> 'b) \<Rightarrow> OverlayDB \<Rightarrow> bytes \<Rightarrow> (dbIter, 'b) JoinIter" where
  "overlay_NewIterator c prefix_range back self key =
     NewJoinIter c (mem_NewIterator (omem self) (Some (prefix_range key))) (back key)"

definition cache_NewIterator ::
  "(bytes \<Rightarrow> bytes \<Rightarrow> int) \<Rightarrow> (bytes \<Rightarrow> Range) \<Rightarrow> (bytes \<Rightarrow> 'b) \<Rightarrow> CacheDB \<Rightarrow> bytes \<Rightarrow>
   (dbIter, (dbIter, 'b) JoinIter) JoinIter" where
  "cache_NewIterator c prefix_range back self key =
     (let pkey = ST_STORAGE # key
      in NewJoinIter c (mem_NewIterator (cmem self) (Some (prefix_range pkey)))
           (overlay_NewIterator c prefix_range back (backend self) pkey))"

definition Iter_Key :: "bytes \<Rightarrow> bytes" where
  "Iter_Key key = (if length key \<noteq> 0 then drop 1 key else key)"

text \<open>\<open>Iter\<close> embeds the join and overrides \<open>Key\<close>.\<close>

definition Iter_it :: "'b StoreIterator \<Rightarrow> (dbIter, (dbIter, 'b) JoinIter) JoinIter StoreIterator" where
  "Iter_it bi = (let j = join_it dbIter_it (join_it dbIter_it bi) in j\<lparr>itKey := \<lambda>s. Iter_Key (itKey j s)\<rparr>)"

section \<open>The skip list's iterator meets the contract\<close>

definition within :: "Range option \<Rightarrow> bytes \<Rightarrow> bool" where
  "within r k \<longleftrightarrow> \<not> bound_holds Start r (\<lambda>b. k < b) \<and> \<not> bound_holds Limit r (\<lambda>b. b \<le> k)"

abbreviation below_limit :: "Range option \<Rightarrow> (bytes \<times> bytes) list \<Rightarrow> (bytes \<times> bytes) list" where
  "below_limit r es \<equiv> takeWhile (\<lambda>e. \<not> bound_holds Limit r (\<lambda>b. b \<le> fst e)) es"

definition dbIter_pos :: "dbIter \<Rightarrow> (bytes \<times> bytes) list \<Rightarrow> bool" where
  "dbIter_pos i es \<longleftrightarrow> \<not> released i \<and> ierr i = None \<and> forward i \<and>
     (\<exists>us vs. mem_inv (ip i) (us @ vs) \<and> es = below_limit (islice i) (entries (ip i) vs) \<and>
        inode i = (if es = [] then 0 else hd0 vs) \<and>
        (ikey i, ivalue i) = (if es = [] then ([], []) else hd es))"

definition dbIter_ready :: "dbIter \<Rightarrow> (bytes \<times> bytes) list \<Rightarrow> bool" where
  "dbIter_ready i es \<longleftrightarrow> \<not> released i \<and> ierr i = None \<and> mem_ok (ip i) \<and>
     es = filter (\<lambda>e. within (islice i) (fst e)) (mem_entries (ip i))"

lemma entries_simps [simp]:
  "entries p [] = []" "entries p (n # ns) = (node_key p n, node_val p n) # entries p ns"
  by (simp_all add: entries_def)

lemma cmp_ge: "bytes_comparer c \<Longrightarrow> 0 \<le> c a b \<longleftrightarrow> b \<le> a"
  by (auto simp: bytes_comparer_def)

lemma fill_pos:
  assumes inv: "mem_inv (ip i) (us @ vs)" and i: "\<not> released i" "ierr i = None" "forward i" "inode i = hd0 vs"
  defines "es \<equiv> below_limit (islice i) (entries (ip i) vs)"
  shows "\<exists>i'. fill False True i = (es \<noteq> [], i') \<and> dbIter_pos i' es"
proof (cases vs)
  case Nil
  then have "fill False True i = (False, i\<lparr>ikey := [], ivalue := []\<rparr>)" "es = []"
    using i(4) by (simp_all add: fill_def es_def)
  moreover have "dbIter_pos (i\<lparr>ikey := [], ivalue := []\<rparr>) []"
    unfolding dbIter_pos_def using i inv Nil by (intro conjI exI [of _ us] exI [of _ vs]) simp_all
  ultimately show ?thesis by simp
next
  case (Cons v ws)
  have v: "inode i = v" "v \<noteq> 0" using i(4) Cons mem_invD(2) [OF inv] by auto
  let ?k = "node_key (ip i) v"
  let ?stop = "bound_holds Limit (islice i) (\<lambda>b. b \<le> ?k)"
  let ?i = "if ?stop then i\<lparr>inode := 0, ikey := [], ivalue := []\<rparr>
    else i\<lparr>ikey := ?k, ivalue := node_val (ip i) v\<rparr>"
  have "fill False True i = (\<not> ?stop, ?i)"
    using v by (simp add: fill_def node_key_def node_val_def Let_def cmp_ge [OF mem_invD(1) [OF inv]])
  moreover have "es \<noteq> [] \<longleftrightarrow> \<not> ?stop" by (simp add: es_def Cons)
  moreover have "dbIter_pos ?i es"
    unfolding dbIter_pos_def using i inv Cons v
    by (intro conjI exI [of _ us] exI [of _ vs]) (simp_all add: es_def)
  ultimately show ?thesis by simp
qed

lemma sorted_filter_keys:
  "sorted_wrt (<) (map fst es) \<Longrightarrow> sorted_wrt (<) (map fst (filter P es))" for es :: "(bytes \<times> bytes) list"
  by (simp add: sorted_wrt_map sorted_wrt_filter)

lemma takeWhile_sorted:
  assumes "sorted_wrt (<) (map fst es)" and "\<And>a b. a < b \<Longrightarrow> P b \<Longrightarrow> P a"
  shows "takeWhile (\<lambda>e. P (fst e)) es = filter (\<lambda>e. P (fst e)) es"
  using assms(1)
proof (induction es)
  case (Cons e es)
  moreover have "\<forall>x \<in> set es. \<not> P (fst e) \<longrightarrow> \<not> P (fst x)" using Cons.prems assms(2) by auto
  ultimately show ?case by (auto simp: filter_empty_conv)
qed simp

lemma limit_down: "a < b \<Longrightarrow> \<not> bound_holds Limit r (\<lambda>l. l \<le> b) \<Longrightarrow> \<not> bound_holds Limit r (\<lambda>l. l \<le> a)"
  by (auto simp: bound_holds_def split: option.splits)

lemma links_0: "mem_inv p ns \<Longrightarrow> links (nodeData p) 0 0 ns"
  using mem_invD(9) [of p ns 0] lvl_0 [of p ns] by (simp add: tMaxHeight_def)

lemma First_node:
  assumes inv: "mem_inv (ip i) ns"
  obtains us vs where "us @ vs = ns"
    "entries (ip i) vs = filter (\<lambda>e. \<not> bound_holds Start (islice i) (\<lambda>b. fst e < b)) (entries (ip i) ns)"
    "\<not> released i \<Longrightarrow> dbIter_First i = Some (fill False True (i\<lparr>forward := True, inode := hd0 vs\<rparr>))"
proof (cases "range_start i")
  case None
  have "nodeData (ip i) ! nNext = hd0 ns" using links_next [OF links_0 [OF inv]] by simp
  moreover have "\<not> bound_holds Start (islice i) P" for P
    using None by (auto simp: bound_holds_def split: option.splits bind_splits)
  moreover have "range_start (i\<lparr>forward := True\<rparr>) = None" using None by simp
  ultimately show ?thesis
    by (intro that [of "[]" ns]) (simp_all add: dbIter_First_def)
next
  case (Some k)
  have "bound_holds Start (islice i) P \<longleftrightarrow> P k" for P
    using Some by (auto simp: bound_holds_def split: option.splits bind_splits)
  moreover have "range_start (i\<lparr>forward := True\<rparr>) = Some k" using Some by simp
  ultimately show ?thesis
    using below_above [OF mem_invD(3) [OF inv]] findGE_False [OF inv, of k]
    by (intro that [of "below (ip i) k ns" "above (ip i) k ns"])
      (simp_all add: dbIter_First_def entries_def filter_map o_def)
qed

interpretation mi: store_iter dbIter_it dbIter_ready dbIter_pos
proof
  fix i es assume ready: "dbIter_ready i es"
  then obtain ns where inv: "mem_inv (ip i) ns" by (auto simp: dbIter_ready_def mem_ok_def)
  from First_node [OF inv] obtain us vs where vs: "us @ vs = ns"
    "entries (ip i) vs = filter (\<lambda>e. \<not> bound_holds Start (islice i) (\<lambda>b. fst e < b)) (entries (ip i) ns)"
    "\<not> released i \<Longrightarrow> dbIter_First i = Some (fill False True (i\<lparr>forward := True, inode := hd0 vs\<rparr>))"
    by metis
  have "sorted_wrt (<) (map fst (entries (ip i) vs))"
    using mem.ents_sorted [of "ip i"] inv mem_entries_eq [OF inv]
    unfolding vs(2) by (intro sorted_filter_keys) (auto simp: mem_ok_def)
  then have "es = below_limit (islice i) (entries (ip i) vs)"
    using takeWhile_sorted [of "entries (ip i) vs" "\<lambda>k. \<not> bound_holds Limit (islice i) (\<lambda>b. b \<le> k)"] ready limit_down
    by (simp add: vs(2) dbIter_ready_def mem_entries_eq [OF inv] within_def conj_commute)
  with fill_pos [of "i\<lparr>forward := True, inode := hd0 vs\<rparr>" us vs] vs(1,3) ready inv
  show "\<exists>i'. itFirst dbIter_it i = Some (es \<noteq> [], i') \<and> dbIter_pos i' es"
    by (auto simp: dbIter_it_def dbIter_ready_def)
next
  fix i es assume pos: "dbIter_pos i es"
  then obtain us vs where inv: "mem_inv (ip i) (us @ vs)"
    and vs: "es = below_limit (islice i) (entries (ip i) vs)" "inode i = (if es = [] then 0 else hd0 vs)"
    and i: "\<not> released i" "ierr i = None" "forward i" by (auto simp: dbIter_pos_def)
  show "\<exists>i'. itNext dbIter_it i = Some (tl es \<noteq> [], i') \<and> dbIter_pos i' (tl es)"
  proof (cases es)
    case Nil
    with pos i vs show ?thesis by (simp add: dbIter_it_def dbIter_Next_def)
  next
    case (Cons e es')
    with vs obtain v ws where v: "vs = v # ws" by (cases vs) simp_all
    with vs Cons have es': "es' = below_limit (islice i) (entries (ip i) ws)"
      by (simp split: if_splits)
    have n: "nodeData (ip i) ! (v + nNext) = hd0 ws"
      using links_next [OF links_append [of _ 0 0 "us @ [v]" ws]] links_0 [OF inv] v by simp
    have "inode i = v" "v \<noteq> 0" using vs(2) v Cons mem_invD(2) [OF inv] by auto
    with fill_pos [of "i\<lparr>forward := True, inode := hd0 ws\<rparr>" "us @ [v]" ws] inv v i es' n Cons
    show ?thesis by (simp add: dbIter_it_def dbIter_Next_def)
  qed
next
  fix i es assume "dbIter_pos i es"
  then show "(itKey dbIter_it i, itValue dbIter_it i) = (if es = [] then ([], []) else hd es)"
    and "itError dbIter_it i = None"
    by (auto simp: dbIter_it_def dbIter_pos_def)
qed

section \<open>A join of two iterators meets the contract\<close>

fun merge_entries :: "(bytes \<times> bytes) list \<Rightarrow> (bytes \<times> bytes) list \<Rightarrow> (bytes \<times> bytes) list" where
  "merge_entries [] bs = bs"
| "merge_entries (m # ms) [] = m # ms"
| "merge_entries (m # ms) (b # bs) =
     (if fst m < fst b then m # merge_entries ms (b # bs)
      else if fst m = fst b then m # merge_entries ms bs
      else b # merge_entries (m # ms) bs)"

abbreviation live :: "(bytes \<times> bytes) list \<Rightarrow> (bytes \<times> bytes) list" where
  "live es \<equiv> filter (\<lambda>e. snd e \<noteq> []) es"

abbreviation named :: "(bytes \<times> bytes) list \<Rightarrow> bool" where
  "named es \<equiv> (\<forall>e \<in> set es. fst e \<noteq> [])"

lemma merge_Nil [simp]: "merge_entries ms [] = ms"
  by (cases ms) simp_all

lemma named_tl: "named es \<Longrightarrow> named (tl es)"
  by (cases es) simp_all

text \<open>What each side still has to offer once the side of the current key has advanced.\<close>

definition due_mem :: "('m, 'b) JoinIter \<Rightarrow> (bytes \<times> bytes) list \<Rightarrow> (bytes \<times> bytes) list" where
  "due_mem j ms = (if keyOrigin j = FromBack then ms else tl ms)"

definition due_back :: "('m, 'b) JoinIter \<Rightarrow> (bytes \<times> bytes) list \<Rightarrow> (bytes \<times> bytes) list" where
  "due_back j bs = (if keyOrigin j = FromMem then bs else tl bs)"

definition mem_ends :: "('m, 'b) JoinIter \<Rightarrow> (bytes \<times> bytes) list \<Rightarrow> bool" where
  "mem_ends j ms \<longleftrightarrow> nextMemEnd j \<or> keyOrigin j \<noteq> FromBack \<and> tl ms = []"

definition back_ends :: "('m, 'b) JoinIter \<Rightarrow> (bytes \<times> bytes) list \<Rightarrow> bool" where
  "back_ends j bs \<longleftrightarrow> nextBackEnd j \<or> keyOrigin j \<noteq> FromMem \<and> tl bs = []"

lemmas due_defs = due_mem_def due_back_def mem_ends_def back_ends_def

text \<open>
  The measure of the skipping loop.  An exhausted side whose end is not recorded yet costs one more
  round, in which the join stands on an entry with no key and no value.
\<close>

definition effort :: "('m, 'b) JoinIter \<Rightarrow> (bytes \<times> bytes) list \<Rightarrow> (bytes \<times> bytes) list \<Rightarrow> nat" where
  "effort j ms bs = length (due_mem j ms) + length (due_back j bs) +
     (if mem_ends j ms then 0 else 1) + (if back_ends j bs then 0 else 1)"

definition ahead :: "('m, 'b) JoinIter \<Rightarrow> (bytes \<times> bytes) list \<Rightarrow> (bytes \<times> bytes) list \<Rightarrow> (bytes \<times> bytes) list" where
  "ahead j ms bs = live (merge_entries (due_mem j ms) (due_back j bs))"

definition from_here :: "('m, 'b) JoinIter \<Rightarrow> (bytes \<times> bytes) list \<Rightarrow> (bytes \<times> bytes) list \<Rightarrow> (bytes \<times> bytes) list" where
  "from_here j ms bs = (if jvalue j = [] then [] else [(jkey j, jvalue j)]) @ ahead j ms bs"

definition join_at ::
  "('m \<Rightarrow> (bytes \<times> bytes) list \<Rightarrow> bool) \<Rightarrow> ('b \<Rightarrow> (bytes \<times> bytes) list \<Rightarrow> bool) \<Rightarrow>
   ('m, 'b) JoinIter \<Rightarrow> (bytes \<times> bytes) list \<Rightarrow> (bytes \<times> bytes) list \<Rightarrow> bool" where
  "join_at mpos bpos j ms bs \<longleftrightarrow> mpos (jmem j) ms \<and> bpos (jback j) bs \<and> bytes_comparer (jcmp j) \<and>
     (nextMemEnd j \<longrightarrow> ms = []) \<and> (nextBackEnd j \<longrightarrow> bs = []) \<and> named ms \<and> named bs"

definition join_pos ::
  "('m \<Rightarrow> (bytes \<times> bytes) list \<Rightarrow> bool) \<Rightarrow> ('b \<Rightarrow> (bytes \<times> bytes) list \<Rightarrow> bool) \<Rightarrow>
   ('m, 'b) JoinIter \<Rightarrow> (bytes \<times> bytes) list \<Rightarrow> bool" where
  "join_pos mpos bpos j es \<longleftrightarrow>
     (\<exists>ms bs. join_at mpos bpos j ms bs \<and> tl es = ahead j ms bs) \<and>
     (jkey j, jvalue j) = (if es = [] then ([], []) else hd es)"

definition join_ready ::
  "('m \<Rightarrow> (bytes \<times> bytes) list \<Rightarrow> bool) \<Rightarrow> ('b \<Rightarrow> (bytes \<times> bytes) list \<Rightarrow> bool) \<Rightarrow>
   ('m, 'b) JoinIter \<Rightarrow> (bytes \<times> bytes) list \<Rightarrow> bool" where
  "join_ready mready bready j es \<longleftrightarrow>
     (\<exists>ms bs. mready (jmem j) ms \<and> bready (jback j) bs \<and> named ms \<and> named bs \<and> es = live (merge_entries ms bs)) \<and>
     bytes_comparer (jcmp j) \<and> \<not> nextMemEnd j \<and> \<not> nextBackEnd j \<and> jkey j = [] \<and> jvalue j = []"

locale join_iters =
  m: store_iter mi mready mpos + b: store_iter bi bready bpos
  for mi :: "'m StoreIterator" and mready mpos and bi :: "'b StoreIterator" and bready bpos
begin

abbreviation stands :: "('m, 'b) JoinIter \<Rightarrow> (bytes \<times> bytes) list \<Rightarrow> (bytes \<times> bytes) list \<Rightarrow> bool" where
  "stands \<equiv> join_at mpos bpos"

lemma keys_of:
  assumes "stands j ms bs"
  shows "itKey mi (jmem j) = (if ms = [] then [] else fst (hd ms))"
    and "itValue mi (jmem j) = (if ms = [] then [] else snd (hd ms))"
    and "itKey bi (jback j) = (if bs = [] then [] else fst (hd bs))"
    and "itValue bi (jback j) = (if bs = [] then [] else snd (hd bs))"
    and "join_Error mi bi j = None"
  using m.current [of "jmem j" ms] b.current [of "jback j" bs] m.no_error [of "jmem j" ms]
    b.no_error [of "jback j" bs] assms
  by (auto simp: join_at_def join_Error_def prod_eq_iff split: if_splits)

lemma advance_mem_at:
  assumes at: "stands j ms bs"
  obtains j' where "advance_mem mi j = Some j'" "stands j' (due_mem j ms) bs" "nextMemEnd j' = mem_ends j ms"
    "nextBackEnd j' = nextBackEnd j" "keyOrigin j' = keyOrigin j"
proof (cases "keyOrigin j = FromBack \<or> nextMemEnd j")
  case True
  then have "due_mem j ms = ms" "nextMemEnd j = mem_ends j ms" using at by (auto simp: join_at_def due_defs)
  with True at show thesis by (intro that [of j]) (auto simp: advance_mem_def)
next
  case False
  from at have "mpos (jmem j) ms" by (simp add: join_at_def)
  from m.step [OF this] obtain m' where m': "itNext mi (jmem j) = Some (tl ms \<noteq> [], m')" "mpos m' (tl ms)" by auto
  from False have o: "keyOrigin j = FromMem \<or> keyOrigin j = FromBoth" by (cases "keyOrigin j") simp_all
  let ?j = "j\<lparr>jmem := m', nextMemEnd := tl ms = []\<rparr>"
  have "stands ?j (tl ms) bs" using at m'(2) named_tl [of ms] by (simp add: join_at_def)
  with False o m'(1) show thesis by (intro that [of ?j]) (auto simp: advance_mem_def due_defs)
qed

lemma advance_back_at:
  assumes at: "stands j ms bs"
  obtains j' where "advance_back bi j = Some j'" "stands j' ms (due_back j bs)" "nextBackEnd j' = back_ends j bs"
    "nextMemEnd j' = nextMemEnd j"
proof (cases "keyOrigin j = FromMem \<or> nextBackEnd j")
  case True
  then have "due_back j bs = bs" "nextBackEnd j = back_ends j bs" using at by (auto simp: join_at_def due_defs)
  with True at show thesis by (intro that [of j]) (auto simp: advance_back_def)
next
  case False
  from at have "bpos (jback j) bs" by (simp add: join_at_def)
  from b.step [OF this] obtain b' where b': "itNext bi (jback j) = Some (tl bs \<noteq> [], b')" "bpos b' (tl bs)" by auto
  from False have o: "keyOrigin j = FromBack \<or> keyOrigin j = FromBoth" by (cases "keyOrigin j") simp_all
  let ?j = "j\<lparr>jback := b', nextBackEnd := tl bs = []\<rparr>"
  have "stands ?j ms (tl bs)" using at b'(2) named_tl [of bs] by (simp add: join_at_def)
  with False o b'(1) show thesis by (intro that [of ?j]) (auto simp: advance_back_def due_defs)
qed

lemma takes:
  assumes "stands j ms bs"
  shows "stands (take_mem mi orig j) ms bs" and "stands (take_back bi j) ms bs"
    and "stands (j\<lparr>jkey := k, jvalue := v\<rparr>) ms bs"
  using assms by (simp_all add: join_at_def take_mem_def take_back_def)

lemma take_ahead:
  assumes at: "stands j ms bs"
  shows "bs = [] \<or> (ms \<noteq> [] \<and> fst (hd ms) < fst (hd bs)) \<or> ms = [] \<Longrightarrow>
      from_here (take_mem mi FromMem j) ms bs = live (merge_entries ms bs)"
    and "(ms = [] \<longleftrightarrow> bs = []) \<Longrightarrow> ms = [] \<or> fst (hd ms) = fst (hd bs) \<Longrightarrow>
      from_here (take_mem mi FromBoth j) ms bs = live (merge_entries ms bs)"
    and "ms = [] \<or> bs = [] \<or> fst (hd bs) < fst (hd ms) \<Longrightarrow>
      from_here (take_back bi j) ms bs = live (merge_entries ms bs)"
  using keys_of [OF at]
  by (cases ms; cases bs; auto simp: from_here_def ahead_def take_mem_def take_back_def due_defs)+

lemma take_effort:
  assumes at: "stands j ms bs"
  shows "\<not> nextMemEnd j \<Longrightarrow> orig \<noteq> FromBack \<Longrightarrow>
      effort (take_mem mi orig j) ms bs < length ms + length bs + 1 + (if nextBackEnd j then 0 else 1)"
    and "\<not> nextBackEnd j \<Longrightarrow>
      effort (take_back bi j) ms bs < length ms + length bs + (if nextMemEnd j then 0 else 1) + 1"
  using at
  by (cases ms; cases bs; cases orig; auto simp: join_at_def effort_def take_mem_def take_back_def due_defs)+

lemma picks_least:
  assumes at: "stands j ms bs"
  shows "itKey mi (jmem j) < itKey bi (jback j) \<Longrightarrow> bs = [] \<or> (ms \<noteq> [] \<and> fst (hd ms) < fst (hd bs)) \<or> ms = []"
    and "itKey mi (jmem j) = itKey bi (jback j) \<Longrightarrow> (ms = [] \<longleftrightarrow> bs = []) \<and> (ms = [] \<or> fst (hd ms) = fst (hd bs))"
    and "itKey bi (jback j) < itKey mi (jmem j) \<Longrightarrow> ms = [] \<or> bs = [] \<or> fst (hd bs) < fst (hd ms)"
  using keys_of [OF at] at by (cases ms; cases bs; auto simp: join_at_def)+

text \<open>What \<open>next\<close> does once both sides have advanced.\<close>

definition pick :: "('m, 'b) JoinIter \<Rightarrow> bool \<times> ('m, 'b) JoinIter" where
  "pick j = (if nextBackEnd j then
       (if nextMemEnd j then (False, j\<lparr>jkey := [], jvalue := []\<rparr>) else (True, take_mem mi FromMem j))
     else if nextMemEnd j then (True, take_back bi j)
     else if itKey mi (jmem j) < itKey bi (jback j) then (True, take_mem mi FromMem j)
     else if itKey mi (jmem j) = itKey bi (jback j) then (True, take_mem mi FromBoth j)
     else (True, take_back bi j))"

lemma pick_cases:
  assumes at: "stands j ms bs"
  obtains (ends) "nextMemEnd j" "nextBackEnd j" "pick j = (False, j\<lparr>jkey := [], jvalue := []\<rparr>)"
  | (mem) "\<not> nextMemEnd j" "pick j = (True, take_mem mi FromMem j)"
      "bs = [] \<or> (ms \<noteq> [] \<and> fst (hd ms) < fst (hd bs)) \<or> ms = []"
  | (both) "\<not> nextMemEnd j" "pick j = (True, take_mem mi FromBoth j)"
      "ms = [] \<longleftrightarrow> bs = []" "ms = [] \<or> fst (hd ms) = fst (hd bs)"
  | (low) "\<not> nextBackEnd j" "pick j = (True, take_back bi j)" "ms = [] \<or> bs = [] \<or> fst (hd bs) < fst (hd ms)"
proof (cases "nextBackEnd j \<or> nextMemEnd j")
  case True
  moreover have "nextMemEnd j \<Longrightarrow> ms = []" "nextBackEnd j \<Longrightarrow> bs = []" using at by (auto simp: join_at_def)
  ultimately show thesis
    using ends mem low by (cases "nextBackEnd j"; cases "nextMemEnd j") (simp_all add: pick_def)
next
  case False
  note L = picks_least [OF at]
  show thesis
  proof (rule linorder_cases [of "itKey mi (jmem j)" "itKey bi (jback j)"])
    assume "itKey mi (jmem j) < itKey bi (jback j)"
    with False show thesis by (intro mem L(1)) (simp_all add: pick_def)
  next
    assume e: "itKey mi (jmem j) = itKey bi (jback j)"
    with False have "pick j = (True, take_mem mi FromBoth j)" by (simp add: pick_def)
    with False L(2) [OF e] show thesis by (intro both) auto
  next
    assume "itKey bi (jback j) < itKey mi (jmem j)"
    with False show thesis by (intro low L(3)) (simp_all add: pick_def)
  qed
qed

lemma next_pick:
  assumes at: "stands j ms bs"
  obtains j' where "join_next mi bi j = Some (pick j')" "stands j' (due_mem j ms) (due_back j bs)"
    "nextMemEnd j' = mem_ends j ms" "nextBackEnd j' = back_ends j bs"
proof -
  from advance_mem_at [OF at] obtain j1 where j1: "advance_mem mi j = Some j1" "stands j1 (due_mem j ms) bs"
    "nextMemEnd j1 = mem_ends j ms" "nextBackEnd j1 = nextBackEnd j" "keyOrigin j1 = keyOrigin j" .
  from advance_back_at [OF j1(2)] obtain j2 where b: "advance_back bi j1 = Some j2"
    "stands j2 (due_mem j ms) (due_back j1 bs)" "nextBackEnd j2 = back_ends j1 bs" "nextMemEnd j2 = nextMemEnd j1" .
  with j1 have j2: "advance_mem mi j = Some j1" "advance_back bi j1 = Some j2"
    "stands j2 (due_mem j ms) (due_back j bs)" "nextMemEnd j2 = mem_ends j ms" "nextBackEnd j2 = back_ends j bs"
    by (simp_all add: due_defs)
  then have "bytes_comparer (jcmp j2)" by (simp add: join_at_def)
  then have "join_next mi bi j = Some (pick j2)"
    using keys_of(5) [OF j2(3)] by (simp add: join_next_def j2(1,2) bytes_comparer_def Let_def pick_def)
  then show thesis using j2(3-5) by (rule that)
qed

lemma next_step:
  assumes at: "stands j ms bs"
  obtains (stop) j' where "join_next mi bi j = Some (False, j')" "join_pos mpos bpos j' []" "ahead j ms bs = []"
  | (go) j' ms' bs' where "join_next mi bi j = Some (True, j')" "stands j' ms' bs'"
      "from_here j' ms' bs' = ahead j ms bs" "effort j' ms' bs' < effort j ms bs"
proof -
  let ?M = "due_mem j ms" and ?B = "due_back j bs"
  from next_pick [OF at] obtain j2 where nx: "join_next mi bi j = Some (pick j2)" and j2: "stands j2 ?M ?B"
    and ends: "nextMemEnd j2 = mem_ends j ms" "nextBackEnd j2 = back_ends j bs" .
  note T = takes [OF j2] and A = take_ahead [OF j2] and E = take_effort [OF j2]
  have eff: "effort j ms bs = length ?M + length ?B + (if nextMemEnd j2 then 0 else 1) + (if nextBackEnd j2 then 0 else 1)"
    by (simp add: effort_def ends)
  from j2 show thesis
  proof (cases rule: pick_cases)
    case ends
    then have none: "?M = []" "?B = []" using j2 by (auto simp: join_at_def)
    then have "join_pos mpos bpos (j2\<lparr>jkey := [], jvalue := []\<rparr>) []"
      using T(3) by (force simp: join_pos_def ahead_def due_defs)
    with ends none show thesis by (intro stop) (simp_all add: nx ahead_def)
  next
    case mem
    show thesis
      by (rule go [OF _ T(1) [of FromMem]]) (use mem A(1) E(1) [of FromMem] eff in \<open>simp_all add: nx ahead_def [of j]\<close>)
  next
    case both
    show thesis
      by (rule go [OF _ T(1) [of FromBoth]]) (use both A(2) E(1) [of FromBoth] eff in \<open>simp_all add: nx ahead_def [of j]\<close>)
  next
    case low
    show thesis
      by (rule go [OF _ T(2)]) (use low A(3) E(2) eff in \<open>simp_all add: nx ahead_def [of j]\<close>)
  qed
qed

lemma skip_empty_pos:
  "stands j ms bs \<Longrightarrow>
   \<exists>j'. skip_empty mi bi j = Some (from_here j ms bs \<noteq> [], j') \<and> join_pos mpos bpos j' (from_here j ms bs)"
proof (induction "effort j ms bs" arbitrary: j ms bs rule: less_induct)
  case less
  show ?case
  proof (cases "jvalue j = []")
    case False
    then have "skip_empty mi bi j = Some (True, j)" by (subst skip_empty.simps) simp
    with False less.prems show ?thesis by (auto simp: from_here_def join_pos_def)
  next
    case True
    then have here: "from_here j ms bs = ahead j ms bs" by (simp add: from_here_def)
    from less.prems show ?thesis
    proof (cases rule: next_step)
      case (stop j')
      then show ?thesis using True here by (subst skip_empty.simps) simp
    next
      case (go j' ms' bs')
      then have "skip_empty mi bi j = skip_empty mi bi j'" using True by (subst skip_empty.simps) simp
      with less.hyps [OF go(4,2)] go(3) here show ?thesis by simp
    qed
  qed
qed

lemma Next_pos:
  assumes "join_pos mpos bpos j es"
  shows "\<exists>j'. JoinIter_Next mi bi j = Some (tl es \<noteq> [], j') \<and> join_pos mpos bpos j' (tl es)"
proof -
  from assms obtain ms bs where at: "stands j ms bs" and tl: "tl es = ahead j ms bs" by (auto simp: join_pos_def)
  from at show ?thesis
  proof (cases rule: next_step)
    case (stop j')
    then show ?thesis by (simp add: JoinIter_Next_def tl)
  next
    case (go j' ms' bs')
    with skip_empty_pos [OF go(2)] show ?thesis by (simp add: JoinIter_Next_def tl)
  qed
qed

lemma First_pos:
  assumes "join_ready mready bready j es"
  shows "\<exists>j'. JoinIter_First mi bi j = Some (es \<noteq> [], j') \<and> join_pos mpos bpos j' es"
proof -
  from assms obtain ms bs where r: "mready (jmem j) ms" "bready (jback j) bs" and n: "named ms" "named bs"
    and es: "es = live (merge_entries ms bs)" and j: "bytes_comparer (jcmp j)" "\<not> nextMemEnd j" "\<not> nextBackEnd j"
      "jkey j = []" "jvalue j = []" by (auto simp: join_ready_def)
  from m.first [OF r(1)] obtain m' where m': "itFirst mi (jmem j) = Some (ms \<noteq> [], m')" "mpos m' ms" by auto
  from b.first [OF r(2)] obtain b' where b': "itFirst bi (jback j) = Some (bs \<noteq> [], b')" "bpos b' bs" by auto
  let ?j = "j\<lparr>jback := b', jmem := m'\<rparr>"
  have at: "stands ?j ms bs" using m'(2) b'(2) n j by (simp add: join_at_def)
  note K = keys_of [OF at] and T = takes [OF at] and A = take_ahead [OF at]
  have "join_first mi bi j = Some (if bs \<noteq> [] then
      (if ms = [] then (True, take_back bi ?j)
       else if fst (hd ms) < fst (hd bs) then (True, take_mem mi FromMem ?j)
       else if fst (hd ms) = fst (hd bs) then (True, take_mem mi FromBoth ?j)
       else (True, take_back bi ?j))
    else if ms \<noteq> [] then (True, take_mem mi FromMem ?j) else (False, ?j))"
    using K j(1) by (simp add: join_first_def m'(1) b'(1) Let_def bytes_comparer_def)
  then consider "join_first mi bi j = Some (False, ?j)" "ms = []" "bs = []"
    | j' where "join_first mi bi j = Some (True, j')" "stands j' ms bs" "from_here j' ms bs = es"
    using T A es by (auto split: if_splits)
  then show ?thesis
  proof cases
    case 1
    moreover have "join_pos mpos bpos ?j []" using at 1 j by (force simp: join_pos_def ahead_def due_defs)
    ultimately show ?thesis by (simp add: JoinIter_First_def es)
  next
    case (2 j')
    with skip_empty_pos [OF 2(2)] show ?thesis by (simp add: JoinIter_First_def)
  qed
qed

lemma join_contract: "store_iter (join_it mi bi) (join_ready mready bready) (join_pos mpos bpos)"
proof
  fix j es assume "join_pos mpos bpos j es"
  then show "\<exists>j'. itNext (join_it mi bi) j = Some (tl es \<noteq> [], j') \<and> join_pos mpos bpos j' (tl es)"
    and "(itKey (join_it mi bi) j, itValue (join_it mi bi) j) = (if es = [] then ([], []) else hd es)"
    and "itError (join_it mi bi) j = None"
    using Next_pos keys_of(5) by (auto simp: join_it_def join_pos_def)
next
  fix j es assume "join_ready mready bready j es"
  then show "\<exists>j'. itFirst (join_it mi bi) j = Some (es \<noteq> [], j') \<and> join_pos mpos bpos j' es"
    using First_pos by (simp add: join_it_def)
qed

end

sublocale join_iters \<subseteq> j: store_iter "join_it mi bi" "join_ready mready bready" "join_pos mpos bpos"
  by (rule join_contract)

section \<open>The entries the layers list\<close>

text \<open>\<open>bytes.HasPrefix\<close>.\<close>

definition HasPrefix :: "bytes \<Rightarrow> bytes \<Rightarrow> bool" where
  "HasPrefix k p \<longleftrightarrow> take (length p) k = p"

text \<open>The list holds, in key order, the keys with the prefix that the view has a non-empty value for.\<close>

definition lists :: "bytes \<Rightarrow> (bytes \<Rightarrow> store_err + bytes option) \<Rightarrow> (bytes \<times> bytes) list \<Rightarrow> bool" where
  "lists p view es \<longleftrightarrow> sorted_wrt (<) (map fst es) \<and> (\<forall>e \<in> set es. HasPrefix (fst e) p) \<and>
     (\<forall>k v. HasPrefix k p \<and> v \<noteq> [] \<longrightarrow> ((k, v) \<in> set es \<longleftrightarrow> view k = Inr (Some v)))"

lemma set_merge: "set (merge_entries ms bs) \<subseteq> set ms \<union> set bs"
  by (induction ms bs rule: merge_entries.induct) auto

lemma keys_merge: "fst ` set (merge_entries ms bs) \<subseteq> fst ` set ms \<union> fst ` set bs"
  using image_mono [OF set_merge, of fst] by (simp add: image_Un)

lemma sorted_merge:
  "sorted_wrt (<) (map fst ms) \<Longrightarrow> sorted_wrt (<) (map fst bs) \<Longrightarrow>
   sorted_wrt (<) (map fst (merge_entries ms bs))"
proof (induction ms bs rule: merge_entries.induct)
  case (3 m ms b bs)
  have "\<forall>x \<in> fst ` set (merge_entries ms (b # bs)). fst m < x" if "fst m < fst b"
    using keys_merge [of ms "b # bs"] 3(4,5) that by fastforce
  moreover have "\<forall>x \<in> fst ` set (merge_entries ms bs). fst m < x" if "fst m = fst b"
    using keys_merge [of ms bs] 3(4,5) that by fastforce
  moreover have "\<forall>x \<in> fst ` set (merge_entries (m # ms) bs). fst b < x" if "fst b < fst m"
    using keys_merge [of "m # ms" bs] 3(4,5) that by fastforce
  ultimately show ?case using 3 by (auto simp: not_less order.order_iff_strict)
qed simp_all

lemma map_of_sorted_less:
  "sorted_wrt (<) (k # map fst es) \<Longrightarrow> l \<le> k \<Longrightarrow> map_of es l = None" for k :: bytes
  by (auto simp: map_of_eq_None_iff)

lemma map_of_merge:
  "sorted_wrt (<) (map fst ms) \<Longrightarrow> sorted_wrt (<) (map fst bs) \<Longrightarrow>
   map_of (merge_entries ms bs) k = (case map_of ms k of Some v \<Rightarrow> Some v | None \<Rightarrow> map_of bs k)"
proof (induction ms bs rule: merge_entries.induct)
  case (3 m ms b bs)
  have "map_of (m # ms) (fst b) = None" if "fst b < fst m"
    using 3(4) that map_of_sorted_less [of "fst m" ms "fst b"] by (cases m) auto
  with 3 show ?case
    by (cases m; cases b; cases rule: linorder_cases [of "fst m" "fst b"]) (auto split: option.splits)
qed (auto split: option.splits)

lemma map_of_filter_keys: "map_of (filter (\<lambda>e. P (fst e)) es) k = (if P k then map_of es k else None)"
  by (induction es) auto

lemma in_sorted_iff:
  "sorted_wrt (<) (map fst es) \<Longrightarrow> (k, v) \<in> set es \<longleftrightarrow> map_of es k = Some v" for k :: bytes
  by (simp add: strict_sorted_iff)

lemma lists_layer:
  assumes es: "sorted_wrt (<) (map fst es)" and bs: "lists p lower bs"
  defines "ms \<equiv> filter (\<lambda>e. HasPrefix (fst e) p) es"
  shows "lists p (layer es lower) (live (merge_entries ms bs))"
proof -
  have s: "sorted_wrt (<) (map fst ms)" "sorted_wrt (<) (map fst bs)"
    using es bs by (simp_all add: ms_def sorted_filter_keys lists_def)
  note sm = sorted_merge [OF s]
  have "(k, v) \<in> set (merge_entries ms bs) \<longleftrightarrow> layer es lower k = Inr (Some v)"
    if kv: "HasPrefix k p" "v \<noteq> []" for k v
  proof -
    have "map_of ms k = map_of es k" using kv by (simp add: ms_def map_of_filter_keys [of "\<lambda>k. HasPrefix k p"])
    then have "(k, v) \<in> set (merge_entries ms bs) \<longleftrightarrow>
        (case map_of es k of Some w \<Rightarrow> w = v | None \<Rightarrow> (k, v) \<in> set bs)"
      by (simp add: in_sorted_iff [OF sm] in_sorted_iff [OF s(2)] map_of_merge [OF s] split: option.split)
    also have "(k, v) \<in> set bs \<longleftrightarrow> lower k = Inr (Some v)" using bs kv unfolding lists_def by blast
    finally show ?thesis using kv by (simp add: layer_def split: option.split)
  qed
  moreover have "\<forall>e \<in> set (merge_entries ms bs). HasPrefix (fst e) p"
    using keys_merge [of ms bs] bs by (fastforce simp: lists_def ms_def)
  ultimately show ?thesis using sm by (simp add: lists_def sorted_filter_keys)
qed

lemma lists_named: "lists p view es \<Longrightarrow> p \<noteq> [] \<Longrightarrow> named es"
  by (auto simp: lists_def HasPrefix_def)

text \<open>A join of a buffer's iterator with an iterator over what lies below lists the layer.\<close>

lemma join_lists:
  assumes below: "store_iter bi bready bpos" "bready b bs" "lists p lower bs"
    and mem: "mem_ok m" "\<And>k. within (Some r) k \<longleftrightarrow> HasPrefix k p" and c: "bytes_comparer c" and p: "p \<noteq> []"
  defines "it \<equiv> join_it dbIter_it bi"
  obtains es where "store_iter it (join_ready dbIter_ready bready) (join_pos dbIter_pos bpos)"
    "join_ready dbIter_ready bready (NewJoinIter c (mem_NewIterator m (Some r)) b) es"
    "lists p (layer (mem_entries m) lower) es" "live es = es"
proof
  let ?ms = "filter (\<lambda>e. HasPrefix (fst e) p) (mem_entries m)"
  have "join_iters dbIter_it dbIter_ready dbIter_pos bi bready bpos"
    using mi.store_iter_axioms below(1) by (rule join_iters.intro)
  then show "store_iter it (join_ready dbIter_ready bready) (join_pos dbIter_pos bpos)"
    unfolding it_def by (rule join_iters.join_contract)
  have "dbIter_ready (mem_NewIterator m (Some r)) ?ms"
    using mem by (simp add: dbIter_ready_def mem_NewIterator_def)
  moreover have "named ?ms" using p by (auto simp: HasPrefix_def)
  ultimately show "join_ready dbIter_ready bready (NewJoinIter c (mem_NewIterator m (Some r)) b) (live (merge_entries ?ms bs))"
    using below(2) lists_named [OF below(3) p] c unfolding join_ready_def
    by (intro conjI exI [of _ ?ms] exI [of _ bs]) (simp_all add: NewJoinIter_def)
  show "lists p (layer (mem_entries m) lower) (live (merge_entries ?ms bs))"
    by (rule lists_layer [OF mem.ents_sorted [OF mem(1)] below(3)])
qed simp

lemma stripped_lists:
  assumes l: "lists (c # p) view es" and live: "live es = es"
  shows "sorted_wrt (<) (map fst (map (apfst Iter_Key) es))"
    and "(k, v) \<in> set (map (apfst Iter_Key) es) \<longleftrightarrow> HasPrefix k p \<and> v \<noteq> [] \<and> view (c # k) = Inr (Some v)"
proof -
  have key: "\<exists>t. fst e = c # t \<and> HasPrefix t p" if "e \<in> set es" for e
    using l that by (cases "fst e") (auto simp: lists_def HasPrefix_def)
  from l have "sorted_wrt (\<lambda>a b. fst a < fst b) es" by (simp add: lists_def sorted_wrt_map)
  moreover have "Iter_Key (fst a) < Iter_Key (fst b)" if "a \<in> set es" "b \<in> set es" "fst a < fst b" for a b
    using key [OF that(1)] key [OF that(2)] that(3) by (auto simp: Iter_Key_def)
  ultimately have "sorted_wrt (\<lambda>a b. Iter_Key (fst a) < Iter_Key (fst b)) es"
    by (rule sorted_wrt_mono_rel [rotated])
  then show "sorted_wrt (<) (map fst (map (apfst Iter_Key) es))" by (simp add: sorted_wrt_map)
  have "(k, v) \<in> set (map (apfst Iter_Key) es) \<longleftrightarrow> (c # k, v) \<in> set es"
  proof
    assume "(k, v) \<in> set (map (apfst Iter_Key) es)"
    then obtain x where x: "(x, v) \<in> set es" "k = Iter_Key x" by auto
    with key [OF x(1)] show "(c # k, v) \<in> set es" by (auto simp: Iter_Key_def)
  qed (force simp: Iter_Key_def image_iff)
  moreover have "(c # k, v) \<in> set es \<Longrightarrow> v \<noteq> []" using live by (auto simp: filter_id_conv)
  moreover have "HasPrefix (c # k) (c # p) \<longleftrightarrow> HasPrefix k p" by (simp add: HasPrefix_def)
  ultimately show "(k, v) \<in> set (map (apfst Iter_Key) es) \<longleftrightarrow> HasPrefix k p \<and> v \<noteq> [] \<and> view (c # k) = Inr (Some v)"
    using l unfolding lists_def by fastforce
qed

section \<open>Properties\<close>

text \<open>
  C27 (termination): iterating the transaction cache over a key prefix ends.  The loops of \<open>First\<close> and
  \<open>Next\<close> that skip deleted entries end, no call panics, and the client's loop visits, each once and in
  key order, exactly the keys with the prefix that the transaction reads a non-empty value for: the
  writes of the transaction hide those of the block, which hide those of the store.  The store's iterator is
  any one that meets the contract of \<open>StoreIterator\<close> over the entries of the database, and the range
  made for the prefix holds the keys that start with it.
\<close>

theorem cache_iteration_ends:
  assumes "cache_ok self" and "bytes_comparer c"
    and range: "\<forall>k. within (Some (prefix_range (ST_STORAGE # key))) k \<longleftrightarrow> HasPrefix k (ST_STORAGE # key)"
    and below: "store_iter bi bready bpos" "bready (back (ST_STORAGE # key)) bs"
      "lists (ST_STORAGE # key) (store_view (pget (store (backend self)))) bs"
  shows "\<exists>es. iterate (Iter_it bi) (cache_NewIterator c prefix_range back self key) = Some es \<and>
    sorted_wrt (<) (map fst es) \<and>
    (\<forall>k v. (k, v) \<in> set es \<longleftrightarrow> HasPrefix k key \<and> v \<noteq> [] \<and> cache_view self k = Inr (Some v))"
proof -
  let ?p = "ST_STORAGE # key"
  from assms(1) have ok: "mem_ok (cmem self)" "mem_ok (omem (backend self))" by (simp_all add: cache_ok_def)
  note range = range [rule_format] and p = list.distinct(2) [of ST_STORAGE key]
  from join_lists [OF below ok(2) range assms(2) p] obtain lower where low:
    "store_iter (join_it dbIter_it bi) (join_ready dbIter_ready bready) (join_pos dbIter_pos bpos)"
    "join_ready dbIter_ready bready (overlay_NewIterator c prefix_range back (backend self) ?p) lower"
    "lists ?p (overlay_view (backend self)) lower" "live lower = lower"
    unfolding overlay_NewIterator_def overlay_view_def .
  from join_lists [OF low(1-3) ok(1) range assms(2) p] obtain es where es:
    "store_iter (join_it dbIter_it (join_it dbIter_it bi)) (join_ready dbIter_ready (join_ready dbIter_ready bready))
      (join_pos dbIter_pos (join_pos dbIter_pos bpos))"
    "join_ready dbIter_ready (join_ready dbIter_ready bready) (cache_NewIterator c prefix_range back self key) es"
    "lists ?p (layer (mem_entries (cmem self)) (overlay_view (backend self))) es" "live es = es"
    unfolding cache_NewIterator_def Let_def .
  have "iterate (Iter_it bi) (cache_NewIterator c prefix_range back self key) = Some (map (apfst Iter_Key) es)"
    unfolding Iter_it_def Let_def
    by (rule store_iter.iterate_ready [OF store_iter.renamed_contract [OF es(1)]]) (use es(2) in \<open>auto simp: Iter_Key_def\<close>)
  then show ?thesis using stripped_lists [OF es(3,4)] by (auto simp: cache_view_def)
qed

text \<open>A store with two entries, of which the transaction deletes the first.\<close>

definition cursor_it :: "((bytes \<times> bytes) list \<times> (bytes \<times> bytes) list) StoreIterator" where
  "cursor_it = \<lparr>itFirst = \<lambda>(es, _). Some (es \<noteq> [], (es, es)),
     itNext = \<lambda>(es, cur). Some (tl cur \<noteq> [], (es, tl cur)),
     itKey = \<lambda>(_, cur). if cur = [] then [] else fst (hd cur),
     itValue = \<lambda>(_, cur). if cur = [] then [] else snd (hd cur), itError = \<lambda>_. None\<rparr>"

interpretation cursor: store_iter cursor_it "\<lambda>s es. fst s = es" "\<lambda>s es. snd s = es"
  by unfold_locales (auto simp: cursor_it_def)

interpretation block_iter: join_iters dbIter_it dbIter_ready dbIter_pos
  cursor_it "\<lambda>s es. fst s = es" "\<lambda>s es. snd s = es" ..

interpretation tx_iter: join_iters dbIter_it dbIter_ready dbIter_pos
  "join_it dbIter_it cursor_it" "join_ready dbIter_ready (\<lambda>s es. fst s = es)" "join_pos dbIter_pos (\<lambda>s es. snd s = es)" ..

definition two_entries :: "(bytes \<times> bytes) list" where
  "two_entries = [([5, 1], [7]), ([5, 2], [8])]"

definition two_store :: PersistStore where
  "two_store = \<lparr>pget = \<lambda>k. case map_of two_entries k of Some v \<Rightarrow> Inr v | None \<Rightarrow> Inl ErrNotFound, batch = []\<rparr>"

lemma byte_5: "\<not> a < 5 \<and> a < 6 \<longleftrightarrow> a = (5 :: byte)"
proof -
  have "a < 5 \<longleftrightarrow> unat a < 5" "a < 6 \<longleftrightarrow> unat a < 6" "a = 5 \<longleftrightarrow> unat a = 5"
    by (simp_all add: word_less_nat_alt word_unat_eq_iff)
  then show ?thesis by linarith
qed

lemma prefix_5: "within (Some \<lparr>Start = Some [5], Limit = Some [6]\<rparr>) k \<longleftrightarrow> HasPrefix k [5]"
proof (cases k)
  case (Cons a as)
  have "k < [5] \<longleftrightarrow> a < 5" "[6] \<le> k \<longleftrightarrow> \<not> a < 6" using Cons by (auto simp: not_less)
  with byte_5 [of a] Cons show ?thesis by (simp add: within_def bound_holds_def HasPrefix_def)
qed (simp add: within_def bound_holds_def HasPrefix_def)

lemma two_lists: "lists [5] (store_view (pget two_store)) two_entries"
  by (auto simp: lists_def two_store_def two_entries_def store_view_def HasPrefix_def split: if_splits)

theorem cache_iteration_ends_witness:
  "\<exists>m es. Put (NewMemDB bytes_cmp (\<lambda>i. i)) [5, 1] [] = Some m \<and>
    iterate (Iter_it cursor_it) (cache_NewIterator bytes_cmp (\<lambda>_. \<lparr>Start = Some [5], Limit = Some [6]\<rparr>)
      (\<lambda>_. (two_entries, [])) \<lparr>cmem = m, backend = NewOverlayDB bytes_cmp (\<lambda>i. i) two_store, keyScratch = []\<rparr> []) = Some es \<and>
    ([2], [8]) \<in> set es \<and> ([1], [7]) \<notin> set es"
proof -
  note new = mem_new [OF bytes_cmp_ok, of "\<lambda>i. i"]
  from mem.put_ents [OF conjunct1 [OF new], of "[5, 1]" "[]"] new obtain m where
    m: "Put (NewMemDB bytes_cmp (\<lambda>i. i)) [5, 1] [] = Some m" "mem_ok m" "mem_entries m = [([5, 1], [])]" by auto
  let ?self = "\<lparr>cmem = m, backend = NewOverlayDB bytes_cmp (\<lambda>i. i) two_store, keyScratch = []\<rparr>"
  have ok: "cache_ok ?self" using m(2) new by (simp add: cache_ok_def NewOverlayDB_def)
  have view: "cache_view ?self [2] = Inr (Some [8])" "cache_view ?self [1] = Inr None"
    using m(3) new by (simp_all add: cache_view_def layer_def overlay_view_def NewOverlayDB_def ST_STORAGE_def
        store_view_def two_store_def two_entries_def)
  let ?it = "cache_NewIterator bytes_cmp (\<lambda>_. \<lparr>Start = Some [5], Limit = Some [6]\<rparr>) (\<lambda>_. (two_entries, [])) ?self []"
  have "\<exists>es. iterate (Iter_it cursor_it) ?it = Some es \<and> sorted_wrt (<) (map fst es) \<and>
      (\<forall>k v. (k, v) \<in> set es \<longleftrightarrow> HasPrefix k [] \<and> v \<noteq> [] \<and> cache_view ?self k = Inr (Some v))"
  proof (rule cache_iteration_ends [OF ok bytes_cmp_ok _ cursor.store_iter_axioms])
    show "\<forall>k. within (Some \<lparr>Start = Some [5], Limit = Some [6]\<rparr>) k \<longleftrightarrow> HasPrefix k [ST_STORAGE]"
      by (simp add: prefix_5 ST_STORAGE_def)
    show "lists [ST_STORAGE] (store_view (pget (store (backend ?self)))) two_entries"
      using two_lists by (simp add: ST_STORAGE_def NewOverlayDB_def)
  qed simp
  then obtain es where es: "iterate (Iter_it cursor_it) ?it = Some es"
    "\<And>k v. (k, v) \<in> set es \<longleftrightarrow> HasPrefix k [] \<and> v \<noteq> [] \<and> cache_view ?self k = Inr (Some v)" by metis
  have "([2], [8]) \<in> set es" "([1], [7]) \<notin> set es" by (simp_all add: es(2) view HasPrefix_def)
  with m(1) es(1) show ?thesis by (intro exI [of _ m] exI [of _ es] conjI)
qed

end
