(* ===== verification/Signature_Manager.thy ===== *)
theory Signature_Manager
  imports Peer_Quorum Map_Codec
begin

text \<open>
  The signature manager contract (\<open>native/service/governance/signature_manager\<close>): the consensus peers
  deposit signatures on a subject, kept under the hash of the subject, and the call that completes a quorum
  of signers emits an event for the relayers.  Later signatures are still recorded.
\<close>

section \<open>Parameters and records\<close>

record AddSignatureParam =
  as_Address :: address
  as_SideChainID :: uint64
  Subject :: bytes
  Signature :: bytes

definition AddSignatureParam_Serialization :: "AddSignatureParam \<Rightarrow> bytes" where
  "AddSignatureParam_Serialization p =
     enc_varbytes (as_Address p) @ enc_uint64 (as_SideChainID p) @ enc_varbytes (Subject p) @ enc_varbytes (Signature p)"

definition AddSignatureParam_Deserialization :: "ZeroCopySource \<Rightarrow> (AddSignatureParam \<times> ZeroCopySource) option" where
  "AddSignatureParam_Deserialization src =
     do { (addr, src) \<leftarrow> read_addr src;
          (sideChainID, src) \<leftarrow> ok_read NextUint64 src;
          (subject, src) \<leftarrow> ok_read NextVarBytes src;
          (signature, src) \<leftarrow> ok_read NextVarBytes src;
          Some (\<lparr>as_Address = addr, as_SideChainID = sideChainID, Subject = subject, Signature = signature\<rparr>, src) }"

definition AddSignatureParam_wf :: "AddSignatureParam \<Rightarrow> bool" where
  "AddSignatureParam_wf p \<longleftrightarrow> length (as_Address p) = ADDR_LEN \<and> fits (Subject p) \<and> fits (Signature p)"

interpretation rd_add_signature: codec AddSignatureParam_Serialization AddSignatureParam_Deserialization
  AddSignatureParam_wf
  unfolding AddSignatureParam_Deserialization_def [abs_def] AddSignatureParam_Serialization_def AddSignatureParam_wf_def
  by unfold_locales (simp add: codec_simps, intro rd_rules)

record SigInfo =
  si_Status :: bool
  si_Sigs :: "(bytes \<times> bytes) list"

definition sig_bytes :: "bytes \<times> bytes \<Rightarrow> bytes" where
  "sig_bytes e = enc_varbytes (fst e) @ enc_varbytes (snd e)"

definition read_sig :: "ZeroCopySource \<Rightarrow> ((bytes \<times> bytes) \<times> ZeroCopySource) option" where
  "read_sig src =
     do { (k, src) \<leftarrow> ok_read NextString src;
          (v, src) \<leftarrow> ok_read NextVarBytes src;
          Some ((k, v), src) }"

definition SigInfo_Serialization :: "SigInfo \<Rightarrow> bytes" where
  "SigInfo_Serialization v = enc_bool (si_Status v) @ map_ser enc_uint64 sig_bytes (\<lambda>k. k) (si_Sigs v)"

definition SigInfo_Deserialization :: "ZeroCopySource \<Rightarrow> (SigInfo \<times> ZeroCopySource) option" where
  "SigInfo_Deserialization src =
     do { (status, src) \<leftarrow> ok_read NextBool src;
          (sigInfo, src) \<leftarrow> map_deser (ok_read NextUint64) read_sig src;
          Some (\<lparr>si_Status = status, si_Sigs = sigInfo\<rparr>, src) }"

interpretation rd_sig: codec sig_bytes read_sig "\<lambda>e. fits (fst e) \<and> fits (snd e)"
  unfolding read_sig_def [abs_def] sig_bytes_def
  by unfold_locales (simp add: codec_simps, intro rd_rules)

interpretation rd_sigs: map_codec sig_bytes read_sig "\<lambda>e. fits (fst e) \<and> fits (snd e)"
  enc_uint64 "ok_read NextUint64" "\<lambda>k. k"
  by unfold_locales (simp add: inj_on_def)

section \<open>Operations\<close>

abbreviation ADD_SIGNATURE :: bytes where "ADD_SIGNATURE \<equiv> str ''addSignature''"
abbreviation SIG_INFO :: bytes where "SIG_INFO \<equiv> str ''sigInfo''"

abbreviation sgkey :: "bytes list \<Rightarrow> bytes" where
  "sgkey args \<equiv> ConcatKey SignatureManagerContractAddress args"

definition getSigInfo :: "NativeService \<Rightarrow> bytes \<Rightarrow> err + SigInfo" where
  "getSigInfo ns i =
     ebind (load_item ''getSigInfo, get getSigInfoStore error'' ''getSigInfo, deserialize from raw storage item err''
         ''getSigInfo, deserialize SigInfo err'' SigInfo_Deserialization ns (sgkey [SIG_INFO, i]))
       (\<lambda>sigInfo. Inr (case sigInfo of None \<Rightarrow> \<lparr>si_Status = False, si_Sigs = []\<rparr> | Some v \<Rightarrow> v))"

definition putSigInfo :: "bytes \<Rightarrow> SigInfo \<Rightarrow> NativeService \<Rightarrow> NativeService" where
  "putSigInfo i sigInfo ns =
     db_Put (sgkey [SIG_INFO, i]) (GenRawStorageItem (SigInfo_Serialization sigInfo)) ns"

definition CheckSigns :: "Env \<Rightarrow> bytes \<Rightarrow> bytes \<Rightarrow> address \<Rightarrow> NativeService \<Rightarrow> err + (bool \<times> NativeService)" where
  "CheckSigns env i sig address ns =
     ebind (getSigInfo ns i) (\<lambda>sigInfo.
     ebind (GetView ns) (\<lambda>view.
     ebind (GetPeerPoolMap ns view) (\<lambda>peerPoolMap.
     ebind (is_consensus_peer ''CheckSigs'' env address peerPoolMap) (\<lambda>cons.
     if \<not> cons then Inl ''CheckSigs, signer is not consensus peer''
     else
     ebind (count_votes ''CheckSigs'' env (\<lambda>k. map_of (si_Sigs sigInfo) k \<noteq> None) address peerPoolMap (0, 0, False))
       (\<lambda>(num, sum, flag).
     let (sigInfo, num, ns) =
           (if flag
            then (let sigInfo = sigInfo\<lparr>si_Sigs := AList.update (ToBase58 env address) sig (si_Sigs sigInfo)\<rparr>;
                      num = num + 1
                  in (sigInfo, num, if num < (2 * sum + 2) div 3 then putSigInfo i sigInfo ns else ns))
            else (sigInfo, num, ns))
     in if num \<ge> (2 * sum + 2) div 3
        then (let shouldEmit = \<not> si_Status sigInfo
              in Inr (shouldEmit, putSigInfo i (sigInfo\<lparr>si_Status := True\<rparr>) ns))
        else Inr (False, ns))))))"

definition AddSignature :: "Env \<Rightarrow> handler" where
  "AddSignature env ns =
     ebind (parse_input AddSignatureParam_Deserialization ''AddSignature, contract params deserialize error'' ns)
       (\<lambda>params.
     if \<not> ValidateOwner env ns (as_Address params) then Inl ''AddSignature, checkWitness''
     else
     let i = sha256 (Subject params) in
     ebind (CheckSigns env i (Signature params) (as_Address params) ns) (\<lambda>(ok, ns).
     if \<not> ok then Inr (BYTE_TRUE, ns)
     else Inr (BYTE_TRUE, AddNotify \<lparr>ContractAddress = SignatureManagerContractAddress,
            States = [NStr (str ''AddSignatureQuorum''), NStr i, NStr (Subject params),
                      NNum (uint (as_SideChainID params))]\<rparr> ns)))"

definition RegisterSignatureManagerContract :: "Env \<Rightarrow> (bytes \<times> handler) list" where
  "RegisterSignatureManagerContract env = [(ADD_SIGNATURE, AddSignature env)]"

section \<open>Signatures read back\<close>

definition signers_of :: "Env \<Rightarrow> SigInfo \<Rightarrow> address set" where
  "signers_of env v = {a. ToBase58 env a \<in> fst ` set (si_Sigs v)}"

definition add_sig :: "Env \<Rightarrow> address \<Rightarrow> bytes \<Rightarrow> SigInfo \<Rightarrow> SigInfo" where
  "add_sig env a sig v =
     (if a \<in> signers_of env v then v else v\<lparr>si_Sigs := AList.update (ToBase58 env a) sig (si_Sigs v)\<rparr>)"

definition sigs_ok :: "SigInfo \<Rightarrow> bool" where
  "sigs_ok v \<longleftrightarrow> map_ok (\<lambda>e. fits (fst e) \<and> fits (snd e)) (si_Sigs v)"

definition sigs_canon :: "SigInfo \<Rightarrow> SigInfo" where
  "sigs_canon v = v\<lparr>si_Sigs := map_canon (\<lambda>k. k) (si_Sigs v)\<rparr>"

lemma SigInfo_read:
  assumes "sigs_ok v" and "fits (SigInfo_Serialization v)"
  shows "SigInfo_Deserialization (NewZeroCopySource (SigInfo_Serialization v))
    = Some (sigs_canon v, src_at (SigInfo_Serialization v) [])"
  using rd_sigs.read_any [of "si_Sigs v" "enc_bool (si_Status v)" "[]"] assms
  by (simp add: SigInfo_Deserialization_def SigInfo_Serialization_def sigs_ok_def sigs_canon_def codec_simps
      NewZeroCopySource_at rd_bool.roundtrip [where pre = "[]", simplified])

lemma getSigInfo_put:
  assumes "sigs_ok v" and "length (SigInfo_Serialization v) < 2 ^ 62"
  shows "getSigInfo (putSigInfo i v ns) i = Inr (sigs_canon v)"
  using SigInfo_read [OF assms(1)] assms(2)
  by (simp add: getSigInfo_def putSigInfo_def load_item_def store_simps)

lemma status_canon_sigs [simp]: "si_Status (sigs_canon v) = si_Status v"
  by (simp add: sigs_canon_def)

lemma signers_canon [simp]: "sigs_ok v \<Longrightarrow> signers_of env (sigs_canon v) = signers_of env v"
  by (simp add: signers_of_def sigs_canon_def sigs_ok_def map_ok_def canon_distinct)

text \<open>The size bounds under which a signature is read back.\<close>

definition small_sigs :: "Env \<Rightarrow> address \<Rightarrow> bytes \<Rightarrow> SigInfo \<Rightarrow> bool" where
  "small_sigs env a sig v \<longleftrightarrow> sigs_ok v \<and> length (SigInfo_Serialization v) < 2 ^ 61 \<and> length (ToBase58 env a) < 2 ^ 59
     \<and> length sig < 2 ^ 59 \<and> length (si_Sigs v) < 2 ^ 61"

lemma length_sigs:
  "distinct (map fst m) \<Longrightarrow> length (map_ser enc_uint64 sig_bytes (\<lambda>k. k) m) = 8 + (\<Sum>e\<leftarrow>m. length (sig_bytes e))"
  by (simp add: rd_sigs.length_ser enc_uint64_def)

lemma add_sig_ok:
  assumes "small_sigs env a sig v"
  shows "sigs_ok (add_sig env a sig v)" "length (SigInfo_Serialization ((add_sig env a sig v)\<lparr>si_Status := s\<rparr>)) < 2 ^ 62"
proof -
  let ?k = "ToBase58 env a"
  have d: "distinct (map fst (si_Sigs v))" using assms by (simp add: small_sigs_def sigs_ok_def map_ok_def)
  show "sigs_ok (add_sig env a sig v)"
    using assms map_ok_update [of "\<lambda>e. fits (fst e) \<and> fits (snd e)" "si_Sigs v" ?k sig]
    by (auto simp: add_sig_def small_sigs_def sigs_ok_def)
  have n: "length (SigInfo_Serialization v) = 1 + (8 + (\<Sum>e\<leftarrow>si_Sigs v. length (sig_bytes e)))"
    by (simp add: SigInfo_Serialization_def length_sigs [OF d] enc_bool_def)
  have b: "length (sig_bytes (?k, sig)) \<le> 2 ^ 60 + 20"
    using assms by (simp add: sig_bytes_def enc_varbytes_def enc_varuint_def small_sigs_def)
  show "length (SigInfo_Serialization ((add_sig env a sig v)\<lparr>si_Status := s\<rparr>)) < 2 ^ 62"
  proof (cases "a \<in> signers_of env v")
    case True
    then show ?thesis using n assms
      by (simp add: add_sig_def SigInfo_Serialization_def length_sigs [OF d] enc_bool_def small_sigs_def)
  next
    case False
    then have k: "?k \<notin> fst ` set (si_Sigs v)" by (simp add: signers_of_def)
    have "length (SigInfo_Serialization ((add_sig env a sig v)\<lparr>si_Status := s\<rparr>))
        = 9 + (\<Sum>e\<leftarrow>si_Sigs v. length (sig_bytes e)) + length (sig_bytes (?k, sig))"
      using False d k by (simp add: add_sig_def SigInfo_Serialization_def update_snoc [OF k] length_sigs enc_bool_def)
    with n b assms show ?thesis by (simp add: small_sigs_def)
  qed
qed

section \<open>What a call does\<close>

lemma recorded_sigs: "recorded_peers env (\<lambda>k. \<exists>y. map_of (si_Sigs v) k = Some y) = signers_of env v"
  by (simp add: recorded_peers_def signers_of_def map_of_recorded)

lemma CheckSigns_eq:
  assumes "getSigInfo ns i = Inr v" "GetGovernanceView ns = Inr gv" "GetPeerPoolMap ns (View gv) = Inr m"
    "keys_decode env m"
  shows "CheckSigns env i sig a ns =
    (if \<not> consensus_addr env m a then Inl ''CheckSigs, signer is not consensus peer''
     else if 2 * n_consensus m \<le> 3 * count_with env a (signers_of env v) m
     then Inr (\<not> si_Status v, putSigInfo i ((add_sig env a sig v)\<lparr>si_Status := True\<rparr>) ns)
     else Inr (False, if a \<in> signers_of env v then ns else putSigInfo i (add_sig env a sig v) ns))"
  using assms consensus_addr_pos [of env m a]
  by (auto simp: CheckSigns_def GetView_def is_consensus_peer_spec count_votes_spec recorded_sigs Let_def quorum_iff
      count_with_def add_sig_def not_less)

lemma CheckSigns_Inr:
  assumes "CheckSigns env i sig a ns = Inr (ok, ns')"
  obtains v gv m where "getSigInfo ns i = Inr v" "GetGovernanceView ns = Inr gv"
    "GetPeerPoolMap ns (View gv) = Inr m" "keys_decode env m" "consensus_addr env m a"
    "ok \<longleftrightarrow> \<not> si_Status v \<and> 2 * n_consensus m \<le> 3 * count_with env a (signers_of env v) m"
    "ns' = (if 2 * n_consensus m \<le> 3 * count_with env a (signers_of env v) m
            then putSigInfo i ((add_sig env a sig v)\<lparr>si_Status := True\<rparr>) ns
            else if a \<in> signers_of env v then ns else putSigInfo i (add_sig env a sig v) ns)"
proof -
  from assms obtain v gv m r where g: "getSigInfo ns i = Inr v" "GetGovernanceView ns = Inr gv"
    "GetPeerPoolMap ns (View gv) = Inr m"
    and r: "count_votes ''CheckSigs'' env (\<lambda>k. \<exists>y. map_of (si_Sigs v) k = Some y) a m (0, 0, False) = Inr r"
    by (auto simp: CheckSigns_def GetView_def split: if_splits)
  note d = count_votes_decodes [OF r]
  from CheckSigns_eq [OF g d, of sig a] assms show thesis
    by (intro that [OF g d]) (auto split: if_splits)
qed

end
