(* ===== verification/Signature_Claims.thy ===== *)
theory Signature_Claims
  imports Signature_Manager Vote_Claims
begin

text \<open>
  The property of the signature manager contract: when and how often the quorum event of a subject is emitted.
\<close>

section \<open>The handler\<close>

definition quorum_event :: "AddSignatureParam \<Rightarrow> NotifyEventInfo" where
  "quorum_event p = \<lparr>ContractAddress = SignatureManagerContractAddress,
     States = [NStr (str ''AddSignatureQuorum''), NStr (sha256 (Subject p)), NStr (Subject p), NNum (uint (as_SideChainID p))]\<rparr>"

lemma putSigInfo_notifications [simp]: "notifications (putSigInfo i v ns) = notifications ns"
  by (simp add: putSigInfo_def db_Put_def)

lemma CheckSigns_notifications: "CheckSigns env i sig a ns = Inr (ok, ns') \<Longrightarrow> notifications ns' = notifications ns"
  by (erule CheckSigns_Inr) simp

lemma AddSignature_Inr:
  assumes "AddSignature env ns = Inr (r, ns')" and p: "parse_input AddSignatureParam_Deserialization [] ns = Inr p"
  obtains ok ns1 where "ValidateOwner env ns (as_Address p)"
    "CheckSigns env (sha256 (Subject p)) (Signature p) (as_Address p) ns = Inr (ok, ns1)"
    "notifications ns' = notifications ns @ (if ok then [quorum_event p] else [])"
    "getSigInfo ns' (sha256 (Subject p)) = getSigInfo ns1 (sha256 (Subject p))"
proof -
  from assms obtain ok ns1 where c: "ValidateOwner env ns (as_Address p)"
    "CheckSigns env (sha256 (Subject p)) (Signature p) (as_Address p) ns = Inr (ok, ns1)"
    and ns': "ns' = (if ok then AddNotify (quorum_event p) ns1 else ns1)"
    by (auto simp: AddSignature_def parse_any [OF p] quorum_event_def Let_def split: if_splits)
  have "getSigInfo ns' i = getSigInfo ns1 i" for i by (simp add: ns' getSigInfo_def store_simps)
  with c ns' CheckSigns_notifications [OF c(2)] show thesis by (intro that [OF c]) (simp_all add: AddNotify_def)
qed

text \<open>The record of a subject is closed once its event has been emitted.\<close>

definition emitted :: "bytes \<Rightarrow> NativeService \<Rightarrow> bool" where
  "emitted i ns \<longleftrightarrow> (\<exists>v. getSigInfo ns i = Inr v \<and> si_Status v)"

lemma CheckSigns_emitted:
  assumes "CheckSigns env i sig a ns = Inr (ok, ns')" and small: "\<forall>v. getSigInfo ns i = Inr v \<longrightarrow> small_sigs env a sig v"
  shows "emitted i ns \<Longrightarrow> \<not> ok" and "emitted i ns \<or> ok \<Longrightarrow> emitted i ns'"
proof -
  from assms(1) obtain v gv m where v: "getSigInfo ns i = Inr v"
    and ok: "ok \<longleftrightarrow> \<not> si_Status v \<and> 2 * n_consensus m \<le> 3 * count_with env a (signers_of env v) m"
    and ns': "ns' = (if 2 * n_consensus m \<le> 3 * count_with env a (signers_of env v) m
            then putSigInfo i ((add_sig env a sig v)\<lparr>si_Status := True\<rparr>) ns
            else if a \<in> signers_of env v then ns else putSigInfo i (add_sig env a sig v) ns)"
    by (rule CheckSigns_Inr)
  have st: "si_Status (add_sig env a sig v) = si_Status v" by (simp add: add_sig_def)
  have w: "(add_sig env a sig v)\<lparr>si_Status := si_Status v\<rparr> = add_sig env a sig v" by (simp add: st [symmetric])
  note k = add_sig_ok [OF small [rule_format, OF v]]
  have "sigs_ok ((add_sig env a sig v)\<lparr>si_Status := True\<rparr>)" using k(1) by (simp add: sigs_ok_def)
  note g = getSigInfo_put [OF this k(2)] getSigInfo_put [OF k(1) k(2) [of "si_Status v", unfolded w]]
  show "emitted i ns \<Longrightarrow> \<not> ok" using v ok by (simp add: emitted_def)
  show "emitted i ns \<or> ok \<Longrightarrow> emitted i ns'" using v ok g by (auto simp: emitted_def ns' st)
qed

text \<open>
  Calls of \<open>AddSignature\<close> on one subject by any callers, interleaved with anything that leaves the subject's
  record alone; the events the calls emit are logged.
\<close>

inductive sig_run :: "Env \<Rightarrow> bytes \<Rightarrow> NativeService \<Rightarrow> NotifyEventInfo list \<Rightarrow> NativeService \<Rightarrow> bool" for env subj ns where
  start: "sig_run env subj ns [] ns"
| add: "sig_run env subj ns es ns1 \<Longrightarrow> parse_input AddSignatureParam_Deserialization [] ns1 = Inr p \<Longrightarrow> Subject p = subj \<Longrightarrow>
    \<forall>v. getSigInfo ns1 (sha256 subj) = Inr v \<longrightarrow> small_sigs env (as_Address p) (Signature p) v \<Longrightarrow>
    AddSignature env ns1 = Inr (r, ns2) \<Longrightarrow> notifications ns2 = notifications ns1 @ new \<Longrightarrow>
    sig_run env subj ns (es @ new) ns2"
| other: "sig_run env subj ns es ns1 \<Longrightarrow> db_Get ns2 (sgkey [SIG_INFO, sha256 subj]) = db_Get ns1 (sgkey [SIG_INFO, sha256 subj]) \<Longrightarrow>
    sig_run env subj ns es ns2"

text \<open>A consensus peer signs in the state, and the signers with it make up two thirds of the peers.\<close>

definition quorum_signed :: "Env \<Rightarrow> bytes \<Rightarrow> NativeService \<Rightarrow> bool" where
  "quorum_signed env i ns \<longleftrightarrow> (\<exists>v gv m a. getSigInfo ns i = Inr v \<and> GetGovernanceView ns = Inr gv \<and>
     GetPeerPoolMap ns (View gv) = Inr m \<and> consensus_addr env m a \<and> ValidateOwner env ns a \<and>
     2 * n_consensus m \<le> 3 * count_with env a (signers_of env v) m)"

lemma sig_run_inv:
  assumes "sig_run env subj ns es ns'"
  shows "length es \<le> 1 \<and> (es \<noteq> [] \<longrightarrow> emitted (sha256 subj) ns' \<and>
    (\<exists>ns1. sig_run env subj ns [] ns1 \<and> quorum_signed env (sha256 subj) ns1))"
  using assms
proof induction
  case (add es ns1 p r ns2 new)
  let ?i = "sha256 subj"
  from AddSignature_Inr [OF add(5,2)] obtain ok ns3 where c: "ValidateOwner env ns1 (as_Address p)"
    "CheckSigns env ?i (Signature p) (as_Address p) ns1 = Inr (ok, ns3)"
    "notifications ns2 = notifications ns1 @ (if ok then [quorum_event p] else [])"
    "getSigInfo ns2 ?i = getSigInfo ns3 ?i" unfolding add(3) .
  have new: "new = (if ok then [quorum_event p] else [])" using c(3) add(6) by simp
  note e = CheckSigns_emitted [OF c(2) add(4)]
  have e2: "emitted ?i ns2 \<longleftrightarrow> emitted ?i ns3" using c(4) by (simp add: emitted_def)
  have q: "quorum_signed env ?i ns1" if ok
    using c(2) by (rule CheckSigns_Inr) (use that c(1) in \<open>auto simp: quorum_signed_def\<close>)
  show ?case
  proof (cases "es = []")
    case True
    with new e(2) e2 q add(1) show ?thesis by auto
  next
    case False
    with add.IH have em: "emitted ?i ns1" by simp
    with e have "\<not> ok" "emitted ?i ns3" by simp_all
    with new add.IH e2 show ?thesis by simp
  qed
next
  case (other es ns1 ns2)
  have "getSigInfo ns2 (sha256 subj) = getSigInfo ns1 (sha256 subj)" unfolding getSigInfo_def load_item_cong [OF other(2)] ..
  with other.IH show ?case by (simp add: emitted_def)
qed simp

section \<open>Properties\<close>

text \<open>
  C11 (safety): whoever signs a subject, in whatever order and between whatever other transactions, the
  contract emits the quorum event for it at most once, and only in a call of a consensus peer with which the
  recorded signers make up two thirds of the consensus peers.
\<close>

theorem quorum_event_once:
  assumes "sig_run env subj ns es ns'"
  shows "length es \<le> 1 \<and>
    (es \<noteq> [] \<longrightarrow> (\<exists>ns1. sig_run env subj ns [] ns1 \<and> quorum_signed env (sha256 subj) ns1))"
  using sig_run_inv [OF assms] by blast

definition sample_signature :: AddSignatureParam where
  "sample_signature = \<lparr>as_Address = solo, as_SideChainID = 39, Subject = [1, 2], Signature = [3]\<rparr>"

definition signature_call :: NativeService where
  "signature_call = solo_call 8 [] (AddSignatureParam_Serialization sample_signature)"

lemma signature_call_facts:
  "parse_input AddSignatureParam_Deserialization e signature_call = Inr sample_signature"
  "getSigInfo signature_call i = Inr \<lparr>si_Status = False, si_Sigs = []\<rparr>"
  "small_sigs plain_env solo [3] \<lparr>si_Status = False, si_Sigs = []\<rparr>"
  "GetGovernanceView signature_call = Inr sample_view" "GetPeerPoolMap signature_call (View sample_view) = Inr pool1"
  "ValidateOwner plain_env signature_call solo"
proof -
  show "parse_input AddSignatureParam_Deserialization e signature_call = Inr sample_signature"
    using rd_add_signature.decode_encode [of sample_signature]
    by (simp add: parse_input_def signature_call_def solo_call_fields AddSignatureParam_wf_def sample_signature_def
        AddSignatureParam_Serialization_def enc_varbytes_def enc_varuint_def enc_uint64_def size_defs)
  show "getSigInfo signature_call i = Inr \<lparr>si_Status = False, si_Sigs = []\<rparr>"
    by (simp add: getSigInfo_def load_item_def signature_call_def solo_call_def solo_call_base)
  show "small_sigs plain_env solo [3] \<lparr>si_Status = False, si_Sigs = []\<rparr>"
    using length_ToBase58_plain [of solo]
    by (simp add: small_sigs_def sigs_ok_def map_ok_def SigInfo_Serialization_def map_ser_def SliceStable_def
        enc_bool_def enc_uint64_def)
  show "GetGovernanceView signature_call = Inr sample_view" "GetPeerPoolMap signature_call (View sample_view) = Inr pool1"
    using solo_call_gets [of 8 "[]"] by (simp_all add: signature_call_def) (simp add: sample_view_def)
  show "ValidateOwner plain_env signature_call solo" unfolding signature_call_def by (rule solo_owner)
qed

theorem quorum_event_once_witness:
  "\<exists>es ns'. sig_run plain_env [1, 2] signature_call es ns' \<and> es = [quorum_event sample_signature] \<and>
    quorum_signed plain_env (sha256 [1, 2]) signature_call \<and> length es \<le> 1"
proof -
  note f = signature_call_facts
  let ?i = "sha256 [1, 2]"
  have c: "consensus_addr plain_env pool1 solo" "distinct_signers plain_env pool1" using vote_call_facts(5,6) by simp_all
  have n: "count_with plain_env solo A pool1 = 1" for A
    using count_with_insert [OF c(2,1)] pool1_keys(3) by (simp add: solo_def)
  have p: "Subject sample_signature = [1, 2]" "as_Address sample_signature = solo" "Signature sample_signature = [3]"
    by (simp_all add: sample_signature_def)
  obtain ns2 where "CheckSigns plain_env ?i [3] solo signature_call = Inr (True, ns2)"
    using CheckSigns_eq [OF f(2,4,5) pool1_keys(1), of ?i "[3]" solo] by (simp add: c(1) n pool1_keys)
  note k = this CheckSigns_notifications [OF this]
  let ?ns = "AddNotify (quorum_event sample_signature) ns2"
  have run: "AddSignature plain_env signature_call = Inr (BYTE_TRUE, ?ns)"
    using k(1) f(1,6) by (simp add: AddSignature_def p quorum_event_def Let_def)
  have "sig_run plain_env [1, 2] signature_call ([] @ [quorum_event sample_signature]) ?ns"
    by (rule sig_run.add [OF sig_run.start f(1) p(1) _ run]) (simp_all add: f(2,3) p k(2) AddNotify_def)
  note r = this [simplified]
  have "quorum_signed plain_env ?i signature_call"
    unfolding quorum_signed_def
    by (intro exI [of _ "\<lparr>si_Status = False, si_Sigs = []\<rparr>"] exI [of _ sample_view] exI [of _ pool1] exI [of _ solo])
      (simp add: f c(1) n pool1_keys)
  with quorum_event_once [OF r] r show ?thesis by blast
qed

end
