(* ===== verification/Block_Types.thy ===== *)
theory Block_Types
  imports Chain_Tx
begin

text \<open>
  \<open>core/types/header.go\<close> and \<open>core/types/block.go\<close>: block headers and blocks, their encoding, their parsers and
  the hash of a block.  A panic is \<open>None\<close> of the encoders and \<open>TxPanic\<close> of the parsers.  The root of the
  transactions is in \<open>common/merkle_tree.go\<close>.
\<close>

section \<open>Headers\<close>

record Header =
  hd_Version :: uint32
  hd_ChainID :: uint64
  hd_PrevBlockHash :: uint256
  hd_TransactionsRoot :: uint256
  hd_CrossStateRoot :: uint256
  hd_BlockRoot :: uint256
  hd_Timestamp :: uint32
  hd_Height :: uint32
  hd_ConsensusData :: uint64
  hd_ConsensusPayload :: bytes
  hd_NextBookkeeper :: address
  hd_Bookkeepers :: "pubkey list"
  hd_SigData :: "bytes list"
  hd_hash :: "uint256 option"

abbreviation CURR_HEADER_VERSION :: uint32 where "CURR_HEADER_VERSION \<equiv> 0"

definition serializationUnsigned :: "Header \<Rightarrow> bytes option" where
  "serializationUnsigned bd =
     (if hd_Version bd > CURR_HEADER_VERSION then None
      else Some (enc_uint32 (hd_Version bd) @ enc_uint64 (hd_ChainID bd) @ hd_PrevBlockHash bd
        @ hd_TransactionsRoot bd @ hd_CrossStateRoot bd @ hd_BlockRoot bd @ enc_uint32 (hd_Timestamp bd)
        @ enc_uint32 (hd_Height bd) @ enc_uint64 (hd_ConsensusData bd) @ enc_varbytes (hd_ConsensusPayload bd)
        @ hd_NextBookkeeper bd))"

definition Header_Serialization :: "Env \<Rightarrow> Header \<Rightarrow> bytes option" where
  "Header_Serialization env bd =
     do { u \<leftarrow> serializationUnsigned bd;
          Some (u @ enc_varuint (of_nat (length (hd_Bookkeepers bd)))
            @ concat (map (\<lambda>pubkey. enc_varbytes (SerializePublicKey env pubkey)) (hd_Bookkeepers bd))
            @ enc_varuint (of_nat (length (hd_SigData bd))) @ concat (map enc_varbytes (hd_SigData bd))) }"

definition deserializationUnsigned :: "ZeroCopySource \<Rightarrow> (Header \<times> ZeroCopySource) option" where
  "deserializationUnsigned src =
     do { (version, src) \<leftarrow> ok_read NextUint32 src;
          if version > CURR_HEADER_VERSION then None else do {
          (chainID, src) \<leftarrow> ok_read NextUint64 src;
          (prevBlockHash, src) \<leftarrow> ok_read NextHash src;
          (transactionsRoot, src) \<leftarrow> ok_read NextHash src;
          (crossStateRoot, src) \<leftarrow> ok_read NextHash src;
          (blockRoot, src) \<leftarrow> ok_read NextHash src;
          (timestamp, src) \<leftarrow> ok_read NextUint32 src;
          (height, src) \<leftarrow> ok_read NextUint32 src;
          (consensusData, src) \<leftarrow> ok_read NextUint64 src;
          (consensusPayload, src) \<leftarrow> ok_read NextVarBytes src;
          (nextBookkeeper, src) \<leftarrow> ok_read NextAddress src;
          Some (\<lparr>hd_Version = version, hd_ChainID = chainID, hd_PrevBlockHash = prevBlockHash,
                 hd_TransactionsRoot = transactionsRoot, hd_CrossStateRoot = crossStateRoot,
                 hd_BlockRoot = blockRoot, hd_Timestamp = timestamp, hd_Height = height,
                 hd_ConsensusData = consensusData, hd_ConsensusPayload = consensusPayload,
                 hd_NextBookkeeper = nextBookkeeper, hd_Bookkeepers = [], hd_SigData = [], hd_hash = None\<rparr>, src) }}"

text \<open>The loops count up to \<open>int(n)\<close>, which is negative for a length from \<open>2^63\<close> on.\<close>

abbreviation loop_count :: "uint64 \<Rightarrow> nat" where "loop_count n \<equiv> nat (sint n)"

definition Header_Deserialization :: "Env \<Rightarrow> ZeroCopySource \<Rightarrow> (Header \<times> ZeroCopySource) option" where
  "Header_Deserialization env src =
     do { (bd, src) \<leftarrow> deserializationUnsigned src;
          (n, src) \<leftarrow> ok_read NextVarUint src;
          (bookkeepers, src) \<leftarrow> read_list (read_pubkey env) (loop_count n) src;
          (m, src) \<leftarrow> ok_read NextVarUint src;
          (sigData, src) \<leftarrow> read_list (ok_read NextVarBytes) (loop_count m) src;
          Some (bd\<lparr>hd_Bookkeepers := bookkeepers, hd_SigData := sigData\<rparr>, src) }"

definition HeaderFromRawBytes :: "Env \<Rightarrow> bytes \<Rightarrow> Header option" where
  "HeaderFromRawBytes env raw = do { (header, _) \<leftarrow> Header_Deserialization env (NewZeroCopySource raw); Some header }"

text \<open>The hash is computed once and kept in the header.\<close>

definition Header_Hash :: "Header \<Rightarrow> (uint256 \<times> Header) option" where
  "Header_Hash bd =
     (case hd_hash bd of
        Some h \<Rightarrow> Some (h, bd)
      | None \<Rightarrow> do { u \<leftarrow> serializationUnsigned bd;
                     let h = sha256 (sha256 u) in Some (h, bd\<lparr>hd_hash := Some h\<rparr>) })"

section \<open>The root of the transactions\<close>

definition hash_pair :: "uint256 \<Rightarrow> uint256 \<Rightarrow> uint256" where
  "hash_pair a b = sha256 (sha256 (a @ b))"

text \<open>One level in place: \<open>hashes[i]\<close> is overwritten with the node above \<open>hashes[2*i]\<close> and \<open>hashes[2*i+1]\<close>.\<close>

function pair_loop :: "nat \<Rightarrow> nat \<Rightarrow> uint256 list \<Rightarrow> uint256 list" where
  "pair_loop i n hs =
     (if i < n then pair_loop (i + 1) n (hs[i := hash_pair (hs ! (2 * i)) (hs ! (2 * i + 1))]) else hs)"
  by auto
termination by (relation "measure (\<lambda>(i, n, hs). n - i)") auto

declare pair_loop.simps [simp del]

definition merkle_level :: "uint256 list \<Rightarrow> uint256 list" where
  "merkle_level hs =
     (let n = length hs div 2; hs = pair_loop 0 n hs in
      if length hs = 2 * n + 1 then take (n + 1) (hs[n := hash_pair (hs ! (2 * n)) (hs ! (2 * n))])
      else take n hs)"

lemma length_pair_loop [simp]: "length (pair_loop i n hs) = length hs"
proof (induction i n hs rule: pair_loop.induct)
  case (1 i n hs)
  then show ?case by (subst pair_loop.simps) simp
qed

lemma length_merkle_level: "length (merkle_level hs) = (length hs + 1) div 2"
  by (simp add: merkle_level_def Let_def) presburger

function root_loop :: "uint256 list \<Rightarrow> uint256" where
  "root_loop hs = (if length hs \<le> 1 then hs ! 0 else root_loop (merkle_level hs))"
  by auto
termination by (relation "measure length") (auto simp: length_merkle_level)

declare root_loop.simps [simp del]

definition ComputeMerkleRoot :: "uint256 list \<Rightarrow> uint256" where
  "ComputeMerkleRoot hs = (if hs = [] then replicate 32 0 else root_loop hs)"

section \<open>Blocks\<close>

record Block =
  Block_Header :: Header
  Transactions :: "Transaction list"

primrec txs_Serialization :: "Env \<Rightarrow> Transaction list \<Rightarrow> string + bytes" where
  "txs_Serialization env [] = Inr []"
| "txs_Serialization env (tx # txs) =
     ebind (tx_Serialization env tx) (\<lambda>b. ebind (txs_Serialization env txs) (\<lambda>bs. Inr (b @ bs)))"

definition Block_Serialization :: "Env \<Rightarrow> Block \<Rightarrow> (string + bytes) option" where
  "Block_Serialization env b =
     do { h \<leftarrow> Header_Serialization env (Block_Header b);
          Some (ebind (txs_Serialization env (Transactions b)) (\<lambda>ts.
            Inr (h @ enc_uint32 (of_nat (length (Transactions b))) @ ts))) }"

text \<open>The loop over the transactions; \<open>seen\<close> is \<open>mask\<close>, which holds the hashes seen.\<close>

primrec read_txs :: "Env \<Rightarrow> nat \<Rightarrow> uint256 list \<Rightarrow> ZeroCopySource \<Rightarrow>
    tx_error + (Transaction list \<times> ZeroCopySource)" where
  "read_txs env 0 seen src = Inr ([], src)"
| "read_txs env (Suc n) seen src =
     ebind (tx_Deserialization env src) (\<lambda>(tx, src).
     if tx_hash tx \<in> set seen then Inl TxErr
     else ebind (read_txs env n (tx_hash tx # seen) src) (\<lambda>(txs, src). Inr (tx # txs, src)))"

definition Block_Deserialization :: "Env \<Rightarrow> ZeroCopySource \<Rightarrow> tx_error + (Block \<times> ZeroCopySource)" where
  "Block_Deserialization env src =
     ebind (orelse_err (Header_Deserialization env src) TxErr) (\<lambda>(header, src).
     ebind (orelse_err (ok_read NextUint32 src) TxErr) (\<lambda>(len, src).
     ebind (read_txs env (unat len) [] src) (\<lambda>(txs, src).
     let root = ComputeMerkleRoot (map tx_hash txs) in
     if hd_TransactionsRoot header \<noteq> root then Inl TxErr
     else Inr (\<lparr>Block_Header = header, Transactions = txs\<rparr>, src))))"

definition BlockFromRawBytes :: "Env \<Rightarrow> bytes \<Rightarrow> tx_error + Block" where
  "BlockFromRawBytes env raw =
     ebind (Block_Deserialization env (NewZeroCopySource raw)) (\<lambda>(block, _). Inr block)"

definition RebuildMerkleRoot :: "Block \<Rightarrow> Block" where
  "RebuildMerkleRoot b =
     b\<lparr>Block_Header := (Block_Header b)\<lparr>hd_TransactionsRoot := ComputeMerkleRoot (map tx_hash (Transactions b))\<rparr>\<rparr>"

section \<open>Round trips\<close>

definition unsigned_header_bytes :: "Header \<Rightarrow> bytes" where
  "unsigned_header_bytes h = (case serializationUnsigned h of Some b \<Rightarrow> b | None \<Rightarrow> [])"

definition header_shape :: "Header \<Rightarrow> bool" where
  "header_shape h \<longleftrightarrow> hd_Version h = CURR_HEADER_VERSION \<and> length (hd_PrevBlockHash h) = UINT256_SIZE \<and>
     length (hd_TransactionsRoot h) = UINT256_SIZE \<and> length (hd_CrossStateRoot h) = UINT256_SIZE \<and>
     length (hd_BlockRoot h) = UINT256_SIZE \<and> fits (hd_ConsensusPayload h) \<and>
     length (hd_NextBookkeeper h) = ADDR_LEN \<and> hd_hash h = None"

definition bare :: "Header \<Rightarrow> bool" where
  "bare h \<longleftrightarrow> header_shape h \<and> hd_Bookkeepers h = [] \<and> hd_SigData h = []"

interpretation rd_bare: codec unsigned_header_bytes deserializationUnsigned bare
proof
  fix x pre rest assume "bare x" and "fits (pre @ unsigned_header_bytes x @ rest)"
  then show "deserializationUnsigned (src_at pre (unsigned_header_bytes x @ rest))
      = Some (x, src_at (pre @ unsigned_header_bytes x) rest)"
    by (cases x) (simp add: deserializationUnsigned_def unsigned_header_bytes_def serializationUnsigned_def
        bare_def header_shape_def codec_simps)
next
  show "rd_local deserializationUnsigned"
    unfolding deserializationUnsigned_def [abs_def] by (intro rd_rules)
qed

definition Header_wf :: "Env \<Rightarrow> Header \<Rightarrow> bool" where
  "Header_wf env h \<longleftrightarrow> header_shape h \<and> list_all (pubkey_wf env) (hd_Bookkeepers h) \<and>
     list_all fits (hd_SigData h) \<and> length (hd_Bookkeepers h) < 2 ^ 63 \<and> length (hd_SigData h) < 2 ^ 63"

definition header_bytes :: "Env \<Rightarrow> Header \<Rightarrow> bytes" where
  "header_bytes env h = (case Header_Serialization env h of Some b \<Rightarrow> b | None \<Rightarrow> [])"

definition strip :: "Header \<Rightarrow> Header" where
  "strip h = h\<lparr>hd_Bookkeepers := [], hd_SigData := []\<rparr>"

lemma unsigned_strip: "unsigned_header_bytes (strip h) = unsigned_header_bytes h"
  by (simp add: unsigned_header_bytes_def serializationUnsigned_def strip_def)

lemma loop_count_small: "n < 2 ^ 63 \<Longrightarrow> loop_count (of_nat n) = n"
  by (simp add: signed_take_bit_int_eq_self signed_of_nat)

lemma header_bytes_eq:
  assumes "header_shape h"
  shows "header_bytes env h = unsigned_header_bytes h @ enc_varuint (of_nat (length (hd_Bookkeepers h)))
    @ concat (map (\<lambda>pubkey. enc_varbytes (SerializePublicKey env pubkey)) (hd_Bookkeepers h))
    @ enc_varuint (of_nat (length (hd_SigData h))) @ concat (map enc_varbytes (hd_SigData h))"
  using assms by (simp add: header_bytes_def Header_Serialization_def unsigned_header_bytes_def
      serializationUnsigned_def header_shape_def)

interpretation rd_header: codec "header_bytes env" "Header_Deserialization env" "Header_wf env" for env
proof
  fix x pre rest assume wf: "Header_wf env x" and fit: "fits (pre @ header_bytes env x @ rest)"
  have sh: "header_shape x" and b: "bare (strip x)" using wf by (simp_all add: Header_wf_def bare_def strip_def header_shape_def)
  have d: "\<forall>pk \<in> set (hd_Bookkeepers x). pubkey_wf env pk" "\<forall>s \<in> set (hd_SigData x). fits s"
    and n: "loop_count (of_nat (length (hd_Bookkeepers x))) = length (hd_Bookkeepers x)"
      "loop_count (of_nat (length (hd_SigData x))) = length (hd_SigData x)"
    using wf by (simp_all add: Header_wf_def list_all_iff loop_count_small)
  have u: "fits (pre @ unsigned_header_bytes x @ ys) \<Longrightarrow> deserializationUnsigned (src_at pre (unsigned_header_bytes x @ ys))
      = Some (strip x, src_at (pre @ unsigned_header_bytes x) ys)" for ys
    using rd_bare.roundtrip [OF b, of pre ys] by (simp only: unsigned_strip)
  show "Header_Deserialization env (src_at pre (header_bytes env x @ rest))
      = Some (x, src_at (pre @ header_bytes env x) rest)"
    using fit rd_varbytes.list_roundtrip [OF d(2)] rd_pubkey.list_roundtrip [OF d(1)]
    unfolding header_bytes_eq [OF sh] by (simp add: Header_Deserialization_def codec_simps n u strip_def)
next
  show "rd_local (Header_Deserialization env)"
    unfolding Header_Deserialization_def [abs_def] by (intro rd_rules rd_bare.local_read)
qed

end
