(* ===== verification/Block_Exec.thy ===== *)
theory Block_Exec
  imports Native_Service Block_Types Merkle_Path
begin

text \<open>
  \<open>core/store/ledgerstore/tx_handler.go\<close> and \<open>executeBlock\<close>, \<open>handleTransaction\<close> of
  \<open>core/store/ledgerstore/ledger_store.go\<close>: running the transactions of a block.  The block cache is its entries,
  in key order, over the state database; the transaction cache is the one of theory \<open>Native_Service\<close>.  The
  contracts (\<open>native.Contracts\<close>) are an argument.  A panic is an error.  A database whose reads fail with an I/O
  error, which \<open>overlay.Error()\<close> reports, is outside the model: a read finds a value or finds none.
\<close>

section \<open>The caches\<close>

record BlockOverlay =
  bwrites :: "(bytes \<times> bytes) list"
  bstore :: kv

definition block_view :: "BlockOverlay \<Rightarrow> kv" where
  "block_view ov = layer (bwrites ov) (bstore ov)"

text \<open>A transaction cache after \<open>NewCacheDB\<close> or \<open>Reset\<close>.\<close>

definition clean_cache :: "BlockOverlay \<Rightarrow> Cache" where
  "clean_cache ov = \<lparr>cwrites = DAList.empty, cbelow = \<lambda>k. block_view ov (ST_STORAGE # k)\<rparr>"

definition cache_entries :: "Cache \<Rightarrow> (bytes \<times> bytes) list" where
  "cache_entries c = sort_key fst (DAList.impl_of (cwrites c))"

text \<open>\<open>CacheDB.Commit\<close> goes through the entries in key order; a deletion is an entry with the empty value.\<close>

definition commit_cache :: "Cache \<Rightarrow> BlockOverlay \<Rightarrow> BlockOverlay" where
  "commit_cache c ov = ov\<lparr>bwrites := foldl (\<lambda>ws (k, v). upd_sorted (ST_STORAGE # k) v ws) (bwrites ov) (cache_entries c)\<rparr>"

section \<open>Transactions\<close>

record ExecuteNotify =
  en_TxHash :: uint256
  en_State :: byte
  en_Notify :: "NotifyEventInfo list"

abbreviation CONTRACT_STATE_FAIL :: byte where "CONTRACT_STATE_FAIL \<equiv> 0"
abbreviation CONTRACT_STATE_SUCCESS :: byte where "CONTRACT_STATE_SUCCESS \<equiv> 1"

definition Block_Hash :: "Block \<Rightarrow> err + uint256" where
  "Block_Hash b = orelse_err (map_option fst (Header_Hash (Block_Header b))) ''panic: invalid header over max version''"

text \<open>The hashes for the cross-chain tree, the block cache and the notification of a successful call.\<close>

definition HandleInvokeTransaction :: "contracts \<Rightarrow> BlockOverlay \<Rightarrow> Cache \<Rightarrow> Transaction \<Rightarrow> bytes \<Rightarrow> Header \<Rightarrow> uint256 \<Rightarrow>
    ExecuteNotify \<Rightarrow> err + (uint256 list \<times> BlockOverlay \<times> ExecuteNotify)" where
  "HandleInvokeTransaction Contracts overlay cache t code header hash notify =
     ebind (NewNativeService cache t (hd_Timestamp header) (hd_Height header) hash (hd_ChainID header) code False) (\<lambda>service.
     ebind (Invoke Contracts service) (\<lambda>(_, service).
     Inr (crossHashes service, commit_cache (cacheDB service) overlay,
          notify\<lparr>en_Notify := en_Notify notify @ notifications service, en_State := CONTRACT_STATE_SUCCESS\<rparr>)))"

definition handleTransaction :: "contracts \<Rightarrow> BlockOverlay \<Rightarrow> Cache \<Rightarrow> Block \<Rightarrow> Transaction \<Rightarrow>
    err + (ExecuteNotify \<times> uint256 list \<times> BlockOverlay)" where
  "handleTransaction Contracts overlay cache block t =
     (let notify = \<lparr>en_TxHash = tx_hash t, en_State = CONTRACT_STATE_FAIL, en_Notify = []\<rparr> in
      if TxType t = Invoke_tx then
        ebind (orelse_err (Payload t) ''panic: interface conversion'') (\<lambda>code.
        ebind (Block_Hash block) (\<lambda>hash.
        case HandleInvokeTransaction Contracts overlay cache t code (Block_Header block) hash notify of
          Inl _ \<Rightarrow> Inr (notify, [], overlay)
        | Inr (hs, overlay, notify) \<Rightarrow> Inr (notify, hs, overlay)))
      else Inl ''Unsupported transaction type!'')"

section \<open>Blocks\<close>

record ExecuteResult =
  WriteSet :: "(bytes \<times> bytes) list"
  CrossHashes :: "uint256 list"
  CrossStatesRoot :: uint256
  er_Hash :: uint256
  MerkleRoot :: uint256
  er_Notify :: "ExecuteNotify list"

primrec exec_txs :: "contracts \<Rightarrow> Block \<Rightarrow> Transaction list \<Rightarrow> BlockOverlay \<Rightarrow>
    err + (ExecuteNotify list \<times> uint256 list \<times> BlockOverlay)" where
  "exec_txs Contracts block [] overlay = Inr ([], [], overlay)"
| "exec_txs Contracts block (t # txs) overlay =
     ebind (handleTransaction Contracts overlay (clean_cache overlay) block t) (\<lambda>(notify, hs, overlay).
     ebind (exec_txs Contracts block txs overlay) (\<lambda>(ns, hs', overlay).
     Inr (notify # ns, hs @ hs', overlay)))"

definition write_set_hash :: "(bytes \<times> bytes) list \<Rightarrow> uint256" where
  "write_set_hash ws = sha256 (concat (map (\<lambda>(k, v). k @ v) ws))"

definition executeBlock :: "contracts \<Rightarrow> kv \<Rightarrow> CompactMerkleTree \<Rightarrow> Block \<Rightarrow> err + ExecuteResult" where
  "executeBlock Contracts db deltaMerkleTree block =
     ebind (exec_txs Contracts block (Transactions block) \<lparr>bwrites = [], bstore = db\<rparr>) (\<lambda>(notify, hs, overlay).
     ebind (if length hs \<noteq> 0 then HashFullTreeWithLeafHash hs else Inr (replicate 32 0)) (\<lambda>crossRoot.
     let hash = write_set_hash (bwrites overlay) in
     ebind (orelse_err (GetRootWithNewLeaf deltaMerkleTree hash) ''panic'') (\<lambda>root.
     Inr \<lparr>WriteSet = bwrites overlay, CrossHashes = hs, CrossStatesRoot = crossRoot, er_Hash = hash,
          MerkleRoot = root, er_Notify = notify\<rparr>)))"

section \<open>The caches of the store implement these\<close>

lemma layer_upd_sorted: "layer (upd_sorted k v es) lower = (layer es lower)(k := written v)"
proof (rule layer_put)
  show "map_of (upd_sorted k v es) = (map_of es)(k \<mapsto> v)" by (induction es) (auto simp: fun_eq_iff)
qed

lemma fold_entries_commit:
  assumes "mem_ok (omem b)"
  shows "\<exists>b'. fold_entries (\<lambda>key val b. if length val = 0 then overlay_Delete b key else overlay_Put b key val) es b = Some b' \<and>
    mem_ok (omem b') \<and> store b' = store b \<and>
    mem_entries (omem b') = foldl (\<lambda>ws (k, v). upd_sorted k v ws) (mem_entries (omem b)) es"
  using assms
proof (induction es arbitrary: b)
  case (Cons e es)
  obtain k v where e: "e = (k, v)" by (cases e)
  obtain b1 where b1: "overlay_Put b k v = Some b1" "mem_ok (omem b1)" "store b1 = store b"
    "mem_entries (omem b1) = upd_sorted k v (mem_entries (omem b))"
    by (rule overlay_Put_view [OF Cons.prems])
  have "(if length v = 0 then overlay_Delete b k else overlay_Put b k v) = Some b1"
    using b1(1) by (cases v) (simp_all add: overlay_Delete_eq)
  then show ?case using Cons.IH [OF b1(2)] b1(3,4) by (auto simp: e)
qed simp

lemma set_upd_sorted: "set (map fst (upd_sorted k v es)) = insert k (set (map fst es))"
  by (induction es) auto

lemma sorted_upd_sorted: "sorted_wrt (<) (map fst es) \<Longrightarrow> sorted_wrt (<) (map fst (upd_sorted k v es))"
proof (induction es)
  case (Cons e es)
  then show ?case using set_upd_sorted [of k v es] by (auto simp: not_less order_less_le)
qed simp

lemma distinct_sort: "distinct (map fst (sort_key fst es)) \<longleftrightarrow> distinct (map fst es)"
  by (rule mset_eq_imp_distinct_iff) simp

lemma sort_entries: "distinct (map fst es) \<Longrightarrow> sorted_wrt (<) (map fst (sort_key fst es))"
  by (simp add: strict_sorted_iff distinct_sort)

lemma sort_update:
  assumes "distinct (map fst es)"
  shows "sort_key fst (AList.update k v es) = upd_sorted k v (sort_key fst es)"
proof (rule sort_key_inj_key_eq)
  let ?u = "AList.update k v es" and ?s = "upd_sorted k v (sort_key fst es)"
  have s: "sorted_wrt (<) (map fst ?s)" using sort_entries [OF assms] by (rule sorted_upd_sorted)
  then have d: "distinct (map fst ?s)" "sorted (map fst ?s)" by (simp_all add: strict_sorted_iff)
  show "sorted (map fst ?s)" by (fact d)
  have du: "distinct (map fst ?u)" using assms by (rule distinct_update)
  then show "inj_on fst (set ?u)" by (simp add: distinct_map)
  have "map_of (sort_key fst es) = map_of es"
    using assms by (intro map_of_mset_eq) (simp_all add: distinct_sort)
  moreover have "map_of (upd_sorted k v xs) = (map_of xs)(k \<mapsto> v)" for xs by (induction xs) (auto simp: fun_eq_iff)
  ultimately have "map_of ?s = map_of ?u" by (simp add: update_conv' fun_eq_iff)
  then have "set ?u = set ?s" using d du by (simp add: map_of_inject_set)
  moreover have "distinct ?u" "distinct ?s" using d(1) du by (simp_all only: distinct_map)
  ultimately show "mset ?u = mset ?s" by (simp only: set_eq_iff_mset_eq_distinct)
qed

definition prefixed :: "(bytes \<times> bytes) list \<Rightarrow> (bytes \<times> bytes) list" where
  "prefixed es = map (\<lambda>(k, v). (ST_STORAGE # k, v)) es"

lemma upd_prefixed: "upd_sorted (ST_STORAGE # k) v (prefixed es) = prefixed (upd_sorted k v es)"
  by (induction es) (auto simp: prefixed_def)

lemma layer_prefixed: "layer (prefixed es) lower (ST_STORAGE # k) = layer es (\<lambda>k. lower (ST_STORAGE # k)) k"
proof -
  have "map_of (prefixed es) (ST_STORAGE # k) = map_of es k" by (induction es) (auto simp: prefixed_def)
  then show ?thesis by (simp add: layer_def)
qed

lemma map_of_cache_entries: "map_of (cache_entries c) = map_of (DAList.impl_of (cwrites c))"
  unfolding cache_entries_def by (intro map_of_mset_eq) (simp_all add: distinct_sort)

lemma layer_cache_entries: "layer (cache_entries c) lower = layer (DAList.impl_of (cwrites c)) lower"
  by (simp add: layer_def [abs_def] map_of_cache_entries)

text \<open>The skip lists of the block cache and of the transaction cache hold the entries of the model.\<close>

definition cache_sim :: "CacheDB \<Rightarrow> Cache \<Rightarrow> BlockOverlay \<Rightarrow> bool" where
  "cache_sim c a ov \<longleftrightarrow> cache_ok c \<and> mem_entries (cmem c) = prefixed (cache_entries a) \<and>
     mem_entries (omem (backend c)) = bwrites ov \<and> store_view (pget (store (backend c))) = bstore ov \<and>
     cbelow a = (\<lambda>k. block_view ov (ST_STORAGE # k))"

lemma sim_view:
  assumes "cache_sim c a ov"
  shows "cache_view c k = layer (DAList.impl_of (cwrites a)) (cbelow a) k"
  using assms by (simp add: cache_sim_def cache_view_def layer_prefixed overlay_view_def block_view_def layer_cache_entries)

lemma sim_get:
  assumes sim: "cache_sim c a ov"
  shows "\<exists>c'. cache_Get c k = Some (layer (DAList.impl_of (cwrites a)) (cbelow a) k, c') \<and> cache_sim c' a ov"
proof -
  from sim have m: "mem_ok (cmem c)" "mem_ok (omem (backend c))" by (simp_all add: cache_sim_def cache_ok_def)
  obtain sc where pk: "makePrefixedKey (keyScratch c) ST_STORAGE k = (ST_STORAGE # k, sc)" by (rule makePrefixedKeyE)
  obtain b where b: "overlay_Get (backend c) (ST_STORAGE # k) = Some (overlay_view (backend c) (ST_STORAGE # k), b)"
    "omem b = omem (backend c)" "store b = store (backend c)"
    by (rule overlay_Get_view [OF m(2)])
  have "\<exists>c'. cache_Get c k = Some (cache_view c k, c') \<and> cmem c' = cmem c \<and> omem (backend c') = omem (backend c) \<and>
      store (backend c') = store (backend c)"
    using mem.get_ents [OF m(1), of "ST_STORAGE # k"] b
    by (auto simp: cache_Get_def cache_get_def pk cache_view_def layer_def split: option.split)
  then show ?thesis using sim sim_view [OF sim, of k] by (auto simp: cache_sim_def cache_ok_def)
qed

lemma sim_put:
  assumes sim: "cache_sim c a ov"
  shows "\<exists>c'. cache_Put c k v = Some c' \<and> cache_sim c' (a\<lparr>cwrites := DAList.update k v (cwrites a)\<rparr>) ov"
proof -
  from sim have m: "mem_ok (cmem c)" by (simp add: cache_sim_def cache_ok_def)
  obtain sc where pk: "makePrefixedKey (keyScratch c) ST_STORAGE k = (ST_STORAGE # k, sc)" by (rule makePrefixedKeyE)
  from mem.put_ents [OF m, of "ST_STORAGE # k" v] obtain m' where m': "Put (cmem c) (ST_STORAGE # k) v = Some m'" "mem_ok m'"
    "mem_entries m' = upd_sorted (ST_STORAGE # k) v (mem_entries (cmem c))" by blast
  have "cache_entries (a\<lparr>cwrites := DAList.update k v (cwrites a)\<rparr>) = upd_sorted k v (cache_entries a)"
    by (simp add: cache_entries_def DAList.update.rep_eq sort_update)
  then show ?thesis using sim m' by (simp add: cache_Put_def cache_put_def pk cache_sim_def cache_ok_def upd_prefixed)
qed

lemma sim_delete:
  assumes sim: "cache_sim c a ov"
  shows "\<exists>c'. cache_Delete c k = Some c' \<and> cache_sim c' (a\<lparr>cwrites := DAList.update k [] (cwrites a)\<rparr>) ov"
proof -
  have "cache_Delete c k = cache_Put c k []"
    by (simp add: cache_Delete_def cache_delete_def cache_Put_def cache_put_def Delete_def)
  then show ?thesis using sim_put [OF sim, of k "[]"] by simp
qed

lemma sim_commit:
  assumes sim: "cache_sim c a ov"
  shows "\<exists>c'. cache_Commit c = Some c' \<and>
    cache_sim (cache_Reset c') (clean_cache (commit_cache a ov)) (commit_cache a ov)"
proof -
  from sim have m: "mem_ok (cmem c)" "mem_ok (omem (backend c))" by (simp_all add: cache_sim_def cache_ok_def)
  obtain b where b: "fold_entries (\<lambda>key val b. if length val = 0 then overlay_Delete b key else overlay_Put b key val)
      (mem_entries (cmem c)) (backend c) = Some b" "mem_ok (omem b)" "store b = store (backend c)"
    "mem_entries (omem b) = foldl (\<lambda>ws (k, v). upd_sorted k v ws) (mem_entries (omem (backend c))) (mem_entries (cmem c))"
    using fold_entries_commit [OF m(2)] by blast
  have c: "cache_Commit c = Some (c\<lparr>backend := b\<rparr>)" using b(1) by (simp add: cache_Commit_def ForEach_entries [OF m(1)])
  have "foldl (\<lambda>ws (k, v). upd_sorted k v ws) ws (prefixed es) = foldl (\<lambda>ws (k, v). upd_sorted (ST_STORAGE # k) v ws) ws es" for ws es
    by (induction es arbitrary: ws) (auto simp: prefixed_def)
  with b sim have e: "mem_entries (omem b) = bwrites (commit_cache a ov)" "store_view (pget (store b)) = bstore (commit_cache a ov)"
    by (simp_all add: cache_sim_def commit_cache_def)
  have r: "mem_ok (Reset (cmem c))" "mem_entries (Reset (cmem c)) = []"
    using mem_reset [OF m(1)] by simp_all
  have "cache_entries (clean_cache x) = []" for x by (simp add: cache_entries_def clean_cache_def DAList.empty.rep_eq)
  then have "cache_sim (cache_Reset (c\<lparr>backend := b\<rparr>)) (clean_cache (commit_cache a ov)) (commit_cache a ov)"
    using e r b(2) by (simp add: cache_sim_def cache_ok_def cache_Reset_def prefixed_def clean_cache_def)
  with c show ?thesis by blast
qed

section \<open>A block as a sequence of calls on a map\<close>

text \<open>A call of a transaction on a map, and the map overridden by what the call wrote.\<close>

definition call_on :: "contracts \<Rightarrow> Block \<Rightarrow> kv \<Rightarrow> Transaction \<Rightarrow> err + NativeService" where
  "call_on Contracts block m t =
     (let header = Block_Header block in
      ebind (orelse_err (Payload t) ''no payload'') (\<lambda>code.
      ebind (Block_Hash block) (\<lambda>hash.
      ebind (NewNativeService \<lparr>cwrites = DAList.empty, cbelow = m\<rparr> t (hd_Timestamp header) (hd_Height header) hash
               (hd_ChainID header) code False) (\<lambda>service.
      ebind (Invoke Contracts service) (\<lambda>(_, service). Inr service)))))"

definition after_call :: "NativeService \<Rightarrow> kv \<Rightarrow> kv" where
  "after_call service m = layer (DAList.impl_of (cwrites (cacheDB service))) m"

text \<open>The transactions one after the other; one that fails changes nothing and is reported as failed.\<close>

primrec run_txs :: "contracts \<Rightarrow> Block \<Rightarrow> Transaction list \<Rightarrow> kv \<Rightarrow> kv \<times> ExecuteNotify list \<times> uint256 list" where
  "run_txs Contracts block [] m = (m, [], [])"
| "run_txs Contracts block (t # ts) m =
     (case call_on Contracts block m t of
        Inl _ \<Rightarrow> (let (m', ns, hs) = run_txs Contracts block ts m in
                  (m', \<lparr>en_TxHash = tx_hash t, en_State = CONTRACT_STATE_FAIL, en_Notify = []\<rparr> # ns, hs))
      | Inr s \<Rightarrow> (let (m', ns, hs) = run_txs Contracts block ts (after_call s m) in
                  (m', \<lparr>en_TxHash = tx_hash t, en_State = CONTRACT_STATE_SUCCESS, en_Notify = notifications s\<rparr> # ns,
                   crossHashes s @ hs)))"

abbreviation storage :: "kv \<Rightarrow> kv" where
  "storage db \<equiv> \<lambda>k. db (ST_STORAGE # k)"

lemma layer_commit:
  "distinct (map fst es) \<Longrightarrow> layer (foldl (\<lambda>ws (k, v). upd_sorted (ST_STORAGE # k) v ws) ws es) lower (ST_STORAGE # k) =
    layer es (storage (layer ws lower)) k"
proof (induction es arbitrary: ws)
  case (Cons e es)
  obtain j v where e: "e = (j, v)" by (cases e)
  have "storage (layer (upd_sorted (ST_STORAGE # j) v ws) lower) = (storage (layer ws lower))(j := written v)"
    by (simp add: layer_upd_sorted fun_eq_iff)
  then show ?case using Cons layer_cons [of j es "storage (layer ws lower)" v] by (simp add: e)
qed simp

lemma commit_view: "storage (block_view (commit_cache c ov)) = layer (DAList.impl_of (cwrites c)) (storage (block_view ov))"
  using layer_commit [of "cache_entries c"]
  by (simp add: fun_eq_iff commit_cache_def block_view_def layer_cache_entries)
    (simp add: cache_entries_def distinct_sort layer_cache_entries [unfolded cache_entries_def])

lemma handle_call:
  assumes "handleTransaction Contracts ov (clean_cache ov) block t = Inr (n, hs, ov')"
  shows "(case call_on Contracts block (storage (block_view ov)) t of
     Inl _ \<Rightarrow> n = \<lparr>en_TxHash = tx_hash t, en_State = CONTRACT_STATE_FAIL, en_Notify = []\<rparr> \<and> hs = [] \<and> ov' = ov
   | Inr s \<Rightarrow> n = \<lparr>en_TxHash = tx_hash t, en_State = CONTRACT_STATE_SUCCESS, en_Notify = notifications s\<rparr> \<and>
       hs = crossHashes s \<and> ov' = commit_cache (cacheDB s) ov)"
proof -
  let ?h = "Block_Header block"
  obtain code hash where c: "TxType t = Invoke_tx" "Payload t = Some code" "Block_Hash block = Inr hash"
    using assms by (auto simp: handleTransaction_def Let_def split: if_splits)
  let ?new = "NewNativeService (clean_cache ov) t (hd_Timestamp ?h) (hd_Height ?h) hash (hd_ChainID ?h) code False"
  have call: "call_on Contracts block (storage (block_view ov)) t = ebind ?new (\<lambda>s. ebind (Invoke Contracts s) (\<lambda>(_, s). Inr s))"
    by (simp add: call_on_def Let_def c clean_cache_def)
  show ?thesis
  proof (cases ?new)
    case (Inl e)
    then show ?thesis using assms unfolding call by (simp add: handleTransaction_def Let_def c HandleInvokeTransaction_def)
  next
    case (Inr s)
    then show ?thesis using assms unfolding call
      by (cases "Invoke Contracts s") (auto simp: handleTransaction_def Let_def c HandleInvokeTransaction_def)
  qed
qed

lemma commit_store [simp]: "bstore (commit_cache c ov) = bstore ov"
  by (simp add: commit_cache_def)

lemma exec_run:
  "exec_txs Contracts block ts ov = Inr (ns, hs, ov') \<Longrightarrow>
    run_txs Contracts block ts (storage (block_view ov)) = (storage (block_view ov'), ns, hs) \<and> bstore ov' = bstore ov"
proof (induction ts arbitrary: ov ns hs)
  case (Cons t ts)
  obtain n h ov1 ns1 hs1 where h: "handleTransaction Contracts ov (clean_cache ov) block t = Inr (n, h, ov1)"
    "exec_txs Contracts block ts ov1 = Inr (ns1, hs1, ov')" "ns = n # ns1" "hs = h @ hs1"
    using Cons.prems by (auto simp: ebind_eq_Inr)
  from Cons.IH [OF h(2)] handle_call [OF h(1)] show ?case
    by (auto simp: h(3,4) after_call_def commit_view split: sum.splits)
qed simp

text \<open>The write set is sorted and holds keys of contract storage only.\<close>

definition writes_ok :: "(bytes \<times> bytes) list \<Rightarrow> bool" where
  "writes_ok ws \<longleftrightarrow> sorted_wrt (<) (map fst ws) \<and> (\<forall>k \<in> set (map fst ws). take 1 k = [ST_STORAGE])"

lemma upd_writes_ok:
  assumes "writes_ok ws"
  shows "writes_ok (upd_sorted (ST_STORAGE # k) v ws)"
proof -
  have "sorted_wrt (<) (map fst (upd_sorted (ST_STORAGE # k) v ws))"
    using assms by (intro sorted_upd_sorted) (simp add: writes_ok_def)
  then show ?thesis using assms unfolding writes_ok_def set_upd_sorted by simp
qed

lemma commit_writes_ok:
  assumes "writes_ok (bwrites ov)"
  shows "writes_ok (bwrites (commit_cache c ov))"
proof -
  have "writes_ok ws \<Longrightarrow> writes_ok (foldl (\<lambda>ws (k, v). upd_sorted (ST_STORAGE # k) v ws) ws es)" for ws es
  proof (induction es arbitrary: ws)
    case (Cons e es)
    from Cons.IH [OF upd_writes_ok [OF Cons.prems]] show ?case by (cases e) simp
  qed simp
  with assms show ?thesis by (simp add: commit_cache_def)
qed

lemma exec_writes_ok: "exec_txs Contracts block ts ov = Inr (ns, hs, ov') \<Longrightarrow>
    writes_ok (bwrites ov) \<Longrightarrow> writes_ok (bwrites ov')"
proof (induction ts arbitrary: ov ns hs)
  case (Cons t ts)
  obtain n h ov1 ns1 hs1 where h: "handleTransaction Contracts ov (clean_cache ov) block t = Inr (n, h, ov1)"
    "exec_txs Contracts block ts ov1 = Inr (ns1, hs1, ov')"
    using Cons.prems(1) by (auto simp: ebind_eq_Inr)
  have "writes_ok (bwrites ov1)"
    using handle_call [OF h(1)] Cons.prems(2) by (auto simp: commit_writes_ok split: sum.splits)
  with Cons.IH [OF h(2)] show ?case by blast
qed simp

lemma exec_total:
  assumes "\<forall>t \<in> set ts. TxType t = Invoke_tx \<and> Payload t \<noteq> None" and "Block_Hash block = Inr bh"
  shows "\<exists>ns hs ov'. exec_txs Contracts block ts ov = Inr (ns, hs, ov')"
  using assms(1)
proof (induction ts arbitrary: ov)
  case (Cons t ts)
  then obtain code where c: "TxType t = Invoke_tx" "Payload t = Some code" by auto
  have "\<exists>n h ov1. handleTransaction Contracts ov (clean_cache ov) block t = Inr (n, h, ov1)"
    by (auto simp: handleTransaction_def Let_def c assms(2) split: sum.split)
  then obtain n h ov1 where h: "handleTransaction Contracts ov (clean_cache ov) block t = Inr (n, h, ov1)" by blast
  from Cons.prems have "\<forall>t \<in> set ts. TxType t = Invoke_tx \<and> Payload t \<noteq> None" by simp
  from Cons.IH [OF this, of ov1] obtain ns hs ov' where "exec_txs Contracts block ts ov1 = Inr (ns, hs, ov')" by blast
  with h show ?case by simp
qed simp

lemma root_with_leaf: "\<exists>r. GetRootWithNewLeaf t l = Some r"
  by (simp add: GetRootWithNewLeaf_def hash_fold_def)

lemma execute_refines:
  assumes txs: "\<forall>t \<in> set (Transactions block). TxType t = Invoke_tx \<and> Payload t \<noteq> None"
    and bh: "Block_Hash block = Inr bh"
    and run: "run_txs Contracts block (Transactions block) (storage db) = (m', ns, hs)" and few: "length hs < 2 ^ 32"
  shows "\<exists>r. executeBlock Contracts db tree block = Inr r \<and> er_Notify r = ns \<and> CrossHashes r = hs \<and>
    storage (layer (WriteSet r) db) = m' \<and> (\<forall>k. take 1 k \<noteq> [ST_STORAGE] \<longrightarrow> layer (WriteSet r) db k = db k) \<and>
    sorted_wrt (<) (map fst (WriteSet r)) \<and> er_Hash r = write_set_hash (WriteSet r)"
proof -
  let ?ov = "\<lparr>bwrites = [], bstore = db\<rparr>"
  obtain ns1 hs1 ov where e: "exec_txs Contracts block (Transactions block) ?ov = Inr (ns1, hs1, ov)"
    using exec_total [OF txs bh] by blast
  have "block_view ?ov = db" by (simp add: block_view_def)
  then have "run_txs Contracts block (Transactions block) (storage db) = (storage (block_view ov), ns1, hs1)" "bstore ov = db"
    using exec_run [OF e] by (simp_all only: BlockOverlay.simps)
  then have r: "storage (block_view ov) = m'" "ns1 = ns" "hs1 = hs" "bstore ov = db"
    unfolding run by (simp_all only: prod.inject)
  have ok: "writes_ok (bwrites ov)" using exec_writes_ok [OF e] by (simp add: writes_ok_def)
  obtain cr where cr: "(if length hs \<noteq> 0 then HashFullTreeWithLeafHash hs else Inr (replicate 32 0)) = Inr cr"
    using HashFullTreeWithLeafHash_mth [OF few] by (cases "hs = []") simp_all
  obtain root where root: "GetRootWithNewLeaf tree (write_set_hash (bwrites ov)) = Some root" using root_with_leaf by blast
  let ?r = "\<lparr>WriteSet = bwrites ov, CrossHashes = hs, CrossStatesRoot = cr,
      er_Hash = write_set_hash (bwrites ov), MerkleRoot = root, er_Notify = ns\<rparr>"
  have ex: "executeBlock Contracts db tree block = Inr ?r"
    unfolding executeBlock_def e [unfolded r(2,3)] ebind_Inr prod.case cr Let_def root orelse_err_simps ..
  have other: "layer (bwrites ov) db k = db k" if "take 1 k \<noteq> [ST_STORAGE]" for k
  proof -
    have "k \<notin> fst ` set (bwrites ov)" using ok that unfolding writes_ok_def set_map by blast
    then have "map_of (bwrites ov) k = None" by (simp add: map_of_eq_None_iff)
    then show ?thesis by (simp add: layer_def)
  qed
  have v: "storage (layer (bwrites ov) db) = m'" using r(1) unfolding block_view_def r(4) .
  show ?thesis
  proof (rule exI [of _ ?r], intro conjI)
    show "\<forall>k. take 1 k \<noteq> [ST_STORAGE] \<longrightarrow> layer (WriteSet ?r) db k = db k"
      unfolding ExecuteResult.simps by (intro allI impI) (rule other)
    show "storage (layer (WriteSet ?r) db) = m'" unfolding ExecuteResult.simps by (rule v)
    show "sorted_wrt (<) (map fst (WriteSet ?r))" using ok by (simp add: writes_ok_def)
  qed (simp_all add: ex)
qed

end
