(* ===== verification/State_Store.thy ===== *)
theory State_Store
  imports Block_Exec Merkle_Proofs
begin

text \<open>
  \<open>core/store/ledgerstore/state_store.go\<close>: the state database with the tree of block hashes and the tree of the
  blocks' write sets, what it saves for a block and how it is opened.  The two trees are in memory and their peaks
  are saved with every block.  \<open>None\<close> is a panic of a tree.  The bookkeeper record, which nothing reads back
  during operation, and the deletion of everything before a new genesis block are not modelled.
\<close>

datatype lerr = StoreErr store_err | Bad err

abbreviation bad :: "err \<Rightarrow> 'e + 'a \<Rightarrow> lerr + 'a" where
  "bad msg m \<equiv> (case m of Inl _ \<Rightarrow> Inl (Bad msg) | Inr x \<Rightarrow> Inr x)"

record StateStore =
  ss_store :: PersistStore
  merkleTree :: CompactMerkleTree
  deltaMerkleTree :: CompactMerkleTree
  stateHashCheckHeight :: uint32

definition state_Get :: "StateStore \<Rightarrow> bytes \<Rightarrow> lerr + bytes" where
  "state_Get self key = (case pget (ss_store self) key of Inl e \<Rightarrow> Inl (StoreErr e) | Inr v \<Rightarrow> Inr v)"

definition state_Put :: "bytes \<Rightarrow> bytes \<Rightarrow> StateStore \<Rightarrow> StateStore" where
  "state_Put key value self = self\<lparr>ss_store := BatchPut key value (ss_store self)\<rparr>"

abbreviation SYS_CURRENT_BLOCK :: byte where "SYS_CURRENT_BLOCK \<equiv> 0x10"
abbreviation SYS_BLOCK_MERKLE_TREE :: byte where "SYS_BLOCK_MERKLE_TREE \<equiv> 0x13"
abbreviation SYS_STATE_MERKLE_TREE :: byte where "SYS_STATE_MERKLE_TREE \<equiv> 0x20"
abbreviation DATA_STATE_MERKLE_ROOT :: byte where "DATA_STATE_MERKLE_ROOT \<equiv> 0x21"
abbreviation SYS_CROSS_STATES :: byte where "SYS_CROSS_STATES \<equiv> 0x22"
abbreviation SYS_CROSS_STATES_HASH :: byte where "SYS_CROSS_STATES_HASH \<equiv> 0x23"

abbreviation height_key :: "byte \<Rightarrow> uint32 \<Rightarrow> bytes" where
  "height_key prefix h \<equiv> prefix # put_le 4 (unat h)"

section \<open>Current block\<close>

definition state_SaveCurrentBlock :: "uint32 \<Rightarrow> uint256 \<Rightarrow> StateStore \<Rightarrow> StateStore" where
  "state_SaveCurrentBlock hgt bh self = state_Put [SYS_CURRENT_BLOCK] (ser_WriteUint32 bh hgt) self"

definition read_current :: "bytes \<Rightarrow> lerr + (uint256 \<times> uint32)" where
  "read_current data =
     ebind (bad ''Deserialize'' (ReadFull UINT256_SIZE data)) (\<lambda>(bh, reader).
     ebind (bad ''ReadUint32'' (ser_ReadUint32 reader)) (\<lambda>(hgt, _). Inr (bh, hgt)))"

definition state_GetCurrentBlock :: "StateStore \<Rightarrow> lerr + (uint256 \<times> uint32)" where
  "state_GetCurrentBlock self = ebind (state_Get self [SYS_CURRENT_BLOCK]) read_current"

section \<open>The trees\<close>

definition tree_value :: "CompactMerkleTree \<Rightarrow> bytes" where
  "tree_value t = enc_uint32 (treeSize t) @ concat (hashes t)"

definition AddStateMerkleTreeRoot :: "uint32 \<Rightarrow> uint256 \<Rightarrow> StateStore \<Rightarrow> StateStore option" where
  "AddStateMerkleTreeRoot blockHeight writeSetHash self =
     (if blockHeight < stateHashCheckHeight self then Some self
      else do {
        delta \<leftarrow> (if blockHeight = stateHashCheckHeight self
                  then (case NewTree 0 [] None of Inl _ \<Rightarrow> None | Inr t \<Rightarrow> Some t) else Some (deltaMerkleTree self));
        (_, delta) \<leftarrow> tree_Append writeSetHash delta;
        let self = state_Put [SYS_STATE_MERKLE_TREE] (tree_value delta) self;
            (root, delta) = Root delta;
            self = state_Put (height_key DATA_STATE_MERKLE_ROOT blockHeight) (writeSetHash @ root) self
        in Some (self\<lparr>deltaMerkleTree := delta\<rparr>) })"

definition AddBlockMerkleTreeRoot :: "uint256 \<Rightarrow> StateStore \<Rightarrow> StateStore option" where
  "AddBlockMerkleTreeRoot preBlockHash self =
     do { (_, t) \<leftarrow> tree_Append preBlockHash (merkleTree self);
          Some (state_Put [SYS_BLOCK_MERKLE_TREE] (tree_value t) (self\<lparr>merkleTree := t\<rparr>)) }"

primrec read_hashes :: "nat \<Rightarrow> bytes \<Rightarrow> lerr + uint256 list" where
  "read_hashes 0 reader = Inr []"
| "read_hashes (Suc n) reader =
     ebind (bad ''Deserialize'' (ReadFull UINT256_SIZE reader)) (\<lambda>(h, reader).
     ebind (read_hashes n reader) (\<lambda>hs. Inr (h # hs)))"

definition getMerkleTree :: "StateStore \<Rightarrow> bytes \<Rightarrow> lerr + (uint32 \<times> uint256 list)" where
  "getMerkleTree self key =
     ebind (state_Get self key) (\<lambda>data.
     ebind (bad ''ReadUint32'' (ser_ReadUint32 data)) (\<lambda>(n, value).
     ebind (read_hashes ((length data - 4) div UINT256_SIZE) value) (\<lambda>hs. Inr (n, hs))))"

definition GetStateMerkleRoot :: "StateStore \<Rightarrow> uint32 \<Rightarrow> lerr + uint256" where
  "GetStateMerkleRoot self hgt =
     (if hgt < stateHashCheckHeight self then Inr (replicate UINT256_SIZE 0)
      else ebind (state_Get self (height_key DATA_STATE_MERKLE_ROOT hgt)) (\<lambda>value.
        let (_, source) = NextHash (NewZeroCopySource value);
            ((root, eof), _) = NextHash source
        in if eof then Inl (Bad ''ErrUnexpectedEOF'') else Inr root))"

text \<open>Opening the store; \<open>content\<close> is the file of tree nodes.  A missing record is an empty tree.\<close>

definition or_empty :: "lerr + (uint32 \<times> uint256 list) \<Rightarrow> lerr + (uint32 \<times> uint256 list)" where
  "or_empty r = (case r of Inl (StoreErr ErrNotFound) \<Rightarrow> Inr (0, []) | _ \<Rightarrow> r)"

definition state_init :: "bytes \<Rightarrow> uint32 \<Rightarrow> StateStore \<Rightarrow> lerr + StateStore" where
  "state_init content currBlockHeight self =
     ebind (or_empty (getMerkleTree self [SYS_BLOCK_MERKLE_TREE])) (\<lambda>(n, hs).
     if n > 0 \<and> n \<noteq> currBlockHeight + 1 then Inl (Bad ''merkle tree size is inconsistent with blockheight'') else
     let nodes = (case NewFileHashStore content n of Inl _ \<Rightarrow> None | Inr s \<Rightarrow> Some s) in
     ebind (bad ''panic'' (NewTree n hs nodes)) (\<lambda>t.
     let self = self\<lparr>merkleTree := t\<rparr> in
     if currBlockHeight \<ge> stateHashCheckHeight self then
       ebind (or_empty (getMerkleTree self [SYS_STATE_MERKLE_TREE])) (\<lambda>(n, hs).
       if n > 0 \<and> n \<noteq> currBlockHeight - stateHashCheckHeight self + 1
       then Inl (Bad ''merkle tree size is inconsistent with blockheight'')
       else ebind (bad ''panic'' (NewTree n hs None)) (\<lambda>d. Inr (self\<lparr>deltaMerkleTree := d\<rparr>)))
     else Inr self))"

text \<open>\<open>NewStateStore\<close>: the database is opened, a missing current block counts as height 0.\<close>

definition NewStateStore :: "PersistStore \<Rightarrow> bytes \<Rightarrow> lerr + StateStore" where
  "NewStateStore db content =
     (let empty = \<lparr>mintree_h = 0, hashes = [], hashStore = None, rootHash = EMPTY_HASH, treeSize = 0\<rparr>;
          self = \<lparr>ss_store = db, merkleTree = empty, deltaMerkleTree = empty, stateHashCheckHeight = 0\<rparr> in
      case state_GetCurrentBlock self of
        Inl (StoreErr ErrNotFound) \<Rightarrow> state_init content 0 self
      | Inl e \<Rightarrow> Inl e
      | Inr (_, hgt) \<Rightarrow> state_init content hgt self)"

section \<open>Cross-chain hashes and contract storage\<close>

definition AddCrossStates :: "uint32 \<Rightarrow> uint256 list \<Rightarrow> uint256 \<Rightarrow> StateStore \<Rightarrow> StateStore" where
  "AddCrossStates hgt crossStates crossStatesHash self =
     (if length crossStates = 0 then self
      else state_Put (height_key SYS_CROSS_STATES_HASH hgt) crossStatesHash
             (state_Put (height_key SYS_CROSS_STATES hgt) (concat crossStates) self))"

definition GetCrossStateRoot :: "StateStore \<Rightarrow> uint32 \<Rightarrow> lerr + uint256" where
  "GetCrossStateRoot self hgt =
     (case state_Get self (height_key SYS_CROSS_STATES_HASH hgt) of
        Inl (StoreErr ErrNotFound) \<Rightarrow> Inr (replicate UINT256_SIZE 0)
      | Inl e \<Rightarrow> Inl e
      | Inr value \<Rightarrow> ebind (bad ''Deserialize'' (ReadFull UINT256_SIZE value)) (\<lambda>(h, _). Inr h))"

definition GetCrossStates :: "StateStore \<Rightarrow> uint32 \<Rightarrow> lerr + uint256 list" where
  "GetCrossStates self hgt =
     ebind (state_Get self (height_key SYS_CROSS_STATES hgt)) (\<lambda>value.
     case read_list (ok_read NextHash) (length value div UINT256_SIZE) (NewZeroCopySource value) of
       None \<Rightarrow> Inl (Bad ''ErrUnexpectedEOF'') | Some (hs, _) \<Rightarrow> Inr hs)"

definition GetStorageValue :: "StateStore \<Rightarrow> bytes \<Rightarrow> lerr + bytes" where
  "GetStorageValue self key =
     ebind (state_Get self (ST_STORAGE # key)) (\<lambda>data.
     ebind (bad ''Deserialize'' (StorageItem_Deserialize data)) (\<lambda>(item, _). Inr (Value item)))"

definition GetMerkleProof :: "StateStore \<Rightarrow> bytes \<Rightarrow> uint32 \<Rightarrow> uint32 \<Rightarrow> string + bytes" where
  "GetMerkleProof self raw proofHeight rootHeight = MerkleInclusionLeafPath (merkleTree self) raw proofHeight (rootHeight + 1)"

text \<open>The entries of a block's write set go into the batch as they are.\<close>

definition save_entries :: "(bytes \<times> bytes) list \<Rightarrow> StateStore \<Rightarrow> StateStore" where
  "save_entries ws self =
     self\<lparr>ss_store := foldl (\<lambda>st (key, val). if length val = 0 then BatchDelete key st else BatchPut key val st)
       (ss_store self) ws\<rparr>"

definition state_CommitTo :: "StateStore \<Rightarrow> StateStore" where
  "state_CommitTo self = self\<lparr>ss_store := BatchCommit (ss_store self)\<rparr>"

definition state_NewBatch :: "StateStore \<Rightarrow> StateStore" where
  "state_NewBatch self = self\<lparr>ss_store := NewBatch (ss_store self)\<rparr>"

section \<open>Batches\<close>

fun op_key :: "batch_op \<Rightarrow> bytes" where
  "op_key (BatchPutOp k v) = k"
| "op_key (BatchDeleteOp k) = k"

lemma apply_batch_append: "apply_batch (xs @ ys) db = apply_batch ys (apply_batch xs db)"
proof (induction xs arbitrary: db)
  case (Cons x xs)
  then show ?case by (cases x) (simp_all add: fun_upd_def)
qed simp

lemma apply_batch_other: "k \<notin> op_key ` set xs \<Longrightarrow> apply_batch xs db k = db k"
proof (induction xs arbitrary: db)
  case (Cons x xs)
  then show ?case by (cases x) simp_all
qed simp

lemma apply_batch_at:
  "distinct (map op_key xs) \<Longrightarrow> BatchPutOp k v \<in> set xs \<Longrightarrow> apply_batch xs db k = Inr v"
proof (induction xs arbitrary: db)
  case (Cons x xs)
  show ?case
  proof (cases "x = BatchPutOp k v")
    case True
    then have "k \<notin> op_key ` set xs" using Cons.prems(1) by simp
    then show ?thesis using True by (simp add: apply_batch_other)
  next
    case False
    then show ?thesis using Cons by (cases x) auto
  qed
qed simp

end
