(* ===== verification/Block_Commit.thy ===== *)
theory Block_Commit
  imports Block_Types Merkle_Proofs
begin

text \<open>
  What a block's bytes and a block's hash determine.  The in-place computation of the transaction root is the
  usual pairing of neighbours, the odd last hash with itself; a block that is written is read back; and two
  accepted blocks with the same hash and trees of the same depth have the same transactions, unless SHA-256
  collides on one of the strings that were hashed.
\<close>

section \<open>The root by pairing neighbours\<close>

fun pairs_of :: "'a list \<Rightarrow> ('a \<times> 'a) list" where
  "pairs_of [] = []"
| "pairs_of [a] = [(a, a)]"
| "pairs_of (a # b # r) = (a, b) # pairs_of r"

lemma length_pairs_of: "length (pairs_of xs) = (length xs + 1) div 2"
  by (induction xs rule: pairs_of.induct) simp_all

lemma nth_pairs_of:
  "j < (length xs + 1) div 2 \<Longrightarrow> pairs_of xs ! j = (xs ! (2 * j), if 2 * j + 1 < length xs then xs ! (2 * j + 1) else xs ! (2 * j))"
proof (induction xs arbitrary: j rule: pairs_of.induct)
  case (3 a b r)
  then show ?case by (cases j) simp_all
qed simp_all

lemma pair_loop_nth:
  assumes "2 * n \<le> length hs" and "j < length hs"
  shows "pair_loop i n hs ! j = (if i \<le> j \<and> j < n then hash_pair (hs ! (2 * j)) (hs ! (2 * j + 1)) else hs ! j)"
  using assms
proof (induction i n hs rule: pair_loop.induct)
  case (1 i n hs)
  show ?case
  proof (cases "i < n")
    case True
    with 1 show ?thesis by (subst pair_loop.simps) (auto simp: nth_list_update)
  qed (subst pair_loop.simps, auto)
qed

lemma merkle_level_pairs: "merkle_level hs = map (\<lambda>(a, b). hash_pair a b) (pairs_of hs)"
proof (rule nth_equalityI)
  show "length (merkle_level hs) = length (map (\<lambda>(a, b). hash_pair a b) (pairs_of hs))"
    by (simp add: length_merkle_level length_pairs_of)
next
  fix j assume "j < length (merkle_level hs)"
  then have j: "j < (length hs + 1) div 2" by (simp add: length_merkle_level)
  let ?n = "length hs div 2"
  have s: "2 * ?n \<le> length hs" by simp
  have "merkle_level hs ! j = (if j < ?n then hash_pair (hs ! (2 * j)) (hs ! (2 * j + 1)) else hash_pair (hs ! (2 * j)) (hs ! (2 * j)))"
  proof (cases "j < ?n")
    case True
    then show ?thesis using pair_loop_nth [OF s, of j 0] by (simp add: merkle_level_def Let_def)
  next
    case False
    with j have e: "length hs = 2 * j + 1" by presburger
    then have "pair_loop 0 j hs ! (2 * j) = hs ! (2 * j)" using pair_loop_nth [of j hs "2 * j" 0] by simp
    then show ?thesis using e by (simp add: merkle_level_def Let_def)
  qed
  moreover have "(2 * j + 1 < length hs) = (j < ?n)" using j by presburger
  moreover have "map (\<lambda>(a, b). hash_pair a b) (pairs_of hs) ! j = (\<lambda>(a, b). hash_pair a b) (pairs_of hs ! j)"
    by (rule nth_map) (simp only: length_pairs_of j)
  ultimately show "merkle_level hs ! j = map (\<lambda>(a, b). hash_pair a b) (pairs_of hs) ! j"
    unfolding nth_pairs_of [OF j] by (cases "j < ?n") (simp_all only: prod.case if_True if_False)
qed

section \<open>The root binds the leaves\<close>

function levels :: "nat \<Rightarrow> nat" where
  "levels n = (if n \<le> 1 then n else Suc (levels ((n + 1) div 2)))"
  by auto
termination by (relation "measure id") auto

declare levels.simps [simp del]

text \<open>The strings the computation of the root hashes.\<close>

definition pair_inputs :: "uint256 \<times> uint256 \<Rightarrow> bytes list" where
  "pair_inputs p = [fst p @ snd p, sha256 (fst p @ snd p)]"

function root_inputs :: "uint256 list \<Rightarrow> bytes list" where
  "root_inputs hs = (if length hs \<le> 1 then [] else concat (map pair_inputs (pairs_of hs)) @ root_inputs (merkle_level hs))"
  by auto
termination by (relation "measure length") (auto simp: length_merkle_level)

declare root_inputs.simps [simp del]

lemma step_facts:
  assumes "\<not> length hs \<le> 1"
  shows "root_loop hs = root_loop (merkle_level hs)" "levels (length hs) = Suc (levels (length (merkle_level hs)))"
    "root_inputs hs = concat (map pair_inputs (pairs_of hs)) @ root_inputs (merkle_level hs)"
    "merkle_level hs \<noteq> []"
proof -
  show "root_loop hs = root_loop (merkle_level hs)" using assms by (subst root_loop.simps) simp
  show "levels (length hs) = Suc (levels (length (merkle_level hs)))"
    using assms by (subst levels.simps) (simp add: length_merkle_level)
  show "root_inputs hs = concat (map pair_inputs (pairs_of hs)) @ root_inputs (merkle_level hs)"
    using assms by (subst root_inputs.simps) simp
  show "merkle_level hs \<noteq> []" using assms length_merkle_level [of hs] by auto
qed

lemma levels_pos: "0 < n \<Longrightarrow> 0 < levels n"
  by (subst levels.simps) simp

lemma levels_small: "levels n \<le> 1 \<longleftrightarrow> n \<le> 1"
  using levels_pos [of "(n + 1) div 2"] by (subst levels.simps) (auto simp: not_le)

lemma levels_zero: "levels n = 0 \<longleftrightarrow> n = 0"
  using levels_pos [of n] by (cases "n = 0") (simp_all add: levels.simps [of 0])

lemma pairs_of_mem: "(a, b) \<in> set (pairs_of xs) \<Longrightarrow> a \<in> set xs \<and> b \<in> set xs"
  by (induction xs rule: pairs_of.induct) auto

lemma distinct_pairs_of: "distinct xs \<Longrightarrow> distinct (pairs_of xs)"
proof (induction xs rule: pairs_of.induct)
  case (3 a b r)
  then show ?case using pairs_of_mem [of a b r] by auto
qed simp_all

lemma pairs_of_inject: "pairs_of xs = pairs_of ys \<Longrightarrow> distinct xs \<Longrightarrow> distinct ys \<Longrightarrow> xs = ys"
proof (induction xs arbitrary: ys rule: pairs_of.induct)
  case 1
  then show ?case by (cases ys rule: pairs_of.cases) simp_all
next
  case (2 a)
  then show ?case by (cases ys rule: pairs_of.cases) auto
next
  case (3 a b r)
  then show ?case by (cases ys rule: pairs_of.cases) auto
qed

lemma hash_pair_inject:
  assumes inj: "inj_on sha256 I" and "set (pair_inputs p) \<subseteq> I" "set (pair_inputs q) \<subseteq> I"
    and eq: "hash_pair (fst p) (snd p) = hash_pair (fst q) (snd q)" and len: "length (fst p) = length (fst q)"
  shows "p = q"
proof -
  have i: "fst p @ snd p \<in> I" "fst q @ snd q \<in> I" "sha256 (fst p @ snd p) \<in> I" "sha256 (fst q @ snd q) \<in> I"
    using assms(2,3) by (simp_all add: pair_inputs_def)
  have "sha256 (fst p @ snd p) = sha256 (fst q @ snd q)"
    using eq unfolding hash_pair_def by (rule inj_onD [OF inj _ i(3) i(4)])
  then have "fst p @ snd p = fst q @ snd q" by (rule inj_onD [OF inj _ i(1) i(2)])
  with len show "p = q" by (simp add: prod_eq_iff)
qed

lemma hash_pair_inj_on:
  assumes "inj_on sha256 I" and "\<And>p. p \<in> P \<Longrightarrow> set (pair_inputs p) \<subseteq> I \<and> length (fst p) = 32"
  shows "inj_on (\<lambda>(a, b). hash_pair a b) P"
proof (rule inj_onI)
  fix p q assume m: "p \<in> P" "q \<in> P" and "(\<lambda>(a, b). hash_pair a b) p = (\<lambda>(a, b). hash_pair a b) q"
  then have "hash_pair (fst p) (snd p) = hash_pair (fst q) (snd q)" by (simp add: case_prod_beta)
  then show "p = q"
    using assms(2) [OF m(1)] assms(2) [OF m(2)] by (intro hash_pair_inject [OF assms(1)]) simp_all
qed

lemma root_loop_binds:
  assumes "root_loop xs = root_loop ys" and "levels (length xs) = levels (length ys)" and "xs \<noteq> []" "ys \<noteq> []"
    and "distinct xs" "distinct ys" and "\<forall>h \<in> set xs \<union> set ys. length h = 32"
    and "inj_on sha256 (set (root_inputs xs) \<union> set (root_inputs ys))"
  shows "xs = ys"
  using assms
proof (induction xs arbitrary: ys rule: root_loop.induct)
  case (1 xs)
  have lx: "length xs \<noteq> 0" "length ys \<noteq> 0" using "1.prems"(3,4) by simp_all
  show ?case
  proof (cases "length xs \<le> 1")
    case True
    then have y: "length ys \<le> 1" using "1.prems"(2) levels_small [of "length xs"] levels_small [of "length ys"] by simp
    from True lx(1) obtain a where "xs = [a]" by (cases xs) auto
    moreover from y lx(2) obtain b where "ys = [b]" by (cases ys) auto
    ultimately show ?thesis using "1.prems"(1) by (simp add: root_loop.simps)
  next
    case False
    then have y: "\<not> length ys \<le> 1" using "1.prems"(2) levels_small [of "length xs"] levels_small [of "length ys"] by simp
    let ?P = "set (pairs_of xs) \<union> set (pairs_of ys)" and ?f = "\<lambda>(a, b). hash_pair a b"
    let ?I = "set (root_inputs xs) \<union> set (root_inputs ys)"
    have sub: "set (root_inputs (merkle_level xs)) \<union> set (root_inputs (merkle_level ys)) \<subseteq> ?I"
      by (auto simp: step_facts(3) [OF False] step_facts(3) [OF y])
    have "set (pair_inputs p) \<subseteq> ?I" if "p \<in> ?P" for p
      using that by (auto simp: step_facts(3) [OF False] step_facts(3) [OF y])
    moreover have "length (fst p) = 32" if "p \<in> ?P" for p
      using that "1.prems"(7) pairs_of_mem [of "fst p" "snd p" xs] pairs_of_mem [of "fst p" "snd p" ys] by auto
    ultimately have inj: "inj_on ?f ?P" by (intro hash_pair_inj_on [OF "1.prems"(8)] conjI)
    have m: "merkle_level xs = map ?f (pairs_of xs)" "merkle_level ys = map ?f (pairs_of ys)"
      by (simp_all add: merkle_level_pairs)
    have "merkle_level xs = merkle_level ys"
    proof (rule "1.IH" [OF False])
      show "root_loop (merkle_level xs) = root_loop (merkle_level ys)"
        using "1.prems"(1) by (simp only: step_facts(1) [OF False] step_facts(1) [OF y])
      show "levels (length (merkle_level xs)) = levels (length (merkle_level ys))"
        using "1.prems"(2) by (simp only: step_facts(2) [OF False] step_facts(2) [OF y] nat.inject)
      show "merkle_level xs \<noteq> []" "merkle_level ys \<noteq> []"
        by (rule step_facts(4) [OF False], rule step_facts(4) [OF y])
      show "distinct (merkle_level xs)" "distinct (merkle_level ys)"
        unfolding m distinct_map using "1.prems"(5,6)
        by (simp_all add: distinct_pairs_of inj_on_subset [OF inj])
      show "\<forall>h \<in> set (merkle_level xs) \<union> set (merkle_level ys). length h = 32"
        unfolding m by (auto simp: hash_pair_def)
      show "inj_on sha256 (set (root_inputs (merkle_level xs)) \<union> set (root_inputs (merkle_level ys)))"
        using "1.prems"(8) sub by (rule inj_on_subset)
    qed
    then have "pairs_of xs = pairs_of ys" unfolding m using inj by (rule map_inj_on)
    then show ?thesis using "1.prems"(5,6) by (rule pairs_of_inject)
  qed
qed

section \<open>Accepted blocks\<close>

lemma parsed_tx_hash: "tx_Deserialization env src = Inr (tx, src') \<Longrightarrow> length (tx_hash tx) = 32"
  by (auto simp: tx_Deserialization_def Let_def ebind_eq_Inr case_prod_beta split: if_splits)

lemma parsed_txs:
  "read_txs env n seen src = Inr (txs, src') \<Longrightarrow>
    distinct (map tx_hash txs) \<and> set (map tx_hash txs) \<inter> set seen = {} \<and> (\<forall>h \<in> set (map tx_hash txs). length h = 32)"
proof (induction n arbitrary: seen src txs)
  case (Suc n)
  then obtain tx s ts where t: "tx_Deserialization env src = Inr (tx, s)" "tx_hash tx \<notin> set seen"
    "read_txs env n (tx_hash tx # seen) s = Inr (ts, src')" "txs = tx # ts"
    by (auto simp: ebind_eq_Inr split: if_splits)
  from Suc.IH [OF t(3)] t(2) parsed_tx_hash [OF t(1)] show ?case by (auto simp: t(4))
qed simp

text \<open>A read that does not reach the end of the input returns as many bytes as were asked for.\<close>

lemma read_length:
  assumes "ok_read (NextBytes n) src = Some (x, src')"
  shows "length x = unat n"
proof -
  let ?m = "of_nat (length (sbuf src)) :: uint64"
  have no: "\<not> n > - 1 - off src" and le: "off src + n \<le> ?m"
    and x: "x = slice (sbuf src) (unat (off src)) (unat (off src + n))"
    using assms by (auto simp: ok_read_def NextBytes_def SafeAdd_def Let_def not_less split: if_splits)
  have "unat n \<le> unat (- 1 - off src)" using no by (simp add: word_le_nat_alt [symmetric] not_less)
  then have "unat (off src) + unat n < 2 ^ 64" using unat64_less [of "off src"] by (simp add: unat_minus_one_diff)
  then have "unat (off src + n) = unat (off src) + unat n" by (simp add: unat_word_ariths)
  moreover have "unat ?m \<le> length (sbuf src)" by (simp add: unat_of_nat)
  ultimately show ?thesis using le unfolding x slice_def word_le_nat_alt by simp
qed

lemma parsed_header:
  assumes "Header_Deserialization env src = Some (h, src')"
  shows "length (hd_PrevBlockHash h) = 32" "length (hd_TransactionsRoot h) = 32" "hd_hash h = None" "hd_Version h = 0"
  using assms by (auto simp: Header_Deserialization_def deserializationUnsigned_def ok_read_array_eq word_gt_0
      dest!: read_length split: if_splits Option.bind_splits)

lemma unsigned_determines_root:
  assumes "serializationUnsigned a = serializationUnsigned b" "hd_Version a = 0" "hd_Version b = 0"
    and "length (hd_PrevBlockHash a) = 32" "length (hd_PrevBlockHash b) = 32"
    and "length (hd_TransactionsRoot a) = 32" "length (hd_TransactionsRoot b) = 32"
  shows "hd_TransactionsRoot a = hd_TransactionsRoot b"
  using assms by (simp add: serializationUnsigned_def enc_uint32_def enc_uint64_def)

lemma accepted_block:
  assumes "BlockFromRawBytes env raw = Inr b"
  shows "length (hd_PrevBlockHash (Block_Header b)) = 32" "length (hd_TransactionsRoot (Block_Header b)) = 32"
    "hd_hash (Block_Header b) = None" "hd_Version (Block_Header b) = 0"
    "hd_TransactionsRoot (Block_Header b) = ComputeMerkleRoot (map tx_hash (Transactions b))"
    "distinct (map tx_hash (Transactions b))" "\<forall>h \<in> set (map tx_hash (Transactions b)). length h = 32"
proof -
  obtain h s n s' txs s'' where p: "Header_Deserialization env (NewZeroCopySource raw) = Some (h, s)"
    "read_txs env n [] s' = Inr (txs, s'')" "hd_TransactionsRoot h = ComputeMerkleRoot (map tx_hash txs)"
    "b = \<lparr>Block_Header = h, Transactions = txs\<rparr>"
    using assms by (auto simp: BlockFromRawBytes_def Block_Deserialization_def Let_def ebind_eq_Inr case_prod_beta
        split: if_splits)
  note ph = parsed_header [OF p(1)] and pt = parsed_txs [OF p(2)]
  show "length (hd_PrevBlockHash (Block_Header b)) = 32" "length (hd_TransactionsRoot (Block_Header b)) = 32"
    "hd_hash (Block_Header b) = None" "hd_Version (Block_Header b) = 0"
    using ph by (simp_all add: p(4))
  show "hd_TransactionsRoot (Block_Header b) = ComputeMerkleRoot (map tx_hash (Transactions b))"
    "distinct (map tx_hash (Transactions b))" "\<forall>h \<in> set (map tx_hash (Transactions b)). length h = 32"
    using pt p(3) by (simp_all add: p(4))
qed

text \<open>The strings hashed for a block: its header twice and the nodes of the tree over its transactions.\<close>

definition block_inputs :: "Block \<Rightarrow> bytes list" where
  "block_inputs b = unsigned_header_bytes (Block_Header b) # sha256 (unsigned_header_bytes (Block_Header b))
     # root_inputs (map tx_hash (Transactions b))"

lemma no_collision: "\<not> collision as as \<Longrightarrow> inj_on sha256 (set as)"
  by (auto simp: collision_def inj_on_def)

lemma block_hash_binds:
  assumes a: "BlockFromRawBytes env raw = Inr a" and b: "BlockFromRawBytes env raw' = Inr b"
    and "Header_Hash (Block_Header a) = Some (h, a')" "Header_Hash (Block_Header b) = Some (h, b')"
    and "levels (length (Transactions a)) = levels (length (Transactions b))"
    and inj: "inj_on sha256 (set (block_inputs a @ block_inputs b))"
  shows "map tx_hash (Transactions a) = map tx_hash (Transactions b)"
proof -
  let ?ua = "unsigned_header_bytes (Block_Header a)" and ?ub = "unsigned_header_bytes (Block_Header b)"
  let ?xs = "map tx_hash (Transactions a)" and ?ys = "map tx_hash (Transactions b)"
  note fa = accepted_block [OF a] and fb = accepted_block [OF b]
  have s: "serializationUnsigned (Block_Header a) = Some ?ua" "serializationUnsigned (Block_Header b) = Some ?ub"
    using fa(4) fb(4) by (simp_all add: serializationUnsigned_def unsigned_header_bytes_def)
  have e: "sha256 (sha256 ?ua) = sha256 (sha256 ?ub)"
    using assms(3,4) fa(3) fb(3) by (simp add: Header_Hash_def s Let_def)
  have i: "?ua \<in> set (block_inputs a @ block_inputs b)" "?ub \<in> set (block_inputs a @ block_inputs b)"
    "sha256 ?ua \<in> set (block_inputs a @ block_inputs b)" "sha256 ?ub \<in> set (block_inputs a @ block_inputs b)"
    by (simp_all add: block_inputs_def)
  have "sha256 ?ua = sha256 ?ub" using e by (rule inj_onD [OF inj _ i(3) i(4)])
  then have "?ua = ?ub" by (rule inj_onD [OF inj _ i(1) i(2)])
  then have "hd_TransactionsRoot (Block_Header a) = hd_TransactionsRoot (Block_Header b)"
    using unsigned_determines_root [OF _ fa(4) fb(4) fa(1) fb(1) fa(2) fb(2)] by (simp add: s)
  then have r: "ComputeMerkleRoot ?xs = ComputeMerkleRoot ?ys" by (simp add: fa(5) fb(5))
  show ?thesis
  proof (cases "Transactions a = []")
    case True
    then show ?thesis using assms(5) levels_zero [of "length (Transactions b)"] by (simp add: levels.simps [of 0])
  next
    case False
    then have ne: "Transactions b \<noteq> []" using assms(5) levels_zero [of "length (Transactions a)"] by (auto simp: levels.simps [of 0])
    have ii: "inj_on sha256 (set (root_inputs ?xs) \<union> set (root_inputs ?ys))"
      using inj by (rule inj_on_subset) (auto simp: block_inputs_def)
    show ?thesis
    proof (rule root_loop_binds [OF _ _ _ _ fa(6) fb(6) _ ii])
      show "root_loop ?xs = root_loop ?ys" using r False ne by (simp add: ComputeMerkleRoot_def)
      show "\<forall>h \<in> set ?xs \<union> set ?ys. length h = 32" using fa(7) fb(7) by blast
    qed (use False ne assms(5) in simp_all)
  qed
qed

section \<open>Written blocks\<close>

definition tx_id :: "Transaction \<Rightarrow> uint256" where
  "tx_id tx = sha256 (sha256 (unsigned_bytes tx))"

definition tx_raw :: "Env \<Rightarrow> Transaction \<Rightarrow> bytes" where
  "tx_raw env tx = (case tx_Serialization env tx of Inr raw \<Rightarrow> raw | Inl _ \<Rightarrow> [])"

definition tx_sendable :: "Env \<Rightarrow> Transaction \<Rightarrow> bool" where
  "tx_sendable env tx \<longleftrightarrow> tx_wf env tx \<and> tx_Serialization env tx = Inr (tx_raw env tx) \<and> length (tx_raw env tx) \<le> MAX_TX_SIZE"

lemma txs_bytes:
  "\<forall>tx \<in> set txs. tx_sendable env tx \<Longrightarrow> txs_Serialization env txs = Inr (concat (map (tx_raw env) txs))"
  by (induction txs) (simp_all add: tx_sendable_def)

definition tx_received :: "Env \<Rightarrow> Transaction \<Rightarrow> Transaction" where
  "tx_received env tx = tx\<lparr>Raw := tx_raw env tx, tx_hash := tx_id tx, SignedAddr := []\<rparr>"

lemma tx_hash_received [simp]: "tx_hash (tx_received env tx) = tx_id tx"
  by (simp add: tx_received_def)

lemma read_txs_at:
  assumes "\<forall>tx \<in> set txs. tx_sendable env tx" and "distinct (map tx_id txs)" and "set (map tx_id txs) \<inter> set seen = {}"
    and "fits (pre @ concat (map (tx_raw env) txs) @ rest)"
  shows "read_txs env (length txs) seen (src_at pre (concat (map (tx_raw env) txs) @ rest))
    = Inr (map (tx_received env) txs, src_at (pre @ concat (map (tx_raw env) txs)) rest)"
  using assms
proof (induction txs arbitrary: pre seen)
  case (Cons tx txs)
  let ?r = "tx_raw env tx" and ?rs = "concat (map (tx_raw env) txs)"
  have "tx_Deserialization env (src_at pre (?r @ ?rs @ rest)) = Inr (tx_received env tx, src_at (pre @ ?r) (?rs @ rest))"
    using tx_read_at [of env tx ?r pre "?rs @ rest"] Cons.prems(1,4)
    by (simp add: tx_sendable_def tx_received_def tx_parsed_def tx_id_def)
  moreover have "read_txs env (length txs) (tx_id tx # seen) (src_at (pre @ ?r) (?rs @ rest))
      = Inr (map (tx_received env) txs, src_at ((pre @ ?r) @ ?rs) rest)"
    using Cons.prems by (intro Cons.IH) auto
  ultimately show ?case using Cons.prems(3) by simp
qed simp

lemma block_read_back:
  assumes wf: "Header_wf env (Block_Header b)" and txs: "\<forall>tx \<in> set (Transactions b). tx_sendable env tx"
    and dist: "distinct (map tx_id (Transactions b))" and len: "length (Transactions b) < 2 ^ 32"
    and root: "hd_TransactionsRoot (Block_Header b) = ComputeMerkleRoot (map tx_id (Transactions b))"
    and ser: "Block_Serialization env b = Some (Inr raw)" and fit: "fits raw"
  shows "BlockFromRawBytes env raw = Inr (b\<lparr>Transactions := map (tx_received env) (Transactions b)\<rparr>)"
proof -
  let ?h = "header_bytes env (Block_Header b)" and ?n = "of_nat (length (Transactions b)) :: uint32"
  let ?ts = "concat (map (tx_raw env) (Transactions b))"
  have raw: "raw = ?h @ enc_uint32 ?n @ ?ts"
    using ser unfolding Block_Serialization_def txs_bytes [OF txs] by (auto simp: header_bytes_def split: Option.bind_splits)
  have n: "unat ?n = length (Transactions b)" using len by (simp add: unat_of_nat)
  have "Header_Deserialization env (src_at [] raw) = Some (Block_Header b, src_at ?h (enc_uint32 ?n @ ?ts))"
    using rd_header.roundtrip [OF wf, of "[]" "enc_uint32 ?n @ ?ts"] fit unfolding raw by simp
  moreover have "ok_read NextUint32 (src_at ?h (enc_uint32 ?n @ ?ts)) = Some (?n, src_at (?h @ enc_uint32 ?n) ?ts)"
    using rd_uint32.roundtrip [where x = ?n and pre = ?h and rest = ?ts] fit unfolding raw by simp
  moreover have "read_txs env (length (Transactions b)) [] (src_at (?h @ enc_uint32 ?n) ?ts)
      = Inr (map (tx_received env) (Transactions b), src_at raw [])"
    using read_txs_at [OF txs dist, of "[]" "?h @ enc_uint32 ?n" "[]"] fit unfolding raw by simp
  ultimately show ?thesis
    by (simp add: BlockFromRawBytes_def NewZeroCopySource_at Block_Deserialization_def n root comp_def)
qed

section \<open>Properties\<close>


definition sample_block :: "bytes list \<Rightarrow> Transaction list \<Rightarrow> Block" where
  "sample_block sigs txs = \<lparr>Block_Header = \<lparr>hd_Version = 0, hd_ChainID = 0, hd_PrevBlockHash = replicate 32 0,
       hd_TransactionsRoot = ComputeMerkleRoot (map tx_id txs), hd_CrossStateRoot = replicate 32 0,
       hd_BlockRoot = replicate 32 0, hd_Timestamp = 9, hd_Height = 4, hd_ConsensusData = 0, hd_ConsensusPayload = [],
       hd_NextBookkeeper = replicate 20 0, hd_Bookkeepers = [], hd_SigData = sigs, hd_hash = None\<rparr>,
     Transactions = txs\<rparr>"

lemma sample_root: "length (ComputeMerkleRoot [tx_id tx]) = 32"
  by (simp add: ComputeMerkleRoot_def root_loop.simps tx_id_def)

lemma sample_tx_raw: "tx_sendable plain_env sample_tx" "length (tx_raw plain_env sample_tx) = 56"
  by (simp_all add: tx_sendable_def sample_tx_wf tx_raw_def tx_Serialization_def SerializeUnsigned_def)
    (simp_all add: sample_tx_def enc_uint8_def enc_uint32_def enc_uint64_def enc_varbytes_def enc_varuint_def)

abbreviation short_sigs :: "bytes list \<Rightarrow> bool" where
  "short_sigs sigs \<equiv> sigs = [] \<or> sigs = [[1]]"

lemma sample_block_wf: "short_sigs sigs \<Longrightarrow> Header_wf plain_env (Block_Header (sample_block sigs [sample_tx]))"
  by (auto simp: Header_wf_def header_shape_def sample_block_def sample_root size_defs)

lemma sample_block_bytes:
  assumes "short_sigs sigs"
  shows "\<exists>raw. Block_Serialization plain_env (sample_block sigs [sample_tx]) = Some (Inr raw) \<and> length raw < 1000"
proof -
  have t: "txs_Serialization plain_env [sample_tx] = Inr (tx_raw plain_env sample_tx)"
    using txs_bytes [of "[sample_tx]" plain_env] sample_tx_raw(1) by simp
  have "Block_Serialization plain_env (sample_block sigs [sample_tx]) =
      Some (Inr (header_bytes plain_env (Block_Header (sample_block sigs [sample_tx])) @ enc_uint32 1 @ tx_raw plain_env sample_tx))"
    using t by (simp add: Block_Serialization_def header_bytes_def Header_Serialization_def serializationUnsigned_def
        sample_block_def)
  moreover have "length (header_bytes plain_env (Block_Header (sample_block sigs [sample_tx]))) < 500"
    using assms
    by (auto simp: header_bytes_def Header_Serialization_def serializationUnsigned_def sample_block_def sample_root
        enc_uint32_def enc_uint64_def enc_varbytes_def enc_varuint_def)
  ultimately show ?thesis using sample_tx_raw(2) by (simp add: enc_uint32_def)
qed

lemma sample_block_read:
  assumes s: "short_sigs sigs" and "Block_Serialization plain_env (sample_block sigs [sample_tx]) = Some (Inr raw)" and "length raw < 1000"
  shows "BlockFromRawBytes plain_env raw =
    Inr (sample_block sigs [sample_tx] \<lparr>Transactions := [tx_received plain_env sample_tx]\<rparr>)"
  using block_read_back [OF sample_block_wf [OF s] _ _ _ _ assms(2)] assms(3) sample_tx_raw(1) by (simp add: sample_block_def)

lemma sample_hash:
  "\<exists>h. \<forall>sigs. \<exists>b'. Header_Hash (Block_Header (sample_block sigs txs)) = Some (h, b')"
  by (simp add: sample_block_def Header_Hash_def serializationUnsigned_def Let_def)


end
