(* ===== verification/Block_Store.thy ===== *)
theory Block_Store
  imports State_Store Block_Commit
begin

text \<open>
  \<open>core/store/ledgerstore/block_store.go\<close> and \<open>block_cache.go\<close>: blocks and transactions by hash, block hashes by
  height.  The ARC cache of the hashicorp library decides what to keep; it is the argument \<open>lib\<close>, of which only is
  assumed that it returns what was added under the key (\<open>arc_ok\<close>).  Listing the saved pieces of the header index
  needs an iterator of leveldb and is not modelled.
\<close>

record ArcLib =
  arc_add_block :: "(uint256 \<Rightarrow> Block option) \<Rightarrow> uint256 \<Rightarrow> Block \<Rightarrow> uint256 \<Rightarrow> Block option"
  arc_add_tx :: "(uint256 \<Rightarrow> (Transaction \<times> uint32) option) \<Rightarrow> uint256 \<Rightarrow> Transaction \<times> uint32 \<Rightarrow>
    uint256 \<Rightarrow> (Transaction \<times> uint32) option"

definition arc_ok :: "ArcLib \<Rightarrow> bool" where
  "arc_ok lib \<longleftrightarrow>
     (\<forall>m k v j. arc_add_block lib m k v j = None \<or> arc_add_block lib m k v j = (m(k \<mapsto> v)) j) \<and>
     (\<forall>m k v j. arc_add_tx lib m k v j = None \<or> arc_add_tx lib m k v j = (m(k \<mapsto> v)) j)"

record BlockStore =
  enableCache :: bool
  blockCache :: "uint256 \<Rightarrow> Block option"
  transactionCache :: "uint256 \<Rightarrow> (Transaction \<times> uint32) option"
  bs_store :: PersistStore

abbreviation DATA_BLOCK :: byte where "DATA_BLOCK \<equiv> 0x00"
abbreviation DATA_HEADER :: byte where "DATA_HEADER \<equiv> 0x01"
abbreviation DATA_TRANSACTION :: byte where "DATA_TRANSACTION \<equiv> 0x02"
abbreviation IX_HEADER_HASH_LIST :: byte where "IX_HEADER_HASH_LIST \<equiv> 0x09"
abbreviation SYS_VERSION :: byte where "SYS_VERSION \<equiv> 0x11"

definition block_Get :: "BlockStore \<Rightarrow> bytes \<Rightarrow> lerr + bytes" where
  "block_Get this key = (case pget (bs_store this) key of Inl e \<Rightarrow> Inl (StoreErr e) | Inr v \<Rightarrow> Inr v)"

definition block_Put :: "bytes \<Rightarrow> bytes \<Rightarrow> BlockStore \<Rightarrow> BlockStore" where
  "block_Put key value this = this\<lparr>bs_store := BatchPut key value (bs_store this)\<rparr>"

definition block_NewBatch :: "BlockStore \<Rightarrow> BlockStore" where
  "block_NewBatch this = this\<lparr>bs_store := NewBatch (bs_store this)\<rparr>"

definition block_CommitTo :: "BlockStore \<Rightarrow> BlockStore" where
  "block_CommitTo this = this\<lparr>bs_store := BatchCommit (bs_store this)\<rparr>"

section \<open>Saving\<close>

text \<open>The bytes of a header with the hashes of its transactions, and of a transaction with its height.\<close>

definition header_value :: "Env \<Rightarrow> Block \<Rightarrow> bytes option" where
  "header_value env block =
     do { h \<leftarrow> Header_Serialization env (Block_Header block);
          Some (h @ enc_uint32 (of_nat (length (Transactions block))) @ concat (map tx_hash (Transactions block))) }"

definition SaveHeader :: "Env \<Rightarrow> Block \<Rightarrow> BlockStore \<Rightarrow> lerr + BlockStore" where
  "SaveHeader env block this =
     ebind (bad ''panic'' (Block_Hash block)) (\<lambda>bh.
     ebind (orelse_err (header_value env block) (Bad ''panic'')) (\<lambda>value.
     Inr (block_Put (DATA_HEADER # bh) value this)))"

definition putTransaction :: "Transaction \<Rightarrow> uint32 \<Rightarrow> BlockStore \<Rightarrow> BlockStore" where
  "putTransaction t hgt this = block_Put (DATA_TRANSACTION # tx_hash t) (ser_WriteBytes (ser_WriteUint32 [] hgt) (Raw t)) this"

definition SaveTransaction :: "ArcLib \<Rightarrow> Transaction \<Rightarrow> uint32 \<Rightarrow> BlockStore \<Rightarrow> BlockStore" where
  "SaveTransaction lib t hgt this =
     putTransaction t hgt
       (if enableCache this
        then this\<lparr>transactionCache := arc_add_tx lib (transactionCache this) (tx_hash t) (t, hgt)\<rparr> else this)"

definition SaveBlock :: "Env \<Rightarrow> ArcLib \<Rightarrow> Block \<Rightarrow> BlockStore \<Rightarrow> lerr + BlockStore" where
  "SaveBlock env lib block this =
     ebind (bad ''panic'' (Block_Hash block)) (\<lambda>bh.
     let this = (if enableCache this then this\<lparr>blockCache := arc_add_block lib (blockCache this) bh block\<rparr> else this) in
     ebind (SaveHeader env block this) (\<lambda>this.
     Inr (foldl (\<lambda>this t. SaveTransaction lib t (hd_Height (Block_Header block)) this) this (Transactions block))))"

definition block_SaveCurrentBlock :: "uint32 \<Rightarrow> uint256 \<Rightarrow> BlockStore \<Rightarrow> BlockStore" where
  "block_SaveCurrentBlock hgt bh this = block_Put [SYS_CURRENT_BLOCK] (ser_WriteUint32 bh hgt) this"

definition SaveBlockHash :: "uint32 \<Rightarrow> uint256 \<Rightarrow> BlockStore \<Rightarrow> BlockStore" where
  "SaveBlockHash hgt bh this = block_Put (height_key DATA_BLOCK hgt) bh this"

definition SaveHeaderIndexList :: "uint32 \<Rightarrow> uint256 list \<Rightarrow> BlockStore \<Rightarrow> BlockStore" where
  "SaveHeaderIndexList startIndex indexList this =
     block_Put (height_key IX_HEADER_HASH_LIST startIndex)
       (ser_WriteUint32 [] (of_nat (length indexList)) @ concat indexList) this"

text \<open>\<open>store.Put\<close> writes through.\<close>

definition SaveVersion :: "byte \<Rightarrow> BlockStore \<Rightarrow> BlockStore" where
  "SaveVersion ver this =
     this\<lparr>bs_store := (bs_store this)\<lparr>pget := (pget (bs_store this))([SYS_VERSION] := Inr [ver])\<rparr>\<rparr>"

section \<open>Reading\<close>

definition loadHeader :: "Env \<Rightarrow> BlockStore \<Rightarrow> uint256 \<Rightarrow> lerr + Header" where
  "loadHeader env this bh =
     ebind (block_Get this (DATA_HEADER # bh)) (\<lambda>value.
     ebind (orelse_err (Header_Deserialization env (NewZeroCopySource value)) (Bad ''header'')) (\<lambda>(header, _). Inr header))"

definition loadHeaderWithTx :: "Env \<Rightarrow> BlockStore \<Rightarrow> uint256 \<Rightarrow> lerr + (Header \<times> uint256 list)" where
  "loadHeaderWithTx env this bh =
     ebind (block_Get this (DATA_HEADER # bh)) (\<lambda>value.
     ebind (orelse_err (Header_Deserialization env (NewZeroCopySource value)) (Bad ''header'')) (\<lambda>(header, source).
     ebind (orelse_err (ok_read NextUint32 source) (Bad ''ErrUnexpectedEOF'')) (\<lambda>(txSize, source).
     ebind (orelse_err (read_list (ok_read NextHash) (unat txSize) source) (Bad ''ErrUnexpectedEOF'')) (\<lambda>(txHashes, _).
     Inr (header, txHashes)))))"

definition loadTransaction :: "Env \<Rightarrow> BlockStore \<Rightarrow> uint256 \<Rightarrow> lerr + (Transaction \<times> uint32)" where
  "loadTransaction env this txHash =
     (case (if enableCache this then transactionCache this txHash else None) of
        Some e \<Rightarrow> Inr e
      | None \<Rightarrow>
          ebind (block_Get this (DATA_TRANSACTION # txHash)) (\<lambda>value.
          ebind (orelse_err (ok_read NextUint32 (NewZeroCopySource value)) (Bad ''ErrUnexpectedEOF'')) (\<lambda>(hgt, source).
          ebind (bad ''transaction deserialize error'' (tx_Deserialization env source)) (\<lambda>(t, _). Inr (t, hgt)))))"

definition GetTransaction :: "Env \<Rightarrow> BlockStore \<Rightarrow> uint256 \<Rightarrow> lerr + (Transaction \<times> uint32)" where
  "GetTransaction env this txHash =
     (case (if enableCache this then transactionCache this txHash else None) of
        Some e \<Rightarrow> Inr e | None \<Rightarrow> loadTransaction env this txHash)"

primrec get_txs :: "Env \<Rightarrow> BlockStore \<Rightarrow> uint256 list \<Rightarrow> lerr + Transaction list" where
  "get_txs env this [] = Inr []"
| "get_txs env this (h # hs) =
     ebind (GetTransaction env this h) (\<lambda>(t, _). ebind (get_txs env this hs) (\<lambda>ts. Inr (t # ts)))"

definition GetBlock :: "Env \<Rightarrow> BlockStore \<Rightarrow> uint256 \<Rightarrow> lerr + Block" where
  "GetBlock env this bh =
     (case (if enableCache this then blockCache this bh else None) of
        Some block \<Rightarrow> Inr block
      | None \<Rightarrow>
          ebind (loadHeaderWithTx env this bh) (\<lambda>(header, txHashes).
          ebind (get_txs env this txHashes) (\<lambda>txList.
          Inr \<lparr>Block_Header = header, Transactions = txList\<rparr>)))"

definition GetHeader :: "Env \<Rightarrow> BlockStore \<Rightarrow> uint256 \<Rightarrow> lerr + Header" where
  "GetHeader env this bh =
     (case (if enableCache this then blockCache this bh else None) of
        Some block \<Rightarrow> Inr (Block_Header block) | None \<Rightarrow> loadHeader env this bh)"

definition contains :: "BlockStore \<Rightarrow> bytes \<Rightarrow> lerr + bool" where
  "contains this key =
     (case pget (bs_store this) key of Inl ErrNotFound \<Rightarrow> Inr False | Inl e \<Rightarrow> Inl (StoreErr e) | Inr _ \<Rightarrow> Inr True)"

definition ContainBlock :: "BlockStore \<Rightarrow> uint256 \<Rightarrow> lerr + bool" where
  "ContainBlock this bh =
     (if enableCache this \<and> blockCache this bh \<noteq> None then Inr True else contains this (DATA_HEADER # bh))"

definition ContainTransaction :: "BlockStore \<Rightarrow> uint256 \<Rightarrow> lerr + bool" where
  "ContainTransaction this txHash =
     (if enableCache this \<and> transactionCache this txHash \<noteq> None then Inr True else contains this (DATA_TRANSACTION # txHash))"

definition block_GetCurrentBlock :: "BlockStore \<Rightarrow> lerr + (uint256 \<times> uint32)" where
  "block_GetCurrentBlock this = ebind (block_Get this [SYS_CURRENT_BLOCK]) read_current"

definition GetBlockHash :: "BlockStore \<Rightarrow> uint32 \<Rightarrow> lerr + uint256" where
  "GetBlockHash this hgt =
     ebind (block_Get this (height_key DATA_BLOCK hgt)) (\<lambda>value.
     orelse_err (Uint256ParseFromBytes value) (Bad ''Uint256ParseFromBytes err''))"

definition GetVersion :: "BlockStore \<Rightarrow> lerr + byte" where
  "GetVersion this =
     ebind (block_Get this [SYS_VERSION]) (\<lambda>value. if value = [] then Inl (Bad ''EOF'') else Inr (hd value))"

section \<open>A saved block is found again\<close>

definition tx_op :: "uint32 \<Rightarrow> Transaction \<Rightarrow> batch_op" where
  "tx_op hgt t = BatchPutOp (DATA_TRANSACTION # tx_hash t) (put_le 4 (unat hgt) @ Raw t)"

lemma op_key_tx_op [simp]: "op_key (tx_op hgt t) = DATA_TRANSACTION # tx_hash t"
  by (simp add: tx_op_def)

abbreviation save_all :: "ArcLib \<Rightarrow> uint32 \<Rightarrow> Transaction list \<Rightarrow> BlockStore \<Rightarrow> BlockStore" where
  "save_all lib hgt ts bs \<equiv> foldl (\<lambda>bs t. SaveTransaction lib t hgt bs) bs ts"

lemma SaveTransaction_fields:
  "bs_store (SaveTransaction lib t hgt bs) = (bs_store bs)\<lparr>batch := batch (bs_store bs) @ [tx_op hgt t]\<rparr>"
  "enableCache (SaveTransaction lib t hgt bs) = enableCache bs"
  "blockCache (SaveTransaction lib t hgt bs) = blockCache bs"
  "enableCache bs \<Longrightarrow> transactionCache (SaveTransaction lib t hgt bs) = arc_add_tx lib (transactionCache bs) (tx_hash t) (t, hgt)"
  by (simp_all add: SaveTransaction_def putTransaction_def block_Put_def BatchPut_def tx_op_def ser_WriteBytes_def ser_WriteUint32_def)

lemma save_all_fields:
  "bs_store (save_all lib hgt ts bs) = (bs_store bs)\<lparr>batch := batch (bs_store bs) @ map (tx_op hgt) ts\<rparr> \<and>
   enableCache (save_all lib hgt ts bs) = enableCache bs \<and> blockCache (save_all lib hgt ts bs) = blockCache bs"
  by (induction ts arbitrary: bs) (simp_all add: SaveTransaction_fields)

text \<open>What the cache holds of a transaction that was just saved.\<close>

lemma save_all_other:
  assumes "arc_ok lib" and "enableCache bs" and "h \<notin> tx_hash ` set ts" and "transactionCache bs h \<in> S" and "None \<in> S"
  shows "transactionCache (save_all lib hgt ts bs) h \<in> S"
  using assms(2-4)
proof (induction ts arbitrary: bs)
  case (Cons t ts)
  have "arc_add_tx lib (transactionCache bs) (tx_hash t) (t, hgt) h = None \<or>
      arc_add_tx lib (transactionCache bs) (tx_hash t) (t, hgt) h = transactionCache bs h"
    using assms(1) Cons.prems(2) unfolding arc_ok_def by (metis (no_types, lifting) fun_upd_apply image_eqI list.set_intros(1))
  then have "transactionCache (SaveTransaction lib t hgt bs) h \<in> S"
    using Cons.prems assms(5) by (auto simp: SaveTransaction_fields)
  then show ?case using Cons by (simp add: SaveTransaction_fields)
qed simp

lemma save_all_cached:
  assumes "arc_ok lib" and "enableCache bs" and "distinct (map tx_hash ts)" and "t \<in> set ts"
  shows "transactionCache (save_all lib hgt ts bs) (tx_hash t) \<in> {None, Some (t, hgt)}"
  using assms(2-4)
proof (induction ts arbitrary: bs)
  case (Cons x ts)
  show ?case
  proof (cases "t = x")
    case True
    have "arc_add_tx lib (transactionCache bs) (tx_hash t) (t, hgt) (tx_hash t) = None \<or>
        arc_add_tx lib (transactionCache bs) (tx_hash t) (t, hgt) (tx_hash t) = ((transactionCache bs)(tx_hash t \<mapsto> (t, hgt))) (tx_hash t)"
      using assms(1) unfolding arc_ok_def by blast
    then have "transactionCache (SaveTransaction lib t hgt bs) (tx_hash t) \<in> {None, Some (t, hgt)}"
      using Cons.prems(1) by (simp add: SaveTransaction_fields)
    then show ?thesis
      using save_all_other [OF assms(1), of "SaveTransaction lib t hgt bs" "tx_hash t" ts "{None, Some (t, hgt)}" hgt]
        Cons.prems True by (simp add: SaveTransaction_fields)
  next
    case False
    then show ?thesis using Cons by (simp add: SaveTransaction_fields)
  qed
qed simp

lemma get_txs_all:
  "\<forall>t \<in> set ts. \<exists>h. GetTransaction env bs (tx_hash t) = Inr (t, h) \<Longrightarrow> get_txs env bs (map tx_hash ts) = Inr ts"
  by (induction ts) auto

lemma enc_uint32_put_le: "enc_uint32 v = put_le 4 (unat v)"
  by (simp add: enc_uint32_def)

lemma load_saved_tx:
  assumes "tx_sendable env t0" and "block_Get bs (DATA_TRANSACTION # tx_id t0) = Inr (put_le 4 (unat hgt) @ tx_raw env t0)"
    and "enableCache bs \<Longrightarrow> transactionCache bs (tx_id t0) \<in> {None, Some (tx_received env t0, hgt)}"
  shows "GetTransaction env bs (tx_id t0) = Inr (tx_received env t0, hgt)"
proof -
  let ?u = "put_le 4 (unat hgt)" and ?r = "tx_raw env t0"
  have len: "length ?r \<le> MAX_TX_SIZE" and wf: "tx_wf env t0" and ser: "tx_Serialization env t0 = Inr ?r"
    using assms(1) by (simp_all add: tx_sendable_def)
  have fit: "fits (?u @ ?r)" using len by simp
  have "ok_read NextUint32 (NewZeroCopySource (?u @ ?r)) = Some (hgt, src_at ?u ?r)"
    using rd_uint32.roundtrip [where x = hgt and pre = "[]" and rest = ?r] fit
    by (simp add: NewZeroCopySource_at enc_uint32_put_le)
  moreover have "tx_Deserialization env (src_at ?u ?r) = Inr (tx_received env t0, src_at (?u @ ?r) [])"
    using tx_read_at [OF wf ser len, of ?u "[]"] fit by (simp add: tx_received_def tx_parsed_def tx_id_def)
  ultimately have "loadTransaction env bs (tx_id t0) = Inr (tx_received env t0, hgt)"
    using assms(2,3) by (auto simp: loadTransaction_def split: option.splits)
  then show ?thesis using assms(3) by (auto simp: GetTransaction_def split: option.splits)
qed

definition received :: "Env \<Rightarrow> Block \<Rightarrow> Block" where
  "received env b = b\<lparr>Transactions := map (tx_received env) (Transactions b)\<rparr>"

lemma header_value_read:
  assumes wf: "Header_wf env (Block_Header b)" and len: "length (Transactions b) < 2 ^ 32"
    and ids: "\<forall>t \<in> set (Transactions b). length (tx_hash t) = 32"
    and v: "header_value env b = Some v" "fits v" and get: "block_Get bs (DATA_HEADER # bh) = Inr v"
  shows "loadHeaderWithTx env bs bh = Inr (Block_Header b, map tx_hash (Transactions b))"
    "loadHeader env bs bh = Inr (Block_Header b)"
proof -
  let ?h = "header_bytes env (Block_Header b)" and ?n = "of_nat (length (Transactions b)) :: uint32"
  let ?hs = "map tx_hash (Transactions b)"
  have e: "v = ?h @ enc_uint32 ?n @ concat ?hs"
    using v(1) by (auto simp: header_value_def header_bytes_def split: Option.bind_splits)
  have n: "unat ?n = length ?hs" using len by (simp add: unat_of_nat)
  have w: "\<forall>h \<in> set ?hs. length h = UINT256_SIZE" using ids by (simp add: size_defs)
  have h: "Header_Deserialization env (NewZeroCopySource v) = Some (Block_Header b, src_at ?h (enc_uint32 ?n @ concat ?hs))"
    using rd_header.roundtrip [OF wf, of "[]" "enc_uint32 ?n @ concat ?hs"] v(2) by (simp add: e NewZeroCopySource_at)
  have u: "ok_read NextUint32 (src_at ?h (enc_uint32 ?n @ concat ?hs)) = Some (?n, src_at (?h @ enc_uint32 ?n) (concat ?hs))"
    using rd_uint32.roundtrip [where x = ?n and pre = ?h and rest = "concat ?hs"] v(2) by (simp add: e)
  have l: "read_list (ok_read NextHash) (length ?hs) (src_at (?h @ enc_uint32 ?n) (concat ?hs)) = Some (?hs, src_at v [])"
    using rd_hash.list_roundtrip [OF w, of "?h @ enc_uint32 ?n" "[]"] v(2) by (simp add: e)
  show "loadHeaderWithTx env bs bh = Inr (Block_Header b, ?hs)"
    unfolding loadHeaderWithTx_def get ebind_Inr h orelse_err_simps prod.case u n l ..
  show "loadHeader env bs bh = Inr (Block_Header b)"
    unfolding loadHeader_def get ebind_Inr h orelse_err_simps prod.case ..
qed

lemma SaveBlock_result:
  assumes "SaveBlock env lib b bs = Inr bs'" and "Block_Hash b = Inr bh"
  obtains v where "header_value env b = Some v" "enableCache bs' = enableCache bs"
    "bs_store bs' = (bs_store bs)\<lparr>batch := batch (bs_store bs) @ BatchPutOp (DATA_HEADER # bh) v #
       map (tx_op (hd_Height (Block_Header b))) (Transactions b)\<rparr>"
    "enableCache bs \<Longrightarrow> blockCache bs' = arc_add_block lib (blockCache bs) bh b"
    "\<exists>bs0. enableCache bs0 = enableCache bs \<and> bs' = save_all lib (hd_Height (Block_Header b)) (Transactions b) bs0"
proof -
  let ?bs0 = "if enableCache bs then bs\<lparr>blockCache := arc_add_block lib (blockCache bs) bh b\<rparr> else bs"
  obtain v where v: "header_value env b = Some v"
    and b: "bs' = save_all lib (hd_Height (Block_Header b)) (Transactions b) (block_Put (DATA_HEADER # bh) v ?bs0)"
    using assms by (auto simp: SaveBlock_def SaveHeader_def Let_def)
  note f = save_all_fields [of lib "hd_Height (Block_Header b)" "block_Put (DATA_HEADER # bh) v ?bs0" "Transactions b"]
  show thesis
  proof (rule that [OF v])
    show "\<exists>bs0. enableCache bs0 = enableCache bs \<and> bs' = save_all lib (hd_Height (Block_Header b)) (Transactions b) bs0"
      by (rule exI [of _ "block_Put (DATA_HEADER # bh) v ?bs0"]) (simp add: b block_Put_def)
  qed (use f in \<open>simp_all add: b block_Put_def BatchPut_def\<close>)
qed

lemma saved_block_found:
  assumes lib: "arc_ok lib" and wf: "Header_wf env (Block_Header b)"
    and txs: "\<forall>t \<in> set (Transactions b). tx_sendable env t" and dist: "distinct (map tx_id (Transactions b))"
    and len: "length (Transactions b) < 2 ^ 32" and bh: "Block_Hash (received env b) = Inr bh"
    and v: "header_value env (received env b) = Some v" "fits v"
    and save: "SaveBlock env lib (received env b) bs = Inr bs'" and new: "batch (bs_store bs) = []"
  shows "GetBlock env (block_CommitTo bs') bh = Inr (received env b)"
    "GetHeader env (block_CommitTo bs') bh = Inr (Block_Header b)"
proof -
  let ?b = "received env b" and ?hgt = "hd_Height (Block_Header b)" and ?bs = "block_CommitTo bs'"
  let ?ts = "map (tx_received env) (Transactions b)"
  have r: "Transactions ?b = ?ts" "Block_Header ?b = Block_Header b" by (simp_all add: received_def)
  obtain v' bs0 where s: "header_value env ?b = Some v'" "enableCache bs' = enableCache bs"
    "bs_store bs' = (bs_store bs)\<lparr>batch := batch (bs_store bs) @ BatchPutOp (DATA_HEADER # bh) v' # map (tx_op ?hgt) ?ts\<rparr>"
    "enableCache bs \<Longrightarrow> blockCache bs' = arc_add_block lib (blockCache bs) bh ?b"
    "enableCache bs0 = enableCache bs" "bs' = save_all lib ?hgt ?ts bs0"
    using SaveBlock_result [OF save bh] unfolding r by metis
  have d: "distinct (map tx_hash ?ts)" using dist by (simp add: comp_def)
  let ?ops = "BatchPutOp (DATA_HEADER # bh) v # map (tx_op ?hgt) ?ts"
  have dk: "distinct (map op_key ?ops)"
    using d by (auto simp: comp_def distinct_map inj_on_def)
  have get: "block_Get ?bs k = Inr w" if "BatchPutOp k w \<in> set ?ops" for k w
    using apply_batch_at [OF dk that] s(1,3) v(1) new
    by (simp add: block_Get_def block_CommitTo_def BatchCommit_def)
  have hdr: "block_Get ?bs (DATA_HEADER # bh) = Inr v" by (rule get) simp
  have "\<exists>h. GetTransaction env ?bs (tx_hash t) = Inr (t, h)" if t: "t \<in> set ?ts" for t
  proof -
    obtain t0 where t0: "t0 \<in> set (Transactions b)" "t = tx_received env t0" using t by auto
    have "block_Get ?bs (DATA_TRANSACTION # tx_hash t) = Inr (put_le 4 (unat ?hgt) @ Raw t)"
      by (rule get) (use t in \<open>auto simp: tx_op_def\<close>)
    moreover have "transactionCache ?bs (tx_hash t) \<in> {None, Some (t, ?hgt)}" if "enableCache ?bs"
      using save_all_cached [OF lib _ d, of bs0 t ?hgt] s(2,5,6) that t by (simp add: block_CommitTo_def)
    ultimately show ?thesis
      using load_saved_tx [of env t0 ?bs ?hgt] txs t0 by (auto simp: tx_received_def)
  qed
  then have ts: "get_txs env ?bs (map tx_hash ?ts) = Inr ?ts" by (intro get_txs_all) blast
  have ids: "\<forall>t \<in> set (Transactions ?b). length (tx_hash t) = 32" by (auto simp: r tx_id_def)
  have "Header_wf env (Block_Header ?b)" "length (Transactions ?b) < 2 ^ 32" using wf len by (simp_all add: r)
  note load = header_value_read [OF this ids v hdr, unfolded r]
  have c: "blockCache ?bs bh \<in> {None, Some ?b}" if "enableCache ?bs"
    using lib s(2,4) that unfolding arc_ok_def by (simp add: block_CommitTo_def) (metis fun_upd_same)
  have "\<lparr>Block_Header = Block_Header b, Transactions = ?ts\<rparr> = ?b" by (cases b) (simp add: received_def)
  with c load ts show "GetBlock env ?bs bh = Inr ?b" "GetHeader env ?bs bh = Inr (Block_Header b)"
    by (auto simp: GetBlock_def GetHeader_def r split: option.splits)
qed

end
