(* ===== verification/Ledger_Store.thy ===== *)
theory Ledger_Store
  imports Block_Store
begin

text \<open>
  \<open>core/signature/signature.go\<close> and \<open>core/store/ledgerstore/ledger_store.go\<close>: multi-signatures, accepting headers,
  executing, checking and saving blocks, and the recovery after a crash.  The elliptic curve library and the JSON
  reader of a header's consensus payload are fields of \<open>LedgerEnv\<close>, with the configuration and the contracts.  The
  operations run one at a time: the locks and the semaphore are always free.  The event store, which only the RPC
  servers read, and writes of leveldb that fail are left out.
\<close>

record LedgerEnv =
  le_env :: Env
  le_arc :: ArcLib
  Contracts :: contracts
  sig_Deserialize :: "bytes \<Rightarrow> bytes option"
  sig_Verify :: "pubkey \<Rightarrow> bytes \<Rightarrow> bytes \<Rightarrow> bool"
  json_VbftBlock :: "bytes \<Rightarrow> (bytes \<times> uint32) list option option"
  consensus_vbft :: bool
  le_NetworkId :: uint32

section \<open>Multi-signatures\<close>

text \<open>The first key that is not used yet and verifies the signature.\<close>

primrec find_key :: "(pubkey \<Rightarrow> bool) \<Rightarrow> (pubkey \<times> bool) list \<Rightarrow> nat option" where
  "find_key ok [] = None"
| "find_key ok (k # ks) = (if \<not> snd k \<and> ok (fst k) then Some 0 else map_option Suc (find_key ok ks))"

primrec multi_loop :: "LedgerEnv \<Rightarrow> bytes \<Rightarrow> pubkey list \<Rightarrow> bytes list \<Rightarrow> bool list \<Rightarrow> err + unit" where
  "multi_loop le data keys [] used = Inr ()"
| "multi_loop le data keys (sig # sigs) used =
     (case sig_Deserialize le sig of
        None \<Rightarrow> Inl ''invalid signature data''
      | Some s \<Rightarrow>
          (case find_key (\<lambda>k. sig_Verify le k data s) (zip keys used) of
             None \<Rightarrow> Inl ''multi-signature verification failed''
           | Some j \<Rightarrow> multi_loop le data keys sigs (used[j := True])))"

definition VerifyMultiSignature :: "LedgerEnv \<Rightarrow> bytes \<Rightarrow> pubkey list \<Rightarrow> nat \<Rightarrow> bytes list \<Rightarrow> err + unit" where
  "VerifyMultiSignature le data keys m sigs =
     (if length sigs < m then Inl ''not enough signatures in multi-signature''
      else multi_loop le data keys (take m sigs) (replicate (length keys) False))"

section \<open>The ledger\<close>

record LedgerStore =
  ls_block :: BlockStore
  ls_state :: StateStore
  storedIndexCount :: uint32
  currBlockHeight :: uint32
  currBlockHash :: uint256
  headerCache :: "uint256 \<Rightarrow> Header option"
  headerIndex :: "(uint32 \<times> uint256) list"
  vbftPeerInfoheader :: "(bytes \<times> uint32) list"
  vbftPeerInfoblock :: "(bytes \<times> uint32) list"

definition getHeaderIndex :: "LedgerStore \<Rightarrow> uint32 \<Rightarrow> uint256" where
  "getHeaderIndex this hgt = (case map_of (headerIndex this) hgt of Some h \<Rightarrow> h | None \<Rightarrow> replicate UINT256_SIZE 0)"

definition setHeaderIndex :: "uint32 \<Rightarrow> uint256 \<Rightarrow> LedgerStore \<Rightarrow> LedgerStore" where
  "setHeaderIndex hgt bh this = this\<lparr>headerIndex := AList.update hgt bh (headerIndex this)\<rparr>"

definition GetCurrentHeaderHeight :: "LedgerStore \<Rightarrow> uint32" where
  "GetCurrentHeaderHeight this =
     (if length (headerIndex this) = 0 then 0 else of_nat (length (headerIndex this)) - 1)"

definition ledger_GetHeaderByHash :: "LedgerEnv \<Rightarrow> LedgerStore \<Rightarrow> uint256 \<Rightarrow> lerr + Header" where
  "ledger_GetHeaderByHash le this bh =
     (case headerCache this bh of Some header \<Rightarrow> Inr header | None \<Rightarrow> GetHeader (le_env le) (ls_block this) bh)"

section \<open>Headers\<close>

primrec bookkeepers_ok :: "Env \<Rightarrow> (bytes \<times> uint32) list \<Rightarrow> pubkey list \<Rightarrow> bytes list \<Rightarrow> bool" where
  "bookkeepers_ok env info [] used \<longleftrightarrow> True"
| "bookkeepers_ok env info (b # bs) used \<longleftrightarrow>
     (let pubkey = PubkeyID env b in
      map_of info pubkey \<noteq> None \<and> pubkey \<notin> set used \<and> bookkeepers_ok env info bs (pubkey # used))"

definition needFix :: "LedgerEnv \<Rightarrow> LedgerStore \<Rightarrow> bool" where
  "needFix le this \<longleftrightarrow> NETWORK_ID_MAIN_NET \<noteq> le_NetworkId le \<or> GetCurrentHeaderHeight this \<le> 20000000"

definition vbft_quorum :: "LedgerEnv \<Rightarrow> LedgerStore \<Rightarrow> nat \<Rightarrow> nat" where
  "vbft_quorum le this n = (if needFix le this then n - n * 6 div 7 else n - (n - 1) div 3)"

definition ledger_verify_vbft :: "LedgerEnv \<Rightarrow> LedgerStore \<Rightarrow> Header \<Rightarrow> (bytes \<times> uint32) list \<Rightarrow> lerr + (bytes \<times> uint32) list" where
  "ledger_verify_vbft le this header info =
     (let m = vbft_quorum le this (length info) in
      if length (hd_Bookkeepers header) < m then Inl (Bad ''header Bookkeepers more than 2/3 len vbftPeerInfo'')
      else if \<not> bookkeepers_ok (le_env le) info (hd_Bookkeepers header) [] then Inl (Bad ''invalid pubkey'')
      else
        ebind (orelse_err (Header_Hash header) (Bad ''panic'')) (\<lambda>(hash, _).
        ebind (bad ''VerifyMultiSignature'' (VerifyMultiSignature le hash (hd_Bookkeepers header) m (hd_SigData header))) (\<lambda>_.
        ebind (orelse_err (json_VbftBlock le (hd_ConsensusPayload header)) (Bad ''unmarshal blockInfo'')) (\<lambda>newConfig.
        Inr (case newConfig of
               Some peers \<Rightarrow> foldl (\<lambda>m (k, v). AList.update k v m) [] peers
             | None \<Rightarrow> info)))))"

definition ledger_verifyHeader :: "LedgerEnv \<Rightarrow> LedgerStore \<Rightarrow> Header \<Rightarrow> (bytes \<times> uint32) list \<Rightarrow> lerr + (bytes \<times> uint32) list" where
  "ledger_verifyHeader le this header info =
     (if hd_Height header = 0 then Inr info
      else
        ebind (case ledger_GetHeaderByHash le this (hd_PrevBlockHash header) of
                 Inl (StoreErr ErrNotFound) \<Rightarrow> Inl (Bad ''cannot find pre header by blockHash'')
               | Inl _ \<Rightarrow> Inl (Bad ''get prev header error'') | Inr h \<Rightarrow> Inr h) (\<lambda>prevHeader.
        if hd_Height prevHeader + 1 \<noteq> hd_Height header then Inl (Bad ''block height is incorrect'')
        else if hd_Timestamp prevHeader \<ge> hd_Timestamp header then Inl (Bad ''block timestamp is incorrect'')
        else if consensus_vbft le then ledger_verify_vbft le this header info
        else if hd_NextBookkeeper prevHeader \<noteq> AddressFromBookkeepers (le_env le) (hd_Bookkeepers header)
        then Inl (Bad ''bookkeeper address error'')
        else
          ebind (orelse_err (Header_Hash header) (Bad ''panic'')) (\<lambda>(hash, _).
          ebind (bad ''VerifyMultiSignature'' (VerifyMultiSignature le hash (hd_Bookkeepers header)
            (length (hd_Bookkeepers header) - (length (hd_Bookkeepers header) - 1) div 3) (hd_SigData header))) (\<lambda>_.
          Inr info))))"

definition AddHeader :: "LedgerEnv \<Rightarrow> Header \<Rightarrow> LedgerStore \<Rightarrow> lerr + LedgerStore" where
  "AddHeader le header this =
     (if hd_Height header \<noteq> GetCurrentHeaderHeight this + 1 then Inl (Bad ''header height not equal next header height'')
      else
        ebind (ledger_verifyHeader le this header (vbftPeerInfoheader this)) (\<lambda>info.
        ebind (orelse_err (Header_Hash header) (Bad ''panic'')) (\<lambda>(hash, header).
        Inr (setHeaderIndex (hd_Height header) hash
               (this\<lparr>vbftPeerInfoheader := info, headerCache := (headerCache this)(hash \<mapsto> header)\<rparr>)))))"

text \<open>The headers accepted before the first one that is refused stay.\<close>

primrec add_headers :: "LedgerEnv \<Rightarrow> Header list \<Rightarrow> LedgerStore \<Rightarrow> (lerr + unit) \<times> LedgerStore" where
  "add_headers le [] this = (Inr (), this)"
| "add_headers le (header # headers) this =
     (case AddHeader le header this of Inl e \<Rightarrow> (Inl e, this) | Inr this \<Rightarrow> add_headers le headers this)"

definition AddHeaders :: "LedgerEnv \<Rightarrow> Header list \<Rightarrow> LedgerStore \<Rightarrow> (lerr + unit) \<times> LedgerStore" where
  "AddHeaders le headers this = add_headers le (sort_key (\<lambda>h. unat (hd_Height h)) headers) this"

section \<open>Saving a block\<close>

abbreviation HEADER_INDEX_BATCH_SIZE :: uint32 where "HEADER_INDEX_BATCH_SIZE \<equiv> 2000"

definition saveHeaderIndexList :: "LedgerStore \<Rightarrow> LedgerStore" where
  "saveHeaderIndexList this =
     (let storeCount = storedIndexCount this in
      if currBlockHeight this - storeCount < HEADER_INDEX_BATCH_SIZE then this
      else
        let headerList = map (\<lambda>i. getHeaderIndex this (storeCount + of_nat i)) [0..<unat HEADER_INDEX_BATCH_SIZE]
        in this\<lparr>ls_block := SaveHeaderIndexList storeCount headerList (ls_block this),
             storedIndexCount := storeCount + HEADER_INDEX_BATCH_SIZE\<rparr>)"

definition saveBlockToBlockStore :: "LedgerEnv \<Rightarrow> Block \<Rightarrow> LedgerStore \<Rightarrow> lerr + LedgerStore" where
  "saveBlockToBlockStore le block this =
     ebind (bad ''panic'' (Block_Hash block)) (\<lambda>bh.
     let hgt = hd_Height (Block_Header block);
         this = saveHeaderIndexList (setHeaderIndex hgt bh this) in
     ebind (SaveBlock (le_env le) (le_arc le) block
              (SaveBlockHash hgt bh (block_SaveCurrentBlock hgt bh (ls_block this)))) (\<lambda>bs.
     Inr (this\<lparr>ls_block := bs\<rparr>)))"

definition saveBlockToStateStore :: "Block \<Rightarrow> uint256 \<Rightarrow> ExecuteResult \<Rightarrow> StateStore \<Rightarrow> StateStore option" where
  "saveBlockToStateStore block bh result self =
     (let hgt = hd_Height (Block_Header block) in
      do { self \<leftarrow> AddStateMerkleTreeRoot hgt (er_Hash result) self;
           self \<leftarrow> AddBlockMerkleTreeRoot (hd_PrevBlockHash (Block_Header block)) self;
           Some (save_entries (WriteSet result)
             (AddCrossStates hgt (CrossHashes result) (CrossStatesRoot result)
               (state_SaveCurrentBlock hgt bh self))) })"

text \<open>A slice that starts behind the end, and a tree that panics, are \<open>None\<close>.\<close>

definition GetBlockRootWithPreBlockHashes :: "LedgerStore \<Rightarrow> uint32 \<Rightarrow> uint256 list \<Rightarrow> uint256 option" where
  "GetBlockRootWithPreBlockHashes this startHeight preBlockHashes =
     (if currBlockHeight this > startHeight + of_nat (length preBlockHashes) - 1 then Some (replicate UINT256_SIZE 0)
      else
        let from = unat (currBlockHeight this + 1 - startHeight)
        in if from > length preBlockHashes then None
           else GetRootWithNewLeaves (merkleTree (ls_state this)) (drop from preBlockHashes))"

definition submitBlock :: "LedgerEnv \<Rightarrow> Block \<Rightarrow> ExecuteResult \<Rightarrow> LedgerStore \<Rightarrow> lerr + LedgerStore" where
  "submitBlock le block result this =
     (let header = Block_Header block; hgt = hd_Height header in
      ebind (bad ''panic'' (Block_Hash block)) (\<lambda>bh.
      ebind (orelse_err (GetBlockRootWithPreBlockHashes this hgt [hd_PrevBlockHash header]) (Bad ''panic'')) (\<lambda>blockRoot.
      if hgt \<noteq> 0 \<and> blockRoot \<noteq> hd_BlockRoot header then Inl (Bad ''wrong block root'')
      else
        let this = this\<lparr>ls_block := block_NewBatch (ls_block this), ls_state := state_NewBatch (ls_state this)\<rparr> in
        ebind (saveBlockToBlockStore le block this) (\<lambda>this.
        ebind (orelse_err (saveBlockToStateStore block bh result (ls_state this)) (Bad ''panic'')) (\<lambda>state.
        Inr (this\<lparr>ls_block := block_CommitTo (ls_block this), ls_state := state_CommitTo state,
               currBlockHeight := hgt, currBlockHash := bh\<rparr>))))))"

abbreviation ledger_exec :: "LedgerEnv \<Rightarrow> LedgerStore \<Rightarrow> Block \<Rightarrow> lerr + ExecuteResult" where
  "ledger_exec le this block \<equiv> (case executeBlock (Contracts le) (store_view (pget (ss_store (ls_state this))))
     (deltaMerkleTree (ls_state this)) block of Inl e \<Rightarrow> Inl (Bad e) | Inr r \<Rightarrow> Inr r)"

definition saveBlock :: "LedgerEnv \<Rightarrow> Block \<Rightarrow> uint256 \<Rightarrow> LedgerStore \<Rightarrow> lerr + LedgerStore" where
  "saveBlock le block stateMerkleRoot this =
     (let hgt = hd_Height (Block_Header block) in
      if hgt > 0 \<and> hgt \<noteq> currBlockHeight this + 1 then Inr this
      else
        ebind (ledger_exec le this block) (\<lambda>result.
        if MerkleRoot result \<noteq> stateMerkleRoot then Inl (Bad ''state merkle root mismatch!'')
        else submitBlock le block result this))"

definition ExecuteBlock :: "LedgerEnv \<Rightarrow> LedgerStore \<Rightarrow> Block \<Rightarrow> lerr + (uint256 \<times> ExecuteResult option)" where
  "ExecuteBlock le this block =
     (let hgt = hd_Height (Block_Header block) in
      if hgt \<le> currBlockHeight this then ebind (GetStateMerkleRoot (ls_state this) hgt) (\<lambda>root. Inr (root, None))
      else if hgt \<noteq> currBlockHeight this + 1 then Inl (Bad ''block height not equal next block height'')
      else ebind (ledger_exec le this block) (\<lambda>result. Inr (MerkleRoot result, Some result)))"

text \<open>
  The common part of \<open>AddBlock\<close> and \<open>SubmitBlock\<close>: the peers are replaced before the block is saved, and stay
  replaced when saving fails.
\<close>

definition accept_block :: "LedgerEnv \<Rightarrow> (LedgerStore \<Rightarrow> lerr + LedgerStore) \<Rightarrow> Block \<Rightarrow> LedgerStore \<Rightarrow> (lerr + unit) \<times> LedgerStore" where
  "accept_block le save block this =
     (let hgt = hd_Height (Block_Header block) in
      if hgt \<le> currBlockHeight this then (Inr (), this)
      else if hgt \<noteq> currBlockHeight this + 1 then (Inl (Bad ''block height not equal next block height''), this)
      else
        case ledger_verifyHeader le this (Block_Header block) (vbftPeerInfoblock this) of
          Inl e \<Rightarrow> (Inl e, this)
        | Inr info \<Rightarrow>
            let this = this\<lparr>vbftPeerInfoblock := info\<rparr> in
            case save this of
              Inl e \<Rightarrow> (Inl e, this)
            | Inr this \<Rightarrow>
                (case Block_Hash block of
                   Inl _ \<Rightarrow> (Inl (Bad ''panic''), this)
                 | Inr bh \<Rightarrow> (Inr (), this\<lparr>headerCache := (headerCache this)(bh := None)\<rparr>)))"

definition AddBlock :: "LedgerEnv \<Rightarrow> Block \<Rightarrow> uint256 \<Rightarrow> LedgerStore \<Rightarrow> (lerr + unit) \<times> LedgerStore" where
  "AddBlock le block stateMerkleRoot this = accept_block le (saveBlock le block stateMerkleRoot) block this"

definition SubmitBlock :: "LedgerEnv \<Rightarrow> Block \<Rightarrow> ExecuteResult \<Rightarrow> LedgerStore \<Rightarrow> (lerr + unit) \<times> LedgerStore" where
  "SubmitBlock le block result this = accept_block le (submitBlock le block result) block this"

definition GetCrossStatesProof :: "LedgerStore \<Rightarrow> uint32 \<Rightarrow> bytes \<Rightarrow> lerr + bytes" where
  "GetCrossStatesProof this hgt key =
     ebind (GetCrossStates (ls_state this) hgt) (\<lambda>hs.
     ebind (GetStorageValue (ls_state this) key) (\<lambda>state.
     bad ''MerkleLeafPath'' (MerkleLeafPath state hs)))"

section \<open>Starting\<close>

definition loadCurrentBlock :: "LedgerStore \<Rightarrow> lerr + LedgerStore" where
  "loadCurrentBlock this =
     ebind (block_GetCurrentBlock (ls_block this)) (\<lambda>(bh, hgt).
     Inr (this\<lparr>currBlockHash := bh, currBlockHeight := hgt\<rparr>))"

definition recover_block :: "LedgerEnv \<Rightarrow> uint32 \<Rightarrow> LedgerStore \<Rightarrow> lerr + LedgerStore" where
  "recover_block le i this =
     ebind (GetBlockHash (ls_block this) i) (\<lambda>bh.
     ebind (GetBlock (le_env le) (ls_block this) bh) (\<lambda>block.
     let this = this\<lparr>ls_state := state_NewBatch (ls_state this)\<rparr> in
     ebind (ledger_exec le this block) (\<lambda>result.
     ebind (bad ''panic'' (Block_Hash block)) (\<lambda>bh.
     ebind (orelse_err (saveBlockToStateStore block bh result (ls_state this)) (Bad ''panic'')) (\<lambda>state.
     Inr (this\<lparr>ls_state := state_CommitTo state\<rparr>))))))"

function recover_loop :: "LedgerEnv \<Rightarrow> uint32 \<Rightarrow> uint32 \<Rightarrow> LedgerStore \<Rightarrow> lerr + LedgerStore" where
  "recover_loop le i n this =
     (if i < n then ebind (recover_block le i this) (\<lambda>this. recover_loop le (i + 1) n this) else Inr this)"
  by auto
termination
proof (relation "measure (\<lambda>(le, i, n, this). unat n - unat i)")
  fix le :: LedgerEnv and i n :: uint32 and this x :: LedgerStore
  assume "i < n"
  then have "unat i < unat n" by (simp add: word_less_nat_alt)
  moreover have "unat n < 2 ^ 32" using unsigned_less [of n] by simp
  ultimately have "unat (i + 1) = unat i + 1" by (simp add: unat_word_ariths)
  with \<open>unat i < unat n\<close> show "((le, i + 1, n, x), le, i, n, this) \<in> measure (\<lambda>(le, i, n, this). unat n - unat i)" by simp
qed simp

declare recover_loop.simps [simp del]

definition recoverStore :: "LedgerEnv \<Rightarrow> LedgerStore \<Rightarrow> lerr + LedgerStore" where
  "recoverStore le this =
     ebind (state_GetCurrentBlock (ls_state this)) (\<lambda>(_, stateHeight).
     recover_loop le stateHeight (currBlockHeight this) this)"

end
