(* ===== verification/Spec2Isabelle.thy ===== *)
theory Spec2Isabelle
  imports
    Node_Claims
    Relayer_Claims
    Vote_Claims
    Side_Chain_Claims
    Merkle_Path
    Cross_Chain_Claims
    Store_Iter
    Signature_Claims
    Ledger_Store
begin

text \<open>
  A verification library for the poly relay chain.
\<close>

end
